(* ===== verification/Mio_Prelude.thy ===== *)
theory Mio_Prelude
  imports Main "HOL-Library.Word"
begin

unbundle bit_operations_syntax

text \<open>
  Shared vocabulary of the development.

  \<^item> I/O results: \<open>std::io::Error\<close> is a record of its kind and its raw OS code, and
    \<open>std::io::Result<T>\<close> is the sum type \<open>'a io\<close> with the error on the left.
  \<^item> Control flow: a computation that may panic is an \<open>'a outcome\<close>; one that may
    also loop forever is an \<open>'a exec\<close>, where \<open>None\<close> is "does not return".
  \<^item> Machine arithmetic: \<open>usize\<close> has 64 bits and is kept as \<open>nat\<close>, with the
    overflow behaviour of the two build profiles written out (a panic where overflow
    checks are compiled in, wrap-around where they are not).
  \<^item> Slices and \<open>Vec\<close>: reading and overwriting a range of a byte buffer, and the part of
    \<open>Vec::reserve\<close> and \<open>Vec::resize\<close> that the program uses.
\<close>

section \<open>Fact collections\<close>

named_theorems exec_simps \<open>evaluation of outcome and exec computations\<close>
named_theorems usize_simps \<open>usize arithmetic in range\<close>
named_theorems slice_simps \<open>slices and overwritten ranges of lists\<close>

section \<open>I/O results\<close>

type_synonym u8 = "8 word"
type_synonym bytes = "u8 list"

datatype error_kind =
  Interrupted | WouldBlock | NotFound | WriteZero | UnexpectedEof | Other
| OtherKind nat

record io_error =
  err_kind :: error_kind
  raw_os_error :: "int option"

type_synonym 'a io = "io_error + 'a"

text \<open>\<open>Error::from(kind)\<close>: an error that carries no OS code.\<close>

definition io_err :: "error_kind \<Rightarrow> io_error" where
  "io_err k = \<lparr>err_kind = k, raw_os_error = None\<rparr>"

lemma io_err_sel [simp]: "err_kind (io_err k) = k" "raw_os_error (io_err k) = None"
  by (simp_all add: io_err_def)

definition interrupted :: "'a io \<Rightarrow> bool" where
  "interrupted r = (case r of Inl e \<Rightarrow> err_kind e = Interrupted | Inr _ \<Rightarrow> False)"

lemma interrupted_simps [simp]:
  "interrupted (Inl e) \<longleftrightarrow> err_kind e = Interrupted"
  "\<not> interrupted (Inr v)"
  by (simp_all add: interrupted_def)

lemma interruptedE:
  assumes "interrupted r"
  obtains e where "r = Inl e" "err_kind e = Interrupted"
  using assms by (cases r) auto

text \<open>How an inner loop ends: by \<open>break\<close>, or by returning from its function.\<close>

datatype loop_exit = Break | Return "unit io"

section \<open>Panics and divergence\<close>

datatype 'a outcome = Ret 'a | Panic

type_synonym 'a exec = "'a outcome option"

definition obind :: "'a outcome \<Rightarrow> ('a \<Rightarrow> 'b outcome) \<Rightarrow> 'b outcome" where
  "obind m f = (case m of Ret a \<Rightarrow> f a | Panic \<Rightarrow> Panic)"

definition ebind :: "'a exec \<Rightarrow> ('a \<Rightarrow> 'b exec) \<Rightarrow> 'b exec" where
  "ebind m f = (case m of None \<Rightarrow> None | Some Panic \<Rightarrow> Some Panic | Some (Ret a) \<Rightarrow> f a)"

lemma obind_simps [simp, exec_simps]:
  "obind (Ret a) f = f a" "obind Panic f = Panic"
  by (simp_all add: obind_def)

lemma ebind_simps [simp, exec_simps]:
  "ebind (Some (Ret a)) f = f a" "ebind (Some Panic) f = Some Panic" "ebind None f = None"
  by (simp_all add: ebind_def)

lemma obind_eq_Ret:
  "obind m f = Ret b \<longleftrightarrow> (\<exists>a. m = Ret a \<and> f a = Ret b)"
  by (cases m) auto

lemma ebind_eq_Ret:
  "ebind m f = Some (Ret b) \<longleftrightarrow> (\<exists>a. m = Some (Ret a) \<and> f a = Some (Ret b))"
  by (simp add: ebind_def split: option.splits outcome.splits)

lemma ebind_eq_None:
  "ebind m f = None \<longleftrightarrow> m = None \<or> (\<exists>a. m = Some (Ret a) \<and> f a = None)"
  by (simp add: ebind_def split: option.splits outcome.splits)

lemma ebind_eq_Panic:
  "ebind m f = Some Panic \<longleftrightarrow> m = Some Panic \<or> (\<exists>a. m = Some (Ret a) \<and> f a = Some Panic)"
  by (simp add: ebind_def split: option.splits outcome.splits)

lemma map_exec_RetD:
  "map_option (map_outcome f) m = Some (Ret y) \<Longrightarrow> \<exists>x. m = Some (Ret x) \<and> f x = y"
  by (cases m; cases "the m") auto

text \<open>A computation returns when it neither panics nor runs forever.\<close>

definition returns :: "'a exec \<Rightarrow> bool" where
  "returns m = (case m of Some (Ret _) \<Rightarrow> True | _ \<Rightarrow> False)"

lemma returns_simps [simp, exec_simps]:
  "returns (Some (Ret a))" "\<not> returns (Some Panic)" "\<not> returns None"
  by (simp_all add: returns_def)

lemma returns_iff: "returns m \<longleftrightarrow> (\<exists>a. m = Some (Ret a))"
  by (simp add: returns_def split: option.splits outcome.splits)

section \<open>usize arithmetic\<close>

definition usize_bound :: nat where
  "usize_bound = 2 ^ 64"

definition isize_max :: nat where
  "isize_max = 2 ^ 63 - 1"

lemma isize_max_lt_usize: "isize_max < usize_bound"
  by (simp add: isize_max_def usize_bound_def)

lemma twice_isize_max: "2 * isize_max < usize_bound"
  by (simp add: isize_max_def usize_bound_def)

text \<open>
  What the build and the allocator decide: whether integer overflow is checked, and the
  capacity \<open>vec_grow cap len extra\<close> a vector of capacity \<open>cap\<close> and length \<open>len\<close> has after
  \<open>reserve(extra)\<close> had to grow it.
\<close>

record rust_rt =
  overflow_checks :: bool
  vec_grow :: "nat \<Rightarrow> nat \<Rightarrow> nat \<Rightarrow> nat"

definition usize_result :: "rust_rt \<Rightarrow> nat \<Rightarrow> nat outcome" where
  "usize_result rt n =
     (if n < usize_bound then Ret n
      else if overflow_checks rt then Panic else Ret (n mod usize_bound))"

definition usize_add :: "rust_rt \<Rightarrow> nat \<Rightarrow> nat \<Rightarrow> nat outcome" where
  "usize_add rt a b = usize_result rt (a + b)"

definition usize_mul :: "rust_rt \<Rightarrow> nat \<Rightarrow> nat \<Rightarrow> nat outcome" where
  "usize_mul rt a b = usize_result rt (a * b)"

definition usize_sub :: "rust_rt \<Rightarrow> nat \<Rightarrow> nat \<Rightarrow> nat outcome" where
  "usize_sub rt a b =
     (if b \<le> a then Ret (a - b)
      else if overflow_checks rt then Panic else Ret (a + usize_bound - b))"

lemma usize_sub_in_range [usize_simps]: "b \<le> a \<Longrightarrow> usize_sub rt a b = Ret (a - b)"
  by (simp add: usize_sub_def)

lemma usize_add_in_range [usize_simps]:
  "a + b < usize_bound \<Longrightarrow> usize_add rt a b = Ret (a + b)"
  by (simp add: usize_add_def usize_result_def)

lemma usize_mul_in_range [usize_simps]:
  "a * b < usize_bound \<Longrightarrow> usize_mul rt a b = Ret (a * b)"
  by (simp add: usize_mul_def usize_result_def)

lemma usize_result_bound: "usize_result rt n = Ret m \<Longrightarrow> m < usize_bound"
  by (auto simp: usize_result_def usize_bound_def split: if_splits)

section \<open>Slices and vectors\<close>

text \<open>The elements \<open>xs[a..b]\<close>, for \<open>a \<le> b \<le> length xs\<close>.\<close>

definition slice :: "nat \<Rightarrow> nat \<Rightarrow> 'a list \<Rightarrow> 'a list" where
  "slice a b xs = take (b - a) (drop a xs)"

text \<open>Storing \<open>ys\<close> over the elements of \<open>xs\<close> from index \<open>i\<close> on.\<close>

definition overwrite :: "nat \<Rightarrow> 'a list \<Rightarrow> 'a list \<Rightarrow> 'a list" where
  "overwrite i ys xs = take i xs @ ys @ drop (i + length ys) xs"

lemma length_slice [simp, slice_simps]:
  "b \<le> length xs \<Longrightarrow> length (slice a b xs) = b - a"
  by (simp add: slice_def)

lemma slice_empty [simp, slice_simps]: "b \<le> a \<Longrightarrow> slice a b xs = []"
  by (simp add: slice_def)

lemma slice_eq_Nil: "b \<le> length xs \<Longrightarrow> slice a b xs = [] \<longleftrightarrow> b \<le> a"
  by (auto simp: slice_def)

lemma length_overwrite [simp, slice_simps]:
  "i + length ys \<le> length xs \<Longrightarrow> length (overwrite i ys xs) = length xs"
  by (simp add: overwrite_def)

lemma slice_append:
  assumes "a \<le> b" "b \<le> c"
  shows "slice a b xs @ slice b c xs = slice a c xs"
proof -
  have "c - a = (b - a) + (c - b)" "drop b xs = drop (b - a) (drop a xs)"
    using assms by simp_all
  then show ?thesis by (simp only: slice_def take_add)
qed

lemma slice_overwrite_before [slice_simps]:
  "b \<le> i \<Longrightarrow> b \<le> length xs \<Longrightarrow> slice a b (overwrite i ys xs) = slice a b xs"
  by (cases "a \<le> b") (simp_all add: slice_def overwrite_def take_drop)

lemma slice_overwrite_within [slice_simps]:
  "i \<le> length xs \<Longrightarrow> k \<le> length ys \<Longrightarrow> slice i (i + k) (overwrite i ys xs) = take k ys"
  by (simp add: slice_def overwrite_def)

lemma slice_overwrite_start [slice_simps]:
  "k \<le> length ys \<Longrightarrow> slice 0 k (overwrite 0 ys xs) = take k ys"
  by (simp add: slice_def overwrite_def)

lemma slice_append_left [slice_simps]:
  "b \<le> length xs \<Longrightarrow> slice a b (xs @ ys) = slice a b xs"
  by (simp add: slice_def)

lemma drop_slice: "drop n (slice a b xs) = slice (a + n) b xs"
  by (simp add: slice_def drop_take add.commute)

lemma take_slice: "n \<le> b - a \<Longrightarrow> take n (slice a b xs) = slice a (a + n) xs"
  by (simp add: slice_def min_def)

text \<open>
  \<open>Vec::reserve(extra)\<close> on a vector of capacity \<open>cap\<close> and length \<open>len\<close>: nothing when the
  room is there, a panic when the new size passes \<open>isize::MAX\<close> bytes, and the allocator's
  choice otherwise. Running out of memory ends the process and is not modelled.
\<close>

definition vec_reserve :: "rust_rt \<Rightarrow> nat \<Rightarrow> nat \<Rightarrow> nat \<Rightarrow> nat outcome" where
  "vec_reserve rt cap len extra =
     (if extra \<le> cap - len then Ret cap
      else if isize_max < len + extra then Panic
      else Ret (vec_grow rt cap len extra))"

definition vec_resize :: "nat \<Rightarrow> 'a \<Rightarrow> 'a list \<Rightarrow> 'a list" where
  "vec_resize n x xs = take n xs @ replicate (n - length xs) x"

lemma vec_resize_grow: "length xs \<le> n \<Longrightarrow> vec_resize n x xs = xs @ replicate (n - length xs) x"
  by (simp add: vec_resize_def)

text \<open>
  The documented contract of \<open>Vec::reserve\<close>: the capacity is at least the room asked for,
  and no vector of bytes is larger than \<open>isize::MAX\<close>.
\<close>

definition vec_grow_ok :: "rust_rt \<Rightarrow> bool" where
  "vec_grow_ok rt \<longleftrightarrow>
     (\<forall>cap len extra. len + extra \<le> isize_max \<longrightarrow>
        len + extra \<le> vec_grow rt cap len extra \<and> vec_grow rt cap len extra \<le> isize_max)"

lemma vec_reserve_Ret:
  assumes "vec_grow_ok rt" "len + extra \<le> isize_max" "len \<le> cap" "cap \<le> isize_max"
  obtains cap' where "vec_reserve rt cap len extra = Ret cap'" "len + extra \<le> cap'"
    "cap' \<le> isize_max"
  using assms by (cases "extra \<le> cap - len") (auto simp: vec_reserve_def vec_grow_ok_def)

end
