(* ===== verification/Retry.thy ===== *)
theory Retry
  imports Mio_Prelude
begin

text \<open>
  The helper \<open>retry\<close> of src/miopoll.rs: call a fallible operation until it answers
  anything but \<open>Interrupted\<close>. The operation is a closure over mutable state, so it is a
  function of a state \<open>'s\<close> that gives a result and the next state. The loop has no bound
  in the source: not returning is the value \<open>None\<close>.
\<close>

partial_function (option) retry ::
  "('s \<Rightarrow> 'r io \<times> 's) \<Rightarrow> 's \<Rightarrow> ('r io \<times> 's) option" where
  "retry f s =
     (case f s of (rv, s') \<Rightarrow>
        (case rv of
           Inl e \<Rightarrow> if err_kind e = Interrupted then retry f s' else Some (rv, s')
         | Inr _ \<Rightarrow> Some (rv, s')))"

declare retry.simps [code]

section \<open>Evaluation\<close>

lemma retry_interrupted: "f s = (rv, s') \<Longrightarrow> interrupted rv \<Longrightarrow> retry f s = retry f s'"
  by (subst retry.simps) (auto simp: interrupted_def split: sum.splits)

lemma retry_answer: "f s = (rv, s') \<Longrightarrow> \<not> interrupted rv \<Longrightarrow> retry f s = Some (rv, s')"
  by (subst retry.simps) (auto simp: interrupted_def split: sum.splits)

lemma retry_unfold:
  "retry f s = (if interrupted (fst (f s)) then retry f (snd (f s)) else Some (f s))"
  by (cases "f s") (simp add: retry_interrupted retry_answer)

text \<open>The state after \<open>n\<close> calls of the operation.\<close>

primrec state_after :: "('s \<Rightarrow> 'r io \<times> 's) \<Rightarrow> 's \<Rightarrow> nat \<Rightarrow> 's" where
  "state_after f s 0 = s"
| "state_after f s (Suc n) = state_after f (snd (f s)) n"

text \<open>The operation is interrupted at its first \<open>n\<close> calls.\<close>

definition interrupted_upto :: "('s \<Rightarrow> 'r io \<times> 's) \<Rightarrow> 's \<Rightarrow> nat \<Rightarrow> bool" where
  "interrupted_upto f s n \<longleftrightarrow> (\<forall>i<n. interrupted (fst (f (state_after f s i))))"

lemma interrupted_upto_0 [simp]: "interrupted_upto f s 0"
  by (simp add: interrupted_upto_def)

lemma interrupted_upto_Suc [simp]:
  "interrupted_upto f s (Suc n) \<longleftrightarrow>
     interrupted (fst (f s)) \<and> interrupted_upto f (snd (f s)) n"
  by (auto simp: interrupted_upto_def less_Suc_eq_0_disj)

section \<open>What retry returns\<close>

lemma retry_first_answer:
  assumes "interrupted_upto f s n" "f (state_after f s n) = (rv, s')" "\<not> interrupted rv"
  shows "retry f s = Some (rv, s')"
  using assms(1,2)
proof (induction n arbitrary: s)
  case 0
  with assms(3) show ?case by (simp add: retry_answer)
next
  case (Suc n)
  then show ?case by (simp add: retry_unfold [of f s])
qed

lemma retry_returned_aux:
  assumes "retry f s = Some x"
  shows "\<exists>n. interrupted_upto f s n \<and> f (state_after f s n) = x \<and> \<not> interrupted (fst x)"
proof (rule retry.raw_induct [where P = "\<lambda>f s x. \<exists>n. interrupted_upto f s n \<and>
          f (state_after f s n) = x \<and> \<not> interrupted (fst x)", OF _ assms])
  fix rec f s x
  assume IH: "\<And>f s x. rec f s = Some x \<Longrightarrow>
      \<exists>n. interrupted_upto f s n \<and> f (state_after f s n) = x \<and> \<not> interrupted (fst x)"
    and step: "(case f s of (rv, s') \<Rightarrow>
      (case rv of Inl e \<Rightarrow> if err_kind e = Interrupted then rec f s' else Some (rv, s')
       | Inr _ \<Rightarrow> Some (rv, s'))) = Some x"
  show "\<exists>n. interrupted_upto f s n \<and> f (state_after f s n) = x \<and> \<not> interrupted (fst x)"
  proof (cases "interrupted (fst (f s))")
    case True
    with step have "rec f (snd (f s)) = Some x"
      by (cases "f s") (auto elim!: interruptedE)
    with IH obtain n where "interrupted_upto f (snd (f s)) n"
        "f (state_after f (snd (f s)) n) = x" "\<not> interrupted (fst x)"
      by blast
    with True show ?thesis by (intro exI [of _ "Suc n"]) simp
  next
    case False
    with step have "f s = x" "\<not> interrupted (fst x)"
      by (cases "f s"; auto split: sum.splits if_splits)+
    then show ?thesis by (intro exI [of _ 0]) simp
  qed
qed

lemma retry_returned:
  assumes "retry f s = Some (rv, s')"
  shows "\<exists>n. interrupted_upto f s n \<and> f (state_after f s n) = (rv, s') \<and> \<not> interrupted rv"
  using retry_returned_aux [OF assms] by simp

lemma retry_not_interrupted: "retry f s = Some (rv, s') \<Longrightarrow> \<not> interrupted rv"
  by (drule retry_returned) blast

lemma retry_no_Interrupted [dest]:
  "retry f s = Some (Inl e, s') \<Longrightarrow> err_kind e \<noteq> Interrupted"
  using retry_not_interrupted by fastforce

text \<open>
  What one call of the operation keeps, \<open>retry\<close> keeps; the result is the result of the
  last call, made in a state that the calls before it reached.
\<close>

lemma interrupted_upto_invariant:
  assumes "interrupted_upto f s n" "I s" and "\<And>s. I s \<Longrightarrow> interrupted (fst (f s)) \<Longrightarrow> I (snd (f s))"
  shows "I (state_after f s n)"
  using assms(1,2) by (induction n arbitrary: s) (auto intro: assms(3))

lemma retry_final_call:
  assumes "retry f s = Some (rv, s')" and "I s"
    and "\<And>s. I s \<Longrightarrow> interrupted (fst (f s)) \<Longrightarrow> I (snd (f s))"
  obtains s0 where "I s0" "f s0 = (rv, s')" "\<not> interrupted rv"
proof -
  from retry_returned [OF assms(1)] obtain n where
    n: "interrupted_upto f s n" "f (state_after f s n) = (rv, s')" "\<not> interrupted rv" by blast
  show thesis
    by (rule that [OF interrupted_upto_invariant [where I = I, OF n(1) assms(2)] n(2,3)]) (rule assms(3))
qed

lemma retry_last_call:
  assumes "retry f s = Some (rv, s')" and "I s" and "\<And>s. I s \<Longrightarrow> I (snd (f s))"
  obtains s0 where "I s0" "f s0 = (rv, s')" "\<not> interrupted rv"
  by (rule retry_final_call [where I = I, OF assms(1,2)]) (use assms(3) that in blast)+

lemma retry_keeps:
  assumes "retry f s = Some (rv, s')" and "I s" and step: "\<And>s. I s \<Longrightarrow> I (snd (f s))"
  shows "I s'"
proof -
  from assms obtain s0 where "I s0" "f s0 = (rv, s')"
    by (rule retry_last_call)
  with step [of s0] show ?thesis by simp
qed

section \<open>Loops that are retries\<close>

text \<open>Several loops of the program repeat a call while it is interrupted and then turn its
  answer into a result: they are \<open>retry\<close> followed by a function of the answer.\<close>

lemma loop_like_retry:
  assumes "\<And>w. L w = (if interrupted (fst (f w)) then L (snd (f w)) else Some (H (f w)))"
    and "retry f w = Some x"
  shows "L w = Some (H x)"
proof -
  from retry_returned_aux [OF assms(2)] obtain n where n: "interrupted_upto f w n"
    "f (state_after f w n) = x" "\<not> interrupted (fst x)" by blast
  then show ?thesis
  proof (induction n arbitrary: w)
    case 0
    then show ?case using assms(1) [of w] by simp
  next
    case (Suc n)
    then show ?case using assms(1) [of w] by simp
  qed
qed

lemma loop_is_retry:
  assumes "\<And>w. L w = (if interrupted (fst (f w)) then L (snd (f w)) else Some (H (f w)))"
    and "\<And>w x. L w = Some x \<Longrightarrow> retry f w \<noteq> None"
  shows "L w = map_option H (retry f w)"
proof (cases "retry f w")
  case None
  with assms(2) [of w] show ?thesis by (cases "L w") auto
next
  case (Some x)
  with loop_like_retry [OF assms(1) this] show ?thesis by simp
qed

section \<open>Termination\<close>

text \<open>
  An operation is interrupted finitely often when a budget of pending signals exists of
  which every interrupted call uses up at least one.
\<close>

definition signal_budget :: "('s \<Rightarrow> nat) \<Rightarrow> ('s \<Rightarrow> 'r io \<times> 's) \<Rightarrow> bool" where
  "signal_budget m f \<longleftrightarrow> (\<forall>s. interrupted (fst (f s)) \<longrightarrow> m (snd (f s)) < m s)"

lemma retry_total:
  assumes "signal_budget m f"
  shows "\<exists>rv s'. retry f s = Some (rv, s')"
proof (induction "m s" arbitrary: s rule: less_induct)
  case less
  show ?case
  proof (cases "interrupted (fst (f s))")
    case True
    with assms have "m (snd (f s)) < m s" by (simp add: signal_budget_def)
    with less have "\<exists>rv s'. retry f (snd (f s)) = Some (rv, s')" by blast
    with True show ?thesis by (simp add: retry_unfold [of f s])
  next
    case False
    then show ?thesis by (cases "f s") (simp add: retry_unfold [of f s])
  qed
qed

section \<open>Properties\<close>

text \<open>\<open>retry\<close> returns exactly when some call of the operation is not interrupted, and
  it returns the answer and the state of the first such call: every earlier answer was
  \<open>Interrupted\<close> and this one is not.\<close>

theorem retry_spec:
  "retry f s = Some (rv, s') \<longleftrightarrow>
     (\<exists>n. interrupted_upto f s n \<and> f (state_after f s n) = (rv, s') \<and> \<not> interrupted rv)"
  by (meson retry_returned retry_first_answer)

text \<open>If the operation is interrupted at every call, \<open>retry\<close> never returns; it is the
  only way in which it does not return.\<close>

theorem retry_diverges_iff:
  "retry f s = None \<longleftrightarrow> (\<forall>n. interrupted (fst (f (state_after f s n))))"
proof
  assume none: "retry f s = None"
  show "\<forall>n. interrupted (fst (f (state_after f s n)))"
  proof (rule allI, rule ccontr)
    fix n assume "\<not> interrupted (fst (f (state_after f s n)))"
    define k where "k = (LEAST n. \<not> interrupted (fst (f (state_after f s n))))"
    have "\<not> interrupted (fst (f (state_after f s k)))"
      unfolding k_def by (rule LeastI) fact
    moreover have "interrupted_upto f s k"
      unfolding interrupted_upto_def k_def using not_less_Least by blast
    ultimately have "retry f s \<noteq> None"
      by (metis option.distinct(1) prod.collapse retry_first_answer)
    with none show False by simp
  qed
next
  assume all: "\<forall>n. interrupted (fst (f (state_after f s n)))"
  then show "retry f s = None"
    by (metis not_None_eq prod.collapse retry_returned)
qed

end
