(* ===== verification/Ready.thy ===== *)
theory Ready
  imports Mio_Prelude
begin

text \<open>
  \<open>Ready\<close> of src/miopoll.rs: the readiness flags of a mio \<open>Event\<close> packed into a 16-bit
  integer, and the accessors that read them back. An event of mio is the record of what its
  methods report: the token and the eight flags.
\<close>

record event =
  ev_token :: nat
  ev_is_readable :: bool
  ev_is_writable :: bool
  ev_is_error :: bool
  ev_is_read_closed :: bool
  ev_is_write_closed :: bool
  ev_is_priority :: bool
  ev_is_aio :: bool
  ev_is_lio :: bool

datatype ready = Ready "16 word"

definition READY_RD :: "16 word" where "READY_RD = 1"
definition READY_WR :: "16 word" where "READY_WR = 2"
definition READY_ERROR :: "16 word" where "READY_ERROR = 4"
definition READY_RD_CLOSED :: "16 word" where "READY_RD_CLOSED = 8"
definition READY_WR_CLOSED :: "16 word" where "READY_WR_CLOSED = 16"
definition READY_PRIORITY :: "16 word" where "READY_PRIORITY = 32"
definition READY_AIO :: "16 word" where "READY_AIO = 64"
definition READY_LIO :: "16 word" where "READY_LIO = 128"

lemmas ready_consts =
  READY_RD_def READY_WR_def READY_ERROR_def READY_RD_CLOSED_def READY_WR_CLOSED_def
  READY_PRIORITY_def READY_AIO_def READY_LIO_def

text \<open>The local macro \<open>test!\<close>.\<close>

definition test_flag :: "bool \<Rightarrow> 16 word \<Rightarrow> 16 word" where
  "test_flag b v = (if b then v else 0)"

definition ready_new :: "event \<Rightarrow> ready" where
  "ready_new ev =
     Ready (test_flag (ev_is_readable ev) READY_RD
          + test_flag (ev_is_writable ev) READY_WR
          + test_flag (ev_is_error ev) READY_ERROR
          + test_flag (ev_is_read_closed ev) READY_RD_CLOSED
          + test_flag (ev_is_write_closed ev) READY_WR_CLOSED
          + test_flag (ev_is_priority ev) READY_PRIORITY
          + test_flag (ev_is_aio ev) READY_AIO
          + test_flag (ev_is_lio ev) READY_LIO)"

fun has_flag :: "16 word \<Rightarrow> ready \<Rightarrow> bool" where
  "has_flag c (Ready w) \<longleftrightarrow> 0 \<noteq> (c AND w)"

definition is_readable :: "ready \<Rightarrow> bool" where "is_readable = has_flag READY_RD"
definition is_writable :: "ready \<Rightarrow> bool" where "is_writable = has_flag READY_WR"
definition is_error :: "ready \<Rightarrow> bool" where "is_error = has_flag READY_ERROR"
definition is_read_closed :: "ready \<Rightarrow> bool" where "is_read_closed = has_flag READY_RD_CLOSED"
definition is_write_closed :: "ready \<Rightarrow> bool" where "is_write_closed = has_flag READY_WR_CLOSED"
definition is_priority :: "ready \<Rightarrow> bool" where "is_priority = has_flag READY_PRIORITY"
definition is_aio :: "ready \<Rightarrow> bool" where "is_aio = has_flag READY_AIO"
definition is_lio :: "ready \<Rightarrow> bool" where "is_lio = has_flag READY_LIO"

lemmas ready_accessors =
  is_readable_def is_writable_def is_error_def is_read_closed_def is_write_closed_def
  is_priority_def is_aio_def is_lio_def

text \<open>
  The flags are distinct single bits, so a sum of them is a union: with the eight booleans
  known, each accessor is a computation on a constant.
\<close>

lemma ready_flags_cases:
  fixes a b c d e f g h :: bool
  defines "w \<equiv> test_flag a READY_RD + test_flag b READY_WR + test_flag c READY_ERROR
      + test_flag d READY_RD_CLOSED + test_flag e READY_WR_CLOSED
      + test_flag f READY_PRIORITY + test_flag g READY_AIO + test_flag h READY_LIO"
  shows "(READY_RD AND w \<noteq> 0) = a" "(READY_WR AND w \<noteq> 0) = b" "(READY_ERROR AND w \<noteq> 0) = c"
    "(READY_RD_CLOSED AND w \<noteq> 0) = d" "(READY_WR_CLOSED AND w \<noteq> 0) = e"
    "(READY_PRIORITY AND w \<noteq> 0) = f" "(READY_AIO AND w \<noteq> 0) = g" "(READY_LIO AND w \<noteq> 0) = h"
    "unat w \<le> 255"
  unfolding w_def test_flag_def ready_consts
  by (cases a; cases b; cases c; cases d; cases e; cases f; cases g; cases h; simp)+

section \<open>Properties\<close>

text \<open>C40. Packing the flags of an event and reading them back loses nothing: every accessor
  of \<open>Ready::new(ev)\<close> answers what the event answered.\<close>

theorem ready_roundtrip:
  "is_readable (ready_new ev) = ev_is_readable ev \<and>
   is_writable (ready_new ev) = ev_is_writable ev \<and>
   is_error (ready_new ev) = ev_is_error ev \<and>
   is_read_closed (ready_new ev) = ev_is_read_closed ev \<and>
   is_write_closed (ready_new ev) = ev_is_write_closed ev \<and>
   is_priority (ready_new ev) = ev_is_priority ev \<and>
   is_aio (ready_new ev) = ev_is_aio ev \<and>
   is_lio (ready_new ev) = ev_is_lio ev"
  unfolding ready_accessors ready_new_def has_flag.simps
  using ready_flags_cases by (simp only: neq_commute)

end
