(* ===== verification/Mio_External.thy ===== *)
theory Mio_External
  imports Retry Ready
begin

text \<open>
  The code the program calls but does not contain: the \<open>slab\<close> crate, mio's registry, poller
  and waker, and the Stakker runtime. Each is a record of functions, a parameter of every
  definition that uses it; the state behind mio and the operating system is one type
  \<open>'w\<close> that the calls thread. A handle (a socket, a stream, a waker) is a name for a
  resource whose mutable state is in \<open>'w\<close>.

  What the program relies on is a predicate on the record (\<open>slab_ok\<close>); the concrete slab at
  the end satisfies it and is the instance that the witnesses evaluate.
\<close>

section \<open>The slab crate\<close>

text \<open>
  \<open>Slab<T>\<close> as used here: \<open>with_capacity\<close>, \<open>insert\<close> (which returns the key),
  \<open>get_mut\<close> / \<open>contains\<close> / indexing (a lookup), assignment through an index, and
  \<open>remove\<close>, which the program calls on occupied keys only.
\<close>

record ('sl, 'e) slab_ops =
  slab_with_capacity :: "nat \<Rightarrow> 'sl"
  slab_insert :: "'e \<Rightarrow> 'sl \<Rightarrow> nat \<times> 'sl"
  slab_get :: "'sl \<Rightarrow> nat \<Rightarrow> 'e option"
  slab_set :: "nat \<Rightarrow> 'e \<Rightarrow> 'sl \<Rightarrow> 'sl"
  slab_remove :: "nat \<Rightarrow> 'sl \<Rightarrow> 'sl"

text \<open>
  The documented behaviour: a new slab is empty and its first key is 0; \<open>insert\<close> stores
  the value under a vacant key and leaves the other keys alone; assignment and \<open>remove\<close> of
  an occupied key act on that key only.
\<close>

definition slab_ok :: "('sl, 'e) slab_ops \<Rightarrow> bool" where
  "slab_ok S \<longleftrightarrow>
     (\<forall>n k. slab_get S (slab_with_capacity S n) k = None) \<and>
     (\<forall>n e. fst (slab_insert S e (slab_with_capacity S n)) = 0) \<and>
     (\<forall>e sl. slab_get S sl (fst (slab_insert S e sl)) = None) \<and>
     (\<forall>e sl. slab_get S (snd (slab_insert S e sl)) =
        (slab_get S sl)(fst (slab_insert S e sl) \<mapsto> e)) \<and>
     (\<forall>k e sl. slab_get S sl k \<noteq> None \<longrightarrow>
        slab_get S (slab_set S k e sl) = (slab_get S sl)(k \<mapsto> e)) \<and>
     (\<forall>k sl. slab_get S sl k \<noteq> None \<longrightarrow>
        slab_get S (slab_remove S k sl) = (slab_get S sl)(k := None))"

lemma slab_okD:
  assumes "slab_ok S"
  shows slab_get_new: "slab_get S (slab_with_capacity S n) k = None"
    and slab_first_key: "fst (slab_insert S e (slab_with_capacity S n)) = 0"
    and slab_insert_vacant: "slab_get S sl (fst (slab_insert S e sl)) = None"
    and slab_get_insert:
      "slab_get S (snd (slab_insert S e sl)) = (slab_get S sl)(fst (slab_insert S e sl) \<mapsto> e)"
    and slab_get_set: "slab_get S sl k \<noteq> None \<Longrightarrow>
      slab_get S (slab_set S k e sl) = (slab_get S sl)(k \<mapsto> e)"
    and slab_get_remove: "slab_get S sl k \<noteq> None \<Longrightarrow>
      slab_get S (slab_remove S k sl) = (slab_get S sl)(k := None)"
  using assms unfolding slab_ok_def by blast+

section \<open>mio\<close>

type_synonym interest = u8

text \<open>The trait \<open>Source\<close>, for sources with handles of type \<open>'s\<close>.\<close>

record ('s, 'w) source_ops =
  so_register :: "'s \<Rightarrow> nat \<Rightarrow> interest \<Rightarrow> 'w \<Rightarrow> unit io \<times> 'w"
  so_reregister :: "'s \<Rightarrow> nat \<Rightarrow> interest \<Rightarrow> 'w \<Rightarrow> unit io \<times> 'w"
  so_deregister :: "'s \<Rightarrow> 'w \<Rightarrow> unit io \<times> 'w"

text \<open>
  \<open>Poll::poll\<close> fills the event buffer it is given (\<open>max_delay\<close> in nanoseconds);
  \<open>Waker::new\<close> registers a waker of type \<open>'k\<close> under a token.
\<close>

record ('k, 'w) poll_ops =
  po_poll :: "nat \<Rightarrow> event list \<times> 'w \<Rightarrow> unit io \<times> (event list \<times> 'w)"
  po_waker_new :: "nat \<Rightarrow> 'w \<Rightarrow> 'k io \<times> 'w"
  po_wake :: "'k \<Rightarrow> 'w \<Rightarrow> unit io \<times> 'w"

section \<open>Stakker\<close>

text \<open>
  What \<open>MioPoll::new\<close> uses of a Stakker instance of type \<open>'st\<close>: the no-op forward
  (\<open>fwd_nop!\<close>), the forward it builds from \<open>deferrer()\<close> that defers \<open>poll_wake()\<close>,
  \<open>anymap_set\<close> of the \<open>MioPoll\<close> and \<open>set_poll_waker\<close>. Handlers (\<open>Fwd<Ready>\<close>) are
  values of a type \<open>'f\<close>; calling one is an output of the model.
\<close>

record ('f, 'k, 'st) stakker_ops =
  sk_fwd_nop :: 'f
  sk_poll_wake_fwd :: "'st \<Rightarrow> 'f"
  sk_anymap_set_miopoll :: "'st \<Rightarrow> 'st"
  sk_set_poll_waker :: "'k \<Rightarrow> 'st \<Rightarrow> 'st"

section \<open>A concrete slab\<close>

text \<open>
  A slab as the list of its slots that reuses the first vacant one. It is used by the
  witnesses only; no definition of the model depends on it.
\<close>

fun first_vacant :: "'e option list \<Rightarrow> nat" where
  "first_vacant [] = 0"
| "first_vacant (None # xs) = 0"
| "first_vacant (Some e # xs) = Suc (first_vacant xs)"

definition slots_get :: "'e option list \<Rightarrow> nat \<Rightarrow> 'e option" where
  "slots_get xs k = (if k < length xs then xs ! k else None)"

definition slots_insert :: "'e \<Rightarrow> 'e option list \<Rightarrow> nat \<times> 'e option list" where
  "slots_insert e xs =
     (let k = first_vacant xs
      in (k, if k < length xs then xs[k := Some e] else xs @ [Some e]))"

definition slots_ops :: "('e option list, 'e) slab_ops" where
  "slots_ops =
     \<lparr>slab_with_capacity = (\<lambda>n. []),
      slab_insert = slots_insert,
      slab_get = slots_get,
      slab_set = (\<lambda>k e xs. xs[k := Some e]),
      slab_remove = (\<lambda>k xs. xs[k := None])\<rparr>"

lemma first_vacant_le: "first_vacant xs \<le> length xs"
  by (induction xs rule: first_vacant.induct) auto

lemma first_vacant_nth: "first_vacant xs < length xs \<Longrightarrow> xs ! first_vacant xs = None"
  by (induction xs rule: first_vacant.induct) auto

lemma slots_insert_vacant: "slots_get xs (fst (slots_insert e xs)) = None"
  by (simp add: slots_get_def slots_insert_def Let_def first_vacant_nth)

lemma slots_get_insert:
  "slots_get (snd (slots_insert e xs)) = (slots_get xs)(fst (slots_insert e xs) \<mapsto> e)"
  using first_vacant_le [of xs]
  by (auto simp: slots_get_def slots_insert_def Let_def fun_eq_iff nth_append
      split: if_splits)

lemma slots_get_update:
  "slots_get xs k \<noteq> None \<Longrightarrow> slots_get (xs[k := v]) = (slots_get xs)(k := v)"
  by (auto simp: slots_get_def fun_eq_iff split: if_splits)

lemma slots_empty: "slots_get [] k = None" "fst (slots_insert e []) = 0"
  by (simp_all add: slots_get_def slots_insert_def)

lemma slots_ops_ok: "slab_ok slots_ops"
  unfolding slab_ok_def slots_ops_def
  by (simp add: slots_empty slots_insert_vacant slots_get_insert slots_get_update
      del: not_None_eq)

end
