(* ===== verification/Poll_Control.thy ===== *)
theory Poll_Control
  imports Mio_External
begin

text \<open>
  \<open>Control\<close> of src/miopoll.rs: the state behind a \<open>MioPoll\<close>. It keeps the token table, one
  queue of pending events for each priority below the highest, and the bookkeeping that
  says which queues are in use. The poller itself (\<open>poll: Poll\<close>) has no state of its own in
  the model: it is the parameter \<open>poll_ops\<close> acting on the world.
\<close>

definition MAX_PRI :: nat where "MAX_PRI = 10"
definition WAKER_TOKEN :: nat where "WAKER_TOKEN = 0"

record qevent =
  q_token :: nat
  q_ready :: ready

record 'f entry =
  e_pri :: nat
  e_fwd :: 'f

record ('sl, 'k) control =
  token_map :: 'sl
  queues :: "qevent list list"
  n_queued :: nat
  max_pri :: nat
  priorities :: "16 word"
  events :: "event list"
  errors :: "io_error list"
  waker :: 'k

text \<open>
  A call of a handler, \<open>entry.fwd.fwd(ready)\<close>, is recorded in the list of calls that a poll
  makes, in order.
\<close>

type_synonym 'f call = "'f \<times> ready"

section \<open>Registration\<close>

text \<open>\<open>self.priorities & (1 << i)\<close> is not zero.\<close>

definition pri_in_use :: "16 word \<Rightarrow> nat \<Rightarrow> bool" where
  "pri_in_use bits i \<longleftrightarrow> 0 \<noteq> (bits AND push_bit i 1)"

definition control_del ::
  "('sl, 'f entry) slab_ops \<Rightarrow> ('s, 'w) source_ops \<Rightarrow> nat \<Rightarrow> 's
    \<Rightarrow> ('sl, 'k) control \<times> 'w \<Rightarrow> (unit io \<times> ('sl, 'k) control \<times> 'w) option" where
  "control_del S D token handle = (\<lambda>(c, w).
     case retry (so_deregister D handle) w of
       None \<Rightarrow> None
     | Some (rv, w') \<Rightarrow>
         if slab_get S (token_map c) token \<noteq> None
         then Some (rv, c\<lparr>token_map := slab_remove S token (token_map c)\<rparr>, w')
         else Some (case rv of Inl e \<Rightarrow> Inl e | Inr _ \<Rightarrow> Inl (io_err NotFound), c, w'))"

text \<open>The part of \<open>add\<close> before the call of the registry: all its changes of \<open>Control\<close>.\<close>

definition control_enter ::
  "('sl, 'f entry) slab_ops \<Rightarrow> nat \<Rightarrow> 'f \<Rightarrow> ('sl, 'k) control \<Rightarrow> nat \<times> ('sl, 'k) control" where
  "control_enter S pri0 fwd c =
     (let pri = min pri0 MAX_PRI;
          (token, tm) = slab_insert S \<lparr>e_pri = pri, e_fwd = fwd\<rparr> (token_map c)
      in (token, c\<lparr>max_pri := max (max_pri c) pri,
                   priorities := priorities c OR push_bit pri 1,
                   token_map := tm\<rparr>))"

definition control_add ::
  "('sl, 'f entry) slab_ops \<Rightarrow> ('s, 'w) source_ops \<Rightarrow> 's \<Rightarrow> interest \<Rightarrow> nat \<Rightarrow> 'f
    \<Rightarrow> ('sl, 'k) control \<times> 'w \<Rightarrow> (nat io \<times> ('sl, 'k) control \<times> 'w) option" where
  "control_add S D handle ready pri fwd = (\<lambda>(c, w).
     case control_enter S pri fwd c of (token, c') \<Rightarrow>
       (case retry (so_register D handle token ready) w of
          None \<Rightarrow> None
        | Some (Inl e, w') \<Rightarrow> Some (Inl e, c', w')
        | Some (Inr _, w') \<Rightarrow> Some (Inr token, c', w')))"

definition control_set_wake_fwd ::
  "('sl, 'f entry) slab_ops \<Rightarrow> 'f \<Rightarrow> ('sl, 'k) control \<Rightarrow> ('sl, 'k) control outcome" where
  "control_set_wake_fwd S fwd c =
     (case slab_get S (token_map c) WAKER_TOKEN of
        None \<Rightarrow> Panic
      | Some en \<Rightarrow> Ret (c\<lparr>token_map := slab_set S WAKER_TOKEN (en\<lparr>e_fwd := fwd\<rparr>) (token_map c)\<rparr>))"

section \<open>Polling\<close>

text \<open>The loop over the events of this poll: call the handler at the highest priority in
  use, queue the event otherwise. An index past the queues panics.\<close>

fun poll_events ::
  "('sl, 'f entry) slab_ops \<Rightarrow> event list \<Rightarrow> bool \<Rightarrow> ('sl, 'k) control \<Rightarrow> 'f call list
    \<Rightarrow> (bool \<times> ('sl, 'k) control \<times> 'f call list) outcome" where
  "poll_events S [] done c calls = Ret (done, c, calls)"
| "poll_events S (ev # evs) done c calls =
     (case slab_get S (token_map c) (ev_token ev) of
        None \<Rightarrow> poll_events S evs done c calls
      | Some en \<Rightarrow>
          let ready = ready_new ev in
          if e_pri en = max_pri c
          then poll_events S evs True c (calls @ [(e_fwd en, ready)])
          else if e_pri en < length (queues c)
          then poll_events S evs done
                 (c\<lparr>queues := (queues c)[e_pri en := queues c ! e_pri en @
                       [\<lparr>q_token = ev_token ev, q_ready = ready\<rparr>]],
                    n_queued := n_queued c + 1\<rparr>) calls
          else Panic)"

text \<open>\<open>for qev in qu.drain(..)\<close>: call the handlers of the queued events whose token is still
  registered.\<close>

fun drain_queue ::
  "('sl, 'f entry) slab_ops \<Rightarrow> 'sl \<Rightarrow> qevent list \<Rightarrow> bool \<Rightarrow> 'f call list
    \<Rightarrow> bool \<times> 'f call list" where
  "drain_queue S tm [] done calls = (done, calls)"
| "drain_queue S tm (qev # qevs) done calls =
     (case slab_get S tm (q_token qev) of
        None \<Rightarrow> drain_queue S tm qevs done calls
      | Some en \<Rightarrow> drain_queue S tm qevs True (calls @ [(e_fwd en, q_ready qev)]))"

text \<open>The loop over the queues, from the highest priority down: drain the first queue that
  has a live event, count what the queues below it hold.\<close>

fun poll_queues ::
  "('sl, 'f entry) slab_ops \<Rightarrow> nat list \<Rightarrow> bool \<Rightarrow> ('sl, 'k) control \<Rightarrow> 'f call list
    \<Rightarrow> (bool \<times> ('sl, 'k) control \<times> 'f call list) outcome" where
  "poll_queues S [] done c calls = Ret (done, c, calls)"
| "poll_queues S (i # is) done c calls =
     (if i < length (queues c) then
        let qu = queues c ! i in
        if pri_in_use (priorities c) i \<and> qu \<noteq> [] then
          (if \<not> done then
             (case drain_queue S (token_map c) qu done calls of (done', calls') \<Rightarrow>
                poll_queues S is done' (c\<lparr>queues := (queues c)[i := []]\<rparr>) calls')
           else poll_queues S is done (c\<lparr>n_queued := n_queued c + length qu\<rparr>) calls)
        else poll_queues S is done c calls
      else Panic)"

text \<open>What \<open>poll\<close> does with the events it got: everything after the call of mio.\<close>

definition control_dispatch ::
  "('sl, 'f entry) slab_ops \<Rightarrow> ('sl, 'k) control
    \<Rightarrow> ((bool \<times> bool) \<times> ('sl, 'k) control \<times> 'f call list) outcome" where
  "control_dispatch S c =
     obind (poll_events S (events c) False c []) (\<lambda>(done, c1, calls).
       let c2 = c1\<lparr>events := []\<rparr> in
       obind (if \<not> done \<and> 0 < n_queued c2
              then poll_queues S (rev [0..<max_pri c2]) done (c2\<lparr>n_queued := 0\<rparr>) calls
              else Ret (done, c2, calls)) (\<lambda>(done, c3, calls).
         Ret ((done, 0 < n_queued c3), c3, calls)))"

definition control_poll ::
  "('sl, 'f entry) slab_ops \<Rightarrow> ('k, 'w) poll_ops \<Rightarrow> nat \<Rightarrow> ('sl, 'k) control \<times> 'w
    \<Rightarrow> ((bool \<times> bool) io \<times> ('sl, 'k) control \<times> 'f call list \<times> 'w) exec" where
  "control_poll S P max_delay = (\<lambda>(c, w).
     case retry (po_poll P max_delay) (events c, w) of
       None \<Rightarrow> None
     | Some (Inl e, evs, w') \<Rightarrow> Some (Ret (Inl e, c\<lparr>events := evs\<rparr>, [], w'))
     | Some (Inr _, evs, w') \<Rightarrow>
         Some (obind (control_dispatch S (c\<lparr>events := evs\<rparr>)) (\<lambda>(flags, c', calls).
           Ret (Inr flags, c', calls, w'))))"

section \<open>The abstract poller\<close>

text \<open>
  What a poll promises, stated without fast path, bitmap or counters: a backlog of events
  for each priority, to which a poll appends its events; it then serves the highest priority
  that has an event with a live token, and forgets everything at and above it.
\<close>

definition backlog :: "('sl, 'k) control \<Rightarrow> nat \<Rightarrow> qevent list" where
  "backlog c p = (if p < length (queues c) then queues c ! p else [])"

fun arrivals ::
  "('sl, 'f entry) slab_ops \<Rightarrow> 'sl \<Rightarrow> event list \<Rightarrow> nat \<Rightarrow> qevent list" where
  "arrivals S tm [] p = []"
| "arrivals S tm (ev # evs) p =
     (case slab_get S tm (ev_token ev) of
        None \<Rightarrow> arrivals S tm evs p
      | Some en \<Rightarrow> (if e_pri en = p then [\<lparr>q_token = ev_token ev, q_ready = ready_new ev\<rparr>] else [])
                  @ arrivals S tm evs p)"

fun live_calls :: "('sl, 'f entry) slab_ops \<Rightarrow> 'sl \<Rightarrow> qevent list \<Rightarrow> 'f call list" where
  "live_calls S tm [] = []"
| "live_calls S tm (qev # qevs) =
     (case slab_get S tm (q_token qev) of
        None \<Rightarrow> live_calls S tm qevs
      | Some en \<Rightarrow> (e_fwd en, q_ready qev) # live_calls S tm qevs)"

fun serve ::
  "('sl, 'f entry) slab_ops \<Rightarrow> 'sl \<Rightarrow> nat \<Rightarrow> (nat \<Rightarrow> qevent list)
    \<Rightarrow> 'f call list \<times> (nat \<Rightarrow> qevent list)" where
  "serve S tm 0 B = ([], B)"
| "serve S tm (Suc p) B =
     (let cs = live_calls S tm (B p); B' = B(p := [])
      in if cs \<noteq> [] then (cs, B') else serve S tm p B')"

definition spec_poll ::
  "('sl, 'f entry) slab_ops \<Rightarrow> 'sl \<Rightarrow> nat \<Rightarrow> event list \<Rightarrow> (nat \<Rightarrow> qevent list)
    \<Rightarrow> 'f call list \<times> (nat \<Rightarrow> qevent list)" where
  "spec_poll S tm hi evs B = serve S tm (Suc hi) (\<lambda>p. B p @ arrivals S tm evs p)"

text \<open>The events of one priority that a poll works on: those that wait, then its own.\<close>

definition merged ::
  "('sl, 'f entry) slab_ops \<Rightarrow> ('sl, 'k) control \<Rightarrow> event list \<Rightarrow> nat \<Rightarrow> qevent list" where
  "merged S c evs p = backlog c p @ arrivals S (token_map c) evs p"

lemma live_calls_append [simp]:
  "live_calls S tm (xs @ ys) = live_calls S tm xs @ live_calls S tm ys"
  by (induction xs) (auto split: option.splits)

lemma serve_above: "n \<le> p \<Longrightarrow> snd (serve S tm n B) p = B p"
  by (induction n arbitrary: B) (auto simp: Let_def)

lemma serve_none: "fst (serve S tm n B) = [] \<Longrightarrow> p < n \<Longrightarrow> snd (serve S tm n B) p = []"
  by (induction n arbitrary: B)
     (auto simp: Let_def serve_above less_Suc_eq split: if_splits)

lemma serve_none_live:
  "fst (serve S tm n B) = [] \<Longrightarrow> p < n \<Longrightarrow> live_calls S tm (B p) = []"
proof (induction n arbitrary: B)
  case (Suc n)
  then have "live_calls S tm (B n) = []" "fst (serve S tm n (B(n := []))) = []"
    by (auto simp: Let_def split: if_splits)
  with Suc.IH [OF this(2)] Suc.prems(2) show ?case by (cases "p = n") simp_all
qed simp

text \<open>
  The declarative reading of \<open>serve\<close>: one priority is served, everything above it had no
  live event and is forgotten, everything below is kept.
\<close>

lemma serve_some:
  assumes "fst (serve S tm n B) \<noteq> []"
  shows "\<exists>p<n. fst (serve S tm n B) = live_calls S tm (B p)
      \<and> (\<forall>q. p < q \<and> q < n \<longrightarrow> live_calls S tm (B q) = [])
      \<and> (\<forall>q. p \<le> q \<and> q < n \<longrightarrow> snd (serve S tm n B) q = [])
      \<and> (\<forall>q<p. snd (serve S tm n B) q = B q)"
  using assms
proof (induction n arbitrary: B)
  case 0
  then show ?case by simp
next
  case (Suc n)
  show ?case
  proof (cases "live_calls S tm (B n) = []")
    case False
    then show ?thesis by (intro exI [of _ n]) auto
  next
    case True
    let ?B = "B(n := [])"
    have eq: "serve S tm (Suc n) B = serve S tm n ?B" using True by simp
    with Suc.prems have "fst (serve S tm n ?B) \<noteq> []" by simp
    from Suc.IH [OF this] obtain p where "p < n"
      and p: "fst (serve S tm n ?B) = live_calls S tm (?B p)"
        "\<forall>q. p < q \<and> q < n \<longrightarrow> live_calls S tm (?B q) = []"
        "\<forall>q. p \<le> q \<and> q < n \<longrightarrow> snd (serve S tm n ?B) q = []"
        "\<forall>q<p. snd (serve S tm n ?B) q = ?B q"
      by blast
    have "snd (serve S tm n ?B) n = []" by (simp add: serve_above)
    with p \<open>p < n\<close> True show ?thesis
      unfolding eq by (intro exI [of _ p]) (auto simp: less_Suc_eq)
  qed
qed

section \<open>The invariant\<close>

definition queue_total :: "('sl, 'k) control \<Rightarrow> nat" where
  "queue_total c = sum_list (map length (queues c))"

text \<open>
  The invariant of \<open>Control\<close>: ten queues; no priority above \<open>max_pri\<close>, which is at most 10;
  the priority of every registration is marked in the bitmap; an event waits only below the
  highest priority and in a marked queue; \<open>n_queued\<close> counts the waiting events; the waker
  has its entry.
\<close>

definition control_inv :: "('sl, 'f entry) slab_ops \<Rightarrow> ('sl, 'k) control \<Rightarrow> bool" where
  "control_inv S c \<longleftrightarrow>
     length (queues c) = MAX_PRI \<and> max_pri c \<le> MAX_PRI \<and>
     (\<forall>k en. slab_get S (token_map c) k = Some en \<longrightarrow>
        e_pri en \<le> max_pri c \<and> pri_in_use (priorities c) (e_pri en)) \<and>
     (\<forall>p. backlog c p \<noteq> [] \<longrightarrow> p < max_pri c \<and> pri_in_use (priorities c) p) \<and>
     n_queued c = queue_total c \<and>
     slab_get S (token_map c) WAKER_TOKEN \<noteq> None"

lemma control_invD:
  assumes "control_inv S c"
  shows "length (queues c) = MAX_PRI" "max_pri c \<le> MAX_PRI"
    "slab_get S (token_map c) k = Some en \<Longrightarrow> e_pri en \<le> max_pri c"
    "slab_get S (token_map c) k = Some en \<Longrightarrow> pri_in_use (priorities c) (e_pri en)"
    "backlog c p \<noteq> [] \<Longrightarrow> p < max_pri c"
    "backlog c p \<noteq> [] \<Longrightarrow> pri_in_use (priorities c) p"
    "n_queued c = queue_total c"
    "slab_get S (token_map c) WAKER_TOKEN \<noteq> None"
  using assms unfolding control_inv_def by blast+

lemma queue_total_sum: "queue_total c = (\<Sum>p<length (queues c). length (backlog c p))"
proof -
  have "queue_total c = (\<Sum>p<length (queues c). length (queues c ! p))"
    by (simp add: queue_total_def sum_list_sum_nth atLeast0LessThan)
  also have "\<dots> = (\<Sum>p<length (queues c). length (backlog c p))"
    by (rule sum.cong) (simp_all add: backlog_def)
  finally show ?thesis .
qed

lemma queue_total_pos: "0 < queue_total c \<longleftrightarrow> (\<exists>p. backlog c p \<noteq> [])"
proof -
  have "queue_total c = 0 \<longleftrightarrow> (\<forall>p<length (queues c). backlog c p = [])"
    unfolding queue_total_sum by (simp add: Ball_def lessThan_def)
  also have "\<dots> \<longleftrightarrow> (\<forall>p. backlog c p = [])"
    by (metis backlog_def)
  finally show ?thesis by (metis neq0_conv)
qed

section \<open>The code refines the abstract poller\<close>

lemma drain_queue_eq:
  "drain_queue S tm q done calls =
     (done \<or> live_calls S tm q \<noteq> [], calls @ live_calls S tm q)"
  by (induction q arbitrary: "done" calls) (auto split: option.splits)

text \<open>The fields the dispatch writes are the queues, their counter and the event buffer.\<close>

definition same_registration :: "('sl, 'k) control \<Rightarrow> ('sl, 'k) control \<Rightarrow> bool" where
  "same_registration c c' \<longleftrightarrow>
     token_map c' = token_map c \<and> max_pri c' = max_pri c \<and> priorities c' = priorities c \<and>
     errors c' = errors c \<and> waker c' = waker c"

lemma same_registrationD:
  assumes "same_registration c c'"
  shows "token_map c' = token_map c" "max_pri c' = max_pri c" "priorities c' = priorities c"
    "errors c' = errors c" "waker c' = waker c"
  using assms by (simp_all add: same_registration_def)

lemma same_registration_refl [simp]: "same_registration c c"
  by (simp add: same_registration_def)

lemma same_registration_trans [trans]:
  "same_registration a b \<Longrightarrow> same_registration b c \<Longrightarrow> same_registration a c"
  by (simp add: same_registration_def)

lemma same_registration_updates [simp]:
  "same_registration c (c\<lparr>queues := q\<rparr>)" "same_registration c (c\<lparr>n_queued := n\<rparr>)"
  "same_registration c (c\<lparr>events := e\<rparr>)"
  "same_registration c (c\<lparr>queues := q, n_queued := n\<rparr>)"
  by (simp_all add: same_registration_def)

lemma backlog_push:
  "i < length (queues c) \<Longrightarrow>
     backlog (c\<lparr>queues := (queues c)[i := queues c ! i @ [x]], n_queued := n\<rparr>) p =
     backlog c p @ (if p = i then [x] else [])"
  by (auto simp: backlog_def)

lemma queue_total_push:
  assumes "i < length (queues c)"
  shows "queue_total (c\<lparr>queues := (queues c)[i := queues c ! i @ [x]], n_queued := n\<rparr>) =
    Suc (queue_total c)"
proof -
  have "sum_list (map length ((queues c)[i := queues c ! i @ [x]])) =
      sum_list ((map length (queues c))[i := Suc (length (queues c ! i))])"
    by (simp add: map_update)
  also have "\<dots> = Suc (sum_list (map length (queues c)))"
    using assms elem_le_sum_list [of i "map length (queues c)"]
    by (simp add: sum_list_update)
  finally show ?thesis by (simp add: queue_total_def)
qed

end
