(* ===== verification/Poll_Refinement.thy ===== *)
theory Poll_Refinement
  imports Poll_Control
begin

text \<open>
  \<open>Control::poll\<close> refines the abstract poller, keeps the invariant of \<open>Control\<close> and cannot
  panic under it; the other operations of \<open>Control\<close> keep the invariant as well.
\<close>

section \<open>The loop over the events\<close>

text \<open>The events of a poll that are queued: all but those of the highest priority.\<close>

definition queued_arrivals ::
  "('sl, 'f entry) slab_ops \<Rightarrow> 'sl \<Rightarrow> nat \<Rightarrow> event list \<Rightarrow> nat \<Rightarrow> qevent list" where
  "queued_arrivals S tm hi evs p = (if p = hi then [] else arrivals S tm evs p)"

lemma queued_arrivals_simps [simp]:
  "queued_arrivals S tm hi [] p = []"
  "slab_get S tm (ev_token ev) = None \<Longrightarrow>
     queued_arrivals S tm hi (ev # evs) p = queued_arrivals S tm hi evs p"
  "slab_get S tm (ev_token ev) = Some en \<Longrightarrow> e_pri en = hi \<Longrightarrow>
     queued_arrivals S tm hi (ev # evs) p = queued_arrivals S tm hi evs p"
  "slab_get S tm (ev_token ev) = Some en \<Longrightarrow> e_pri en \<noteq> hi \<Longrightarrow>
     queued_arrivals S tm hi (ev # evs) p =
       (if p = e_pri en then [\<lparr>q_token = ev_token ev, q_ready = ready_new ev\<rparr>] else [])
       @ queued_arrivals S tm hi evs p"
  by (auto simp: queued_arrivals_def)

lemma poll_events_spec:
  assumes "\<forall>k en. slab_get S (token_map c) k = Some en \<longrightarrow> e_pri en \<le> max_pri c"
    and "max_pri c \<le> length (queues c)" and "n_queued c = queue_total c"
  shows "\<exists>c'. poll_events S evs done c calls =
        Ret (done \<or> arrivals S (token_map c) evs (max_pri c) \<noteq> [], c',
             calls @ live_calls S (token_map c) (arrivals S (token_map c) evs (max_pri c)))
      \<and> same_registration c c' \<and> events c' = events c
      \<and> length (queues c') = length (queues c) \<and> n_queued c' = queue_total c'
      \<and> backlog c' = (\<lambda>p. backlog c p @
            queued_arrivals S (token_map c) (max_pri c) evs p)"
  using assms
proof (induction evs arbitrary: c "done" calls)
  case Nil
  then show ?case by (simp add: fun_eq_iff)
next
  case (Cons ev evs)
  show ?case
  proof (cases "slab_get S (token_map c) (ev_token ev)")
    case None
    with Cons.IH [OF Cons.prems, of "done" calls] show ?thesis by simp
  next
    case (Some en)
    show ?thesis
    proof (cases "e_pri en = max_pri c")
      case True
      with Some Cons.IH [OF Cons.prems, of True "calls @ [(e_fwd en, ready_new ev)]"]
      show ?thesis by simp
    next
      case False
      with Some Cons.prems have lt: "e_pri en < length (queues c)"
        by (metis le_neq_implies_less order_less_le_trans)
      let ?q = "\<lparr>q_token = ev_token ev, q_ready = ready_new ev\<rparr>"
      let ?c = "c\<lparr>queues := (queues c)[e_pri en := queues c ! e_pri en @ [?q]],
                  n_queued := n_queued c + 1\<rparr>"
      have "same_registration c ?c" by simp
      moreover have "n_queued ?c = queue_total ?c"
        using lt Cons.prems(3) by (simp only: queue_total_push) simp
      ultimately obtain c' where
        c': "poll_events S evs done ?c calls =
          Ret (done \<or> arrivals S (token_map c) evs (max_pri c) \<noteq> [], c',
               calls @ live_calls S (token_map c) (arrivals S (token_map c) evs (max_pri c)))"
        "same_registration ?c c'" "events c' = events c"
        "length (queues c') = length (queues c)" "n_queued c' = queue_total c'"
        "backlog c' = (\<lambda>p. backlog ?c p @
            queued_arrivals S (token_map c) (max_pri c) evs p)"
        using Cons.IH [of ?c "done" calls] Cons.prems by auto
      have "same_registration c c'"
        using same_registration_trans [OF \<open>same_registration c ?c\<close> c'(2)] .
      moreover have "backlog c' = (\<lambda>p. backlog c p @
          queued_arrivals S (token_map c) (max_pri c) (ev # evs) p)"
        unfolding c'(6) fun_eq_iff backlog_push [OF lt] using Some False by auto
      ultimately show ?thesis using Some False lt c' by simp
    qed
  qed
qed

section \<open>The loop over the queues\<close>

lemma upto_rev_Suc: "rev [0..<Suc n] = n # rev [0..<n]"
  by simp

lemma poll_queues_count:
  assumes "n \<le> length (queues c)" "\<forall>p. backlog c p \<noteq> [] \<longrightarrow> pri_in_use (priorities c) p"
  shows "poll_queues S (rev [0..<n]) True c calls =
    Ret (True, c\<lparr>n_queued := n_queued c + (\<Sum>p<n. length (backlog c p))\<rparr>, calls)"
  using assms
proof (induction n arbitrary: c)
  case 0
  then show ?case by simp
next
  case (Suc n)
  let ?c = "c\<lparr>n_queued := n_queued c + length (queues c ! n)\<rparr>"
  have eq: "backlog ?c = backlog c" "backlog c n = queues c ! n"
    using Suc.prems(1) by (auto simp: backlog_def)
  have ih: "poll_queues S (rev [0..<n]) True c calls =
      Ret (True, c\<lparr>n_queued := n_queued c + (\<Sum>p<n. length (backlog c p))\<rparr>, calls)"
    using Suc.IH [of c] Suc.prems by simp
  have ih': "poll_queues S (rev [0..<n]) True ?c calls =
      Ret (True, ?c\<lparr>n_queued := n_queued ?c + (\<Sum>p<n. length (backlog c p))\<rparr>, calls)"
    using Suc.IH [of ?c] Suc.prems by (simp add: eq)
  show ?case
  proof (cases "queues c ! n = []")
    case True
    with ih eq Suc.prems show ?thesis by (simp add: upto_rev_Suc del: upt_Suc)
  next
    case False
    with Suc.prems(2) eq have "pri_in_use (priorities c) n" by metis
    with False ih' eq Suc.prems show ?thesis
      by (simp add: upto_rev_Suc add.commute add.left_commute del: upt_Suc)
  qed
qed

lemma backlog_clear:
  "i < length (queues c) \<Longrightarrow> backlog (c\<lparr>queues := (queues c)[i := []]\<rparr>) = (backlog c)(i := [])"
  by (auto simp: backlog_def fun_eq_iff)

lemma poll_queues_serve:
  assumes "n \<le> length (queues c)" "\<forall>p. backlog c p \<noteq> [] \<longrightarrow> pri_in_use (priorities c) p"
    and "serve S (token_map c) n (backlog c) = (cs, B)"
  shows "\<exists>c'. poll_queues S (rev [0..<n]) False c calls = Ret (cs \<noteq> [], c', calls @ cs)
      \<and> same_registration c c' \<and> events c' = events c
      \<and> length (queues c') = length (queues c) \<and> backlog c' = B
      \<and> n_queued c' = n_queued c + (\<Sum>p<n. length (B p))"
  using assms
proof (induction n arbitrary: c)
  case 0
  then show ?case by simp
next
  case (Suc n)
  let ?c = "c\<lparr>queues := (queues c)[n := []]\<rparr>"
  have n: "n < length (queues c)" and q: "backlog c n = queues c ! n"
    using Suc.prems(1) by (auto simp: backlog_def)
  have bc: "backlog ?c = (backlog c)(n := [])" by (rule backlog_clear [OF n])
  have use: "\<forall>p. backlog ?c p \<noteq> [] \<longrightarrow> pri_in_use (priorities ?c) p"
    using Suc.prems(2) by (simp add: bc)
  consider (empty) "queues c ! n = []"
    | (stale) "queues c ! n \<noteq> []" "live_calls S (token_map c) (queues c ! n) = []"
    | (live) "live_calls S (token_map c) (queues c ! n) \<noteq> []"
    by blast
  then show ?case
  proof cases
    case empty
    then have "(backlog c)(n := []) = backlog c" using q by auto
    with Suc.prems(3) empty q have srv: "serve S (token_map c) n (backlog c) = (cs, B)"
      by simp
    with Suc.prems have Bn: "B n = []"
      using serve_above [of n n S "token_map c" "backlog c"] empty q by simp
    from Suc.IH [of c] Suc.prems srv empty n Bn show ?thesis
      by (auto simp: upto_rev_Suc simp del: upt_Suc)
  next
    case stale
    with Suc.prems(2) q have "pri_in_use (priorities c) n" by metis
    from Suc.prems(3) stale q have srv: "serve S (token_map ?c) n (backlog ?c) = (cs, B)"
      by (simp add: bc)
    then have Bn: "B n = []"
      using serve_above [of n n S "token_map ?c" "backlog ?c"] bc by simp
    from Suc.IH [of ?c] Suc.prems(1) use srv obtain c' where
      "poll_queues S (rev [0..<n]) False ?c calls = Ret (cs \<noteq> [], c', calls @ cs)"
      "same_registration ?c c'" "events c' = events c"
      "length (queues c') = length (queues c)" "backlog c' = B"
      "n_queued c' = n_queued c + (\<Sum>p<n. length (B p))"
      by auto
    with stale \<open>pri_in_use (priorities c) n\<close> n Bn show ?thesis
      by (auto simp: upto_rev_Suc drain_queue_eq same_registration_def simp del: upt_Suc)
  next
    case live
    then have "queues c ! n \<noteq> []" by auto
    with Suc.prems(2) q have "pri_in_use (priorities c) n" by metis
    from Suc.prems(3) live q have B: "B = backlog ?c"
      and cs: "cs = live_calls S (token_map c) (queues c ! n)"
      by (auto simp: bc)
    have cnt: "poll_queues S (rev [0..<n]) True ?c (calls @ cs) =
        Ret (True, ?c\<lparr>n_queued := n_queued ?c + (\<Sum>p<n. length (backlog ?c p))\<rparr>, calls @ cs)"
      using Suc.prems(1) use by (intro poll_queues_count) auto
    have "B n = []" by (simp add: B bc)
    with cnt live cs B n \<open>queues c ! n \<noteq> []\<close> \<open>pri_in_use (priorities c) n\<close> show ?thesis
      by (auto simp: upto_rev_Suc drain_queue_eq same_registration_def backlog_def
          simp del: upt_Suc)
  qed
qed

section \<open>The dispatch\<close>

lemma arrivals_live: "live_calls S tm (arrivals S tm evs p) = [] \<longleftrightarrow> arrivals S tm evs p = []"
  by (induction evs) (auto split: option.splits)

lemma live_calls_registered:
  "(f, r) \<in> set (live_calls S tm q) \<Longrightarrow> \<exists>k en. slab_get S tm k = Some en \<and> e_fwd en = f"
  by (induction q) (auto split: option.splits)

lemma arrivals_entry:
  "arrivals S tm evs p \<noteq> [] \<Longrightarrow> \<exists>k en. slab_get S tm k = Some en \<and> e_pri en = p"
  by (induction evs) (auto split: option.splits if_splits)

lemma control_inv_arrivals:
  assumes "control_inv S c" "arrivals S (token_map c) evs p \<noteq> []"
  shows "p \<le> max_pri c" "pri_in_use (priorities c) p"
  using arrivals_entry [OF assms(2)] control_invD(3,4) [OF assms(1)] by auto

lemma queued_arrivals_in_use:
  assumes "control_inv S c"
    and "backlog c p @ queued_arrivals S (token_map c) (max_pri c) evs p \<noteq> []"
  shows "p < max_pri c" "pri_in_use (priorities c) p"
  using assms(2) control_invD(5,6) [OF assms(1)] control_inv_arrivals [OF assms(1), of evs p]
  by (auto simp: queued_arrivals_def split: if_splits)

lemma serve_empty: "(\<And>p. B p = []) \<Longrightarrow> serve S tm n B = ([], B)"
  by (induction n) (simp_all add: Let_def fun_upd_idem)

lemma serve_subset: "B p = [] \<Longrightarrow> snd (serve S tm n B) p = []"
  by (induction n arbitrary: B) (auto simp: Let_def)

lemma backlog_updates [simp]:
  "backlog (c\<lparr>events := e\<rparr>) = backlog c" "backlog (c\<lparr>n_queued := n\<rparr>) = backlog c"
  by (simp_all add: backlog_def fun_eq_iff)

lemma queue_total_updates [simp]:
  "queue_total (c\<lparr>events := e\<rparr>) = queue_total c"
  "queue_total (c\<lparr>n_queued := n\<rparr>) = queue_total c"
  by (simp_all add: queue_total_def)

text \<open>The first step of the abstract poller, at the highest priority: nothing waits there,
  so it serves the events of this poll, or goes on with the queues.\<close>

lemma spec_poll_fast_path:
  fixes evs :: "event list"
  assumes "control_inv S c"
  defines "A \<equiv> arrivals S (token_map c) evs (max_pri c)"
    and "Q \<equiv> \<lambda>p. backlog c p @ queued_arrivals S (token_map c) (max_pri c) evs p"
  shows "spec_poll S (token_map c) (max_pri c) evs (backlog c) =
    (if A \<noteq> [] then (live_calls S (token_map c) A, Q) else serve S (token_map c) (max_pri c) Q)"
proof -
  have empty: "backlog c (max_pri c) = []"
    using control_invD(5) [OF assms(1)] by blast
  then have Q: "(\<lambda>p. backlog c p @ arrivals S (token_map c) evs p)(max_pri c := []) = Q"
    by (auto simp: Q_def queued_arrivals_def fun_eq_iff)
  show ?thesis
    unfolding spec_poll_def serve.simps Let_def Q using empty
    by (simp add: A_def arrivals_live)
qed

lemma queue_total_below:
  assumes "n \<le> length (queues c)" "\<forall>p. backlog c p \<noteq> [] \<longrightarrow> p < n"
  shows "queue_total c = (\<Sum>p<n. length (backlog c p))"
  unfolding queue_total_sum using assms
  by (intro sum.mono_neutral_right) auto

lemma control_inv_queues:
  assumes "control_inv S c" "same_registration c c'" "length (queues c') = length (queues c)"
    "n_queued c' = queue_total c'"
    "\<And>p. backlog c' p \<noteq> [] \<Longrightarrow> p < max_pri c \<and> pri_in_use (priorities c) p"
  shows "control_inv S c'"
  using assms unfolding control_inv_def same_registration_def by simp

lemma control_dispatch_spec:
  assumes inv: "control_inv S c"
    and spec: "spec_poll S (token_map c) (max_pri c) (events c) (backlog c) = (cs, B)"
  shows "\<exists>c'. control_dispatch S c = Ret ((cs \<noteq> [], \<exists>p. B p \<noteq> []), c', cs)
      \<and> control_inv S c' \<and> same_registration c c' \<and> events c' = [] \<and> backlog c' = B"
proof -
  let ?tm = "token_map c" and ?hi = "max_pri c"
  let ?A = "arrivals S ?tm (events c) ?hi"
  let ?Q = "\<lambda>p. backlog c p @ queued_arrivals S ?tm ?hi (events c) p"
  obtain c1 where run1: "poll_events S (events c) False c [] =
        Ret (?A \<noteq> [], c1, live_calls S ?tm ?A)"
    and c1: "same_registration c c1" "length (queues c1) = length (queues c)"
      "n_queued c1 = queue_total c1" "backlog c1 = ?Q"
    using poll_events_spec [of S c "events c" False "[]"] control_invD(1-3,7) [OF inv] by auto
  let ?c2 = "c1\<lparr>events := []\<rparr>"
  have c2: "same_registration c ?c2" "length (queues ?c2) = length (queues c)"
      "n_queued ?c2 = queue_total ?c2" "backlog ?c2 = ?Q"
    using c1 by (simp_all add: same_registration_def)
  have inv2: "control_inv S ?c2"
    by (rule control_inv_queues [OF inv c2(1-3)])
       (use queued_arrivals_in_use [OF inv] c2(4) in simp_all)
  note fast = spec_poll_fast_path [OF inv, of "events c"]
  show ?thesis
  proof (cases "?A = [] \<and> 0 < n_queued ?c2")
    case False
    have csB: "(cs, B) = (if ?A \<noteq> [] then live_calls S ?tm ?A else [], ?Q)"
    proof (cases "?A = []")
      case True
      with False c2(3) queue_total_pos [of ?c2] have "backlog ?c2 p = []" for p by auto
      with c2(4) have "\<And>p. ?Q p = []" by simp
      then show ?thesis using fast spec True by (simp add: serve_empty)
    qed (use fast spec in simp)
    moreover have "0 < n_queued ?c2 \<longleftrightarrow> (\<exists>p. ?Q p \<noteq> [])"
      using queue_total_pos [of ?c2] c2(3,4) by simp
    ultimately have "control_dispatch S c = Ret ((cs \<noteq> [], \<exists>p. B p \<noteq> []), ?c2, cs)"
      using False by (auto simp: control_dispatch_def run1 Let_def arrivals_live)
    with inv2 c2 csB show ?thesis by (intro exI [of _ ?c2]) auto
  next
    case True
    let ?z = "?c2\<lparr>n_queued := 0\<rparr>"
    have z: "backlog ?z = ?Q" "same_registration c ?z" "token_map ?z = ?tm" "max_pri ?z = ?hi"
        "length (queues ?z) = length (queues c)"
      using c2 by (simp_all add: same_registration_def)
    have use: "\<forall>p. backlog ?z p \<noteq> [] \<longrightarrow> pri_in_use (priorities ?z) p"
      using queued_arrivals_in_use [OF inv] z by (simp add: same_registration_def)
    have le: "?hi \<le> length (queues ?z)" using control_invD(1,2) [OF inv] z(5) by simp
    have srv: "serve S (token_map ?z) ?hi (backlog ?z) = (cs, B)"
      using True fast spec z by simp
    from poll_queues_serve [OF le use srv, of "[]"] obtain c3 where
      run3: "poll_queues S (rev [0..<?hi]) False ?z [] = Ret (cs \<noteq> [], c3, cs)"
      and c3: "same_registration ?z c3" "events c3 = []"
        "length (queues c3) = length (queues c)" "backlog c3 = B"
        "n_queued c3 = (\<Sum>p<?hi. length (B p))"
      using z(5) by auto
    have reg: "same_registration c c3" by (rule same_registration_trans [OF z(2) c3(1)])
    have below: "B p \<noteq> [] \<Longrightarrow> p < ?hi \<and> pri_in_use (priorities c) p" for p
      using serve_subset [of "backlog ?z" p S ?tm ?hi] srv z(1,3)
        queued_arrivals_in_use [OF inv, of p "events c"] by auto
    have total: "n_queued c3 = queue_total c3"
      using queue_total_below [of ?hi c3] below c3(3-5) control_invD(1,2) [OF inv] by simp
    have inv3: "control_inv S c3"
      by (rule control_inv_queues [OF inv reg c3(3) total]) (use below c3(4) in simp)
    have "control_dispatch S c = Ret ((cs \<noteq> [], 0 < n_queued c3), c3, cs)"
      using True run1 run3 z(4) by (simp add: control_dispatch_def Let_def)
    with total queue_total_pos [of c3] c3 inv3 reg show ?thesis by auto
  qed
qed

section \<open>The poll of mio and its dispatch\<close>

lemma control_poll_Ok:
  assumes "control_inv S c" "retry (po_poll P d) (events c, w) = Some (Inr u, evs, w')"
    and "spec_poll S (token_map c) (max_pri c) evs (backlog c) = (cs, B)"
  shows "\<exists>c'. control_poll S P d (c, w) = Some (Ret (Inr (cs \<noteq> [], \<exists>p. B p \<noteq> []), c', cs, w'))
      \<and> control_inv S c' \<and> same_registration c c' \<and> events c' = [] \<and> backlog c' = B"
proof -
  let ?c = "c\<lparr>events := evs\<rparr>"
  have inv: "control_inv S ?c"
    using assms(1) by (simp add: control_inv_def)
  from control_dispatch_spec [OF inv, of cs B] assms(3) obtain c' where
    "control_dispatch S ?c = Ret ((cs \<noteq> [], \<exists>p. B p \<noteq> []), c', cs)"
    "control_inv S c'" "same_registration ?c c'" "events c' = []" "backlog c' = B"
    by auto
  then show ?thesis
    using assms(2) by (intro exI [of _ c']) (auto simp: control_poll_def same_registration_def)
qed

lemma control_poll_returned:
  assumes "control_inv S c" "control_poll S P d (c, w) = Some (Ret (Inr (done, pending), c', cs, w'))"
  obtains u evs where "retry (po_poll P d) (events c, w) = Some (Inr u, evs, w')"
    "spec_poll S (token_map c) (max_pri c) evs (backlog c) = (cs, backlog c')"
    "done = (cs \<noteq> [])" "pending = (\<exists>p. backlog c' p \<noteq> [])"
    "control_inv S c'" "same_registration c c'" "events c' = []"
proof -
  from assms(2) obtain u evs where
    r: "retry (po_poll P d) (events c, w) = Some (Inr u, evs, w')"
    by (auto simp: control_poll_def obind_eq_Ret split: option.splits sum.splits)
  obtain cs0 B where sp: "spec_poll S (token_map c) (max_pri c) evs (backlog c) = (cs0, B)"
    by fastforce
  from control_poll_Ok [OF assms(1) r sp] assms(2) r sp show thesis
    by (auto intro: that)
qed

lemma control_poll_no_panic:
  assumes "control_inv S c"
  shows "control_poll S P d (c, w) \<noteq> Some Panic"
proof (cases "retry (po_poll P d) (events c, w)")
  case None
  then show ?thesis by (simp add: control_poll_def)
next
  case (Some x)
  obtain r evs w' where x: "x = (r, evs, w')" by (cases x)
  show ?thesis
  proof (cases r)
    case (Inl e)
    with Some x show ?thesis by (simp add: control_poll_def)
  next
    case (Inr u)
    obtain cs B where "spec_poll S (token_map c) (max_pri c) evs (backlog c) = (cs, B)"
      by fastforce
    from control_poll_Ok [OF assms _ this] Some x Inr show ?thesis by fastforce
  qed
qed

lemma serve_drain_order:
  "concat (map (\<lambda>p. live_calls S tm (B p)) (rev [0..<n])) =
     fst (serve S tm n B) @
     concat (map (\<lambda>p. live_calls S tm (snd (serve S tm n B) p)) (rev [0..<n]))"
proof (induction n arbitrary: B)
  case 0
  then show ?case by simp
next
  case (Suc n)
  have keep: "map (\<lambda>p. live_calls S tm ((B(n := [])) p)) (rev [0..<n]) =
      map (\<lambda>p. live_calls S tm (B p)) (rev [0..<n])"
    by simp
  show ?case
  proof (cases "live_calls S tm (B n) = []")
    case True
    obtain cs B' where srv: "serve S tm n (B(n := [])) = (cs, B')" by fastforce
    have "B' n = []" using serve_above [of n n S tm "B(n := [])"] srv by simp
    moreover have "concat (map (\<lambda>p. live_calls S tm (B p)) (rev [0..<n])) =
        cs @ concat (map (\<lambda>p. live_calls S tm (B' p)) (rev [0..<n]))"
      using Suc.IH [of "B(n := [])"] unfolding keep srv fst_conv snd_conv .
    moreover have "serve S tm (Suc n) B = (cs, B')" using True srv by simp
    ultimately show ?thesis using True by (simp del: serve.simps)
  next
    case False
    then have "serve S tm (Suc n) B = (live_calls S tm (B n), B(n := []))"
      by (simp add: Let_def)
    then show ?thesis by (simp add: keep fun_upd_same del: serve.simps fun_upd_apply)
  qed
qed

text \<open>All live events of a backlog, in the order in which polls deliver them.\<close>

definition drain_order ::
  "('sl, 'f entry) slab_ops \<Rightarrow> 'sl \<Rightarrow> nat \<Rightarrow> (nat \<Rightarrow> qevent list) \<Rightarrow> 'f call list" where
  "drain_order S tm hi B = concat (map (\<lambda>p. live_calls S tm (B p)) (rev [0..<Suc hi]))"

lemma spec_poll_drain_order:
  "spec_poll S tm hi evs B = (cs, B') \<Longrightarrow>
     drain_order S tm hi (\<lambda>p. B p @ arrivals S tm evs p) = cs @ drain_order S tm hi B'"
  unfolding drain_order_def spec_poll_def using serve_drain_order [of S tm _ "Suc hi"]
  by (metis fst_conv snd_conv)

text \<open>
  The declarative reading of a poll under the invariant: the queues above the highest
  priority in use are empty, before and after.
\<close>

lemma above_max_empty:
  assumes "control_inv S c" "max_pri c < q"
  shows "merged S c evs q = []"
  using control_invD(5) [OF assms(1), of q] control_inv_arrivals(1) [OF assms(1), of evs q] assms(2)
  unfolding merged_def by fastforce

lemma spec_poll_parts:
  assumes inv: "control_inv S c"
    and sp: "spec_poll S (token_map c) (max_pri c) evs (backlog c) = (cs, B')"
  shows "cs \<noteq> [] \<Longrightarrow> \<exists>p\<le>max_pri c. cs = live_calls S (token_map c) (merged S c evs p)
      \<and> (\<forall>q. p < q \<longrightarrow> live_calls S (token_map c) (merged S c evs q) = [])
      \<and> (\<forall>q\<ge>p. B' q = []) \<and> (\<forall>q<p. B' q = merged S c evs q)"
    and "cs = [] \<Longrightarrow> (\<forall>q. B' q = []) \<and> (\<forall>q. live_calls S (token_map c) (merged S c evs q) = [])"
proof -
  let ?n = "Suc (max_pri c)"
  have srv: "serve S (token_map c) ?n (merged S c evs) = (cs, B')"
    using sp by (simp add: spec_poll_def merged_def [abs_def] del: serve.simps)
  have above: "merged S c evs q = []" "B' q = []" if "?n \<le> q" for q
    using above_max_empty [OF inv, of q evs] that
      serve_above [OF that, of S "token_map c" "merged S c evs"]
    unfolding srv by (simp_all add: Suc_le_eq)
  show "\<exists>p\<le>max_pri c. cs = live_calls S (token_map c) (merged S c evs p)
      \<and> (\<forall>q. p < q \<longrightarrow> live_calls S (token_map c) (merged S c evs q) = [])
      \<and> (\<forall>q\<ge>p. B' q = []) \<and> (\<forall>q<p. B' q = merged S c evs q)" if "cs \<noteq> []"
  proof -
    from that srv have "fst (serve S (token_map c) ?n (merged S c evs)) \<noteq> []" by simp
    from serve_some [OF this] obtain p where "p < ?n" "cs = live_calls S (token_map c) (merged S c evs p)"
      "\<forall>q. p < q \<and> q < ?n \<longrightarrow> live_calls S (token_map c) (merged S c evs q) = []"
      "\<forall>q. p \<le> q \<and> q < ?n \<longrightarrow> B' q = []" "\<forall>q<p. B' q = merged S c evs q"
      unfolding srv fst_conv snd_conv by blast
    with above show ?thesis
      by (intro exI [of _ p]) (metis less_Suc_eq_le live_calls.simps(1) not_le)
  qed
  show "(\<forall>q. B' q = []) \<and> (\<forall>q. live_calls S (token_map c) (merged S c evs q) = [])" if "cs = []"
  proof (intro conjI allI)
    fix q
    show "B' q = []"
      using serve_none [of S "token_map c" ?n "merged S c evs" q] srv that above(2) [of q]
      by (cases "q < ?n") auto
    show "live_calls S (token_map c) (merged S c evs q) = []"
      using serve_none_live [of S "token_map c" ?n "merged S c evs" q] srv that above(1) [of q]
      by (cases "q < ?n") auto
  qed
qed

section \<open>Quiet polls\<close>

text \<open>\<open>n\<close> polls in a row, with the calls they make.\<close>

fun poll_times ::
  "('sl, 'f entry) slab_ops \<Rightarrow> ('k, 'w) poll_ops \<Rightarrow> nat \<Rightarrow> nat \<Rightarrow> ('sl, 'k) control \<times> 'w
    \<Rightarrow> (('sl, 'k) control \<times> 'f call list \<times> 'w) exec" where
  "poll_times S P d 0 (c, w) = Some (Ret (c, [], w))"
| "poll_times S P d (Suc n) (c, w) =
     ebind (control_poll S P d (c, w)) (\<lambda>(_, c', cs, w').
       ebind (poll_times S P d n (c', w')) (\<lambda>(c'', cs', w''). Some (Ret (c'', cs @ cs', w''))))"

text \<open>mio has nothing to report.\<close>

definition quiet :: "('k, 'w) poll_ops \<Rightarrow> nat \<Rightarrow> bool" where
  "quiet P d \<longleftrightarrow> (\<forall>evs w. po_poll P d (evs, w) = (Inr (), [], w))"

lemma quiet_retry: "quiet P d \<Longrightarrow> retry (po_poll P d) (evs, w) = Some (Inr (), [], w)"
  by (simp add: quiet_def retry_answer)

lemma arrivals_Nil [simp]: "arrivals S tm [] = (\<lambda>p. [])"
  by (simp add: fun_eq_iff)

text \<open>Each quiet poll empties at least the highest queue that holds anything.\<close>

lemma serve_below:
  assumes above: "\<And>p. k \<le> p \<Longrightarrow> B p = []" and "k \<le> n" "k \<le> Suc p"
  shows "snd (serve S tm n B) p = []"
proof (cases "n \<le> p")
  case True
  then show ?thesis using above [of p] assms(2) by (simp add: serve_above)
next
  case False
  show ?thesis
  proof (cases "fst (serve S tm n B) = []")
    case True
    with False show ?thesis by (simp add: serve_none)
  next
    case served: False
    from serve_some [OF served] obtain q where q: "q < n"
      "fst (serve S tm n B) = live_calls S tm (B q)"
      "\<forall>p. q \<le> p \<and> p < n \<longrightarrow> snd (serve S tm n B) p = []"
      by blast
    with served have "B q \<noteq> []" by auto
    with above have "q < k" by (meson not_le_imp_less)
    with q(3) False assms(3) show ?thesis by simp
  qed
qed

lemma quiet_poll:
  assumes inv: "control_inv S c" and quiet: "quiet P d"
    and above: "\<And>p. k \<le> p \<Longrightarrow> backlog c p = []" and "k \<le> max_pri c"
  obtains flags c' cs where "control_poll S P d (c, w) = Some (Ret (flags, c', cs, w))"
    "control_inv S c'" "same_registration c c'"
    "\<And>p. k - 1 \<le> p \<Longrightarrow> backlog c' p = []"
    "drain_order S (token_map c) (max_pri c) (backlog c) =
       cs @ drain_order S (token_map c) (max_pri c) (backlog c')"
proof -
  obtain cs B where sp: "spec_poll S (token_map c) (max_pri c) [] (backlog c) = (cs, B)"
    by fastforce
  from control_poll_Ok [OF inv quiet_retry [OF quiet] sp] obtain c' where
    c': "control_poll S P d (c, w) = Some (Ret (Inr (cs \<noteq> [], \<exists>p. B p \<noteq> []), c', cs, w))"
    "control_inv S c'" "same_registration c c'" "backlog c' = B"
    by blast
  have "backlog c' = snd (serve S (token_map c) (Suc (max_pri c)) (backlog c))"
    using sp c'(4) by (simp add: spec_poll_def del: serve.simps)
  moreover have "snd (serve S (token_map c) (Suc (max_pri c)) (backlog c)) p = []"
    if "k - 1 \<le> p" for p
    by (rule serve_below [where k = k]) (use above assms(4) that in auto)
  ultimately have "backlog c' p = []" if "k - 1 \<le> p" for p
    using that by (simp del: serve.simps)
  with c' spec_poll_drain_order [OF sp] show thesis by (intro that) auto
qed

lemma poll_times_quiet:
  assumes "control_inv S c" "quiet P d" "k \<le> max_pri c"
    and "\<And>p. k \<le> p \<Longrightarrow> backlog c p = []"
  shows "\<exists>c' cs. poll_times S P d n (c, w) = Some (Ret (c', cs, w))
      \<and> control_inv S c' \<and> same_registration c c' \<and> (\<forall>p. k - n \<le> p \<longrightarrow> backlog c' p = [])
      \<and> drain_order S (token_map c) (max_pri c) (backlog c) =
          cs @ drain_order S (token_map c) (max_pri c) (backlog c')"
  using assms
proof (induction n arbitrary: c k)
  case 0
  then show ?case by simp
next
  case (Suc n)
  from quiet_poll [OF Suc.prems(1,2,4,3), of w] obtain flags c1 cs1 where
    c1: "control_poll S P d (c, w) = Some (Ret (flags, c1, cs1, w))"
    "control_inv S c1" "same_registration c c1"
    "\<And>p. k - 1 \<le> p \<Longrightarrow> backlog c1 p = []"
    "drain_order S (token_map c) (max_pri c) (backlog c) =
       cs1 @ drain_order S (token_map c) (max_pri c) (backlog c1)"
    by metis
  note reg = same_registrationD [OF c1(3)]
  have "k - 1 \<le> max_pri c1" using Suc.prems(3) reg by simp
  from Suc.IH [OF c1(2) Suc.prems(2) this c1(4)] obtain c2 cs2 where
    c2: "poll_times S P d n (c1, w) = Some (Ret (c2, cs2, w))" "control_inv S c2"
    "same_registration c1 c2" "\<forall>p. k - 1 - n \<le> p \<longrightarrow> backlog c2 p = []"
    "drain_order S (token_map c1) (max_pri c1) (backlog c1) =
       cs2 @ drain_order S (token_map c1) (max_pri c1) (backlog c2)"
    by metis
  have "same_registration c c2" using c1(3) c2(3) by (rule same_registration_trans)
  with c1 c2 reg show ?case by simp
qed

lemma drain_order_empty: "(\<And>p. B p = []) \<Longrightarrow> drain_order S tm hi B = []"
  by (simp add: drain_order_def)

end
