(* ===== verification/Control_Ops.thy ===== *)
theory Control_Ops
  imports Poll_Refinement
begin

text \<open>
  The registration half of \<open>Control\<close>: what \<open>add\<close>, \<open>del\<close> and \<open>set_wake_fwd\<close> do to the token
  table, that they keep the invariant, and the interface that the owners of tokens rely on.
\<close>

section \<open>The bitmap\<close>

lemma pri_in_use_iff_bit: "pri_in_use bits i \<longleftrightarrow> bit bits i"
  using and_exp_eq_0_iff_not_bit [of bits i] by (auto simp: pri_in_use_def push_bit_eq_mult)

lemma pri_in_use_mark:
  "i < 16 \<Longrightarrow> pri_in_use (bits OR push_bit i 1) j \<longleftrightarrow> pri_in_use bits j \<or> i = j"
  for bits :: "16 word"
  by (auto simp: pri_in_use_iff_bit bit_simps)

section \<open>add\<close>

lemma control_enter_fields:
  assumes "control_enter S pri fwd c = (token, c')"
  shows "queues c' = queues c" "n_queued c' = n_queued c" "events c' = events c"
    "errors c' = errors c" "waker c' = waker c"
    "max_pri c' = max (max_pri c) (min pri MAX_PRI)"
    "priorities c' = priorities c OR push_bit (min pri MAX_PRI) 1"
  using assms by (auto simp: control_enter_def Let_def split: prod.splits)

lemma control_enter_table:
  assumes "slab_ok S" "control_enter S pri fwd c = (token, c')"
  shows "slab_get S (token_map c) token = None"
    "slab_get S (token_map c') =
       (slab_get S (token_map c))(token \<mapsto> \<lparr>e_pri = min pri MAX_PRI, e_fwd = fwd\<rparr>)"
proof -
  let ?e = "\<lparr>e_pri = min pri MAX_PRI, e_fwd = fwd\<rparr>"
  from assms(2) have tk: "token = fst (slab_insert S ?e (token_map c))"
    and tm: "token_map c' = snd (slab_insert S ?e (token_map c))"
    by (auto simp: control_enter_def Let_def split: prod.splits)
  show "slab_get S (token_map c) token = None"
    unfolding tk by (rule slab_insert_vacant [OF assms(1)])
  show "slab_get S (token_map c') = (slab_get S (token_map c))(token \<mapsto> ?e)"
    unfolding tk tm by (rule slab_get_insert [OF assms(1)])
qed

lemma control_enter_inv:
  assumes "slab_ok S" "control_inv S c" "control_enter S pri fwd c = (token, c')"
  shows "control_inv S c'"
proof -
  note f = control_enter_fields [OF assms(3)] and t = control_enter_table [OF assms(1,3)]
  note inv = control_invD [OF assms(2)]
  let ?p = "min pri MAX_PRI"
  have p: "?p < 16" by (simp add: MAX_PRI_def)
  have bl: "backlog c' = backlog c" by (simp add: backlog_def f fun_eq_iff)
  have "e_pri en \<le> max_pri c' \<and> pri_in_use (priorities c') (e_pri en)"
    if "slab_get S (token_map c') k = Some en" for k en
    using that inv(3,4) [of k en] unfolding t(2) f(6,7) pri_in_use_mark [OF p]
    by (auto split: if_splits)
  moreover have "p < max_pri c' \<and> pri_in_use (priorities c') p" if "backlog c' p \<noteq> []" for p
    using that inv(5,6) [of p] unfolding bl f(6,7) pri_in_use_mark [OF \<open>?p < 16\<close>] by auto
  moreover have "n_queued c' = queue_total c'" using inv(7) by (simp add: queue_total_def f)
  moreover have "slab_get S (token_map c') WAKER_TOKEN \<noteq> None" using inv(8) by (auto simp: t(2))
  ultimately show ?thesis using inv(1,2) by (simp add: control_inv_def f)
qed

lemma control_add_cases:
  assumes "control_add S D handle ready pri fwd (c, w) = Some (r, c', w')"
  obtains token r0 where "control_enter S pri fwd c = (token, c')"
    "retry (so_register D handle token ready) w = Some (r0, w')"
    "r = (case r0 of Inl e \<Rightarrow> Inl e | Inr _ \<Rightarrow> Inr token)"
  using assms
  by (auto simp: control_add_def split: prod.splits option.splits sum.splits)

section \<open>del\<close>

lemma control_del_cases:
  assumes "control_del S D token handle (c, w) = Some (r, c', w')"
  obtains r0 where "retry (so_deregister D handle) w = Some (r0, w')"
    "slab_get S (token_map c) token \<noteq> None \<Longrightarrow>
       r = r0 \<and> c' = c\<lparr>token_map := slab_remove S token (token_map c)\<rparr>"
    "slab_get S (token_map c) token = None \<Longrightarrow>
       r = (case r0 of Inl e \<Rightarrow> Inl e | Inr _ \<Rightarrow> Inl (io_err NotFound)) \<and> c' = c"
proof -
  from assms obtain r0 where r0: "retry (so_deregister D handle) w = Some (r0, w')"
    by (auto simp: control_del_def split: option.splits if_splits)
  show thesis
    by (rule that [of r0]) (use assms r0 in \<open>auto simp: control_del_def split: if_splits\<close>)
qed

lemma control_inv_remove:
  assumes "slab_ok S" "control_inv S c" "token \<noteq> WAKER_TOKEN"
    and "slab_get S (token_map c) token \<noteq> None"
  shows "control_inv S (c\<lparr>token_map := slab_remove S token (token_map c)\<rparr>)"
proof -
  have "slab_get S (slab_remove S token (token_map c)) =
      (slab_get S (token_map c))(token := None)"
    by (rule slab_get_remove [OF assms(1,4)])
  with assms(2,3) show ?thesis
    by (simp add: control_inv_def backlog_def queue_total_def)
qed

lemma control_del_inv:
  assumes "slab_ok S" "control_inv S c" "token \<noteq> WAKER_TOKEN"
    and "control_del S D token handle (c, w) = Some (r, c', w')"
  shows "control_inv S c'"
  using assms(4)
  by (rule control_del_cases) (metis assms(1-3) control_inv_remove)

section \<open>set_wake_fwd\<close>

lemma control_set_wake_fwd_Ret:
  assumes "slab_ok S" "control_inv S c"
  obtains en c' where "control_set_wake_fwd S fwd c = Ret c'"
    "slab_get S (token_map c) WAKER_TOKEN = Some en"
    "c' = c\<lparr>token_map := token_map c'\<rparr>"
    "slab_get S (token_map c') = (slab_get S (token_map c))(WAKER_TOKEN \<mapsto> en\<lparr>e_fwd := fwd\<rparr>)"
proof -
  from control_invD(8) [OF assms(2)] obtain en where
    en: "slab_get S (token_map c) WAKER_TOKEN = Some en" by blast
  then have "slab_get S (slab_set S WAKER_TOKEN (en\<lparr>e_fwd := fwd\<rparr>) (token_map c)) =
      (slab_get S (token_map c))(WAKER_TOKEN \<mapsto> en\<lparr>e_fwd := fwd\<rparr>)"
    by (intro slab_get_set [OF assms(1)]) simp
  with en show thesis
    by (intro that [of "c\<lparr>token_map := slab_set S WAKER_TOKEN (en\<lparr>e_fwd := fwd\<rparr>) (token_map c)\<rparr>"])
       (simp_all add: control_set_wake_fwd_def)
qed

lemma control_set_wake_fwd_eq:
  assumes "slab_ok S" "control_inv S c" "control_set_wake_fwd S fwd c = Ret c'"
  shows "\<exists>en. slab_get S (token_map c) WAKER_TOKEN = Some en
    \<and> c' = c\<lparr>token_map := token_map c'\<rparr>
    \<and> slab_get S (token_map c') = (slab_get S (token_map c))(WAKER_TOKEN \<mapsto> en\<lparr>e_fwd := fwd\<rparr>)"
  using control_set_wake_fwd_Ret [OF assms(1,2), of fwd] assms(3) by (metis outcome.inject)

lemma control_set_wake_fwd_inv:
  assumes "slab_ok S" "control_inv S c" "control_set_wake_fwd S fwd c = Ret c'"
  shows "control_inv S c'"
proof -
  from control_set_wake_fwd_eq [OF assms] obtain en where
    en: "slab_get S (token_map c) WAKER_TOKEN = Some en"
    and c': "c' = c\<lparr>token_map := token_map c'\<rparr>"
    and tm: "slab_get S (token_map c') =
      (slab_get S (token_map c))(WAKER_TOKEN \<mapsto> en\<lparr>e_fwd := fwd\<rparr>)"
    by blast
  have "control_inv S (c\<lparr>token_map := token_map c'\<rparr>)"
    using assms(2) en by (auto simp: control_inv_def backlog_def queue_total_def tm)
  with c' show ?thesis by simp
qed

section \<open>The interface to the owners of tokens\<close>

text \<open>
  A token table hands out fresh tokens and forgets removed ones; one token is reserved. Every
  owner holds the token it was given until it removes it. The laws are what \<open>MioSource\<close> relies
  on: the tokens of all live sources stay distinct, registered and different from the reserved
  one.
\<close>

locale token_table =
  fixes tinv :: "'c \<Rightarrow> bool"
    and tlookup :: "'c \<Rightarrow> nat \<Rightarrow> 'e option"
    and tenter :: "'a \<Rightarrow> 'c \<Rightarrow> nat \<times> 'c"
    and tremove :: "nat \<Rightarrow> 'c \<Rightarrow> 'c"
    and treserved :: nat
  assumes enter_fresh: "tinv c \<Longrightarrow> tenter a c = (t, c') \<Longrightarrow> tlookup c t = None"
    and enter_stored: "tinv c \<Longrightarrow> tenter a c = (t, c') \<Longrightarrow> tlookup c' t \<noteq> None"
    and enter_others: "tinv c \<Longrightarrow> tenter a c = (t, c') \<Longrightarrow> u \<noteq> t \<Longrightarrow> tlookup c' u = tlookup c u"
    and enter_inv: "tinv c \<Longrightarrow> tenter a c = (t, c') \<Longrightarrow> tinv c'"
    and remove_lookup: "tinv c \<Longrightarrow> tlookup c t \<noteq> None \<Longrightarrow>
      tlookup (tremove t c) = (tlookup c)(t := None)"
    and remove_inv: "tinv c \<Longrightarrow> tlookup c t \<noteq> None \<Longrightarrow> t \<noteq> treserved \<Longrightarrow> tinv (tremove t c)"
    and reserved_kept: "tinv c \<Longrightarrow> tlookup c treserved \<noteq> None"
begin

definition owned :: "'c \<Rightarrow> nat list \<Rightarrow> bool" where
  "owned c ts \<longleftrightarrow> distinct ts \<and> treserved \<notin> set ts \<and> (\<forall>t\<in>set ts. tlookup c t \<noteq> None)"

lemma owned_Nil: "owned c []"
  by (simp add: owned_def)

lemma owned_enter:
  assumes "tinv c" "owned c ts" "tenter a c = (t, c')"
  shows "owned c' (t # ts)"
proof -
  have "t \<noteq> treserved" using reserved_kept enter_fresh assms(1,3) by metis
  moreover have "t \<notin> set ts" using assms(2) enter_fresh [OF assms(1,3)] by (auto simp: owned_def)
  moreover have "\<forall>u\<in>set ts. tlookup c' u \<noteq> None"
    using assms(2) enter_others [OF assms(1,3)] \<open>t \<notin> set ts\<close> by (metis owned_def)
  ultimately show ?thesis
    using assms(2) enter_stored [OF assms(1,3)] by (simp add: owned_def)
qed

lemma owned_enter_keep:
  assumes "tinv c" "owned c ts" "tenter a c = (t, c')"
  shows "owned c' ts"
  using owned_enter [OF assms] by (simp add: owned_def)

lemma owned_remove:
  assumes "tinv c" "owned c (ts @ t # us)"
  shows "tlookup c t \<noteq> None" "owned (tremove t c) (ts @ us)" "tinv (tremove t c)"
proof -
  show t: "tlookup c t \<noteq> None" using assms(2) by (simp add: owned_def)
  show "owned (tremove t c) (ts @ us)"
    using assms(2) by (auto simp: owned_def remove_lookup [OF assms(1) t])
  show "tinv (tremove t c)"
    using remove_inv [OF assms(1) t] assms(2) by (auto simp: owned_def)
qed

lemma owned_same_lookup: "tlookup c' = tlookup c \<Longrightarrow> owned c' ts = owned c ts"
  by (simp add: owned_def)

lemma owned_same_dom: "dom (tlookup c') = dom (tlookup c) \<Longrightarrow> owned c ts \<Longrightarrow> owned c' ts"
  by (auto simp: owned_def dom_def set_eq_iff)

end

definition control_ok :: "('sl, 'f entry) slab_ops \<Rightarrow> ('sl, 'k) control \<Rightarrow> bool" where
  "control_ok S c \<longleftrightarrow> slab_ok S \<and> control_inv S c"

definition control_lookup ::
  "('sl, 'f entry) slab_ops \<Rightarrow> ('sl, 'k) control \<Rightarrow> nat \<Rightarrow> 'f entry option" where
  "control_lookup S c = slab_get S (token_map c)"

definition control_remove ::
  "('sl, 'f entry) slab_ops \<Rightarrow> nat \<Rightarrow> ('sl, 'k) control \<Rightarrow> ('sl, 'k) control" where
  "control_remove S token c = c\<lparr>token_map := slab_remove S token (token_map c)\<rparr>"

interpretation table: token_table "control_ok S" "control_lookup S"
    "\<lambda>(pri, fwd). control_enter S pri fwd" "control_remove S" WAKER_TOKEN
  for S :: "('sl, 'f entry) slab_ops"
proof (unfold_locales, goal_cases)
  case (1 c a t c')
  then show ?case
    by (auto simp: control_ok_def control_lookup_def control_enter_table split: prod.splits)
next
  case (2 c a t c')
  then show ?case
    by (auto simp: control_ok_def control_lookup_def control_enter_table split: prod.splits)
next
  case (3 c a t c' u)
  then show ?case
    by (auto simp: control_ok_def control_lookup_def control_enter_table split: prod.splits)
next
  case (4 c a t c')
  then show ?case by (auto simp: control_ok_def control_enter_inv split: prod.splits)
next
  case (5 c t)
  then show ?case
    by (simp add: control_ok_def control_lookup_def control_remove_def slab_get_remove)
next
  case (6 c t)
  then show ?case
    by (simp add: control_ok_def control_lookup_def control_remove_def control_inv_remove)
next
  case (7 c)
  then show ?case using control_invD(8) by (auto simp: control_ok_def control_lookup_def)
qed

end
