(* ===== verification/Mio_Poll.thy ===== *)
theory Mio_Poll
  imports Control_Ops
begin

text \<open>
  \<open>MioPoll\<close> and \<open>MioSource\<close> of src/miopoll.rs. Both share one \<open>Rc<RefCell<Control>>\<close>, so
  their operations pass the one \<open>Control\<close> value along with the world. Each operation borrows
  the cell for its whole duration and a handler must not call back into it while it runs
  (the borrow would panic); Stakker's forwards defer their work, and the model here records the
  calls instead of running them inside the poll. \<open>Shared_Cell\<close> has the references and the borrows.

  The last part puts the operations together: a system of one \<open>Control\<close> and the live
  \<open>MioSource\<close> values, its step relation, and what holds in all its reachable states.
\<close>

section \<open>MioSource\<close>

record 's mio_source =
  ms_token :: nat
  ms_source :: 's

definition mio_source_drop ::
  "('sl, 'f entry) slab_ops \<Rightarrow> ('s, 'w) source_ops \<Rightarrow> 's mio_source
    \<Rightarrow> ('sl, 'k) control \<times> 'w \<Rightarrow> (('sl, 'k) control \<times> 'w) option" where
  "mio_source_drop S D ms = (\<lambda>(c, w).
     case control_del S D (ms_token ms) (ms_source ms) (c, w) of
       None \<Rightarrow> None
     | Some (Inl e, c', w') \<Rightarrow> Some (c'\<lparr>errors := errors c' @ [e]\<rparr>, w')
     | Some (Inr _, c', w') \<Rightarrow> Some (c', w'))"

section \<open>MioPoll\<close>

definition mio_poll_new ::
  "('sl, 'f entry) slab_ops \<Rightarrow> ('k, 'w) poll_ops \<Rightarrow> ('f, 'k, 'st) stakker_ops
    \<Rightarrow> event list \<Rightarrow> nat \<Rightarrow> 'st \<times> 'w \<Rightarrow> (('sl, 'k) control io \<times> 'st \<times> 'w) exec" where
  "mio_poll_new S P K events0 waker_pri0 = (\<lambda>(st, w).
     let waker_pri = min waker_pri0 MAX_PRI;
         (key, tm) = slab_insert S \<lparr>e_pri = waker_pri, e_fwd = sk_fwd_nop K\<rparr>
                       (slab_with_capacity S 256)
     in if key \<noteq> WAKER_TOKEN then Some Panic
        else (case retry (po_waker_new P WAKER_TOKEN) w of
                None \<Rightarrow> None
              | Some (Inl e, w') \<Rightarrow> Some (Ret (Inl e, st, w'))
              | Some (Inr wk, w') \<Rightarrow>
                  let ctrl = \<lparr>token_map = tm, queues = replicate MAX_PRI [], n_queued = 0,
                              max_pri = waker_pri, priorities = push_bit waker_pri 1,
                              events = events0, errors = [], waker = wk\<rparr>
                  in Some (obind (control_set_wake_fwd S (sk_poll_wake_fwd K st) ctrl)
                       (\<lambda>ctrl'. Ret (Inr ctrl', sk_set_poll_waker K wk (sk_anymap_set_miopoll K st), w')))))"

text \<open>The closure given to \<open>set_poll_waker\<close>: a wake that fails for good is a panic.\<close>

definition poll_waker :: "('k, 'w) poll_ops \<Rightarrow> 'k \<Rightarrow> 'w \<Rightarrow> 'w exec" where
  "poll_waker P wk w =
     (case retry (po_wake P wk) w of
        None \<Rightarrow> None
      | Some (Inl e, w') \<Rightarrow> Some Panic
      | Some (Inr _, w') \<Rightarrow> Some (Ret w'))"

definition mio_poll_add ::
  "('sl, 'f entry) slab_ops \<Rightarrow> ('s, 'w) source_ops \<Rightarrow> 's \<Rightarrow> interest \<Rightarrow> nat \<Rightarrow> 'f
    \<Rightarrow> ('sl, 'k) control \<times> 'w \<Rightarrow> ('s mio_source io \<times> ('sl, 'k) control \<times> 'w) option" where
  "mio_poll_add S D source ready pri fwd cw =
     (case control_add S D source ready pri fwd cw of
        None \<Rightarrow> None
      | Some (Inl e, cw') \<Rightarrow> Some (Inl e, cw')
      | Some (Inr token, cw') \<Rightarrow> Some (Inr \<lparr>ms_token = token, ms_source = source\<rparr>, cw'))"

definition mio_poll_poll ::
  "('sl, 'f entry) slab_ops \<Rightarrow> ('k, 'w) poll_ops \<Rightarrow> nat \<Rightarrow> ('sl, 'k) control \<times> 'w
    \<Rightarrow> ((bool \<times> bool) io \<times> ('sl, 'k) control \<times> 'f call list \<times> 'w) exec" where
  "mio_poll_poll S P max_delay cw = control_poll S P max_delay cw"

definition mio_poll_set_wake_fwd ::
  "('sl, 'f entry) slab_ops \<Rightarrow> 'f \<Rightarrow> ('sl, 'k) control \<Rightarrow> ('sl, 'k) control outcome" where
  "mio_poll_set_wake_fwd S fwd c = control_set_wake_fwd S fwd c"

definition mio_poll_waker :: "('sl, 'k) control \<Rightarrow> 'k" where
  "mio_poll_waker c = waker c"

section \<open>Creation\<close>

lemma mio_poll_new_Ret:
  assumes S: "slab_ok S" and wk: "retry (po_waker_new P WAKER_TOKEN) w = Some (Inr k, w')"
  obtains c where "mio_poll_new S P K evs pri (st, w) =
      Some (Ret (Inr c, sk_set_poll_waker K k (sk_anymap_set_miopoll K st), w'))"
    "control_inv S c" "errors c = []" "waker c = k" "max_pri c = min pri MAX_PRI"
    "n_queued c = 0"
    "slab_get S (token_map c) =
       [WAKER_TOKEN \<mapsto> \<lparr>e_pri = min pri MAX_PRI, e_fwd = sk_poll_wake_fwd K st\<rparr>]"
proof -
  let ?p = "min pri MAX_PRI"
  let ?e = "\<lparr>e_pri = ?p, e_fwd = sk_fwd_nop K\<rparr>"
  let ?sl = "slab_with_capacity S 256"
  obtain key tm where ins: "slab_insert S ?e ?sl = (key, tm)" by fastforce
  have key: "key = WAKER_TOKEN"
    using slab_first_key [OF S, of ?e 256] ins by (simp add: WAKER_TOKEN_def)
  have tm: "slab_get S tm = [WAKER_TOKEN \<mapsto> ?e]"
    using slab_get_insert [OF S, of ?e ?sl] ins slab_get_new [OF S, of 256] key
    by (simp add: fun_eq_iff)
  let ?c = "\<lparr>token_map = tm, queues = replicate MAX_PRI [], n_queued = 0, max_pri = ?p,
     priorities = push_bit ?p 1, events = evs, errors = [], waker = k\<rparr> :: ('a, 'c) control"
  have "pri_in_use (push_bit ?p 1) ?p"
    by (simp add: pri_in_use_iff_bit bit_simps MAX_PRI_def)
  then have inv: "control_inv S ?c"
    by (auto simp: control_inv_def tm backlog_def queue_total_def sum_list_replicate
        split: if_splits)
  from control_set_wake_fwd_Ret [OF S inv, of "sk_poll_wake_fwd K st"] obtain en c where
    c: "control_set_wake_fwd S (sk_poll_wake_fwd K st) ?c = Ret c"
      "slab_get S tm WAKER_TOKEN = Some en" "c = ?c\<lparr>token_map := token_map c\<rparr>"
      "slab_get S (token_map c) = (slab_get S tm)(WAKER_TOKEN \<mapsto> en\<lparr>e_fwd := sk_poll_wake_fwd K st\<rparr>)"
    by (metis control.select_convs(1))
  have "slab_get S (token_map c) =
      [WAKER_TOKEN \<mapsto> \<lparr>e_pri = ?p, e_fwd = sk_poll_wake_fwd K st\<rparr>]"
    using c(2,4) tm by auto
  moreover have "mio_poll_new S P K evs pri (st, w) =
      Some (Ret (Inr c, sk_set_poll_waker K k (sk_anymap_set_miopoll K st), w'))"
    using ins key wk c(1) by (simp add: mio_poll_new_def Let_def)
  moreover have "control_inv S c" by (rule control_set_wake_fwd_inv [OF S inv c(1)])
  moreover have "errors c = []" "waker c = k" "max_pri c = ?p" "n_queued c = 0"
    by (subst c(3), simp)+
  ultimately show thesis by (intro that)
qed

lemma mio_poll_new_Err:
  assumes S: "slab_ok S" and wk: "retry (po_waker_new P WAKER_TOKEN) w = Some (Inl e, w')"
  shows "mio_poll_new S P K evs pri (st, w) = Some (Ret (Inl e, st, w'))"
proof -
  let ?e = "\<lparr>e_pri = min pri MAX_PRI, e_fwd = sk_fwd_nop K\<rparr>"
  have "fst (slab_insert S ?e (slab_with_capacity S 256)) = WAKER_TOKEN"
    using slab_first_key [OF S] by (simp add: WAKER_TOKEN_def)
  with wk show ?thesis
    by (cases "slab_insert S ?e (slab_with_capacity S 256)") (simp add: mio_poll_new_def Let_def)
qed

section \<open>The system\<close>

text \<open>One \<open>Control\<close>, the \<open>MioSource\<close> values that have not been dropped, and the world.\<close>

record ('sl, 'k, 's, 'w) mio_system =
  sys_ctl :: "('sl, 'k) control"
  sys_live :: "'s mio_source list"
  sys_world :: 'w

text \<open>
  The steps: registering a source (successfully or not), dropping one, polling (successfully
  or not), replacing the wake handler, storing another source through \<open>DerefMut\<close>, and anything
  the operating system, the peers and the other threads do to the world in between.
\<close>

inductive mio_step ::
  "('sl, 'f entry) slab_ops \<Rightarrow> ('s, 'w) source_ops \<Rightarrow> ('k, 'w) poll_ops
    \<Rightarrow> ('sl, 'k, 's, 'w) mio_system \<Rightarrow> ('sl, 'k, 's, 'w) mio_system \<Rightarrow> bool"
  for S D P where
  step_add: "mio_poll_add S D src ready pri fwd (sys_ctl s, sys_world s) = Some (Inr ms, c', w') \<Longrightarrow>
     mio_step S D P s (s\<lparr>sys_ctl := c', sys_live := ms # sys_live s, sys_world := w'\<rparr>)"
| step_add_err: "mio_poll_add S D src ready pri fwd (sys_ctl s, sys_world s) = Some (Inl e, c', w') \<Longrightarrow>
     mio_step S D P s (s\<lparr>sys_ctl := c', sys_world := w'\<rparr>)"
| step_drop: "sys_live s = xs @ ms # ys \<Longrightarrow>
     mio_source_drop S D ms (sys_ctl s, sys_world s) = Some (c', w') \<Longrightarrow>
     mio_step S D P s (s\<lparr>sys_ctl := c', sys_live := xs @ ys, sys_world := w'\<rparr>)"
| step_poll: "mio_poll_poll S P d (sys_ctl s, sys_world s) = Some (Ret (r, c', calls, w')) \<Longrightarrow>
     mio_step S D P s (s\<lparr>sys_ctl := c', sys_world := w'\<rparr>)"
| step_wake_fwd: "mio_poll_set_wake_fwd S fwd (sys_ctl s) = Ret c' \<Longrightarrow>
     mio_step S D P s (s\<lparr>sys_ctl := c'\<rparr>)"
| step_source: "sys_live s = xs @ ms # ys \<Longrightarrow>
     mio_step S D P s (s\<lparr>sys_live := xs @ ms\<lparr>ms_source := src\<rparr> # ys\<rparr>)"
| step_world: "mio_step S D P s (s\<lparr>sys_world := w'\<rparr>)"

inductive mio_reachable ::
  "('sl, 'f entry) slab_ops \<Rightarrow> ('s, 'w) source_ops \<Rightarrow> ('k, 'w) poll_ops
    \<Rightarrow> ('f, 'k, 'st) stakker_ops \<Rightarrow> ('sl, 'k, 's, 'w) mio_system \<Rightarrow> bool"
  for S D P K where
  reach_new: "mio_poll_new S P K evs pri (st, w) = Some (Ret (Inr c, st', w')) \<Longrightarrow>
     mio_reachable S D P K \<lparr>sys_ctl = c, sys_live = [], sys_world = w'\<rparr>"
| reach_step: "mio_reachable S D P K s \<Longrightarrow> mio_step S D P s t \<Longrightarrow> mio_reachable S D P K t"

text \<open>
  The invariant of the system: that of \<open>Control\<close>, and every live source owns a registered
  token that no other source has and that is not the waker's.
\<close>

definition tokens_owned ::
  "('sl, 'f entry) slab_ops \<Rightarrow> ('sl, 'k) control \<Rightarrow> nat list \<Rightarrow> bool" where
  "tokens_owned S c ts \<longleftrightarrow> distinct ts \<and> WAKER_TOKEN \<notin> set ts \<and>
     (\<forall>t\<in>set ts. slab_get S (token_map c) t \<noteq> None)"

definition mio_inv :: "('sl, 'f entry) slab_ops \<Rightarrow> ('sl, 'k, 's, 'w) mio_system \<Rightarrow> bool" where
  "mio_inv S s \<longleftrightarrow> control_inv S (sys_ctl s) \<and>
     tokens_owned S (sys_ctl s) (map ms_token (sys_live s))"

lemma owned_eq: "token_table.owned (control_lookup S) WAKER_TOKEN c ts \<longleftrightarrow> tokens_owned S c ts"
  by (simp add: table.owned_def tokens_owned_def control_lookup_def)

lemmas owned_enter = table.owned_enter [unfolded owned_eq control_ok_def]
lemmas owned_enter_keep = table.owned_enter_keep [unfolded owned_eq control_ok_def]
lemmas owned_remove = table.owned_remove [unfolded owned_eq control_ok_def control_lookup_def]

lemma tokens_owned_registration:
  "same_registration c c' \<Longrightarrow> tokens_owned S c' ts = tokens_owned S c ts"
  by (simp add: tokens_owned_def same_registration_def)

section \<open>Every step keeps the invariant\<close>

lemma mio_poll_add_cases:
  assumes "mio_poll_add S D src ready pri fwd (c, w) = Some (r, c', w')"
  obtains token r0 where "control_enter S pri fwd c = (token, c')"
    "retry (so_register D src token ready) w = Some (r0, w')"
    "r = (case r0 of Inl e \<Rightarrow> Inl e | Inr _ \<Rightarrow> Inr \<lparr>ms_token = token, ms_source = src\<rparr>)"
proof -
  from assms obtain r1 where r1: "control_add S D src ready pri fwd (c, w) = Some (r1, c', w')"
    and r: "r = (case r1 of Inl e \<Rightarrow> Inl e | Inr t \<Rightarrow> Inr \<lparr>ms_token = t, ms_source = src\<rparr>)"
    by (auto simp: mio_poll_add_def split: option.splits sum.splits)
  from r1 show thesis
    by (rule control_add_cases) (auto simp: r intro!: that split: sum.splits)
qed

lemma mio_source_drop_cases:
  assumes "mio_source_drop S D ms (c, w) = Some (c', w')"
  obtains r c1 where "control_del S D (ms_token ms) (ms_source ms) (c, w) = Some (r, c1, w')"
    "c' = (case r of Inl e \<Rightarrow> c1\<lparr>errors := errors c1 @ [e]\<rparr> | Inr _ \<Rightarrow> c1)"
  using assms by (auto simp: mio_source_drop_def split: option.splits sum.splits)

lemma control_inv_errors [simp]: "control_inv S (c\<lparr>errors := es\<rparr>) = control_inv S c"
  by (simp add: control_inv_def backlog_def queue_total_def)

lemma tokens_owned_errors [simp]:
  "tokens_owned S (c\<lparr>errors := es\<rparr>) ts = tokens_owned S c ts"
  by (simp add: tokens_owned_def)

text \<open>
  Dropping a source that owns its token: the token is removed from the table, and the only
  error that can be recorded is the one mio gave for the deregistration.
\<close>

lemma mio_source_drop_owned:
  assumes S: "slab_ok S" and inv: "control_inv S c"
    and own: "tokens_owned S c (ts @ ms_token ms # us)"
    and drop: "mio_source_drop S D ms (c, w) = Some (c', w')"
  obtains r where "retry (so_deregister D (ms_source ms)) w = Some (r, w')"
    "control_inv S c'" "tokens_owned S c' (ts @ us)"
    "slab_get S (token_map c') = (slab_get S (token_map c))(ms_token ms := None)"
    "errors c' = errors c @ (case r of Inl e \<Rightarrow> [e] | Inr _ \<Rightarrow> [])"
    "queues c' = queues c" "n_queued c' = n_queued c"
proof -
  note rem = owned_remove [OF conjI [OF S inv] own]
  from drop obtain r c1 where del: "control_del S D (ms_token ms) (ms_source ms) (c, w) = Some (r, c1, w')"
    and c': "c' = (case r of Inl e \<Rightarrow> c1\<lparr>errors := errors c1 @ [e]\<rparr> | Inr _ \<Rightarrow> c1)"
    by (rule mio_source_drop_cases)
  from del obtain r0 where "retry (so_deregister D (ms_source ms)) w = Some (r0, w')"
    and "r = r0" "c1 = control_remove S (ms_token ms) c"
    by (rule control_del_cases) (use rem(1) in \<open>auto simp: control_remove_def\<close>)
  moreover have "slab_get S (slab_remove S (ms_token ms) (token_map c)) =
      (slab_get S (token_map c))(ms_token ms := None)"
    by (rule slab_get_remove [OF S rem(1)])
  ultimately show thesis
    using rem(2,3) c' by (intro that [of r]) (auto simp: control_remove_def split: sum.splits)
qed

lemma mio_step_inv:
  assumes "mio_step S D P s t" "slab_ok S" "mio_inv S s"
  shows "mio_inv S t"
  using assms
proof (induction rule: mio_step.induct)
  case (step_add src ready pri fwd s ms c' w')
  then have inv: "slab_ok S \<and> control_inv S (sys_ctl s)"
    and own: "tokens_owned S (sys_ctl s) (map ms_token (sys_live s))"
    by (simp_all add: mio_inv_def)
  from step_add.hyps obtain token r0 where
    enter: "control_enter S pri fwd (sys_ctl s) = (token, c')" and "ms_token ms = token"
    by (rule mio_poll_add_cases) (auto split: sum.splits)
  with owned_enter [OF inv own, of "(pri, fwd)"] control_enter_inv inv
  show ?case by (fastforce simp: mio_inv_def)
next
  case (step_add_err src ready pri fwd s e c' w')
  then have inv: "slab_ok S \<and> control_inv S (sys_ctl s)"
    and own: "tokens_owned S (sys_ctl s) (map ms_token (sys_live s))"
    by (simp_all add: mio_inv_def)
  from step_add_err.hyps obtain token where
    enter: "control_enter S pri fwd (sys_ctl s) = (token, c')"
    by (rule mio_poll_add_cases)
  with owned_enter_keep [OF inv own, of "(pri, fwd)"] control_enter_inv inv
  show ?case by (fastforce simp: mio_inv_def)
next
  case (step_drop s xs ms ys c' w')
  then have "control_inv S (sys_ctl s)"
    "tokens_owned S (sys_ctl s) (map ms_token xs @ ms_token ms # map ms_token ys)"
    by (simp_all add: mio_inv_def)
  then show ?case
    by (rule mio_source_drop_owned [OF step_drop.prems(1) _ _ step_drop.hyps(2)])
       (simp add: mio_inv_def)
next
  case (step_poll d s r c' calls w')
  show ?case
  proof (cases r)
    case (Inl e)
    with step_poll show ?thesis
      by (auto simp: mio_poll_poll_def control_poll_def mio_inv_def control_inv_def
          tokens_owned_def obind_eq_Ret split: option.splits sum.splits)
  next
    case (Inr flags)
    with step_poll have "control_inv S (sys_ctl s)"
      "control_poll S P d (sys_ctl s, sys_world s) = Some (Ret (Inr (fst flags, snd flags), c', calls, w'))"
      by (simp_all add: mio_poll_poll_def mio_inv_def)
    then show ?thesis
      by (rule control_poll_returned)
         (use step_poll.prems in \<open>simp add: mio_inv_def tokens_owned_registration\<close>)
  qed
next
  case (step_wake_fwd fwd s c')
  then have "slab_ok S" "control_inv S (sys_ctl s)" "control_set_wake_fwd S fwd (sys_ctl s) = Ret c'"
    by (simp_all add: mio_poll_set_wake_fwd_def mio_inv_def)
  moreover have "tokens_owned S c' ts" if "tokens_owned S (sys_ctl s) ts" for ts
    using that control_set_wake_fwd_eq [OF calculation] by (auto simp: tokens_owned_def)
  ultimately show ?case
    using control_set_wake_fwd_inv step_wake_fwd.prems by (auto simp: mio_inv_def)
next
  case (step_source s xs ms ys src)
  then show ?case by (simp add: mio_inv_def)
next
  case (step_world s w')
  then show ?case by (simp add: mio_inv_def)
qed

lemma mio_reachable_inv:
  assumes "mio_reachable S D P K s" "slab_ok S"
  shows "mio_inv S s"
  using assms
proof (induction rule: mio_reachable.induct)
  case (reach_new evs pri st w c st' w')
  then obtain k w'' where "retry (po_waker_new P WAKER_TOKEN) w = Some (Inr k, w'')"
    using mio_poll_new_Err [OF \<open>slab_ok S\<close>]
    by (fastforce simp: mio_poll_new_def Let_def split: option.splits prod.splits sum.splits if_splits)
  from mio_poll_new_Ret [OF \<open>slab_ok S\<close> this] reach_new have "control_inv S c"
    by (metis Inr_inject fst_conv option.inject outcome.inject)
  then show ?case by (simp add: mio_inv_def tokens_owned_def)
next
  case (reach_step s t)
  then show ?case by (blast intro: mio_step_inv)
qed

inductive_cases mio_stepE: "mio_step S D P s t"

end
