(* ===== verification/Mio_Properties.thy ===== *)
theory Mio_Properties
  imports Mio_Poll
begin

text \<open>
  The properties of \<open>MioPoll\<close>, \<open>MioSource\<close> and \<open>Control\<close>, each with a witness on a concrete
  control block in a scripted environment.
\<close>

section \<open>A scripted environment\<close>

text \<open>
  The world is the list of answers mio will give to \<open>poll\<close>; an exhausted script reports
  nothing. Registration fails for the source 99 and succeeds for the others;
  deregistration fails for the source 98.
\<close>

type_synonym script = "(unit io \<times> event list) list"

definition demo_event :: "nat \<Rightarrow> event" where
  "demo_event t = \<lparr>ev_token = t, ev_is_readable = True, ev_is_writable = False,
     ev_is_error = False, ev_is_read_closed = False, ev_is_write_closed = False,
     ev_is_priority = False, ev_is_aio = False, ev_is_lio = False\<rparr>"

definition script_poll :: "nat \<Rightarrow> event list \<times> script \<Rightarrow> unit io \<times> (event list \<times> script)" where
  "script_poll d = (\<lambda>(evs, w). case w of [] \<Rightarrow> (Inr (), [], []) | (r, evs') # w' \<Rightarrow> (r, evs', w'))"

definition script_poll_ops :: "(nat, script) poll_ops" where
  "script_poll_ops = \<lparr>po_poll = script_poll, po_waker_new = (\<lambda>t w. (Inr 7, w)),
     po_wake = (\<lambda>k w. (Inr (), w))\<rparr>"

definition script_source_ops :: "(nat, script) source_ops" where
  "script_source_ops =
     \<lparr>so_register = (\<lambda>s t i w. (if s = 99 then Inl (io_err Other) else Inr (), w)),
      so_reregister = (\<lambda>s t i w. (Inr (), w)),
      so_deregister = (\<lambda>s w. (if s = 98 then Inl (io_err Other) else Inr (), w))\<rparr>"

definition script_stakker_ops :: "(string, nat, nat) stakker_ops" where
  "script_stakker_ops =
     \<lparr>sk_fwd_nop = ''nop'', sk_poll_wake_fwd = (\<lambda>st. ''wake''),
      sk_anymap_set_miopoll = (\<lambda>st. st + 1), sk_set_poll_waker = (\<lambda>k st. st + 10)\<rparr>"

text \<open>
  A control block with a waker at priority 10 and sources at the priorities 3 (token 1),
  10 (token 2) and 5 (token 3). One event waits at priority 3, and at priority 5 one whose
  source is gone.
\<close>

abbreviation rd_ready :: ready where
  "rd_ready \<equiv> Ready 1"

definition demo_control :: "(string entry option list, nat) control" where
  "demo_control =
     \<lparr>token_map = [Some \<lparr>e_pri = 10, e_fwd = ''wake''\<rparr>, Some \<lparr>e_pri = 3, e_fwd = ''lo''\<rparr>,
                   Some \<lparr>e_pri = 10, e_fwd = ''hi''\<rparr>, Some \<lparr>e_pri = 5, e_fwd = ''mid''\<rparr>],
      queues = [[], [], [], [\<lparr>q_token = 1, q_ready = rd_ready\<rparr>], [],
                [\<lparr>q_token = 9, q_ready = rd_ready\<rparr>], [], [], [], []],
      n_queued = 2, max_pri = 10, priorities = 1064, events = [], errors = [], waker = 7\<rparr>"

lemma ready_new_demo [simp]: "ready_new (demo_event t) = rd_ready"
  by (simp add: ready_new_def demo_event_def test_flag_def READY_RD_def)

lemma ev_token_demo [simp]: "ev_token (demo_event t) = t"
  by (simp add: demo_event_def)

lemma all_less_Suc: "(\<forall>p<Suc n. Q p) \<longleftrightarrow> Q n \<and> (\<forall>p<n. Q p)"
  using less_Suc_eq by auto

lemma slots_get_sel [simp]: "slab_get slots_ops = slots_get"
  by (simp add: slots_ops_def)

lemma slots_get_set: "slots_get xs k = Some en \<Longrightarrow> Some en \<in> set xs"
  by (auto simp: slots_get_def split: if_splits dest: nth_mem)

lemma demo_bits: "pri_in_use 1064 10" "pri_in_use 1064 5" "pri_in_use 1064 3"
  by (simp_all add: pri_in_use_def)

lemma demo_entries:
  "slots_get (token_map demo_control) k = Some en \<Longrightarrow>
     e_pri en \<le> 10 \<and> pri_in_use 1064 (e_pri en)"
  by (drule slots_get_set) (auto simp: demo_control_def demo_bits)

lemma demo_backlog:
  "backlog demo_control p =
     (if p = 3 then [\<lparr>q_token = 1, q_ready = rd_ready\<rparr>]
      else if p = 5 then [\<lparr>q_token = 9, q_ready = rd_ready\<rparr>] else [])"
  by (auto simp: backlog_def demo_control_def nth_Cons')

lemma demo_control_inv: "control_inv slots_ops demo_control"
proof -
  have "p < 10 \<and> pri_in_use 1064 p" if "backlog demo_control p \<noteq> []" for p
    using that demo_bits by (auto simp: demo_backlog split: if_splits)
  moreover have "length (queues demo_control) = 10" "max_pri demo_control = 10"
      "priorities demo_control = 1064" "n_queued demo_control = queue_total demo_control"
      "slots_get (token_map demo_control) 0 \<noteq> None"
    by (simp_all add: demo_control_def queue_total_def slots_get_def)
  ultimately show ?thesis
    using demo_entries by (simp add: control_inv_def WAKER_TOKEN_def MAX_PRI_def)
qed

text \<open>Two answers of mio: an interrupted call, then events for the tokens 2, 3 and 9.\<close>

definition demo_script :: script where
  "demo_script =
     [(Inl (io_err Interrupted), []),
      (Inr (), [demo_event 2, demo_event 3, demo_event 9])]"

lemma script_poll_sel [simp]: "po_poll script_poll_ops = script_poll"
  by (simp add: script_poll_ops_def)

lemma demo_events [simp]: "events demo_control = []"
  by (simp add: demo_control_def)

lemma demo_retry:
  "retry (script_poll d) ([], demo_script) =
     Some (Inr (), [demo_event 2, demo_event 3, demo_event 9], [])"
  by (simp add: demo_script_def script_poll_def retry_unfold)

lemma demo_retry_full:
  "retry (po_poll script_poll_ops d) (events demo_control, demo_script) =
     Some (Inr (), [demo_event 2, demo_event 3, demo_event 9], [])"
  using demo_retry by simp

lemma demo_spec_poll:
  obtains B where "spec_poll slots_ops (token_map demo_control) (max_pri demo_control)
      [demo_event 2, demo_event 3, demo_event 9] (backlog demo_control) =
    ([(''hi'', rd_ready)], B)"
proof -
  have "fst (spec_poll slots_ops (token_map demo_control) (max_pri demo_control)
      [demo_event 2, demo_event 3, demo_event 9] (backlog demo_control)) = [(''hi'', rd_ready)]"
    by code_simp
  then show thesis by (metis prod.collapse that)
qed

lemma demo_poll:
  obtains b c' where "mio_poll_poll slots_ops script_poll_ops d (demo_control, demo_script) =
      Some (Ret (Inr (True, b), c', [(''hi'', rd_ready)], []))"
proof -
  obtain B where "spec_poll slots_ops (token_map demo_control) (max_pri demo_control)
      [demo_event 2, demo_event 3, demo_event 9] (backlog demo_control) =
    ([(''hi'', rd_ready)], B)" by (rule demo_spec_poll)
  from control_poll_Ok [OF demo_control_inv demo_retry_full this, of d] show thesis
    by (auto simp: mio_poll_poll_def intro: that)
qed

section \<open>Polling\<close>

text \<open>C1. \<open>MioPoll::poll\<close> implements the abstract poller. Whenever mio delivers events, the
  poll does not panic, it calls exactly the handlers the specification \<open>spec_poll\<close> calls, in
  that order, leaves exactly the backlog it leaves, and answers \<open>(activity, io_pending)\<close> with
  "some handler was called" and "some event is still queued". The invariant of \<open>Control\<close> is
  kept and the registrations are untouched.\<close>

theorem poll_refines_spec:
  assumes "control_inv S c"
    and "retry (po_poll P d) (events c, w) = Some (Inr u, evs, w')"
    and "spec_poll S (token_map c) (max_pri c) evs (backlog c) = (cs, B)"
  shows "\<exists>c'. mio_poll_poll S P d (c, w) = Some (Ret (Inr (cs \<noteq> [], \<exists>p. B p \<noteq> []), c', cs, w'))
      \<and> control_inv S c' \<and> same_registration c c' \<and> events c' = [] \<and> backlog c' = B"
  unfolding mio_poll_poll_def by (rule control_poll_Ok [OF assms])

theorem poll_refines_spec_witness:
  "\<exists>c' b. mio_poll_poll slots_ops script_poll_ops 5 (demo_control, demo_script) =
      Some (Ret (Inr (True, b), c', [(''hi'', rd_ready)], [])) \<and> control_inv slots_ops c'"
proof -
  obtain B where "spec_poll slots_ops (token_map demo_control) (max_pri demo_control)
      [demo_event 2, demo_event 3, demo_event 9] (backlog demo_control) =
    ([(''hi'', rd_ready)], B)" by (rule demo_spec_poll)
  from poll_refines_spec [OF demo_control_inv demo_retry_full this, of 5] show ?thesis by auto
qed

text \<open>C4. Priorities: a poll that calls handlers serves exactly one priority. With the new
  events appended to the queues, it calls the handlers of all live events of that priority
  in order; no priority above it had a live event; every queue at or above it ends up empty
  and every queue below it is unchanged. A poll that calls nothing found no live event at all
  and leaves every queue empty.\<close>

theorem poll_serves_highest_priority:
  assumes "control_inv S c"
    and "retry (po_poll P d) (events c, w) = Some (Inr u, evs, w')"
    and "mio_poll_poll S P d (c, w) = Some (Ret (Inr (activity, pending), c', cs, w''))"
  shows "(activity \<longrightarrow> cs \<noteq> [] \<and> (\<exists>p\<le>max_pri c.
          cs = live_calls S (token_map c) (merged S c evs p)
        \<and> (\<forall>q>p. live_calls S (token_map c) (merged S c evs q) = [])
        \<and> (\<forall>q\<ge>p. backlog c' q = []) \<and> (\<forall>q<p. backlog c' q = merged S c evs q)))
    \<and> (\<not> activity \<longrightarrow> cs = [] \<and> (\<forall>q. backlog c' q = [])
        \<and> (\<forall>q. live_calls S (token_map c) (merged S c evs q) = []))"
proof -
  from control_poll_returned [OF assms(1) assms(3) [unfolded mio_poll_poll_def]]
  obtain u' evs' where "retry (po_poll P d) (events c, w) = Some (Inr u', evs', w'')"
    and sp: "spec_poll S (token_map c) (max_pri c) evs' (backlog c) = (cs, backlog c')"
    and act: "activity = (cs \<noteq> [])"
    by metis
  with assms(2) have "evs' = evs" by simp
  with spec_poll_parts [OF assms(1) sp] act show ?thesis by auto
qed

theorem poll_serves_highest_priority_witness:
  "\<exists>c' b cs. mio_poll_poll slots_ops script_poll_ops 5 (demo_control, demo_script) =
      Some (Ret (Inr (True, b), c', cs, [])) \<and>
    (\<exists>p\<le>10. cs = live_calls slots_ops (token_map demo_control)
        (merged slots_ops demo_control [demo_event 2, demo_event 3, demo_event 9] p)
      \<and> (\<forall>q\<ge>p. backlog c' q = []))"
proof -
  obtain b c' where run: "mio_poll_poll slots_ops script_poll_ops 5 (demo_control, demo_script) =
      Some (Ret (Inr (True, b), c', [(''hi'', rd_ready)], []))" by (rule demo_poll)
  have "max_pri demo_control = 10" by (simp add: demo_control_def)
  with poll_serves_highest_priority [OF demo_control_inv demo_retry_full run] run show ?thesis by auto
qed

text \<open>The flags: \<open>activity\<close> is true exactly if a handler was called, \<open>io_pending\<close> exactly
  if the counter of queued events is not zero, and \<open>io_pending\<close> is never true without
  \<open>activity\<close>: a main loop that sees no activity may sleep, nothing is waiting.\<close>

theorem poll_flags:
  assumes "control_inv S c"
    and "mio_poll_poll S P d (c, w) = Some (Ret (Inr (activity, pending), c', cs, w'))"
  shows "(activity \<longleftrightarrow> cs \<noteq> []) \<and> (pending \<longleftrightarrow> 0 < n_queued c') \<and> (pending \<longrightarrow> activity)"
proof -
  from control_poll_returned [OF assms(1) assms(2) [unfolded mio_poll_poll_def]]
  obtain evs where sp: "spec_poll S (token_map c) (max_pri c) evs (backlog c) = (cs, backlog c')"
    and "activity = (cs \<noteq> [])" "pending = (\<exists>p. backlog c' p \<noteq> [])" "control_inv S c'"
    by metis
  moreover from this have "pending = (0 < n_queued c')"
    by (simp add: control_invD(7) queue_total_pos)
  ultimately show ?thesis using spec_poll_parts(2) [OF assms(1) sp] by auto
qed

theorem poll_flags_witness:
  "\<exists>c' b. mio_poll_poll slots_ops script_poll_ops 5 (demo_control, demo_script) =
      Some (Ret (Inr (True, b), c', [(''hi'', rd_ready)], [])) \<and> b = (0 < n_queued c')"
proof -
  obtain b c' where run: "mio_poll_poll slots_ops script_poll_ops 5 (demo_control, demo_script) =
      Some (Ret (Inr (True, b), c', [(''hi'', rd_ready)], []))" by (rule demo_poll)
  with poll_flags [OF demo_control_inv run] show ?thesis by auto
qed

text \<open>C7. Nothing is lost, duplicated or reordered: all live events, new ones included, taken
  by falling priority and first come first served within one, are the calls this poll makes
  followed by the live events it leaves queued.\<close>

theorem poll_keeps_delivery_order:
  assumes "control_inv S c"
    and "retry (po_poll P d) (events c, w) = Some (Inr u, evs, w')"
    and "mio_poll_poll S P d (c, w) = Some (Ret (Inr flags, c', cs, w''))"
  shows "drain_order S (token_map c) (max_pri c) (merged S c evs) =
    cs @ drain_order S (token_map c) (max_pri c) (backlog c')"
proof -
  have "control_poll S P d (c, w) = Some (Ret (Inr (fst flags, snd flags), c', cs, w''))"
    using assms(3) by (simp add: mio_poll_poll_def)
  from control_poll_returned [OF assms(1) this] obtain u' evs' where
    "retry (po_poll P d) (events c, w) = Some (Inr u', evs', w'')"
    and sp: "spec_poll S (token_map c) (max_pri c) evs' (backlog c) = (cs, backlog c')"
    by metis
  with assms(2) have "evs' = evs" by simp
  with spec_poll_drain_order [OF sp] show ?thesis by (simp add: merged_def [abs_def])
qed

theorem poll_keeps_delivery_order_witness:
  "\<exists>c' :: (string entry option list, nat) control.
    drain_order slots_ops (token_map demo_control) 10
      (merged slots_ops demo_control [demo_event 2, demo_event 3, demo_event 9]) =
    (''hi'', rd_ready) # drain_order slots_ops (token_map demo_control) 10 (backlog c')"
proof -
  obtain b c' where run: "mio_poll_poll slots_ops script_poll_ops 5 (demo_control, demo_script) =
      Some (Ret (Inr (True, b), c', [(''hi'', rd_ready)], []))" by (rule demo_poll)
  have hi: "max_pri demo_control = 10" by (simp add: demo_control_def)
  have "drain_order slots_ops (token_map demo_control) 10
      (merged slots_ops demo_control [demo_event 2, demo_event 3, demo_event 9]) =
    (''hi'', rd_ready) # drain_order slots_ops (token_map demo_control) 10 (backlog c')"
    using poll_keeps_delivery_order [OF demo_control_inv demo_retry_full run] unfolding hi by simp
  then show ?thesis by blast
qed

text \<open>C20. Lower priorities are delayed, not starved, once the higher ones are quiet: when mio
  has nothing more to report, as many polls as there are priorities below the highest empty
  all queues, and together they call exactly the handlers of the queued live events, by
  falling priority and in order.\<close>

theorem quiet_polls_deliver_all:
  assumes "control_inv S c" "quiet P d" "max_pri c \<le> n"
  shows "\<exists>c'. poll_times S P d n (c, w) =
        Some (Ret (c', drain_order S (token_map c) (max_pri c) (backlog c), w))
      \<and> control_inv S c' \<and> n_queued c' = 0 \<and> (\<forall>p. backlog c' p = [])"
proof -
  have "backlog c p = []" if "max_pri c \<le> p" for p
    using control_invD(5) [OF assms(1), of p] that by fastforce
  from poll_times_quiet [OF assms(1,2) order_refl this, of n w] obtain c' cs where
    c': "poll_times S P d n (c, w) = Some (Ret (c', cs, w))" "control_inv S c'"
      "\<forall>p. backlog c' p = []"
    and "drain_order S (token_map c) (max_pri c) (backlog c) =
          cs @ drain_order S (token_map c) (max_pri c) (backlog c')"
    using assms(3) by auto
  then have "cs = drain_order S (token_map c) (max_pri c) (backlog c)"
    by (simp add: drain_order_empty)
  moreover have "n_queued c' = 0"
    using control_invD(7) [OF c'(2)] queue_total_pos [of c'] c'(3) by auto
  ultimately show ?thesis using c' by blast
qed

lemma quiet_script: "quiet \<lparr>po_poll = (\<lambda>d (evs, w). (Inr (), [], w)),
     po_waker_new = (\<lambda>t w. (Inr 7, w)), po_wake = (\<lambda>k w. (Inr (), w))\<rparr> d"
  by (simp add: quiet_def)

theorem quiet_polls_deliver_all_witness:
  "\<exists>c'. poll_times slots_ops \<lparr>po_poll = (\<lambda>d (evs, w). (Inr (), [], w)),
      po_waker_new = (\<lambda>t w. (Inr 7, w)), po_wake = (\<lambda>k w. (Inr (), w))\<rparr> 5 10 (demo_control, 0) =
    Some (Ret (c', [(''lo'', rd_ready)], 0 :: nat)) \<and> n_queued c' = 0"
proof -
  have "max_pri demo_control \<le> 10" by (simp add: demo_control_def)
  moreover have "drain_order slots_ops (token_map demo_control) (max_pri demo_control)
      (backlog demo_control) = [(''lo'', rd_ready)]" by code_simp
  ultimately show ?thesis
    using quiet_polls_deliver_all [OF demo_control_inv quiet_script, of 10 5 "0 :: nat"] by auto
qed

text \<open>No handler of a source that has been dropped is ever called: every call a poll makes
  goes to the handler of an entry that is in the token table at that moment.\<close>

theorem poll_calls_registered:
  assumes "control_inv S c"
    and "mio_poll_poll S P d (c, w) = Some (Ret (r, c', cs, w'))"
    and "(f, rdy) \<in> set cs"
  shows "\<exists>token en. slab_get S (token_map c) token = Some en \<and> e_fwd en = f"
proof (cases r)
  case (Inl e)
  with assms(2,3) show ?thesis
    by (auto simp: mio_poll_poll_def control_poll_def obind_eq_Ret split: option.splits sum.splits)
next
  case (Inr flags)
  with assms(2) have "control_poll S P d (c, w) = Some (Ret (Inr (fst flags, snd flags), c', cs, w'))"
    by (simp add: mio_poll_poll_def)
  from control_poll_returned [OF assms(1) this] obtain evs where
    sp: "spec_poll S (token_map c) (max_pri c) evs (backlog c) = (cs, backlog c')"
    by metis
  have "cs \<noteq> []" using assms(3) by auto
  from spec_poll_parts(1) [OF assms(1) sp this] obtain p where
    "cs = live_calls S (token_map c) (merged S c evs p)" by blast
  with assms(3) live_calls_registered show ?thesis by metis
qed

theorem poll_calls_registered_witness:
  "\<exists>token en. slots_get (token_map demo_control) token = Some en \<and> e_fwd en = ''hi''"
proof -
  obtain b c' where run: "mio_poll_poll slots_ops script_poll_ops 5 (demo_control, demo_script) =
      Some (Ret (Inr (True, b), c', [(''hi'', rd_ready)], []))" by (rule demo_poll)
  from poll_calls_registered [OF demo_control_inv run, of "''hi''" rd_ready] show ?thesis by simp
qed

text \<open>A failing poll of mio: the error is returned, it is never \<open>Interrupted\<close>, no handler
  is called, and \<open>Control\<close> is unchanged but for the event buffer mio wrote.\<close>

theorem poll_error:
  assumes "retry (po_poll P d) (events c, w) = Some (Inl e, evs, w')"
  shows "mio_poll_poll S P d (c, w) = Some (Ret (Inl e, c\<lparr>events := evs\<rparr>, [], w'))
    \<and> err_kind e \<noteq> Interrupted"
  using assms retry_no_Interrupted [OF assms] by (simp add: mio_poll_poll_def control_poll_def)

theorem poll_error_witness:
  "mio_poll_poll slots_ops script_poll_ops 5
     (demo_control, [(Inl (io_err Interrupted), []), (Inl (io_err Other), [])]) =
   Some (Ret (Inl (io_err Other), demo_control\<lparr>events := []\<rparr>, [], []))"
proof -
  have "retry (po_poll script_poll_ops 5)
      (events demo_control, [(Inl (io_err Interrupted), []), (Inl (io_err Other), [])]) =
    Some (Inl (io_err Other), [], [])"
    by (simp add: script_poll_def retry_unfold)
  from poll_error [OF this, of slots_ops] show ?thesis by simp
qed

section \<open>Creation and registration\<close>

text \<open>\<open>MioPoll::new\<close>: it never panics on the slab contract. If mio creates the waker, the
  result satisfies the invariant, its only entry is the waker's, at token 0 with the priority
  clamped to 10 and the handler that defers \<open>poll_wake\<close>, and the Stakker instance has got
  the poll and the waker. If mio refuses, the error is returned and Stakker is untouched.\<close>

theorem mio_poll_new_spec:
  assumes "slab_ok S" and "retry (po_waker_new P WAKER_TOKEN) w = Some (r, w')"
  shows "case r of
      Inl e \<Rightarrow> mio_poll_new S P K evs pri (st, w) = Some (Ret (Inl e, st, w'))
    | Inr k \<Rightarrow> \<exists>c. mio_poll_new S P K evs pri (st, w) =
          Some (Ret (Inr c, sk_set_poll_waker K k (sk_anymap_set_miopoll K st), w'))
        \<and> control_inv S c \<and> mio_poll_waker c = k \<and> max_pri c = min pri 10 \<and> errors c = []
        \<and> slab_get S (token_map c) =
            [0 \<mapsto> \<lparr>e_pri = min pri 10, e_fwd = sk_poll_wake_fwd K st\<rparr>]"
proof (cases r)
  case (Inl e)
  with assms(2) mio_poll_new_Err [OF assms(1)] show ?thesis by simp
next
  case (Inr k)
  with assms(2) have "retry (po_waker_new P WAKER_TOKEN) w = Some (Inr k, w')" by simp
  from mio_poll_new_Ret [OF assms(1) this, of K evs pri st] Inr show ?thesis
    by (simp add: mio_poll_waker_def MAX_PRI_def WAKER_TOKEN_def) metis
qed

theorem mio_poll_new_spec_witness:
  "\<exists>c. mio_poll_new slots_ops script_poll_ops script_stakker_ops [] 12 (0, []) =
      Some (Ret (Inr c, 11, [])) \<and> control_inv slots_ops c \<and> max_pri c = 10"
proof -
  have "retry (po_waker_new script_poll_ops WAKER_TOKEN) [] = Some (Inr 7, [])"
    by (simp add: script_poll_ops_def retry_unfold)
  from mio_poll_new_spec [OF slots_ops_ok this, of script_stakker_ops "[]" 12 0]
  show ?thesis by (auto simp: script_stakker_ops_def)
qed

text \<open>\<open>MioPoll::add\<close> that succeeds: the source gets a token that was free, under which the
  table now has the handler with the priority clamped to 10; no other entry, no queue and no
  counter changes, and the highest priority and the bitmap take the new priority in.\<close>

theorem mio_poll_add_registers:
  assumes "slab_ok S" "control_inv S c"
    and "mio_poll_add S D src ready pri fwd (c, w) = Some (Inr ms, c', w')"
  shows "ms_source ms = src
    \<and> slab_get S (token_map c) (ms_token ms) = None
    \<and> slab_get S (token_map c') =
        (slab_get S (token_map c))(ms_token ms \<mapsto> \<lparr>e_pri = min pri 10, e_fwd = fwd\<rparr>)
    \<and> max_pri c' = max (max_pri c) (min pri 10)
    \<and> (\<forall>p. pri_in_use (priorities c') p \<longleftrightarrow> pri_in_use (priorities c) p \<or> p = min pri 10)
    \<and> queues c' = queues c \<and> n_queued c' = n_queued c \<and> errors c' = errors c
    \<and> control_inv S c'"
proof -
  from assms(3) obtain token where
    enter: "control_enter S pri fwd c = (token, c')"
    and ms: "ms = \<lparr>ms_token = token, ms_source = src\<rparr>"
    by (rule mio_poll_add_cases) (auto split: sum.splits)
  have "min pri 10 < (16 :: nat)" by simp
  then have "\<forall>p. pri_in_use (priorities c') p \<longleftrightarrow> pri_in_use (priorities c) p \<or> p = min pri 10"
    unfolding control_enter_fields(7) [OF enter] MAX_PRI_def by (auto simp only: pri_in_use_mark)
  with control_enter_fields [OF enter] control_enter_table [OF assms(1) enter]
    control_enter_inv [OF assms(1,2) enter] ms
  show ?thesis by (simp add: MAX_PRI_def)
qed

theorem mio_poll_add_registers_witness:
  "\<exists>c'. mio_poll_add slots_ops script_source_ops 5 3 20 ''new'' (demo_control, []) =
      Some (Inr \<lparr>ms_token = 4, ms_source = 5\<rparr>, c', []) \<and>
    slots_get (token_map c') 4 = Some \<lparr>e_pri = 10, e_fwd = ''new''\<rparr> \<and> control_inv slots_ops c'"
proof -
  have "map_option (\<lambda>(r, c', w). (r, w))
      (mio_poll_add slots_ops script_source_ops 5 3 20 ''new'' (demo_control, [])) =
    Some (Inr \<lparr>ms_token = 4, ms_source = 5\<rparr>, [])" by code_simp
  then obtain c' where run: "mio_poll_add slots_ops script_source_ops 5 3 20 ''new''
      (demo_control, []) = Some (Inr \<lparr>ms_token = 4, ms_source = 5\<rparr>, c', [])" by auto
  from mio_poll_add_registers [OF slots_ops_ok demo_control_inv run] run show ?thesis by simp
qed

text \<open>C37. \<open>MioPoll::add\<close> that fails: the error is mio's, but the entry made for the source
  stays in the token table, with its handler, under a token that no \<open>MioSource\<close> owns, and the
  highest priority and the bitmap keep the priority. Nothing the caller holds can remove it.\<close>

theorem mio_poll_add_failure_leaks:
  assumes "slab_ok S" "control_inv S c"
    and "mio_poll_add S D src ready pri fwd (c, w) = Some (Inl e, c', w')"
  shows "\<exists>token. slab_get S (token_map c) token = None
    \<and> slab_get S (token_map c') =
        (slab_get S (token_map c))(token \<mapsto> \<lparr>e_pri = min pri 10, e_fwd = fwd\<rparr>)
    \<and> max_pri c' = max (max_pri c) (min pri 10)
    \<and> retry (so_register D src token ready) w = Some (Inl e, w')
    \<and> control_inv S c'"
proof -
  from assms(3) obtain token r0 where
    enter: "control_enter S pri fwd c = (token, c')"
    and "retry (so_register D src token ready) w = Some (r0, w')" "r0 = Inl e"
    by (rule mio_poll_add_cases) (auto split: sum.splits)
  with control_enter_fields [OF enter] control_enter_table [OF assms(1) enter]
    control_enter_inv [OF assms(1,2) enter]
  show ?thesis by (auto simp: MAX_PRI_def)
qed

theorem mio_poll_add_failure_leaks_witness:
  "\<exists>c' token. mio_poll_add slots_ops script_source_ops 99 3 4 ''bad'' (demo_control, []) =
      Some (Inl (io_err Other), c', []) \<and>
    slots_get (token_map c') token = Some \<lparr>e_pri = 4, e_fwd = ''bad''\<rparr>"
proof -
  have "map_option (\<lambda>(r, c', w). (r, w))
      (mio_poll_add slots_ops script_source_ops 99 3 4 ''bad'' (demo_control, [])) =
    Some (Inl (io_err Other), [])" by code_simp
  then obtain c' where run: "mio_poll_add slots_ops script_source_ops 99 3 4 ''bad''
      (demo_control, []) = Some (Inl (io_err Other), c', [])" by auto
  from mio_poll_add_failure_leaks [OF slots_ops_ok demo_control_inv run] run show ?thesis
    by fastforce
qed

section \<open>Reachable states\<close>

text \<open>C8. In every state that \<open>new\<close>, \<open>add\<close>, \<open>poll\<close>, \<open>set_wake_fwd\<close> and dropping sources can
  reach, the invariant of \<open>Control\<close> holds and every live \<open>MioSource\<close> owns a registered token,
  no two the same one and none the waker's.\<close>

theorem mio_reachable_safe:
  assumes "slab_ok S" "mio_reachable S D P K s"
  shows "control_inv S (sys_ctl s)
    \<and> distinct (map ms_token (sys_live s))
    \<and> (\<forall>ms\<in>set (sys_live s). ms_token ms \<noteq> 0 \<and> slab_get S (token_map (sys_ctl s)) (ms_token ms) \<noteq> None)"
  using mio_reachable_inv [OF assms(2,1)]
  by (auto simp: mio_inv_def tokens_owned_def WAKER_TOKEN_def)

text \<open>In every reachable state polling and replacing the wake handler are free of panics:
  no queue index is out of range and the waker's entry is there.\<close>

theorem mio_reachable_no_panic:
  assumes "slab_ok S" "mio_reachable S D P K s"
  shows "mio_poll_poll S P d (sys_ctl s, w) \<noteq> Some Panic
    \<and> mio_poll_set_wake_fwd S fwd (sys_ctl s) \<noteq> Panic"
proof
  have inv: "control_inv S (sys_ctl s)"
    using mio_reachable_inv [OF assms(2,1)] by (simp add: mio_inv_def)
  show "mio_poll_set_wake_fwd S fwd (sys_ctl s) \<noteq> Panic"
    by (rule control_set_wake_fwd_Ret [OF assms(1) inv, of fwd]) (simp add: mio_poll_set_wake_fwd_def)
  show "mio_poll_poll S P d (sys_ctl s, w) \<noteq> Some Panic"
    by (rule control_poll_no_panic [OF inv, folded mio_poll_poll_def])
qed

text \<open>Dropping a live source in a reachable state deregisters it, removes exactly its
  token, and records an error only if the deregistration itself failed: the table never
  reports the token as missing.\<close>

theorem mio_reachable_drop:
  assumes "slab_ok S" "mio_reachable S D P K s" "sys_live s = xs @ ms # ys"
    and "mio_source_drop S D ms (sys_ctl s, sys_world s) = Some (c', w')"
  shows "\<exists>r. retry (so_deregister D (ms_source ms)) (sys_world s) = Some (r, w')
    \<and> slab_get S (token_map c') = (slab_get S (token_map (sys_ctl s)))(ms_token ms := None)
    \<and> errors c' = errors (sys_ctl s) @ (case r of Inl e \<Rightarrow> [e] | Inr _ \<Rightarrow> [])
    \<and> queues c' = queues (sys_ctl s)"
proof -
  have "control_inv S (sys_ctl s)"
    "tokens_owned S (sys_ctl s) (map ms_token xs @ ms_token ms # map ms_token ys)"
    using mio_reachable_inv [OF assms(2,1)] assms(3) by (simp_all add: mio_inv_def)
  then show ?thesis
    by (rule mio_source_drop_owned [OF assms(1) _ _ assms(4)]) blast
qed

text \<open>A reachable system with one live source, made by \<open>new\<close> and \<open>add\<close>.\<close>

lemma demo_reachable:
  obtains s where "mio_reachable slots_ops script_source_ops script_poll_ops script_stakker_ops s"
    "sys_live s = [\<lparr>ms_token = 1, ms_source = 98\<rparr>]" "sys_world s = []"
proof -
  let ?c = "\<lparr>token_map = [Some \<lparr>e_pri = 5, e_fwd = ''wake''\<rparr>],
      queues = replicate 10 [], n_queued = 0, max_pri = 5, priorities = 32,
      events = [], errors = [], waker = 7\<rparr> :: (string entry option list, nat) control"
  have new: "mio_poll_new slots_ops script_poll_ops script_stakker_ops [] 5 (0, []) =
      Some (Ret (Inr ?c, 11, []))" by code_simp
  have "map_option (\<lambda>(r, c', w'). (r, w'))
      (mio_poll_add slots_ops script_source_ops 98 1 3 ''h'' (?c, [])) =
    Some (Inr \<lparr>ms_token = 1, ms_source = 98\<rparr>, [])" by code_simp
  then obtain c' where add: "mio_poll_add slots_ops script_source_ops 98 1 3 ''h'' (?c, []) =
      Some (Inr \<lparr>ms_token = 1, ms_source = 98\<rparr>, c', [])" by auto
  let ?s = "\<lparr>sys_ctl = ?c, sys_live = [], sys_world = []\<rparr>
      :: (string entry option list, nat, nat, script) mio_system"
  have "mio_reachable slots_ops script_source_ops script_poll_ops script_stakker_ops ?s"
    by (rule reach_new [OF new])
  from reach_step [OF this step_add [of slots_ops script_source_ops 98 1 3 "''h''" ?s]] add
  show thesis by (intro that) auto
qed

theorem mio_reachable_safe_witness:
  "\<exists>s. mio_reachable slots_ops script_source_ops script_poll_ops script_stakker_ops s \<and>
     length (sys_live s) = 1 \<and> control_inv slots_ops (sys_ctl s)"
proof -
  obtain s where s: "mio_reachable slots_ops script_source_ops script_poll_ops script_stakker_ops s"
    "sys_live s = [\<lparr>ms_token = 1, ms_source = 98\<rparr>]" by (rule demo_reachable)
  with mio_reachable_safe [OF slots_ops_ok s(1)] show ?thesis by (intro exI [of _ s]) simp
qed

theorem mio_reachable_no_panic_witness:
  "\<exists>s. mio_reachable slots_ops script_source_ops script_poll_ops script_stakker_ops s \<and>
     mio_poll_poll slots_ops script_poll_ops 5 (sys_ctl s, []) \<noteq> Some Panic"
proof -
  obtain s where s: "mio_reachable slots_ops script_source_ops script_poll_ops script_stakker_ops s"
    by (rule demo_reachable)
  with mio_reachable_no_panic [OF slots_ops_ok s] show ?thesis by (intro exI [of _ s]) simp
qed

theorem mio_reachable_drop_witness:
  "\<exists>(s :: (string entry option list, nat, nat, script) mio_system) c'.
     mio_source_drop slots_ops script_source_ops \<lparr>ms_token = 1, ms_source = 98\<rparr>
       (sys_ctl s, sys_world s) = Some (c', []) \<and>
     slots_get (token_map c') 1 = None \<and> errors c' = errors (sys_ctl s) @ [io_err Other]"
proof -
  obtain s where s: "mio_reachable slots_ops script_source_ops script_poll_ops script_stakker_ops s"
    "sys_live s = [] @ \<lparr>ms_token = 1, ms_source = 98\<rparr> # []" "sys_world s = []"
    by (rule demo_reachable) simp
  have r: "retry (so_deregister script_source_ops 98) [] = Some (Inl (io_err Other), [])"
    by (simp add: script_source_ops_def retry_unfold)
  then obtain c' where run: "mio_source_drop slots_ops script_source_ops
      \<lparr>ms_token = 1, ms_source = 98\<rparr> (sys_ctl s, sys_world s) = Some (c', [])"
    using s(3)
    by (cases "slots_get (token_map (sys_ctl s)) (Suc 0)")
       (auto simp: mio_source_drop_def control_del_def)
  from mio_reachable_drop [OF slots_ops_ok s(1,2) run] run r s(3) show ?thesis by fastforce
qed

section \<open>Wakers and interruptions\<close>

text \<open>\<open>set_wake_fwd\<close> in a reachable state replaces the handler of the wake token and
  nothing else: its priority and every other entry stay.\<close>

theorem set_wake_fwd_spec:
  assumes "slab_ok S" "control_inv S c"
  shows "\<exists>c' en. mio_poll_set_wake_fwd S fwd c = Ret c'
    \<and> slab_get S (token_map c) 0 = Some en
    \<and> slab_get S (token_map c') = (slab_get S (token_map c))(0 \<mapsto> en\<lparr>e_fwd := fwd\<rparr>)
    \<and> c' = c\<lparr>token_map := token_map c'\<rparr>"
  by (rule control_set_wake_fwd_Ret [OF assms, of fwd])
     (auto simp: mio_poll_set_wake_fwd_def WAKER_TOKEN_def)

theorem set_wake_fwd_spec_witness:
  "\<exists>c'. mio_poll_set_wake_fwd slots_ops ''other'' demo_control = Ret c' \<and>
     slots_get (token_map c') 0 = Some \<lparr>e_pri = 10, e_fwd = ''other''\<rparr>"
proof -
  have "slots_get (token_map demo_control) 0 = Some \<lparr>e_pri = 10, e_fwd = ''wake''\<rparr>"
    by (simp add: demo_control_def slots_get_def)
  with set_wake_fwd_spec [OF slots_ops_ok demo_control_inv, of "''other''"] show ?thesis by auto
qed

text \<open>Interruptions stay inside: neither \<open>MioPoll::poll\<close> nor \<open>MioPoll::add\<close> nor
  \<open>MioPoll::new\<close> ever returns an \<open>Interrupted\<close> error, whatever mio does, so callers need not
  handle it.\<close>

theorem mio_poll_no_Interrupted:
  "(\<forall>e c' cs w'. mio_poll_poll S P d (c, w) = Some (Ret (Inl e, c', cs, w')) \<longrightarrow>
      err_kind e \<noteq> Interrupted)
   \<and> (\<forall>e c' w'. mio_poll_add S D src ready pri fwd (c, w) = Some (Inl e, c', w') \<longrightarrow>
      err_kind e \<noteq> Interrupted)
   \<and> (\<forall>e st' w'. mio_poll_new S P K evs pri (st, w) = Some (Ret (Inl e, st', w')) \<longrightarrow>
      err_kind e \<noteq> Interrupted)"
  by (auto simp: mio_poll_poll_def control_poll_def mio_poll_add_def control_add_def
      mio_poll_new_def Let_def obind_eq_Ret
      split: option.splits sum.splits prod.splits if_splits)

theorem mio_poll_no_Interrupted_witness:
  "\<exists>e c'. mio_poll_poll slots_ops script_poll_ops 5
      (demo_control, [(Inl (io_err Interrupted), []), (Inl (io_err Other), [])]) =
    Some (Ret (Inl e, c', [], [])) \<and> err_kind e \<noteq> Interrupted"
proof -
  have run: "mio_poll_poll slots_ops script_poll_ops 5
      (demo_control, [(Inl (io_err Interrupted), []), (Inl (io_err Other), [])]) =
    Some (Ret (Inl (io_err Other), demo_control\<lparr>events := []\<rparr>, [], []))" by code_simp
  from mio_poll_no_Interrupted [THEN conjunct1, rule_format, OF run] run
  show ?thesis by blast
qed

text \<open>The wake closure given to Stakker panics exactly when a call of \<open>wake()\<close> that is
  not interrupted fails, and otherwise leaves the world as the successful call did.\<close>

theorem poll_waker_panics_iff:
  "(poll_waker P wk w = Some Panic \<longleftrightarrow> (\<exists>e w'. retry (po_wake P wk) w = Some (Inl e, w')))
   \<and> (\<forall>w'. poll_waker P wk w = Some (Ret w') \<longleftrightarrow> retry (po_wake P wk) w = Some (Inr (), w'))"
  by (auto simp: poll_waker_def split: option.splits sum.splits)

end
