(* ===== verification/Fd_Source.thy ===== *)
theory Fd_Source
  imports Mio_Poll
begin

text \<open>
  \<open>FdSource\<close> of src/fdsource.rs: a raw UNIX file descriptor as a mio source. Its \<open>Source\<close>
  implementation delegates to mio's \<open>SourceFd\<close>, which is the parameter \<open>R\<close>: the source
  operations on descriptors.
\<close>

record fd_source =
  fd :: int

definition fd_source_new :: "int \<Rightarrow> fd_source" where
  "fd_source_new n = \<lparr>fd = n\<rparr>"

definition fd_source_register ::
  "(int, 'w) source_ops \<Rightarrow> fd_source \<Rightarrow> nat \<Rightarrow> interest \<Rightarrow> 'w \<Rightarrow> unit io \<times> 'w" where
  "fd_source_register R s token interest w = so_register R (fd s) token interest w"

definition fd_source_reregister ::
  "(int, 'w) source_ops \<Rightarrow> fd_source \<Rightarrow> nat \<Rightarrow> interest \<Rightarrow> 'w \<Rightarrow> unit io \<times> 'w" where
  "fd_source_reregister R s token interest w = so_reregister R (fd s) token interest w"

definition fd_source_deregister ::
  "(int, 'w) source_ops \<Rightarrow> fd_source \<Rightarrow> 'w \<Rightarrow> unit io \<times> 'w" where
  "fd_source_deregister R s w = so_deregister R (fd s) w"

definition fd_source_ops :: "(int, 'w) source_ops \<Rightarrow> (fd_source, 'w) source_ops" where
  "fd_source_ops R =
     \<lparr>so_register = fd_source_register R, so_reregister = fd_source_reregister R,
      so_deregister = fd_source_deregister R\<rparr>"

lemma fd_source_ops_sel [simp]:
  "so_register (fd_source_ops R) s = so_register R (fd s)"
  "so_reregister (fd_source_ops R) s = so_reregister R (fd s)"
  "so_deregister (fd_source_ops R) s = so_deregister R (fd s)"
  by (simp_all add: fd_source_ops_def fd_source_register_def fd_source_reregister_def
      fd_source_deregister_def fun_eq_iff)

text \<open>A descriptor wrapped in an \<open>FdSource\<close> behaves in \<open>MioPoll\<close> exactly as the
  descriptor itself: adding it and dropping the \<open>MioSource\<close> have the same outcome, the same
  table and the same world, the source apart.\<close>

theorem fd_source_transparent:
  "mio_poll_add S (fd_source_ops R) (fd_source_new n) ready pri fwd cw =
     map_option (\<lambda>(r, cw'). (map_sum id (\<lambda>ms. \<lparr>ms_token = ms_token ms,
         ms_source = fd_source_new (ms_source ms)\<rparr>) r, cw'))
       (mio_poll_add S R n ready pri fwd cw)
   \<and> mio_source_drop S (fd_source_ops R) \<lparr>ms_token = t, ms_source = fd_source_new n\<rparr> cw =
     mio_source_drop S R \<lparr>ms_token = t, ms_source = n\<rparr> cw"
  by (cases cw)
     (simp add: mio_poll_add_def control_add_def mio_source_drop_def control_del_def
       fd_source_new_def split: option.splits sum.splits prod.splits)

end
