(* ===== verification/Source_Slot.thy ===== *)
theory Source_Slot
  imports Mio_Poll
begin

text \<open>
  The field \<open>Option<MioSource<_>>\<close> that \<open>TcpStreamBuf\<close>, \<open>UdpQueue\<close> and \<open>UdpServerQueue\<close> keep
  their stream or socket in. Assigning the field drops the \<open>MioSource\<close> it held: the old source
  is deregistered from the poll, which changes the shared \<open>Control\<close> and the world.
\<close>

definition drop_slot ::
  "('sl, 'f entry) slab_ops \<Rightarrow> ('s, 'w) source_ops \<Rightarrow> 's mio_source option
    \<Rightarrow> ('sl, 'k) control \<times> 'w \<Rightarrow> (('sl, 'k) control \<times> 'w) option" where
  "drop_slot S D old cw = (case old of None \<Rightarrow> Some cw | Some ms \<Rightarrow> mio_source_drop S D ms cw)"

lemma drop_slot_simps [simp]:
  "drop_slot S D None cw = Some cw"
  "drop_slot S D (Some ms) cw = mio_source_drop S D ms cw"
  by (simp_all add: drop_slot_def)

text \<open>
  The system \<open>s\<close> without its source \<open>old\<close>: it is reachable again with the other sources still
  live, the token of \<open>old\<close> is free, and all other registrations are untouched.
\<close>

definition released ::
  "('sl, 'f entry) slab_ops \<Rightarrow> ('s, 'w) source_ops \<Rightarrow> ('k, 'w) poll_ops \<Rightarrow> ('f, 'k, 'st) stakker_ops
    \<Rightarrow> ('sl, 'k, 's, 'w) mio_system \<Rightarrow> 's mio_source \<Rightarrow> 's mio_source list
    \<Rightarrow> ('sl, 'k) control \<Rightarrow> 'w \<Rightarrow> bool" where
  "released S D P K s old others c' w' \<longleftrightarrow>
     mio_reachable S D P K (s\<lparr>sys_ctl := c', sys_live := others, sys_world := w'\<rparr>) \<and>
     slab_get S (token_map c') = (slab_get S (token_map (sys_ctl s)))(ms_token old := None)"

lemma released_by_drop:
  assumes "sys_live s = xs @ old # ys" "slab_ok S" "mio_reachable S D P K s"
    and "mio_source_drop S D old (sys_ctl s, sys_world s) = Some (c', w')"
  shows "released S D P K s old (xs @ ys) c' w'"
proof -
  have inv: "mio_inv S s" by (rule mio_reachable_inv [OF assms(3,2)])
  have "slab_get S (token_map c') = (slab_get S (token_map (sys_ctl s)))(ms_token old := None)"
    by (rule mio_source_drop_owned [OF assms(2) _ _ assms(4), of "map ms_token xs" "map ms_token ys"])
       (use inv assms(1) in \<open>simp_all add: mio_inv_def\<close>)
  then show ?thesis
    using reach_step [OF assms(3) step_drop [OF assms(1,4)]] by (simp add: released_def)
qed

text \<open>
  What the three types promise of \<open>init\<close> (\<open>attach\<close>) and \<open>deinit\<close> (\<open>detach\<close>): the old source is
  dropped, and the slot holds the new source or nothing.
\<close>

locale source_slot =
  fixes slot :: "'b \<Rightarrow> 's mio_source option"
    and attach :: "('sl, 'f entry) slab_ops \<Rightarrow> ('s, 'w) source_ops \<Rightarrow> 's mio_source \<Rightarrow> 'b
      \<Rightarrow> ('sl, 'k) control \<times> 'w \<Rightarrow> ('b \<times> ('sl, 'k) control \<times> 'w) option"
    and detach :: "('sl, 'f entry) slab_ops \<Rightarrow> ('s, 'w) source_ops \<Rightarrow> 'b
      \<Rightarrow> ('sl, 'k) control \<times> 'w \<Rightarrow> ('b \<times> ('sl, 'k) control \<times> 'w) option"
  assumes attach: "\<exists>b'. slot b' = Some ms \<and>
      attach S D ms b cw = map_option (Pair b') (drop_slot S D (slot b) cw)"
    and detach: "\<exists>b'. slot b' = None \<and>
      detach S D b cw = map_option (Pair b') (drop_slot S D (slot b) cw)"
begin

lemma attach_empty:
  assumes "slot b = None"
  obtains b' where "attach S D ms b cw = Some (b', cw)" "slot b' = Some ms"
  using attach [of ms S D b cw] assms by auto

lemma attach_drops:
  assumes "attach S D ms b cw = Some (b', cw')" "slot b = Some old"
  shows "slot b' = Some ms" "mio_source_drop S D old cw = Some cw'"
  using attach [of ms S D b cw] assms by (auto simp: eq_commute [of "Some _"])

lemma detach_drops:
  assumes "detach S D b cw = Some (b', cw')" "slot b = Some old"
  shows "slot b' = None" "mio_source_drop S D old cw = Some cw'"
  using detach [of S D b cw] assms by (auto simp: eq_commute [of "Some _"])

text \<open>In a running system: filling the slot again, or emptying it, is the step that drops the
  source it held.\<close>

lemma attach_releases:
  assumes "attach S D ms b (sys_ctl s, sys_world s) = Some (b', c', w')"
    and "slot b = Some old" "sys_live s = xs @ old # ys"
    and "slab_ok S" "mio_reachable S D P K s"
  shows "slot b' = Some ms \<and> released S D P K s old (xs @ ys) c' w'"
  using attach_drops [OF assms(1,2)] released_by_drop [OF assms(3-5)] by blast

lemma detach_releases:
  assumes "detach S D b (sys_ctl s, sys_world s) = Some (b', c', w')"
    and "slot b = Some old" "sys_live s = xs @ old # ys"
    and "slab_ok S" "mio_reachable S D P K s"
  shows "slot b' = None \<and> released S D P K s old (xs @ ys) c' w'"
  using detach_drops [OF assms(1,2)] released_by_drop [OF assms(3-5)] by blast

end

end
