(* ===== verification/Tcp_Stream_Buf.thy ===== *)
theory Tcp_Stream_Buf
  imports Source_Slot
begin

text \<open>
  \<open>TcpStreamBuf\<close> of src/tcpstrbuf.rs: an output vector that \<open>flush\<close> writes to a TCP stream,
  and an input buffer with a read and a write offset that \<open>read\<close> fills. The operations of
  mio's \<open>TcpStream\<close> are the parameter \<open>tcp_ops\<close>; a read is given the buffer slice and
  answers with the slice's new contents.
\<close>

record ('s, 'w) tcp_ops =
  tcp_set_nodelay :: "'s \<Rightarrow> bool \<Rightarrow> 'w \<Rightarrow> unit io \<times> 'w"
  tcp_write :: "'s \<Rightarrow> bytes \<Rightarrow> 'w \<Rightarrow> nat io \<times> 'w"
  tcp_flush :: "'s \<Rightarrow> 'w \<Rightarrow> unit io \<times> 'w"
  tcp_shutdown_write :: "'s \<Rightarrow> 'w \<Rightarrow> unit io \<times> 'w"
  tcp_read :: "'s \<Rightarrow> bytes \<Rightarrow> 'w \<Rightarrow> nat io \<times> bytes \<times> 'w"

record 's tcp_stream_buf =
  tb_out :: bytes
  tb_out_eof :: bool
  tb_inp :: bytes
  tb_inp_cap :: nat
  tb_inp_eof :: bool
  tb_rd :: nat
  tb_wr :: nat
  tb_nodelay :: bool
  tb_pending_set_nodelay :: bool
  tb_sent_out_eof :: bool
  tb_pause :: bool
  tb_stream :: "'s mio_source option"

datatype read_status = NewData | ReadWouldBlock | EndOfStream | ReadError io_error

section \<open>Creation and settings\<close>

definition tb_new :: "'s tcp_stream_buf" where
  "tb_new = \<lparr>tb_out = [], tb_out_eof = False, tb_inp = [], tb_inp_cap = 0, tb_inp_eof = False,
     tb_rd = 0, tb_wr = 0, tb_nodelay = False, tb_pending_set_nodelay = False,
     tb_sent_out_eof = False, tb_pause = False, tb_stream = None\<rparr>"

definition tb_init ::
  "('sl, 'f entry) slab_ops \<Rightarrow> ('s, 'w) source_ops \<Rightarrow> 's mio_source \<Rightarrow> 's tcp_stream_buf
    \<Rightarrow> ('sl, 'k) control \<times> 'w \<Rightarrow> ('s tcp_stream_buf \<times> ('sl, 'k) control \<times> 'w) option" where
  "tb_init S D stream b cw =
     map_option (\<lambda>cw'. (b\<lparr>tb_stream := Some stream, tb_sent_out_eof := False,
                         tb_pending_set_nodelay := True\<rparr>, cw'))
       (drop_slot S D (tb_stream b) cw)"

definition tb_deinit ::
  "('sl, 'f entry) slab_ops \<Rightarrow> ('s, 'w) source_ops \<Rightarrow> 's tcp_stream_buf
    \<Rightarrow> ('sl, 'k) control \<times> 'w \<Rightarrow> ('s tcp_stream_buf \<times> ('sl, 'k) control \<times> 'w) option" where
  "tb_deinit S D b cw =
     map_option (\<lambda>cw'. (b\<lparr>tb_stream := None\<rparr>, cw')) (drop_slot S D (tb_stream b) cw)"

definition tb_set_nodelay :: "bool \<Rightarrow> 's tcp_stream_buf \<Rightarrow> 's tcp_stream_buf" where
  "tb_set_nodelay nodelay b =
     (if tb_nodelay b \<noteq> nodelay
      then b\<lparr>tb_nodelay := nodelay, tb_pending_set_nodelay := True\<rparr> else b)"

definition tb_pause_writes :: "bool \<Rightarrow> 's tcp_stream_buf \<Rightarrow> 's tcp_stream_buf" where
  "tb_pause_writes pause b = b\<lparr>tb_pause := pause\<rparr>"

interpretation tcp_slot: source_slot tb_stream tb_init tb_deinit
  by unfold_locales
     (unfold tb_init_def tb_deinit_def, (rule exI, rule conjI [rotated], rule refl, simp)+)

section \<open>Flushing\<close>

partial_function (option) set_nodelay_loop ::
  "('s, 'w) tcp_ops \<Rightarrow> 's \<Rightarrow> bool \<Rightarrow> 'w \<Rightarrow> (loop_exit \<times> 'w) option" where
  "set_nodelay_loop T s nodelay w =
     (case tcp_set_nodelay T s nodelay w of (r, w') \<Rightarrow>
        (case r of
           Inl e \<Rightarrow> if err_kind e = Interrupted then set_nodelay_loop T s nodelay w'
                    else Some (Return (Inl e), w')
         | Inr _ \<Rightarrow> Some (Break, w')))"

partial_function (option) write_loop ::
  "('s, 'w) tcp_ops \<Rightarrow> 's \<Rightarrow> bytes \<Rightarrow> 'w \<Rightarrow> (loop_exit \<times> bytes \<times> 'w) exec" where
  "write_loop T s out w =
     (if out = [] then Some (Ret (Break, out, w))
      else (case tcp_write T s out w of (r, w') \<Rightarrow>
        (case r of
           Inl e \<Rightarrow> if err_kind e = Interrupted then write_loop T s out w'
                    else if err_kind e = WouldBlock then Some (Ret (Return (Inr ()), out, w'))
                    else Some (Ret (Return (Inl e), out, w'))
         | Inr len \<Rightarrow>
             if len = 0 then Some (Ret (Break, out, w'))
             else if len \<le> length out then write_loop T s (drop len out) w'
             else Some Panic)))"

text \<open>The loop around \<open>stream.flush()\<close>, written again around \<open>stream.shutdown(Write)\<close>.\<close>

partial_function (option) ok_or_block_loop ::
  "('w \<Rightarrow> unit io \<times> 'w) \<Rightarrow> 'w \<Rightarrow> (loop_exit \<times> 'w) option" where
  "ok_or_block_loop f w =
     (case f w of (r, w') \<Rightarrow>
        (case r of
           Inl e \<Rightarrow> if err_kind e = Interrupted then ok_or_block_loop f w'
                    else if err_kind e = WouldBlock then Some (Return (Inr ()), w')
                    else Some (Return (Inl e), w')
         | Inr _ \<Rightarrow> Some (Break, w')))"

declare set_nodelay_loop.simps [code] write_loop.simps [code] ok_or_block_loop.simps [code]

text \<open>Running a stage of \<open>flush\<close> and, unless it returned, the rest.\<close>

definition and_then ::
  "(loop_exit \<times> 'b \<times> 'w) exec \<Rightarrow> ('b \<Rightarrow> 'w \<Rightarrow> (unit io \<times> 'b \<times> 'w) exec)
    \<Rightarrow> (unit io \<times> 'b \<times> 'w) exec" where
  "and_then m k = ebind m (\<lambda>(x, b, w). case x of Return r \<Rightarrow> Some (Ret (r, b, w)) | Break \<Rightarrow> k b w)"

definition flush_nodelay ::
  "('s, 'w) tcp_ops \<Rightarrow> 's \<Rightarrow> 's tcp_stream_buf \<Rightarrow> 'w \<Rightarrow> (loop_exit \<times> 's tcp_stream_buf \<times> 'w) exec" where
  "flush_nodelay T s b w =
     (if tb_pending_set_nodelay b
      then map_option (\<lambda>(x, w'). Ret (x, b\<lparr>tb_pending_set_nodelay := False\<rparr>, w'))
             (set_nodelay_loop T s (tb_nodelay b) w)
      else Some (Ret (Break, b, w)))"

definition flush_write ::
  "('s, 'w) tcp_ops \<Rightarrow> 's \<Rightarrow> 's tcp_stream_buf \<Rightarrow> 'w \<Rightarrow> (loop_exit \<times> 's tcp_stream_buf \<times> 'w) exec" where
  "flush_write T s b w =
     ebind (write_loop T s (tb_out b) w) (\<lambda>(x, out, w'). Some (Ret (x, b\<lparr>tb_out := out\<rparr>, w')))"

definition flush_stream ::
  "('s, 'w) tcp_ops \<Rightarrow> 's \<Rightarrow> 's tcp_stream_buf \<Rightarrow> 'w \<Rightarrow> (loop_exit \<times> 's tcp_stream_buf \<times> 'w) exec" where
  "flush_stream T s b w = map_option (\<lambda>(x, w'). Ret (x, b, w')) (ok_or_block_loop (tcp_flush T s) w)"

definition flush_eof ::
  "('s, 'w) tcp_ops \<Rightarrow> 's \<Rightarrow> 's tcp_stream_buf \<Rightarrow> 'w \<Rightarrow> (unit io \<times> 's tcp_stream_buf \<times> 'w) exec" where
  "flush_eof T s b w =
     (if tb_out_eof b \<and> \<not> tb_sent_out_eof b \<and> tb_out b = []
      then and_then (map_option (\<lambda>(x, w'). Ret (x, b, w')) (ok_or_block_loop (tcp_shutdown_write T s) w))
             (\<lambda>b w. Some (Ret (Inr (), b\<lparr>tb_sent_out_eof := True\<rparr>, w)))
      else Some (Ret (Inr (), b, w)))"

definition tb_flush ::
  "('s, 'w) tcp_ops \<Rightarrow> 's tcp_stream_buf \<Rightarrow> 'w \<Rightarrow> (unit io \<times> 's tcp_stream_buf \<times> 'w) exec" where
  "tb_flush T b w =
     (if tb_pause b then Some (Ret (Inr (), b, w))
      else case tb_stream b of
        None \<Rightarrow> Some (Ret (Inr (), b, w))
      | Some ms \<Rightarrow>
          and_then (flush_nodelay T (ms_source ms) b w) (\<lambda>b w.
          and_then (flush_write T (ms_source ms) b w) (\<lambda>b w.
          and_then (flush_stream T (ms_source ms) b w) (\<lambda>b w.
          flush_eof T (ms_source ms) b w))))"

section \<open>The input buffer\<close>

text \<open>The three parts of \<open>inp_makespace\<close>: restart an empty buffer at offset 0; move the
  unread bytes to the front; grow the vector to its new capacity.\<close>

definition makespace_restart :: "'s tcp_stream_buf \<Rightarrow> 's tcp_stream_buf" where
  "makespace_restart b = (if tb_rd b = tb_wr b then b\<lparr>tb_rd := 0, tb_wr := 0\<rparr> else b)"

definition makespace_compact :: "'s tcp_stream_buf \<Rightarrow> 's tcp_stream_buf outcome" where
  "makespace_compact b =
     (if tb_rd b \<le> tb_wr b \<and> tb_wr b \<le> length (tb_inp b)
      then Ret (b\<lparr>tb_inp := overwrite 0 (slice (tb_rd b) (tb_wr b) (tb_inp b)) (tb_inp b),
                  tb_wr := tb_wr b - tb_rd b, tb_rd := 0\<rparr>)
      else Panic)"

definition makespace_grow :: "rust_rt \<Rightarrow> nat \<Rightarrow> 's tcp_stream_buf \<Rightarrow> 's tcp_stream_buf outcome" where
  "makespace_grow rt max_len b =
     obind (usize_add rt (tb_wr b) max_len) (\<lambda>e1.
     obind (usize_mul rt max_len 2) (\<lambda>e2.
       let end_len = max e1 e2 in
       if length (tb_inp b) < end_len then
         obind (vec_reserve rt (tb_inp_cap b) (length (tb_inp b)) (end_len - length (tb_inp b)))
           (\<lambda>cap. Ret (b\<lparr>tb_inp := vec_resize cap 0 (tb_inp b), tb_inp_cap := cap\<rparr>))
       else Ret b))"

definition tb_inp_makespace ::
  "rust_rt \<Rightarrow> nat \<Rightarrow> 's tcp_stream_buf \<Rightarrow> 's tcp_stream_buf outcome" where
  "tb_inp_makespace rt max_len b0 =
     (let b = makespace_restart b0 in
      obind (usize_add rt (tb_wr b) max_len) (\<lambda>e.
        if e \<le> length (tb_inp b) then Ret b
        else if tb_rd b \<noteq> 0 then
          obind (makespace_compact b) (\<lambda>b.
          obind (usize_add rt (tb_wr b) max_len) (\<lambda>e.
            if e \<le> length (tb_inp b) then Ret b else makespace_grow rt max_len b))
        else makespace_grow rt max_len b))"

partial_function (option) read_loop ::
  "rust_rt \<Rightarrow> ('s, 'w) tcp_ops \<Rightarrow> 's \<Rightarrow> nat \<Rightarrow> 's tcp_stream_buf \<Rightarrow> 'w
    \<Rightarrow> (read_status \<times> 's tcp_stream_buf \<times> 'w) exec" where
  "read_loop rt T s end_pos b w =
     (if tb_wr b \<le> end_pos \<and> end_pos \<le> length (tb_inp b) then
        (case tcp_read T s (slice (tb_wr b) end_pos (tb_inp b)) w of (r, buf, w') \<Rightarrow>
           let b' = b\<lparr>tb_inp := overwrite (tb_wr b) buf (tb_inp b)\<rparr> in
           (case r of
              Inr len \<Rightarrow>
                if len = 0 then Some (Ret (EndOfStream, b'\<lparr>tb_inp_eof := True\<rparr>, w'))
                else (case usize_add rt (tb_wr b') len of
                        Panic \<Rightarrow> Some Panic
                      | Ret wr \<Rightarrow> Some (Ret (NewData, b'\<lparr>tb_wr := wr\<rparr>, w')))
            | Inl e \<Rightarrow>
                if err_kind e = WouldBlock then Some (Ret (ReadWouldBlock, b', w'))
                else if err_kind e = Interrupted then read_loop rt T s end_pos b' w'
                else Some (Ret (ReadError e, b', w'))))
      else Some Panic)"

declare read_loop.simps [code]

definition tb_read ::
  "rust_rt \<Rightarrow> ('s, 'w) tcp_ops \<Rightarrow> nat \<Rightarrow> 's tcp_stream_buf \<Rightarrow> 'w
    \<Rightarrow> (read_status \<times> 's tcp_stream_buf \<times> 'w) exec" where
  "tb_read rt T max_len b0 w =
     ebind (Some (tb_inp_makespace rt max_len b0)) (\<lambda>b.
       case tb_stream b of
         None \<Rightarrow> Some (Ret (ReadWouldBlock, b, w))
       | Some ms \<Rightarrow>
           ebind (Some (usize_add rt (tb_wr b) max_len)) (\<lambda>end_pos.
             read_loop rt T (ms_source ms) end_pos b w))"

section \<open>Exchange and the Read and Write traits\<close>

definition exchange_input ::
  "rust_rt \<Rightarrow> nat \<Rightarrow> 's tcp_stream_buf \<times> 's tcp_stream_buf
    \<Rightarrow> ('s tcp_stream_buf \<times> 's tcp_stream_buf) outcome" where
  "exchange_input rt read_len = (\<lambda>(self, up).
     if 0 < read_len then
       obind (tb_inp_makespace rt read_len self) (\<lambda>self.
       obind (usize_add rt (tb_wr self) read_len) (\<lambda>wr.
         if tb_wr self \<le> wr \<and> wr \<le> length (tb_inp self) \<and>
            tb_rd up \<le> tb_wr up \<and> tb_wr up \<le> length (tb_inp up) \<and>
            wr - tb_wr self = tb_wr up - tb_rd up
         then Ret (self\<lparr>tb_inp := overwrite (tb_wr self)
                            (slice (tb_rd up) (tb_wr up) (tb_inp up)) (tb_inp self),
                        tb_wr := wr\<rparr>,
                   up\<lparr>tb_rd := 0, tb_wr := 0\<rparr>)
         else Panic))
     else Ret (self, up))"

definition exchange_output ::
  "'s tcp_stream_buf \<Rightarrow> 's tcp_stream_buf \<Rightarrow> 's tcp_stream_buf \<times> 's tcp_stream_buf" where
  "exchange_output self up =
     (let up1 = (if tb_out self \<noteq> [] then up\<lparr>tb_out := tb_out up @ tb_out self\<rparr> else up);
          self1 = (if tb_out self \<noteq> [] then self\<lparr>tb_out := []\<rparr> else self);
          up2 = (if tb_out_eof self1 then up1\<lparr>tb_out_eof := True\<rparr> else up1)
      in (self1, up2))"

definition tb_exchange ::
  "rust_rt \<Rightarrow> 's tcp_stream_buf \<Rightarrow> 's tcp_stream_buf
    \<Rightarrow> ('s tcp_stream_buf \<times> 's tcp_stream_buf) outcome" where
  "tb_exchange rt self0 up0 =
     (case exchange_output self0 up0 of (self1, up1) \<Rightarrow>
        obind (usize_sub rt (tb_wr up1) (tb_rd up1)) (\<lambda>read_len.
        obind (exchange_input rt read_len (self1, up1)) (\<lambda>(self2, up2).
          Ret (if tb_inp_eof up2 then self2\<lparr>tb_inp_eof := True\<rparr> else self2, up2))))"

text \<open>\<open>Read::read\<close> into the caller's buffer: the result, the buffer's new contents and the
  new state.\<close>

definition tb_trait_read ::
  "rust_rt \<Rightarrow> bytes \<Rightarrow> 's tcp_stream_buf \<Rightarrow> (nat io \<times> bytes \<times> 's tcp_stream_buf) outcome" where
  "tb_trait_read rt buf b =
     (if tb_wr b = tb_rd b then
        Ret (if tb_inp_eof b then Inr 0 else Inl (io_err WouldBlock), buf, b)
      else
        obind (usize_sub rt (tb_wr b) (tb_rd b)) (\<lambda>avail.
          let len = min (length buf) avail in
          obind (usize_add rt (tb_rd b) len) (\<lambda>rd.
            if tb_rd b \<le> rd \<and> rd \<le> length (tb_inp b) \<and> rd - tb_rd b = len
            then Ret (Inr len, overwrite 0 (slice (tb_rd b) rd (tb_inp b)) buf, b\<lparr>tb_rd := rd\<rparr>)
            else Panic)))"

definition tb_trait_write :: "bytes \<Rightarrow> 's tcp_stream_buf \<Rightarrow> nat io \<times> 's tcp_stream_buf" where
  "tb_trait_write buf b = (Inr (length buf), b\<lparr>tb_out := tb_out b @ buf\<rparr>)"

definition tb_trait_flush :: "'s tcp_stream_buf \<Rightarrow> unit io \<times> 's tcp_stream_buf" where
  "tb_trait_flush b = (Inr (), b)"

end
