(* ===== verification/Tcp_Output.thy ===== *)
theory Tcp_Output
  imports Tcp_Stream_Buf
begin

text \<open>
  The output side of \<open>TcpStreamBuf\<close>: what \<open>flush\<close> does to the output buffer, the stream and
  the EOF flag on every path, and when it returns.
\<close>

section \<open>The contract of the stream\<close>

text \<open>
  \<open>tx s w\<close> are the bytes the operating system has accepted from stream \<open>s\<close> so far. As
  documented for \<open>Write\<close>: a successful write of \<open>n\<close> bytes accepts the first \<open>n\<close> bytes of
  the buffer, a failed one accepts nothing; the other calls accept nothing.
\<close>

definition tcp_write_ok :: "('s, 'w) tcp_ops \<Rightarrow> ('s \<Rightarrow> 'w \<Rightarrow> bytes) \<Rightarrow> bool" where
  "tcp_write_ok T tx \<longleftrightarrow>
     (\<forall>s buf w n w'. tcp_write T s buf w = (Inr n, w') \<longrightarrow>
        n \<le> length buf \<and> tx s w' = tx s w @ take n buf) \<and>
     (\<forall>s buf w e w'. tcp_write T s buf w = (Inl e, w') \<longrightarrow> tx s w' = tx s w) \<and>
     (\<forall>s nd w. tx s (snd (tcp_set_nodelay T s nd w)) = tx s w) \<and>
     (\<forall>s w. tx s (snd (tcp_flush T s w)) = tx s w) \<and>
     (\<forall>s w. tx s (snd (tcp_shutdown_write T s w)) = tx s w)"

text \<open>Signals arrive finitely often: each interrupted call uses up one of \<open>m w\<close> signals.\<close>

definition tcp_signals :: "('s, 'w) tcp_ops \<Rightarrow> ('w \<Rightarrow> nat) \<Rightarrow> bool" where
  "tcp_signals T m \<longleftrightarrow>
     (\<forall>s nd. signal_budget m (tcp_set_nodelay T s nd)) \<and>
     (\<forall>s buf. signal_budget m (tcp_write T s buf)) \<and>
     (\<forall>s. signal_budget m (tcp_flush T s)) \<and>
     (\<forall>s. signal_budget m (tcp_shutdown_write T s))"

section \<open>The small loops are retries\<close>

lemma set_nodelay_loop_returns:
  assumes "set_nodelay_loop T s nd w = Some x"
  shows "retry (tcp_set_nodelay T s nd) w \<noteq> None"
proof (rule set_nodelay_loop.raw_induct [OF _ assms,
      where P = "\<lambda>T s nd w x. retry (tcp_set_nodelay T s nd) w \<noteq> None"], goal_cases)
  case (1 rec T s nd w x)
  then show ?case
    by (cases "tcp_set_nodelay T s nd w"; cases x)
       (auto simp: retry_unfold [of "tcp_set_nodelay T s nd" w] elim!: interruptedE)
qed

lemma ok_or_block_loop_returns:
  assumes "ok_or_block_loop f w = Some x"
  shows "retry f w \<noteq> None"
proof (rule ok_or_block_loop.raw_induct [OF _ assms, where P = "\<lambda>f w x. retry f w \<noteq> None"],
    goal_cases)
  case (1 rec f w x)
  then show ?case
    by (cases "f w"; cases x) (auto simp: retry_unfold [of f w] elim!: interruptedE)
qed

lemma set_nodelay_loop_retry:
  "set_nodelay_loop T s nd w =
     map_option (\<lambda>(r, w'). (case r of Inl e \<Rightarrow> Return (Inl e) | Inr _ \<Rightarrow> Break, w'))
       (retry (tcp_set_nodelay T s nd) w)"
  by (rule loop_is_retry [OF _ set_nodelay_loop_returns], subst set_nodelay_loop.simps)
     (auto simp: interrupted_def split: prod.splits sum.splits)

lemma ok_or_block_loop_retry:
  "ok_or_block_loop f w =
     map_option (\<lambda>(r, w'). (case r of
         Inl e \<Rightarrow> if err_kind e = WouldBlock then Return (Inr ()) else Return (Inl e)
       | Inr _ \<Rightarrow> Break, w')) (retry f w)"
  by (rule loop_is_retry [OF _ ok_or_block_loop_returns], subst ok_or_block_loop.simps)
     (auto simp: interrupted_def split: prod.splits sum.splits)

section \<open>The write loop\<close>

lemma tcp_write_okD:
  assumes "tcp_write_ok T tx"
  shows "tcp_write T s buf w = (Inr n, w') \<Longrightarrow> n \<le> length buf"
    "tcp_write T s buf w = (Inr n, w') \<Longrightarrow> tx s w' = tx s w @ take n buf"
    "tcp_write T s buf w = (Inl e, w') \<Longrightarrow> tx s w' = tx s w"
    "tx s (snd (tcp_set_nodelay T s nd w)) = tx s w"
    "tx s (snd (tcp_flush T s w)) = tx s w"
    "tx s (snd (tcp_shutdown_write T s w)) = tx s w"
  using assms unfolding tcp_write_ok_def by blast+

text \<open>Whatever the loop does, the bytes accepted and the bytes left are those it started with.\<close>

definition write_post ::
  "('s \<Rightarrow> 'w \<Rightarrow> bytes) \<Rightarrow> 's \<Rightarrow> bytes \<Rightarrow> 'w \<Rightarrow> (loop_exit \<times> bytes \<times> 'w) outcome \<Rightarrow> bool" where
  "write_post tx s out w res \<longleftrightarrow>
     (\<exists>x out' w'. res = Ret (x, out', w') \<and> tx s w' @ out' = tx s w @ out \<and>
        (\<forall>e. x = Return (Inl e) \<longrightarrow> err_kind e \<noteq> Interrupted \<and> err_kind e \<noteq> WouldBlock))"

lemma write_loop_post:
  assumes "write_loop T s out w = Some res" "tcp_write_ok T tx"
  shows "write_post tx s out w res"
proof -
  have "tcp_write_ok T tx \<longrightarrow> write_post tx s out w res"
  proof (rule write_loop.raw_induct [OF _ assms(1),
        where P = "\<lambda>T s out w res. tcp_write_ok T tx \<longrightarrow> write_post tx s out w res"],
      intro impI, goal_cases)
    case (1 rec T s out w res)
    show ?case
    proof (cases "out = []")
      case True
      with 1(2) show ?thesis by (auto simp: write_post_def)
    next
      case False
      obtain r w' where call: "tcp_write T s out w = (r, w')" by fastforce
      note ok = tcp_write_okD [OF 1(3)]
      show ?thesis
      proof (cases r)
        case (Inl e)
        with call ok(3) have tx: "tx s w' = tx s w" by blast
        show ?thesis
        proof (cases "err_kind e = Interrupted")
          case True
          with 1(1,2,3) False call Inl have "write_post tx s out w' res" by auto
          with tx show ?thesis by (simp add: write_post_def)
        next
          case noint: False
          with 1(2) False call Inl tx show ?thesis
            by (cases "err_kind e = WouldBlock") (auto simp: write_post_def)
        qed
      next
        case (Inr n)
        with call ok(1,2) have n: "n \<le> length out" "tx s w' = tx s w @ take n out" by blast+
        show ?thesis
        proof (cases "n = 0")
          case True
          with 1(2) False call Inr n show ?thesis by (auto simp: write_post_def)
        next
          case pos: False
          with 1(1,2,3) False call Inr n(1) have "write_post tx s (drop n out) w' res" by auto
          with n(2) show ?thesis by (simp add: write_post_def)
        qed
      qed
    qed
  qed
  with assms(2) show ?thesis by blast
qed

lemma write_loop_total:
  assumes "\<And>buf. signal_budget m (tcp_write T s buf)"
  shows "write_loop T s out w \<noteq> None"
proof (induction "(out, w)" arbitrary: out w
    rule: wf_induct [OF wf_measures [of "[\<lambda>(out, w). length out, \<lambda>(out, w). m w]"]])
  case 1
  then have IH: "length out' < length out \<or> length out' = length out \<and> m w' < m w \<Longrightarrow>
      write_loop T s out' w' \<noteq> None" for out' w'
    by auto
  obtain r w' where call: "tcp_write T s out w = (r, w')" by fastforce
  have "m w' < m w" if "interrupted r"
  proof -
    have "interrupted (fst (tcp_write T s out w)) \<longrightarrow> m (snd (tcp_write T s out w)) < m w"
      using assms [of out] unfolding signal_budget_def by blast
    with call that show ?thesis by simp
  qed
  with IH [of out w'] IH [of "drop _ out" w'] call show ?case
    by (subst write_loop.simps) (auto split: sum.splits)
qed

section \<open>The stages of flush\<close>

definition flush_frame :: "'s tcp_stream_buf \<Rightarrow> 's tcp_stream_buf \<Rightarrow> bool" where
  "flush_frame b b' \<longleftrightarrow>
     tb_inp b' = tb_inp b \<and> tb_inp_cap b' = tb_inp_cap b \<and> tb_inp_eof b' = tb_inp_eof b \<and>
     tb_rd b' = tb_rd b \<and> tb_wr b' = tb_wr b \<and> tb_out_eof b' = tb_out_eof b \<and>
     tb_nodelay b' = tb_nodelay b \<and> tb_pause b' = tb_pause b \<and> tb_stream b' = tb_stream b"

text \<open>
  The state after any part of \<open>flush\<close>: accepted and remaining bytes add up; the EOF mark is
  only ever set, and only with an empty output buffer whose EOF flag is set; nothing else
  but the pending TCP_NODELAY mark has changed.
\<close>

definition flush_rel ::
  "('s \<Rightarrow> 'w \<Rightarrow> bytes) \<Rightarrow> 's \<Rightarrow> 's tcp_stream_buf \<Rightarrow> 'w \<Rightarrow> 's tcp_stream_buf \<Rightarrow> 'w \<Rightarrow> bool" where
  "flush_rel tx s b w b' w' \<longleftrightarrow>
     tx s w' @ tb_out b' = tx s w @ tb_out b \<and> flush_frame b b' \<and>
     (tb_sent_out_eof b \<longrightarrow> tb_sent_out_eof b') \<and>
     (tb_sent_out_eof b' \<and> \<not> tb_sent_out_eof b \<longrightarrow> tb_out_eof b \<and> tb_out b' = [])"

lemma flush_rel_refl [simp]: "flush_rel tx s b w b w"
  by (simp add: flush_rel_def flush_frame_def)

lemma flush_rel_trans:
  assumes "flush_rel tx s b w b1 w1" "flush_rel tx s b1 w1 b2 w2" "tb_sent_out_eof b1 = tb_sent_out_eof b"
  shows "flush_rel tx s b w b2 w2"
  using assms by (auto simp: flush_rel_def flush_frame_def)

definition stage_ok ::
  "('s \<Rightarrow> 'w \<Rightarrow> bytes) \<Rightarrow> 's \<Rightarrow> 's tcp_stream_buf \<Rightarrow> 'w
    \<Rightarrow> (loop_exit \<times> 's tcp_stream_buf \<times> 'w) exec \<Rightarrow> bool" where
  "stage_ok tx s b w m \<longleftrightarrow>
     m \<noteq> Some Panic \<and>
     (\<forall>x b' w'. m = Some (Ret (x, b', w')) \<longrightarrow>
        flush_rel tx s b w b' w' \<and> tb_sent_out_eof b' = tb_sent_out_eof b \<and>
        (\<forall>e. x = Return (Inl e) \<longrightarrow> err_kind e \<noteq> Interrupted))"

definition flush_ok ::
  "('s \<Rightarrow> 'w \<Rightarrow> bytes) \<Rightarrow> 's \<Rightarrow> 's tcp_stream_buf \<Rightarrow> 'w
    \<Rightarrow> (unit io \<times> 's tcp_stream_buf \<times> 'w) exec \<Rightarrow> bool" where
  "flush_ok tx s b w m \<longleftrightarrow>
     m \<noteq> Some Panic \<and>
     (\<forall>r b' w'. m = Some (Ret (r, b', w')) \<longrightarrow>
        flush_rel tx s b w b' w' \<and> (\<forall>e. r = Inl e \<longrightarrow> err_kind e \<noteq> Interrupted))"

lemma and_then_simps [simp]:
  "and_then None k = None" "and_then (Some Panic) k = Some Panic"
  "and_then (Some (Ret (Return r, b, w))) k = Some (Ret (r, b, w))"
  "and_then (Some (Ret (Break, b, w))) k = k b w"
  by (simp_all add: and_then_def)

lemma and_then_cases:
  obtains (None) "m = None" | (Panic) "m = Some Panic"
    | (Return) r b w where "m = Some (Ret (Return r, b, w))"
    | (Break) b w where "m = Some (Ret (Break, b, w))"
  by (cases m; cases "the m") (auto, metis loop_exit.exhaust)

lemma and_then_ok:
  assumes "stage_ok tx s b w m"
    and "\<And>b1 w1. m = Some (Ret (Break, b1, w1)) \<Longrightarrow> flush_ok tx s b1 w1 (k b1 w1)"
  shows "flush_ok tx s b w (and_then m k)"
proof (cases m rule: and_then_cases)
  case (Break b1 w1)
  with assms(1) have rel: "flush_rel tx s b w b1 w1" "tb_sent_out_eof b1 = tb_sent_out_eof b"
    by (simp_all add: stage_ok_def)
  from assms(2) [OF Break] Break show ?thesis
    by (auto simp: flush_ok_def intro: flush_rel_trans [OF rel(1) _ rel(2)])
qed (use assms(1) in \<open>auto simp: stage_ok_def flush_ok_def\<close>)

lemma retry_tx:
  assumes "retry f w = Some (r, w')" "\<And>w. tx s (snd (f w)) = tx s w"
  shows "tx s w' = tx s w"
  by (rule retry_keeps [OF assms(1), where I = "\<lambda>v. tx s v = tx s w"]) (simp_all add: assms(2))

lemma flush_nodelay_ok:
  assumes "tcp_write_ok T tx"
  shows "stage_ok tx s b w (flush_nodelay T s b w)"
proof (cases "retry (tcp_set_nodelay T s (tb_nodelay b)) w")
  case None
  then show ?thesis
    by (simp add: flush_nodelay_def stage_ok_def set_nodelay_loop_retry)
next
  case (Some x)
  obtain r w' where x: "x = (r, w')" by (cases x)
  have "tx s w' = tx s w"
    by (rule retry_tx [OF Some [unfolded x], of tx s]) (rule tcp_write_okD(4) [OF assms])
  then show ?thesis using Some x retry_not_interrupted [OF Some [unfolded x]]
    by (auto simp: flush_nodelay_def stage_ok_def set_nodelay_loop_retry flush_rel_def
        flush_frame_def split: sum.splits)
qed

lemma flush_write_ok:
  assumes "tcp_write_ok T tx"
  shows "stage_ok tx s b w (flush_write T s b w)"
proof (cases "write_loop T s (tb_out b) w")
  case None
  then show ?thesis by (simp add: flush_write_def stage_ok_def)
next
  case (Some res)
  from write_loop_post [OF Some assms] show ?thesis using Some
    by (auto simp: write_post_def flush_write_def stage_ok_def flush_rel_def flush_frame_def)
qed

lemma ok_or_block_stage:
  assumes "\<And>w. tx s (snd (f w)) = tx s w"
  shows "stage_ok tx s b w (map_option (\<lambda>(x, w'). Ret (x, b, w')) (ok_or_block_loop f w))"
proof (cases "retry f w")
  case None
  then show ?thesis by (simp add: stage_ok_def ok_or_block_loop_retry)
next
  case (Some x)
  obtain r w' where x: "x = (r, w')" by (cases x)
  have "tx s w' = tx s w" by (rule retry_tx [OF Some [unfolded x], of tx s]) (rule assms)
  then show ?thesis using Some x retry_not_interrupted [OF Some [unfolded x]]
    by (auto simp: stage_ok_def ok_or_block_loop_retry flush_rel_def flush_frame_def
        split: sum.splits if_splits)
qed

lemma flush_stream_ok:
  "tcp_write_ok T tx \<Longrightarrow> stage_ok tx s b w (flush_stream T s b w)"
  unfolding flush_stream_def by (rule ok_or_block_stage) (rule tcp_write_okD(5))

lemma flush_eof_ok:
  assumes "tcp_write_ok T tx"
  shows "flush_ok tx s b w (flush_eof T s b w)"
proof (cases "tb_out_eof b \<and> \<not> tb_sent_out_eof b \<and> tb_out b = []")
  case False
  then show ?thesis by (auto simp: flush_eof_def flush_ok_def)
next
  case True
  let ?m = "map_option (\<lambda>(x, w'). Ret (x, b, w')) (ok_or_block_loop (tcp_shutdown_write T s) w)"
  have "stage_ok tx s b w ?m"
    by (rule ok_or_block_stage) (rule tcp_write_okD(6) [OF assms])
  then have "flush_ok tx s b w (and_then ?m (\<lambda>b w. Some (Ret (Inr (), b\<lparr>tb_sent_out_eof := True\<rparr>, w))))"
    by (rule and_then_ok) (use True in \<open>auto simp: flush_ok_def flush_rel_def flush_frame_def\<close>)
  with True show ?thesis by (simp add: flush_eof_def)
qed

lemma tb_flush_ok:
  assumes "tcp_write_ok T tx" "tb_stream b = Some ms"
  shows "flush_ok tx (ms_source ms) b w (tb_flush T b w)"
proof (cases "tb_pause b")
  case True
  then show ?thesis by (simp add: tb_flush_def flush_ok_def)
next
  case False
  with assms(2) show ?thesis
    by (simp add: tb_flush_def)
       (intro and_then_ok flush_nodelay_ok flush_write_ok flush_stream_ok flush_eof_ok assms(1))
qed

section \<open>Termination\<close>

lemma retry_signals: "signal_budget m f \<Longrightarrow> retry f w \<noteq> None"
  using retry_total [of m f w] by auto

lemma and_then_total:
  assumes "m \<noteq> None" "\<And>b w. m = Some (Ret (Break, b, w)) \<Longrightarrow> k b w \<noteq> None"
  shows "and_then m k \<noteq> None"
  using assms by (cases m rule: and_then_cases) auto

lemma tb_flush_total:
  assumes "tcp_signals T m"
  shows "tb_flush T b w \<noteq> None"
proof -
  note sig = assms [unfolded tcp_signals_def]
  have nd: "flush_nodelay T s b w \<noteq> None" for s b w
    using sig retry_signals [of m "tcp_set_nodelay T s (tb_nodelay b)" w]
    by (auto simp: flush_nodelay_def set_nodelay_loop_retry)
  have wr: "flush_write T s b w \<noteq> None" for s b w
  proof -
    have "write_loop T s (tb_out b) w \<noteq> None" using sig write_loop_total [of m T s] by blast
    then show ?thesis by (auto simp: flush_write_def ebind_eq_None)
  qed
  have blk: "map_option g (ok_or_block_loop f w) \<noteq> None" if "signal_budget m f" for f w
      and g :: "loop_exit \<times> 'b \<Rightarrow> (loop_exit \<times> 'a tcp_stream_buf \<times> 'b) outcome"
    using retry_signals [OF that, of w] by (simp add: ok_or_block_loop_retry)
  have fl: "flush_stream T s b w \<noteq> None" for s b w
    unfolding flush_stream_def by (rule blk) (use sig in blast)
  have eof: "flush_eof T s b w \<noteq> None" for s b w
  proof (cases "tb_out_eof b \<and> \<not> tb_sent_out_eof b \<and> tb_out b = []")
    case True
    have "signal_budget m (tcp_shutdown_write T s)" using sig by blast
    then have "and_then (map_option (\<lambda>(x, w'). Ret (x, b, w'))
        (ok_or_block_loop (tcp_shutdown_write T s) w))
        (\<lambda>b w. Some (Ret (Inr (), b\<lparr>tb_sent_out_eof := True\<rparr>, w))) \<noteq> None"
      by (intro and_then_total blk) simp_all
    with True show ?thesis by (simp add: flush_eof_def)
  qed (auto simp: flush_eof_def)
  have "and_then (flush_nodelay T s b w) (\<lambda>b w. and_then (flush_write T s b w)
      (\<lambda>b w. and_then (flush_stream T s b w) (\<lambda>b w. flush_eof T s b w))) \<noteq> None" for s
    by (intro and_then_total nd wr fl eof)
  then show ?thesis by (auto simp: tb_flush_def split: option.splits)
qed

section \<open>A flush that meets no obstacle\<close>

text \<open>The stream accepts at least one byte of every write and the other calls succeed.\<close>

definition tcp_accepts :: "('s, 'w) tcp_ops \<Rightarrow> 's \<Rightarrow> bool" where
  "tcp_accepts T s \<longleftrightarrow>
     (\<forall>nd w. fst (tcp_set_nodelay T s nd w) = Inr ()) \<and>
     (\<forall>buf w. buf \<noteq> [] \<longrightarrow> (\<exists>n. fst (tcp_write T s buf w) = Inr n \<and> 0 < n)) \<and>
     (\<forall>w. fst (tcp_flush T s w) = Inr ()) \<and>
     (\<forall>w. fst (tcp_shutdown_write T s w) = Inr ())"

lemma write_loop_all:
  assumes "tcp_write_ok T tx" "tcp_accepts T s"
  shows "\<exists>w'. write_loop T s out w = Some (Ret (Break, [], w')) \<and> tx s w' = tx s w @ out"
proof (induction out arbitrary: w rule: length_induct)
  case (1 out)
  show ?case
  proof (cases "out = []")
    case True
    then show ?thesis by (subst write_loop.simps) simp
  next
    case False
    with assms(2) obtain n w1 where call: "tcp_write T s out w = (Inr n, w1)" "0 < n"
      unfolding tcp_accepts_def by (metis prod.collapse)
    note n = tcp_write_okD(1,2) [OF assms(1) call(1)]
    have "length (drop n out) < length out" using call(2) False by simp
    with 1 obtain w' where
      "write_loop T s (drop n out) w1 = Some (Ret (Break, [], w'))" "tx s w' = tx s w1 @ drop n out"
      by blast
    with n call False show ?thesis by (subst write_loop.simps) simp
  qed
qed

lemma retry_success: "fst (f w) = Inr v \<Longrightarrow> retry f w = Some (Inr v, snd (f w))"
  by (cases "f w") (simp add: retry_answer)

lemma tb_flush_all:
  assumes T: "tcp_write_ok T tx" "tcp_accepts T (ms_source ms)"
    and b: "tb_stream b = Some ms" "\<not> tb_pause b"
  obtains b' w' where "tb_flush T b w = Some (Ret (Inr (), b', w'))"
    "tb_out b' = []" "tx (ms_source ms) w' = tx (ms_source ms) w @ tb_out b"
    "tb_sent_out_eof b' = (tb_sent_out_eof b \<or> tb_out_eof b)"
    "\<not> tb_pending_set_nodelay b'"
proof -
  let ?s = "ms_source ms"
  note acc = T(2) [unfolded tcp_accepts_def]
  let ?b1 = "b\<lparr>tb_pending_set_nodelay := False\<rparr>"
  obtain w1 where nd: "flush_nodelay T ?s b w = Some (Ret (Break, ?b1, w1))"
    using acc retry_success [of "tcp_set_nodelay T ?s (tb_nodelay b)" w]
    by (cases "tb_pending_set_nodelay b") (auto simp: flush_nodelay_def set_nodelay_loop_retry)
  obtain w2 where wr: "flush_write T ?s ?b1 w1 = Some (Ret (Break, ?b1\<lparr>tb_out := []\<rparr>, w2))"
    using write_loop_all [OF T, of "tb_out b" w1] by (auto simp: flush_write_def)
  let ?b2 = "?b1\<lparr>tb_out := []\<rparr>"
  obtain w3 where fl: "flush_stream T ?s ?b2 w2 = Some (Ret (Break, ?b2, w3))"
    using acc retry_success [of "tcp_flush T ?s" w2]
    by (auto simp: flush_stream_def ok_or_block_loop_retry)
  obtain w4 where eof: "flush_eof T ?s ?b2 w3 =
      Some (Ret (Inr (), ?b2\<lparr>tb_sent_out_eof := tb_sent_out_eof b \<or> tb_out_eof b\<rparr>, w4))"
    using acc retry_success [of "tcp_shutdown_write T ?s" w3]
    by (cases "tb_out_eof b"; cases "tb_sent_out_eof b")
       (auto simp: flush_eof_def ok_or_block_loop_retry)
  have run: "tb_flush T b w = Some (Ret (Inr (),
      ?b2\<lparr>tb_sent_out_eof := tb_sent_out_eof b \<or> tb_out_eof b\<rparr>, w4))"
    using b nd wr fl eof by (simp add: tb_flush_def)
  moreover have "tx ?s w4 = tx ?s w @ tb_out b"
    using tb_flush_ok [OF T(1) b(1), of w] run by (simp add: flush_ok_def flush_rel_def)
  ultimately show thesis by (intro that) auto
qed

end
