(* ===== verification/Tcp_Input.thy ===== *)
theory Tcp_Input
  imports Tcp_Stream_Buf
begin

text \<open>
  The input side of \<open>TcpStreamBuf\<close>: making space, reading from the stream, the \<open>Read\<close> and
  \<open>Write\<close> traits and the exchange between two buffers. The abstract state of the input buffer
  is the list of the unread bytes, \<open>tb_pending\<close>.
\<close>

section \<open>Well-formed buffers and their contents\<close>

definition tb_wf :: "'s tcp_stream_buf \<Rightarrow> bool" where
  "tb_wf b \<longleftrightarrow> tb_rd b \<le> tb_wr b \<and> tb_wr b \<le> length (tb_inp b) \<and>
     length (tb_inp b) \<le> tb_inp_cap b \<and> tb_inp_cap b \<le> isize_max"

definition tb_pending :: "'s tcp_stream_buf \<Rightarrow> bytes" where
  "tb_pending b = slice (tb_rd b) (tb_wr b) (tb_inp b)"

text \<open>Everything but the input buffer and its offsets is the same.\<close>

definition same_io :: "'s tcp_stream_buf \<Rightarrow> 's tcp_stream_buf \<Rightarrow> bool" where
  "same_io b b' \<longleftrightarrow>
     tb_out b' = tb_out b \<and> tb_out_eof b' = tb_out_eof b \<and> tb_inp_eof b' = tb_inp_eof b \<and>
     tb_nodelay b' = tb_nodelay b \<and> tb_pending_set_nodelay b' = tb_pending_set_nodelay b \<and>
     tb_sent_out_eof b' = tb_sent_out_eof b \<and> tb_pause b' = tb_pause b \<and>
     tb_stream b' = tb_stream b"

lemma same_io_refl [simp]: "same_io b b"
  by (simp add: same_io_def)

lemma same_io_trans [trans]: "same_io a b \<Longrightarrow> same_io b c \<Longrightarrow> same_io a c"
  by (simp add: same_io_def)

lemma tb_wfD:
  assumes "tb_wf b"
  shows "tb_rd b \<le> tb_wr b" "tb_wr b \<le> length (tb_inp b)" "length (tb_inp b) \<le> tb_inp_cap b"
    "tb_inp_cap b \<le> isize_max" "length (tb_inp b) \<le> isize_max" "tb_wr b \<le> isize_max"
    "tb_rd b \<le> isize_max"
  using assms by (simp_all add: tb_wf_def)

lemma length_pending: "tb_wf b \<Longrightarrow> length (tb_pending b) = tb_wr b - tb_rd b"
  by (simp add: tb_pending_def tb_wf_def)

lemma tb_new_wf: "tb_wf tb_new" "tb_pending tb_new = []"
  by (simp_all add: tb_wf_def tb_new_def tb_pending_def)

lemma usize_add_small:
  "a \<le> isize_max \<Longrightarrow> b \<le> isize_max \<Longrightarrow> usize_add rt a b = Ret (a + b)"
  using twice_isize_max by (intro usize_add_in_range) linarith

section \<open>Making space\<close>

lemma makespace_restart_ok:
  assumes "tb_wf b"
  shows "tb_wf (makespace_restart b)" "tb_pending (makespace_restart b) = tb_pending b"
    "same_io b (makespace_restart b)" "tb_wr (makespace_restart b) \<le> tb_wr b"
  using assms by (auto simp: makespace_restart_def tb_wf_def tb_pending_def same_io_def)

lemma makespace_compact_ok:
  assumes "tb_wf b"
  obtains b' where "makespace_compact b = Ret b'" "tb_wf b'" "tb_pending b' = tb_pending b"
    "same_io b b'" "tb_wr b' \<le> tb_wr b" "tb_inp_cap b' = tb_inp_cap b"
proof -
  note wf = tb_wfD [OF assms]
  let ?p = "slice (tb_rd b) (tb_wr b) (tb_inp b)"
  let ?b = "b\<lparr>tb_inp := overwrite 0 ?p (tb_inp b), tb_wr := tb_wr b - tb_rd b, tb_rd := 0\<rparr>"
  have len: "length ?p = tb_wr b - tb_rd b" using wf by simp
  then have "length (overwrite 0 ?p (tb_inp b)) = length (tb_inp b)" using wf by simp
  moreover have "slice 0 (tb_wr b - tb_rd b) (overwrite 0 ?p (tb_inp b)) = ?p"
    using slice_overwrite_start [of "tb_wr b - tb_rd b" ?p "tb_inp b"] len by simp
  ultimately show thesis
    using wf by (intro that [of ?b])
      (auto simp: makespace_compact_def tb_wf_def tb_pending_def same_io_def)
qed

lemma makespace_grow_ok:
  assumes wf: "tb_wf b" and rt: "vec_grow_ok rt"
    and room: "tb_wr b + n \<le> isize_max" "2 * n \<le> isize_max"
  obtains b' where "makespace_grow rt n b = Ret b'" "tb_wf b'" "tb_pending b' = tb_pending b"
    "same_io b b'" "tb_wr b' + n \<le> length (tb_inp b')"
    "tb_wr b' = tb_wr b" "tb_rd b' = tb_rd b" "2 * n \<le> length (tb_inp b')"
proof -
  note w = tb_wfD [OF wf]
  let ?lim = "max (tb_wr b + n) (n * 2)" and ?len = "length (tb_inp b)"
  have add: "usize_add rt (tb_wr b) n = Ret (tb_wr b + n)"
    using w room by (intro usize_add_small) auto
  have mul: "usize_mul rt n 2 = Ret (n * 2)"
    using room isize_max_lt_usize by (intro usize_mul_in_range) linarith
  show thesis
  proof (cases "?len < ?lim")
    case False
    then show thesis
      using wf add mul by (intro that [of b]) (auto simp: makespace_grow_def)
  next
    case True
    have "?len + (?lim - ?len) \<le> isize_max" using True room by auto
    from vec_reserve_Ret [OF rt this w(3,4)] obtain cap where
      cap: "vec_reserve rt (tb_inp_cap b) ?len (?lim - ?len) = Ret cap"
        "?len + (?lim - ?len) \<le> cap" "cap \<le> isize_max" .
    let ?b = "b\<lparr>tb_inp := vec_resize cap 0 (tb_inp b), tb_inp_cap := cap\<rparr>"
    have "?lim \<le> cap" "?len \<le> cap" using cap(2) True by auto
    then have "vec_resize cap 0 (tb_inp b) = tb_inp b @ replicate (cap - ?len) 0"
      by (simp add: vec_resize_grow)
    then show thesis
      using True add mul cap \<open>?lim \<le> cap\<close> \<open>?len \<le> cap\<close> w
      by (intro that [of ?b])
        (auto simp: makespace_grow_def Let_def tb_wf_def tb_pending_def same_io_def slice_append_left)
  qed
qed

lemma makespace_ok:
  assumes wf: "tb_wf b" and rt: "vec_grow_ok rt"
    and room: "tb_wr b + n \<le> isize_max" "2 * n \<le> isize_max"
  obtains b' where "tb_inp_makespace rt n b = Ret b'" "tb_wf b'" "tb_pending b' = tb_pending b"
    "same_io b b'" "tb_wr b' + n \<le> length (tb_inp b')"
proof -
  let ?r = "makespace_restart b"
  note r = makespace_restart_ok [OF wf]
  have room_r: "tb_wr ?r + n \<le> isize_max" using r(4) room(1) by linarith
  have add: "usize_add rt (tb_wr ?r) n = Ret (tb_wr ?r + n)"
    using room_r by (intro usize_add_small) auto
  note unfold = tb_inp_makespace_def [of rt n b] Let_def add obind_simps(1)
  consider (fits) "tb_wr ?r + n \<le> length (tb_inp ?r)"
    | (grow) "\<not> tb_wr ?r + n \<le> length (tb_inp ?r)" "tb_rd ?r = 0"
    | (compact) "\<not> tb_wr ?r + n \<le> length (tb_inp ?r)" "tb_rd ?r \<noteq> 0"
    by blast
  then show thesis
  proof cases
    case fits
    with r unfold show thesis by (intro that [of ?r]) simp_all
  next
    case grow
    obtain b' where b': "makespace_grow rt n ?r = Ret b'" "tb_wf b'"
      "tb_pending b' = tb_pending ?r" "same_io ?r b'" "tb_wr b' + n \<le> length (tb_inp b')"
      using makespace_grow_ok [OF r(1) rt room_r room(2)] by metis
    with grow r same_io_trans [OF r(3) b'(4)] show thesis
      by (intro that [of b']) (simp_all add: unfold)
  next
    case compact
    obtain b1 where b1: "makespace_compact ?r = Ret b1" "tb_wf b1"
      "tb_pending b1 = tb_pending ?r" "same_io ?r b1" "tb_wr b1 \<le> tb_wr ?r"
      using makespace_compact_ok [OF r(1)] by metis
    have room1: "tb_wr b1 + n \<le> isize_max" using b1(5) room_r by linarith
    then have add1: "usize_add rt (tb_wr b1) n = Ret (tb_wr b1 + n)"
      by (intro usize_add_small) auto
    have io1: "same_io b b1" by (rule same_io_trans [OF r(3) b1(4)])
    show thesis
    proof (cases "tb_wr b1 + n \<le> length (tb_inp b1)")
      case True
      with compact b1 r io1 show thesis
        by (intro that [of b1]) (simp_all add: unfold add1)
    next
      case False
      obtain b' where b': "makespace_grow rt n b1 = Ret b'" "tb_wf b'"
        "tb_pending b' = tb_pending b1" "same_io b1 b'" "tb_wr b' + n \<le> length (tb_inp b')"
        using makespace_grow_ok [OF b1(2) rt room1 room(2)] by metis
      with False compact b1 r same_io_trans [OF io1 b'(4)] show thesis
        by (intro that [of b']) (simp_all add: unfold add1)
    qed
  qed
qed

section \<open>Reading from the stream\<close>

text \<open>
  The documented contract of \<open>Read::read\<close> for a stream, with \<open>rx s w\<close> the bytes that stream
  \<open>s\<close> has handed over so far: a successful read of \<open>n\<close> bytes has \<open>n\<close> at most the length of
  the buffer and puts the next \<open>n\<close> bytes at its start; a failed read hands over nothing.
\<close>

definition tcp_read_ok :: "('s, 'w) tcp_ops \<Rightarrow> ('s \<Rightarrow> 'w \<Rightarrow> bytes) \<Rightarrow> bool" where
  "tcp_read_ok T rx \<longleftrightarrow>
     (\<forall>s buf w r buf' w'. tcp_read T s buf w = (r, buf', w') \<longrightarrow>
        length buf' = length buf \<and>
        (case r of Inr n \<Rightarrow> n \<le> length buf \<and> rx s w' = rx s w @ take n buf'
                 | Inl e \<Rightarrow> rx s w' = rx s w))"

lemma tcp_read_okD:
  assumes "tcp_read_ok T rx" "tcp_read T s buf w = (r, buf', w')"
  shows "length buf' = length buf"
    "r = Inr n \<Longrightarrow> n \<le> length buf" "r = Inr n \<Longrightarrow> rx s w' = rx s w @ take n buf'"
    "r = Inl e \<Longrightarrow> rx s w' = rx s w"
  using assms unfolding tcp_read_ok_def by fastforce+

text \<open>What a read leaves: \<open>new\<close> are the bytes it got.\<close>

definition read_post ::
  "nat \<Rightarrow> ('s \<Rightarrow> 'w \<Rightarrow> bytes) \<Rightarrow> 's \<Rightarrow> 's tcp_stream_buf \<Rightarrow> 'w
    \<Rightarrow> read_status \<Rightarrow> 's tcp_stream_buf \<Rightarrow> 'w \<Rightarrow> bool" where
  "read_post n rx s b w st b' w' \<longleftrightarrow>
     (\<exists>new. length new \<le> n \<and> tb_pending b' = tb_pending b @ new \<and> rx s w' = rx s w @ new \<and>
        (new \<noteq> [] \<longleftrightarrow> st = NewData)) \<and>
     tb_wf b' \<and> same_io b (b'\<lparr>tb_inp_eof := tb_inp_eof b\<rparr>) \<and>
     (tb_inp_eof b' \<longleftrightarrow> tb_inp_eof b \<or> st = EndOfStream) \<and>
     (\<forall>e. st = ReadError e \<longrightarrow> err_kind e \<noteq> WouldBlock \<and> err_kind e \<noteq> Interrupted)"

lemma read_into_tail:
  assumes wf: "tb_wf b" and len: "length buf = e - tb_wr b" "tb_wr b \<le> e" "e \<le> length (tb_inp b)"
  defines "b' \<equiv> b\<lparr>tb_inp := overwrite (tb_wr b) buf (tb_inp b)\<rparr>"
  shows "tb_wf b'" "tb_pending b' = tb_pending b" "same_io b b'"
    "length (tb_inp b') = length (tb_inp b)" "tb_wr b' = tb_wr b"
    "n \<le> length buf \<Longrightarrow> tb_pending (b'\<lparr>tb_wr := tb_wr b + n\<rparr>) = tb_pending b @ take n buf"
    "n \<le> length buf \<Longrightarrow> tb_wf (b'\<lparr>tb_wr := tb_wr b + n\<rparr>)"
proof -
  note w = tb_wfD [OF wf]
  let ?i = "overwrite (tb_wr b) buf (tb_inp b)"
  have l: "length ?i = length (tb_inp b)" using len by simp
  have before: "slice (tb_rd b) (tb_wr b) ?i = slice (tb_rd b) (tb_wr b) (tb_inp b)"
    using w by (intro slice_overwrite_before) auto
  show "tb_wf b'" "tb_pending b' = tb_pending b" "same_io b b'"
    "length (tb_inp b') = length (tb_inp b)" "tb_wr b' = tb_wr b"
    using w l before by (simp_all add: b'_def tb_wf_def tb_pending_def same_io_def)
  show "tb_pending (b'\<lparr>tb_wr := tb_wr b + n\<rparr>) = tb_pending b @ take n buf" if "n \<le> length buf"
    using w that before slice_append [of "tb_rd b" "tb_wr b" "tb_wr b + n" ?i]
      slice_overwrite_within [of "tb_wr b" "tb_inp b" n buf]
    by (simp add: b'_def tb_pending_def)
  show "tb_wf (b'\<lparr>tb_wr := tb_wr b + n\<rparr>)" if "n \<le> length buf"
    using w l that len by (simp add: b'_def tb_wf_def)
qed

text \<open>One iteration of the loop: either it is interrupted and goes on from a buffer with the
  same contents, or it ends with what \<open>read_post\<close> says.\<close>

lemma read_iteration:
  assumes T: "tcp_read_ok T rx" and wf: "tb_wf b" and e: "e = tb_wr b + n" "e \<le> length (tb_inp b)"
    and call: "tcp_read T s (slice (tb_wr b) e (tb_inp b)) w = (r, buf, w')"
  defines "b' \<equiv> b\<lparr>tb_inp := overwrite (tb_wr b) buf (tb_inp b)\<rparr>"
  shows "r = Inl err \<Longrightarrow> err_kind err = WouldBlock \<Longrightarrow> read_post n rx s b w ReadWouldBlock b' w'"
    and "r = Inl err \<Longrightarrow> err_kind err \<noteq> WouldBlock \<Longrightarrow> err_kind err \<noteq> Interrupted \<Longrightarrow>
      read_post n rx s b w (ReadError err) b' w'"
    and "r = Inr 0 \<Longrightarrow> read_post n rx s b w EndOfStream (b'\<lparr>tb_inp_eof := True\<rparr>) w'"
    and "r = Inr k \<Longrightarrow> k \<noteq> 0 \<Longrightarrow> usize_add rt (tb_wr b') k = Ret (tb_wr b + k) \<and>
      read_post n rx s b w NewData (b'\<lparr>tb_wr := tb_wr b + k\<rparr>) w'"
    and "tb_wf b'" "tb_pending b' = tb_pending b" "same_io b b'" "e = tb_wr b' + n"
      "e \<le> length (tb_inp b')"
proof -
  have sl: "length (slice (tb_wr b) e (tb_inp b)) = n" using e by simp
  note ok = tcp_read_okD [OF T call, unfolded sl]
  have "length buf = e - tb_wr b" "tb_wr b \<le> e" using ok(1) e by simp_all
  note tail = read_into_tail [OF wf this e(2), folded b'_def]
  show wf': "tb_wf b'" and pend: "tb_pending b' = tb_pending b" and io: "same_io b b'"
    by (fact tail(1), fact tail(2), fact tail(3))
  show "e = tb_wr b' + n" "e \<le> length (tb_inp b')" using tail(4,5) e by simp_all
  have eof: "tb_wf (b'\<lparr>tb_inp_eof := True\<rparr>)" "tb_pending (b'\<lparr>tb_inp_eof := True\<rparr>) = tb_pending b"
    using wf' pend by (simp_all add: tb_wf_def tb_pending_def)
  show "read_post n rx s b w ReadWouldBlock b' w'" if "r = Inl err" "err_kind err = WouldBlock"
    using wf' pend io ok(4) [OF that(1)] by (auto simp: read_post_def same_io_def)
  show "read_post n rx s b w (ReadError err) b' w'"
    if "r = Inl err" "err_kind err \<noteq> WouldBlock" "err_kind err \<noteq> Interrupted"
    using wf' pend io ok(4) [OF that(1)] that by (auto simp: read_post_def same_io_def)
  show "read_post n rx s b w EndOfStream (b'\<lparr>tb_inp_eof := True\<rparr>) w'" if "r = Inr 0"
    using eof io ok(3) [OF that] by (auto simp: read_post_def same_io_def)
  show "usize_add rt (tb_wr b') k = Ret (tb_wr b + k) \<and>
      read_post n rx s b w NewData (b'\<lparr>tb_wr := tb_wr b + k\<rparr>) w'" if k: "r = Inr k" "k \<noteq> 0"
  proof
    have le: "k \<le> length buf" using ok(1,2) k by simp
    then have "tb_wr b + k \<le> isize_max" using ok(1) e tb_wfD(5) [OF wf] by linarith
    then show "usize_add rt (tb_wr b') k = Ret (tb_wr b + k)"
      unfolding tail(5) by (intro usize_add_small) auto
    show "read_post n rx s b w NewData (b'\<lparr>tb_wr := tb_wr b + k\<rparr>) w'"
      using tail(6,7) [OF le] io ok(1) ok(3) [OF k(1)] le k(2)
      by (auto simp: read_post_def same_io_def intro!: exI [of _ "take k buf"])
  qed
qed

lemma read_post_interrupted:
  assumes "read_post n rx s b1 w1 st b' w'" "tb_pending b1 = tb_pending b" "same_io b b1"
    "rx s w1 = rx s w"
  shows "read_post n rx s b w st b' w'"
  using assms by (auto simp: read_post_def same_io_def)

lemma read_loop_post:
  assumes "read_loop rt T s e b w = Some res"
    and "tcp_read_ok T rx" "tb_wf b" "e = tb_wr b + n" "e \<le> length (tb_inp b)"
  shows "\<exists>st b' w'. res = Ret (st, b', w') \<and> read_post n rx s b w st b' w'"
proof -
  have "tcp_read_ok T rx \<longrightarrow> tb_wf b \<longrightarrow> e = tb_wr b + n \<longrightarrow> e \<le> length (tb_inp b) \<longrightarrow>
    (\<exists>st b' w'. res = Ret (st, b', w') \<and> read_post n rx s b w st b' w')"
  proof (rule read_loop.raw_induct [where P = "\<lambda>rt T s e b w res.
      tcp_read_ok T rx \<longrightarrow> tb_wf b \<longrightarrow> e = tb_wr b + n \<longrightarrow> e \<le> length (tb_inp b) \<longrightarrow>
      (\<exists>st b' w'. res = Ret (st, b', w') \<and> read_post n rx s b w st b' w')", OF _ assms(1)],
      intro impI, goal_cases)
    case (1 rec rt T s e b w res)
    obtain r buf w' where call: "tcp_read T s (slice (tb_wr b) e (tb_inp b)) w = (r, buf, w')"
      by (cases "tcp_read T s (slice (tb_wr b) e (tb_inp b)) w") auto
    note it = read_iteration [OF 1(3-6) call]
    show ?case
    proof (cases r)
      case (Inr k)
      with 1(2,5,6) call it(3,4) show ?thesis by (cases "k = 0") (auto simp: Let_def)
    next
      case (Inl err)
      show ?thesis
      proof (cases "err_kind err = Interrupted")
        case False
        with 1(2,5,6) call it(1,2) Inl show ?thesis
          by (cases "err_kind err = WouldBlock") (auto simp: Let_def)
      next
        case True
        with 1(2,5,6) call Inl have "rec rt T s e (b\<lparr>tb_inp := overwrite (tb_wr b) buf (tb_inp b)\<rparr>) w'
            = Some res" by (simp add: Let_def)
        with 1(1,3) it(5,8,9) obtain st b' w'' where res: "res = Ret (st, b', w'')"
          and post: "read_post n rx s (b\<lparr>tb_inp := overwrite (tb_wr b) buf (tb_inp b)\<rparr>) w' st b' w''"
          by blast
        have "read_post n rx s b w st b' w''"
          by (rule read_post_interrupted [OF post it(6,7) tcp_read_okD(4) [OF 1(3) call Inl]])
        with res show ?thesis by blast
      qed
    qed
  qed
  with assms(2-5) show ?thesis by blast
qed

text \<open>Reads are interrupted finitely often.\<close>

definition tcp_read_signals :: "('s, 'w) tcp_ops \<Rightarrow> ('w \<Rightarrow> nat) \<Rightarrow> bool" where
  "tcp_read_signals T m \<longleftrightarrow>
     (\<forall>s buf w r buf' w'. tcp_read T s buf w = (r, buf', w') \<and> interrupted r \<longrightarrow> m w' < m w)"

lemma read_loop_total:
  assumes "tcp_read_signals T m"
  shows "read_loop rt T s e b w \<noteq> None"
proof (induction "m w" arbitrary: b w rule: less_induct)
  case less
  obtain r buf w' where call: "tcp_read T s (slice (tb_wr b) e (tb_inp b)) w = (r, buf, w')"
    by (cases "tcp_read T s (slice (tb_wr b) e (tb_inp b)) w") auto
  have "interrupted r \<Longrightarrow> m w' < m w"
    using assms call unfolding tcp_read_signals_def by blast
  with less call show ?case
    by (subst read_loop.simps) (auto simp: Let_def split: sum.splits outcome.splits)
qed

lemma tb_read_cases:
  assumes "tb_wf b" "vec_grow_ok rt" "tb_wr b + n \<le> isize_max" "2 * n \<le> isize_max"
  obtains b1 where "tb_wf b1" "tb_pending b1 = tb_pending b" "same_io b b1"
    "tb_wr b1 + n \<le> length (tb_inp b1)"
    "tb_read rt T n b w = (case tb_stream b of
        None \<Rightarrow> Some (Ret (ReadWouldBlock, b1, w))
      | Some ms \<Rightarrow> read_loop rt T (ms_source ms) (tb_wr b1 + n) b1 w)"
proof -
  obtain b1 where b1: "tb_inp_makespace rt n b = Ret b1" "tb_wf b1" "tb_pending b1 = tb_pending b"
    "same_io b b1" "tb_wr b1 + n \<le> length (tb_inp b1)"
    using makespace_ok [OF assms] by metis
  have "usize_add rt (tb_wr b1) n = Ret (tb_wr b1 + n)"
    using b1(5) tb_wfD [OF b1(2)] assms(4) by (intro usize_add_small) linarith+
  then have "tb_read rt T n b w = (case tb_stream b of
        None \<Rightarrow> Some (Ret (ReadWouldBlock, b1, w))
      | Some ms \<Rightarrow> read_loop rt T (ms_source ms) (tb_wr b1 + n) b1 w)"
    using b1(1,4) by (auto simp: tb_read_def same_io_def split: option.splits)
  with b1 that show thesis by blast
qed

lemma tb_read_post:
  assumes "tb_wf b" "vec_grow_ok rt" "tb_wr b + n \<le> isize_max" "2 * n \<le> isize_max"
    and "tcp_read_ok T rx" "tb_stream b = Some ms" "tb_read rt T n b w = Some res"
  shows "\<exists>st b' w'. res = Ret (st, b', w') \<and> read_post n rx (ms_source ms) b w st b' w'"
proof -
  obtain b1 where b1: "tb_wf b1" "tb_pending b1 = tb_pending b" "same_io b b1"
    "tb_wr b1 + n \<le> length (tb_inp b1)"
    and run: "read_loop rt T (ms_source ms) (tb_wr b1 + n) b1 w = Some res"
    by (rule tb_read_cases [OF assms(1-4), of T w]) (use assms(6,7) in simp)
  from read_loop_post [OF run assms(5) b1(1) refl b1(4)] obtain st b' w' where
    res: "res = Ret (st, b', w')" and post: "read_post n rx (ms_source ms) b1 w st b' w'" by blast
  have "read_post n rx (ms_source ms) b w st b' w'"
    by (rule read_post_interrupted [OF post b1(2,3)]) simp
  with res show ?thesis by blast
qed

lemma tb_read_total:
  assumes "tb_wf b" "vec_grow_ok rt" "tb_wr b + n \<le> isize_max" "2 * n \<le> isize_max"
    and "tcp_read_signals T m"
  shows "tb_read rt T n b w \<noteq> None"
  by (rule tb_read_cases [OF assms(1-4), of T w])
     (use read_loop_total [OF assms(5)] in \<open>auto split: option.splits\<close>)

section \<open>The Read and Write traits\<close>

lemma trait_read_empty:
  assumes "tb_wf b" "tb_pending b = []"
  shows "tb_trait_read rt buf b =
    Ret (if tb_inp_eof b then Inr 0 else Inl (io_err WouldBlock), buf, b)"
proof -
  have "tb_wr b = tb_rd b" using length_pending [OF assms(1)] assms tb_wfD(1) by fastforce
  then show ?thesis by (simp add: tb_trait_read_def)
qed

lemma trait_read_some:
  fixes buf :: bytes
  assumes wf: "tb_wf b" and "tb_pending b \<noteq> []"
  defines "k \<equiv> min (length buf) (length (tb_pending b))"
  shows "tb_trait_read rt buf b =
      Ret (Inr k, overwrite 0 (take k (tb_pending b)) buf, b\<lparr>tb_rd := tb_rd b + k\<rparr>)"
    "tb_wf (b\<lparr>tb_rd := tb_rd b + k\<rparr>)"
    "tb_pending (b\<lparr>tb_rd := tb_rd b + k\<rparr>) = drop k (tb_pending b)"
proof -
  note w = tb_wfD [OF wf]
  have len: "length (tb_pending b) = tb_wr b - tb_rd b" by (rule length_pending [OF wf])
  have "k \<le> tb_wr b - tb_rd b" unfolding k_def len by simp
  then have rd: "tb_rd b + k \<le> tb_wr b" using w by linarith
  have "usize_add rt (tb_rd b) k = Ret (tb_rd b + k)"
    using rd w by (intro usize_add_small) linarith+
  moreover have "slice (tb_rd b) (tb_rd b + k) (tb_inp b) = take k (tb_pending b)"
    unfolding tb_pending_def using \<open>k \<le> tb_wr b - tb_rd b\<close> by (rule take_slice [symmetric])
  moreover have "tb_wr b \<noteq> tb_rd b" using assms(2) len by auto
  ultimately show "tb_trait_read rt buf b =
      Ret (Inr k, overwrite 0 (take k (tb_pending b)) buf, b\<lparr>tb_rd := tb_rd b + k\<rparr>)"
    using rd w k_def len by (simp add: tb_trait_read_def usize_sub_in_range Let_def)
  show "tb_wf (b\<lparr>tb_rd := tb_rd b + k\<rparr>)" using rd wf by (simp add: tb_wf_def)
  show "tb_pending (b\<lparr>tb_rd := tb_rd b + k\<rparr>) = drop k (tb_pending b)"
    by (simp add: tb_pending_def drop_slice)
qed

section \<open>Exchange\<close>

lemma exchange_input_ok:
  assumes wf: "tb_wf b" "tb_wf u" and rt: "vec_grow_ok rt"
    and n: "n = length (tb_pending u)"
    and room: "tb_wr b + n \<le> isize_max" "2 * n \<le> isize_max"
  obtains b' u' where "exchange_input rt n (b, u) = Ret (b', u')" "tb_wf b'" "tb_wf u'"
    "tb_pending b' = tb_pending b @ tb_pending u" "tb_pending u' = []"
    "same_io b b'" "same_io u u'"
proof (cases "0 < n")
  case False
  with n have "tb_pending u = []" by simp
  with False wf that [of b u] show thesis by (simp add: exchange_input_def)
next
  case True
  have nu: "n = tb_wr u - tb_rd u" using n length_pending [OF wf(2)] by simp
  obtain b1 where b1: "tb_inp_makespace rt n b = Ret b1" "tb_wf b1" "tb_pending b1 = tb_pending b"
    "same_io b b1" "tb_wr b1 + n \<le> length (tb_inp b1)"
    using makespace_ok [OF wf(1) rt room] by metis
  have add: "usize_add rt (tb_wr b1) n = Ret (tb_wr b1 + n)"
    using b1(5) tb_wfD [OF b1(2)] room(2) by (intro usize_add_small) linarith+
  have len: "length (tb_pending u) = tb_wr b1 + n - tb_wr b1" using n by simp
  note tail = read_into_tail [OF b1(2) len le_add1 b1(5)]
  let ?b = "b1\<lparr>tb_inp := overwrite (tb_wr b1) (tb_pending u) (tb_inp b1), tb_wr := tb_wr b1 + n\<rparr>"
  let ?u = "u\<lparr>tb_rd := 0, tb_wr := 0\<rparr>"
  have le: "n \<le> length (tb_pending u)" using n by simp
  have "tb_wf ?b" "tb_pending ?b = tb_pending b @ tb_pending u"
    using tail(6,7) [OF le] b1(3) n by simp_all
  moreover have "same_io b ?b" using b1(4) by (simp add: same_io_def)
  moreover have "tb_wf ?u" "tb_pending ?u = []" "same_io u ?u"
    using wf(2) by (simp_all add: tb_wf_def tb_pending_def same_io_def)
  moreover have "exchange_input rt n (b, u) = Ret (?b, ?u)"
    using True b1(1,5) add nu tb_wfD(1,2) [OF wf(2)]
    by (simp add: exchange_input_def tb_pending_def)
  ultimately show thesis by (intro that)
qed

lemma tb_exchange_ok:
  assumes wf: "tb_wf b" "tb_wf u" and rt: "vec_grow_ok rt"
    and room: "tb_wr b + length (tb_pending u) \<le> isize_max" "2 * length (tb_pending u) \<le> isize_max"
  obtains b' u' where "tb_exchange rt b u = Ret (b', u')" "tb_wf b'" "tb_wf u'"
    "tb_pending b' = tb_pending b @ tb_pending u" "tb_pending u' = []"
    "tb_out b' = []" "tb_out u' = tb_out u @ tb_out b"
    "tb_out_eof u' = (tb_out_eof u \<or> tb_out_eof b)"
    "tb_inp_eof b' = (tb_inp_eof b \<or> tb_inp_eof u)"
    "same_io b (b'\<lparr>tb_out := tb_out b, tb_inp_eof := tb_inp_eof b\<rparr>)"
    "same_io u (u'\<lparr>tb_out := tb_out u, tb_out_eof := tb_out_eof u\<rparr>)"
proof -
  let ?b = "b\<lparr>tb_out := []\<rparr>"
  let ?u = "u\<lparr>tb_out := tb_out u @ tb_out b, tb_out_eof := tb_out_eof u \<or> tb_out_eof b\<rparr>"
  let ?n = "length (tb_pending u)"
  have wf': "tb_wf ?b" "tb_wf ?u" and p: "tb_pending ?b = tb_pending b" "tb_pending ?u = tb_pending u"
    using wf by (simp_all add: tb_wf_def tb_pending_def)
  obtain b1 u1 where x: "exchange_input rt ?n (?b, ?u) = Ret (b1, u1)" "tb_wf b1" "tb_wf u1"
    "tb_pending b1 = tb_pending b @ tb_pending u" "tb_pending u1 = []"
    "same_io ?b b1" "same_io ?u u1"
    using exchange_input_ok [OF wf' rt, of ?n] room p by auto
  let ?b1 = "if tb_inp_eof u1 then b1\<lparr>tb_inp_eof := True\<rparr> else b1"
  have out: "exchange_output b u = (?b, ?u)"
    by (cases b; cases u) (auto simp: exchange_output_def Let_def)
  have "usize_sub rt (tb_wr ?u) (tb_rd ?u) = Ret ?n"
    using tb_wfD(1) [OF wf(2)] length_pending [OF wf(2)] by (simp add: usize_sub_in_range)
  then have "tb_exchange rt b u = Ret (?b1, u1)"
    unfolding tb_exchange_def out using x(1) by simp
  moreover have "tb_wf ?b1" "tb_pending ?b1 = tb_pending b @ tb_pending u"
    using x(2,4) by (simp_all add: tb_wf_def tb_pending_def)
  ultimately show thesis
    using x by (intro that [of ?b1 u1]) (auto simp: same_io_def)
qed

end
