(* ===== verification/Tcp_Properties.thy ===== *)
theory Tcp_Properties
  imports Tcp_Output Tcp_Input
begin

text \<open>
  The properties of \<open>TcpStreamBuf\<close>, each with a witness on a scripted TCP stream.
\<close>

section \<open>A scripted stream\<close>

text \<open>
  The world of the witnesses: the bytes accepted and handed over so far, the answers the next
  writes give (\<open>Inr n\<close> accepts at most \<open>n\<close> bytes; an exhausted script accepts everything), the
  answers of the next reads (\<open>Inr bs\<close> hands over at most the bytes \<open>bs\<close>; an exhausted script
  would block) and the number of shutdowns.
\<close>

record tcp_world =
  tw_sent :: bytes
  tw_recv :: bytes
  tw_writes :: "nat io list"
  tw_reads :: "bytes io list"
  tw_shut :: nat

fun script_write :: "bytes \<Rightarrow> nat io list \<Rightarrow> nat io \<times> nat io list" where
  "script_write buf [] = (Inr (length buf), [])"
| "script_write buf (Inl e # rs) = (Inl e, rs)"
| "script_write buf (Inr n # rs) = (Inr (min n (length buf)), rs)"

fun script_read :: "nat \<Rightarrow> bytes io list \<Rightarrow> bytes io \<times> bytes io list" where
  "script_read n [] = (Inl (io_err WouldBlock), [])"
| "script_read n (Inl e # rs) = (Inl e, rs)"
| "script_read n (Inr bs # rs) = (Inr (take n bs), rs)"

definition script_tcp_ops :: "(nat, tcp_world) tcp_ops" where
  "script_tcp_ops =
     \<lparr>tcp_set_nodelay = (\<lambda>s nd w. (Inr (), w)),
      tcp_write = (\<lambda>s buf w. case script_write buf (tw_writes w) of (r, rs) \<Rightarrow>
        (r, w\<lparr>tw_writes := rs,
              tw_sent := tw_sent w @ (case r of Inr n \<Rightarrow> take n buf | Inl e \<Rightarrow> [])\<rparr>)),
      tcp_flush = (\<lambda>s w. (Inr (), w)),
      tcp_shutdown_write = (\<lambda>s w. (Inr (), w\<lparr>tw_shut := tw_shut w + 1\<rparr>)),
      tcp_read = (\<lambda>s buf w. case script_read (length buf) (tw_reads w) of (r, rs) \<Rightarrow>
        (case r of
           Inl e \<Rightarrow> (Inl e, buf, w\<lparr>tw_reads := rs\<rparr>)
         | Inr bs \<Rightarrow> (Inr (length bs), overwrite 0 bs buf,
             w\<lparr>tw_reads := rs, tw_recv := tw_recv w @ bs\<rparr>)))\<rparr>"

lemma script_write_bound: "script_write buf rs = (Inr n, rs') \<Longrightarrow> n \<le> length buf"
  by (induction buf rs rule: script_write.induct) auto

lemma script_write_ok: "tcp_write_ok script_tcp_ops (\<lambda>s. tw_sent)"
  by (auto simp: tcp_write_ok_def script_tcp_ops_def script_write_bound split: prod.splits)

lemma script_read_bound: "script_read n rs = (Inr bs, rs') \<Longrightarrow> length bs \<le> n"
  by (induction n rs rule: script_read.induct) auto

lemma script_read_ok: "tcp_read_ok script_tcp_ops (\<lambda>s. tw_recv)"
  by (auto simp: tcp_read_ok_def script_tcp_ops_def script_read_bound overwrite_def
      dest: script_read_bound split: prod.splits sum.splits)

text \<open>Every interrupted call uses up one answer of the script.\<close>

definition script_left :: "tcp_world \<Rightarrow> nat" where
  "script_left w = length (tw_writes w) + length (tw_reads w)"

lemma script_write_shrinks: "script_write buf rs = (Inl e, rs') \<Longrightarrow> length rs' < length rs"
  by (induction buf rs rule: script_write.induct) auto

lemma script_read_shrinks:
  "script_read n rs = (Inl e, rs') \<Longrightarrow> err_kind e = Interrupted \<Longrightarrow> length rs' < length rs"
  by (induction n rs rule: script_read.induct) auto

lemma script_signals: "tcp_signals script_tcp_ops script_left"
proof -
  have "script_left (snd (tcp_write script_tcp_ops s buf w)) < script_left w"
    if "interrupted (fst (tcp_write script_tcp_ops s buf w))" for s buf w
    using that script_write_shrinks [of buf "tw_writes w"]
    by (auto simp: script_tcp_ops_def script_left_def elim!: interruptedE split: prod.splits)
  then show ?thesis
    by (simp add: tcp_signals_def signal_budget_def) (simp add: script_tcp_ops_def)
qed

lemma script_read_signals: "tcp_read_signals script_tcp_ops script_left"
  using script_read_shrinks
  by (fastforce simp: tcp_read_signals_def script_tcp_ops_def script_left_def
      split: prod.splits sum.splits)

text \<open>An allocator that gives exactly the room asked for, with overflow checks on.\<close>

definition exact_rt :: rust_rt where
  "exact_rt = \<lparr>overflow_checks = True, vec_grow = (\<lambda>cap len extra. len + extra)\<rparr>"

lemma exact_rt_ok: "vec_grow_ok exact_rt"
  by (simp add: vec_grow_ok_def exact_rt_def)

text \<open>A buffer with a stream, five bytes to send and the EOF flag set; three bytes to read
  between the offsets 2 and 5.\<close>

definition demo_buf :: "nat tcp_stream_buf" where
  "demo_buf = tb_new\<lparr>tb_out := [1, 2, 3, 4, 5], tb_out_eof := True,
     tb_inp := [9, 9, 10, 11, 12, 0], tb_inp_cap := 6, tb_rd := 2, tb_wr := 5,
     tb_pending_set_nodelay := True, tb_stream := Some \<lparr>ms_token = 1, ms_source = 0\<rparr>\<rparr>"

definition demo_world :: tcp_world where
  "demo_world = \<lparr>tw_sent = [], tw_recv = [],
     tw_writes = [Inr 2, Inl (io_err Interrupted), Inr 1, Inl (io_err WouldBlock)],
     tw_reads = [Inl (io_err Interrupted), Inr [20, 21], Inl (io_err WouldBlock)], tw_shut = 0\<rparr>"

lemma demo_buf_wf: "tb_wf demo_buf" "tb_pending demo_buf = [10, 11, 12]"
  by (simp_all add: demo_buf_def tb_new_def tb_wf_def tb_pending_def slice_def isize_max_def)

lemma demo_buf_stream: "tb_stream demo_buf = Some \<lparr>ms_token = 1, ms_source = 0\<rparr>"
  "tb_pause demo_buf = False" "tb_sent_out_eof demo_buf = False" "tb_out_eof demo_buf = True"
  "tb_out demo_buf = [1, 2, 3, 4, 5]" "tb_wr demo_buf = 5"
  by (simp_all add: demo_buf_def tb_new_def)

lemma demo_flush:
  obtains b' where "tb_flush script_tcp_ops demo_buf demo_world =
      Some (Ret (Inr (), b', demo_world\<lparr>tw_sent := [1, 2, 3], tw_writes := []\<rparr>))"
proof -
  have "map_option (map_outcome (\<lambda>(r, b, w). (r, w))) (tb_flush script_tcp_ops demo_buf demo_world)
      = Some (Ret (Inr (), demo_world\<lparr>tw_sent := [1, 2, 3], tw_writes := []\<rparr>))"
    by code_simp
  from map_exec_RetD [OF this] show thesis by (auto intro: that)
qed

section \<open>Output\<close>

lemma flush_frame_eq:
  "flush_frame b b' \<Longrightarrow> b' = b\<lparr>tb_out := tb_out b', tb_sent_out_eof := tb_sent_out_eof b',
     tb_pending_set_nodelay := tb_pending_set_nodelay b'\<rparr>"
  by (cases b; cases b') (simp add: flush_frame_def)

text \<open>The loops call only what they call.\<close>

lemma write_loop_other:
  assumes "write_loop T s out w = Some res" "tcp_write T' = tcp_write T"
  shows "write_loop T' s out w = Some res"
proof -
  have "tcp_write T' = tcp_write T \<longrightarrow> write_loop T' s out w = Some res"
  proof (rule write_loop.raw_induct [OF _ assms(1), where P = "\<lambda>T s out w res.
        tcp_write T' = tcp_write T \<longrightarrow> write_loop T' s out w = Some res"], intro impI, goal_cases)
    case (1 rec T s out w res)
    then show ?case
      by (subst write_loop.simps) (auto split: prod.splits sum.splits if_splits)
  qed
  with assms(2) show ?thesis by blast
qed

lemma write_loop_cong: "tcp_write T' = tcp_write T \<Longrightarrow> write_loop T' = write_loop T"
  by (intro ext) (metis not_None_eq write_loop_other)

text \<open>C15. \<open>flush\<close> never panics. Whenever it returns, with success or an error, the bytes the
  operating system accepted followed by the bytes left in \<open>out\<close> are the bytes accepted before
  followed by the old \<open>out\<close>: nothing is lost, duplicated or reordered, also when it is
  interrupted, would block, makes partial writes or fails. The EOF mark is only ever set, and
  only with the EOF flag set and \<open>out\<close> empty. The input side, the settings and the stream are
  untouched, and an error is never \<open>Interrupted\<close>.\<close>

theorem flush_conserves_output:
  assumes "tcp_write_ok T tx" "tb_stream b = Some ms"
  shows "tb_flush T b w \<noteq> Some Panic
    \<and> (\<forall>r b' w'. tb_flush T b w = Some (Ret (r, b', w')) \<longrightarrow>
        tx (ms_source ms) w' @ tb_out b' = tx (ms_source ms) w @ tb_out b
      \<and> (tb_sent_out_eof b \<longrightarrow> tb_sent_out_eof b')
      \<and> (tb_sent_out_eof b' \<and> \<not> tb_sent_out_eof b \<longrightarrow> tb_out_eof b \<and> tb_out b' = [])
      \<and> b' = b\<lparr>tb_out := tb_out b', tb_sent_out_eof := tb_sent_out_eof b',
               tb_pending_set_nodelay := tb_pending_set_nodelay b'\<rparr>
      \<and> (\<forall>e. r = Inl e \<longrightarrow> err_kind e \<noteq> Interrupted))"
  using tb_flush_ok [OF assms, of w] flush_frame_eq
  unfolding flush_ok_def flush_rel_def by blast

theorem flush_conserves_output_witness:
  "\<exists>b'. tb_flush script_tcp_ops demo_buf demo_world =
      Some (Ret (Inr (), b', demo_world\<lparr>tw_sent := [1, 2, 3], tw_writes := []\<rparr>)) \<and>
    tb_out b' = [4, 5] \<and> \<not> tb_sent_out_eof b'"
proof -
  obtain b' where run: "tb_flush script_tcp_ops demo_buf demo_world =
      Some (Ret (Inr (), b', demo_world\<lparr>tw_sent := [1, 2, 3], tw_writes := []\<rparr>))"
    by (rule demo_flush)
  with flush_conserves_output [OF script_write_ok demo_buf_stream(1), of demo_world]
  have "[1, 2, 3] @ tb_out b' = [1, 2, 3] @ [4, 5]"
    "tb_sent_out_eof b' \<longrightarrow> tb_out b' = []"
    by (auto simp: demo_world_def demo_buf_stream)
  with run show ?thesis by (simp add: append_eq_append_conv)
qed

text \<open>\<open>flush\<close> returns: if signals interrupt the stream's calls only finitely often, \<open>flush\<close>
  gives a result, whatever the stream answers otherwise.\<close>

theorem flush_returns:
  assumes "tcp_write_ok T tx" "tcp_signals T m"
  shows "\<exists>r b' w'. tb_flush T b w = Some (Ret (r, b', w'))"
proof (cases "tb_stream b")
  case None
  then show ?thesis by (simp add: tb_flush_def)
next
  case (Some ms)
  with tb_flush_ok [OF assms(1) Some, of w] tb_flush_total [OF assms(2), of b w] show ?thesis
    unfolding flush_ok_def by (metis not_None_eq outcome.exhaust prod_cases3)
qed

theorem flush_returns_witness:
  "\<exists>r b' w'. tb_flush script_tcp_ops demo_buf demo_world = Some (Ret (r, b', w'))"
  by (rule flush_returns [OF script_write_ok script_signals])

text \<open>A \<open>flush\<close> that meets no obstacle sends everything: if writes are not paused and the
  stream accepts some of every write and fails no call, \<open>out\<close> is empty afterwards, exactly its
  bytes have been accepted in order, TCP_NODELAY is applied, and the EOF is sent if it was
  asked for.\<close>

theorem flush_sends_everything:
  assumes "tcp_write_ok T tx" "tcp_accepts T (ms_source ms)"
    and "tb_stream b = Some ms" "\<not> tb_pause b"
  shows "\<exists>b' w'. tb_flush T b w = Some (Ret (Inr (), b', w'))
    \<and> tb_out b' = [] \<and> tx (ms_source ms) w' = tx (ms_source ms) w @ tb_out b
    \<and> (tb_sent_out_eof b' \<longleftrightarrow> tb_sent_out_eof b \<or> tb_out_eof b)
    \<and> \<not> tb_pending_set_nodelay b'"
  by (rule tb_flush_all [OF assms, of w]) auto

text \<open>A stream that accepts one byte at a time.\<close>

definition slow_tcp_ops :: "(nat, tcp_world) tcp_ops" where
  "slow_tcp_ops = script_tcp_ops\<lparr>tcp_write := \<lambda>s buf w.
     (Inr (min 1 (length buf)), w\<lparr>tw_sent := tw_sent w @ take 1 buf\<rparr>)\<rparr>"

lemma slow_tcp_ok: "tcp_write_ok slow_tcp_ops (\<lambda>s. tw_sent)" "tcp_accepts slow_tcp_ops s"
  by (auto simp: tcp_write_ok_def tcp_accepts_def slow_tcp_ops_def script_tcp_ops_def min_def
      Suc_le_eq)

theorem flush_sends_everything_witness:
  "\<exists>b' w'. tb_flush slow_tcp_ops demo_buf demo_world = Some (Ret (Inr (), b', w')) \<and>
     tw_sent w' = [1, 2, 3, 4, 5] \<and> tb_sent_out_eof b'"
proof -
  have "\<not> tb_pause demo_buf" by (simp add: demo_buf_stream)
  from flush_sends_everything [OF slow_tcp_ok(1) slow_tcp_ok(2) demo_buf_stream(1) this,
      of demo_world]
  show ?thesis by (auto simp: demo_buf_stream demo_world_def)
qed

lemma and_then_cong:
  "(\<And>b w. m = Some (Ret (Break, b, w)) \<Longrightarrow> k b w = k' b w) \<Longrightarrow> and_then m k = and_then m k'"
  by (cases m rule: and_then_cases) auto

definition eof_idle :: "'s tcp_stream_buf \<Rightarrow> bool" where
  "eof_idle b \<longleftrightarrow> \<not> tb_out_eof b \<or> tb_sent_out_eof b"

lemma stages_keep_eof_idle:
  "flush_nodelay T s b w = Some (Ret (x, b', w')) \<Longrightarrow> eof_idle b' = eof_idle b"
  "flush_write T s b w = Some (Ret (x, b', w')) \<Longrightarrow> eof_idle b' = eof_idle b"
  "flush_stream T s b w = Some (Ret (x, b', w')) \<Longrightarrow> eof_idle b' = eof_idle b"
  by (auto simp: flush_nodelay_def flush_write_def flush_stream_def eof_idle_def ebind_eq_Ret
      split: if_splits)

text \<open>The outgoing half is shut down at most once and only on request: unless the EOF flag
  is set and no EOF has been sent yet, \<open>flush\<close> does the same whatever \<open>shutdown\<close> would do. And
  with writes paused or without a stream \<open>flush\<close> does nothing at all.\<close>

theorem flush_shutdown_only_on_request:
  "(\<not> tb_out_eof b \<or> tb_sent_out_eof b \<longrightarrow>
      tb_flush (T\<lparr>tcp_shutdown_write := f\<rparr>) b w = tb_flush T b w)
   \<and> (tb_pause b \<or> tb_stream b = None \<longrightarrow> tb_flush T b w = Some (Ret (Inr (), b, w)))"
proof -
  let ?T = "T\<lparr>tcp_shutdown_write := f\<rparr>"
  have nd: "flush_nodelay ?T = flush_nodelay T"
    by (intro ext) (simp add: flush_nodelay_def set_nodelay_loop_retry)
  have wr: "flush_write ?T = flush_write T"
    by (intro ext) (simp add: flush_write_def write_loop_cong [of ?T T])
  have fl: "flush_stream ?T = flush_stream T"
    by (intro ext) (simp add: flush_stream_def)
  have eof: "flush_eof ?T s b w = flush_eof T s b w" if "eof_idle b" for s b w
    using that by (auto simp: flush_eof_def eof_idle_def)
  have "tb_flush ?T b w = tb_flush T b w" if "eof_idle b"
    using that unfolding tb_flush_def nd wr fl
    by (auto intro!: and_then_cong eof dest: stages_keep_eof_idle split: option.splits)
  then show ?thesis by (auto simp: tb_flush_def eof_idle_def)
qed

theorem flush_shutdown_only_on_request_witness:
  "tb_flush (script_tcp_ops\<lparr>tcp_shutdown_write := (\<lambda>s w. (Inl (io_err Other), w))\<rparr>)
      (demo_buf\<lparr>tb_sent_out_eof := True\<rparr>) demo_world =
    tb_flush script_tcp_ops (demo_buf\<lparr>tb_sent_out_eof := True\<rparr>) demo_world
   \<and> tb_flush script_tcp_ops (demo_buf\<lparr>tb_pause := True\<rparr>) demo_world =
    Some (Ret (Inr (), demo_buf\<lparr>tb_pause := True\<rparr>, demo_world))"
  by (rule conjI; rule flush_shutdown_only_on_request [THEN conjunct1, rule_format]
        flush_shutdown_only_on_request [THEN conjunct2, rule_format])
     simp_all

section \<open>Input\<close>

text \<open>\<open>inp_makespace\<close> keeps what is unread and makes the room: on a well-formed buffer and
  a size the address space can hold it does not panic, the unread bytes are the same in the same
  order, at least \<open>max\<close> bytes fit behind the write offset, the buffer is well-formed again and
  nothing but the input buffer and its offsets has changed.\<close>

theorem makespace_keeps_unread:
  assumes "tb_wf b" "vec_grow_ok rt" "tb_wr b + n \<le> isize_max" "2 * n \<le> isize_max"
  shows "\<exists>b'. tb_inp_makespace rt n b = Ret b' \<and> tb_wf b' \<and> tb_pending b' = tb_pending b
    \<and> tb_wr b' + n \<le> length (tb_inp b') \<and> same_io b b'"
  by (rule makespace_ok [OF assms]) blast

theorem makespace_keeps_unread_witness:
  "\<exists>b'. tb_inp_makespace exact_rt 100 demo_buf = Ret b' \<and> tb_pending b' = [10, 11, 12] \<and>
     103 \<le> length (tb_inp b')"
proof -
  have "tb_wr demo_buf + 100 \<le> isize_max" "2 * 100 \<le> isize_max"
    by (simp_all add: demo_buf_stream isize_max_def)
  from makespace_keeps_unread [OF demo_buf_wf(1) exact_rt_ok this] obtain b' where
    b': "tb_inp_makespace exact_rt 100 demo_buf = Ret b'" "tb_wf b'"
      "tb_pending b' = [10, 11, 12]" "tb_wr b' + 100 \<le> length (tb_inp b')"
    using demo_buf_wf(2) by auto
  then have "3 \<le> tb_wr b'" using length_pending [OF b'(2)] by simp
  with b' show ?thesis by auto
qed

text \<open>
  The answer that a read gets from the stream: the calls that signals interrupt are made again, and
  the first other answer \<open>r\<close>, with the slice \<open>got\<close> as the stream left it, counts.
\<close>

inductive read_answer ::
  "('s, 'w) tcp_ops \<Rightarrow> 's \<Rightarrow> nat \<Rightarrow> 'w \<Rightarrow> nat io \<Rightarrow> bytes \<Rightarrow> 'w \<Rightarrow> bool" for T s n where
  answer_now: "tcp_read T s buf w = (r, got, w') \<Longrightarrow> length buf = n \<Longrightarrow> \<not> interrupted r \<Longrightarrow>
     read_answer T s n w r got w'"
| answer_later: "tcp_read T s buf w = (r0, got0, w1) \<Longrightarrow> length buf = n \<Longrightarrow> interrupted r0 \<Longrightarrow>
     read_answer T s n w1 r got w' \<Longrightarrow> read_answer T s n w r got w'"

text \<open>The status that stands for an answer.\<close>

definition answer_status :: "nat io \<Rightarrow> read_status" where
  "answer_status r = (case r of
     Inl e \<Rightarrow> if err_kind e = WouldBlock then ReadWouldBlock else ReadError e
   | Inr k \<Rightarrow> if k = 0 then EndOfStream else NewData)"

definition answer_bytes :: "nat io \<Rightarrow> bytes \<Rightarrow> bytes" where
  "answer_bytes r got = (case r of Inl e \<Rightarrow> [] | Inr k \<Rightarrow> take k got)"

lemma read_loop_answer:
  assumes "read_loop rt T s e b w = Some (Ret (st, b', w'))"
    and "tcp_read_ok T rx" "tb_wf b" "e = tb_wr b + n" "e \<le> length (tb_inp b)"
  shows "\<exists>r got. read_answer T s n w r got w' \<and> st = answer_status r \<and>
    tb_pending b' = tb_pending b @ answer_bytes r got"
proof -
  have "tcp_read_ok T rx \<longrightarrow> tb_wf b \<longrightarrow> e = tb_wr b + n \<longrightarrow> e \<le> length (tb_inp b) \<longrightarrow>
    (\<forall>y. Ret (st, b', w') = Ret y \<longrightarrow> (\<exists>r got. read_answer T s n w r got (snd (snd y)) \<and>
      fst y = answer_status r \<and> tb_pending (fst (snd y)) = tb_pending b @ answer_bytes r got))"
  proof (rule read_loop.raw_induct [where P = "\<lambda>rt T s e b w res.
      tcp_read_ok T rx \<longrightarrow> tb_wf b \<longrightarrow> e = tb_wr b + n \<longrightarrow> e \<le> length (tb_inp b) \<longrightarrow>
      (\<forall>y. res = Ret y \<longrightarrow> (\<exists>r got. read_answer T s n w r got (snd (snd y)) \<and>
        fst y = answer_status r \<and> tb_pending (fst (snd y)) = tb_pending b @ answer_bytes r got))",
      OF _ assms(1)], intro impI, goal_cases)
    case (1 rec rt T s e b w res)
    obtain r got w1 where call: "tcp_read T s (slice (tb_wr b) e (tb_inp b)) w = (r, got, w1)"
      by (cases "tcp_read T s (slice (tb_wr b) e (tb_inp b)) w") auto
    note it = read_iteration [OF 1(3-6) call]
    have n: "length (slice (tb_wr b) e (tb_inp b)) = n" using 1(5,6) by simp
    note ok = tcp_read_okD [OF 1(3) call]
    have len: "length got = e - tb_wr b" "tb_wr b \<le> e" using ok(1) n 1(5) by simp_all
    note tail = read_into_tail [OF 1(4) len 1(6)]
    show ?case
    proof (intro allI impI)
      fix y
      assume y: "res = Ret y"
      show "\<exists>r got. read_answer T s n w r got (snd (snd y)) \<and> fst y = answer_status r \<and>
        tb_pending (fst (snd y)) = tb_pending b @ answer_bytes r got"
      proof (cases "interrupted r")
        case True
        then obtain err where err: "r = Inl err" "err_kind err = Interrupted"
          by (auto simp: interrupted_def split: sum.splits)
        with 1(2,5,6) call have "rec rt T s e (b\<lparr>tb_inp := overwrite (tb_wr b) got (tb_inp b)\<rparr>) w1 = Some res"
          by (simp add: Let_def)
        from 1(1) [OF this] 1(3) it(5,8,9) y obtain r2 got2 where
          "read_answer T s n w1 r2 got2 (snd (snd y))" "fst y = answer_status r2"
          "tb_pending (fst (snd y)) = tb_pending b @ answer_bytes r2 got2"
          using it(6) by auto
        with answer_later [OF call n True] show ?thesis by blast
      next
        case False
        have "w1 = snd (snd y) \<and> fst y = answer_status r \<and>
          tb_pending (fst (snd y)) = tb_pending b @ answer_bytes r got"
        proof (cases r)
          case (Inl err)
          with False 1(2,5,6) call y it(6) show ?thesis
            by (auto simp: answer_status_def answer_bytes_def interrupted_def Let_def split: if_splits)
        next
          case (Inr k)
          show ?thesis
          proof (cases "k = 0")
            case True
            with Inr 1(2,5,6) call y it(6) show ?thesis
              by (auto simp: answer_status_def answer_bytes_def Let_def tb_pending_def)
          next
            case k: False
            have "k \<le> length got" using ok(1,2) Inr by simp
            from tail(6) [OF this] Inr k 1(2,5,6) call y it(4) [OF Inr k] show ?thesis
              by (auto simp: answer_status_def answer_bytes_def Let_def)
          qed
        qed
        with answer_now [OF call n False] show ?thesis by blast
      qed
    qed
  qed
  with assms(2-5) show ?thesis by simp
qed

lemma tb_read_answer:
  assumes "tb_wf b" "vec_grow_ok rt" "tb_wr b + n \<le> isize_max" "2 * n \<le> isize_max"
    and "tcp_read_ok T rx" "tb_stream b = Some ms" "tb_read rt T n b w = Some (Ret (st, b', w'))"
  shows "\<exists>r got. read_answer T (ms_source ms) n w r got w' \<and> st = answer_status r \<and>
    tb_pending b' = tb_pending b @ answer_bytes r got"
proof -
  obtain b1 where b1: "tb_wf b1" "tb_pending b1 = tb_pending b" "same_io b b1"
    "tb_wr b1 + n \<le> length (tb_inp b1)"
    and run: "read_loop rt T (ms_source ms) (tb_wr b1 + n) b1 w = Some (Ret (st, b', w'))"
    by (rule tb_read_cases [OF assms(1-4), of T w]) (use assms(6,7) in simp)
  from read_loop_answer [OF run assms(5) b1(1) refl b1(4)] b1(2) show ?thesis by simp
qed

text \<open>C16. \<open>read(max)\<close> on a well-formed buffer reports what the stream answered. Calls that a signal
  interrupts are made again; the status is \<open>NewData\<close> exactly for a positive \<open>Ok(k)\<close>, and then the \<open>k\<close> bytes
  that the stream handed over, at most \<open>max\<close>, are appended to the unread bytes; it is \<open>EndOfStream\<close> exactly for
  \<open>Ok(0)\<close>, which also sets \<open>inp_eof\<close>, \<open>WouldBlock\<close> exactly for that error, and \<open>Error(e)\<close> exactly
  for any other error \<open>e\<close>; then no bytes are added. The buffer stays well-formed, the output side and the settings
  are untouched, and there is no panic. \<open>max\<close> is at least 1: \<open>Ok(0)\<close> in answer to a read of no bytes does not mean
  the end of the stream, see \<open>read_nothing_reports_eof\<close>.\<close>

theorem read_appends_received:
  assumes "tb_wf b" "vec_grow_ok rt" "tb_wr b + n \<le> isize_max" "2 * n \<le> isize_max" "0 < n"
    and "tcp_read_ok T rx" "tb_stream b = Some ms" "tb_read rt T n b w = Some res"
  shows "\<exists>st b' w' r got. res = Ret (st, b', w') \<and> read_answer T (ms_source ms) n w r got w'
    \<and> st = (case r of
        Inr k \<Rightarrow> if k = 0 then EndOfStream else NewData
      | Inl e \<Rightarrow> if err_kind e = WouldBlock then ReadWouldBlock else ReadError e)
    \<and> (let new = (case r of Inr k \<Rightarrow> take k got | Inl e \<Rightarrow> []) in
        tb_pending b' = tb_pending b @ new \<and> rx (ms_source ms) w' = rx (ms_source ms) w @ new
        \<and> length new \<le> n \<and> (new \<noteq> [] \<longleftrightarrow> st = NewData))
    \<and> (tb_inp_eof b' \<longleftrightarrow> tb_inp_eof b \<or> st = EndOfStream)
    \<and> (\<forall>e. st = ReadError e \<longrightarrow> err_kind e \<noteq> WouldBlock \<and> err_kind e \<noteq> Interrupted)
    \<and> tb_wf b' \<and> same_io b (b'\<lparr>tb_inp_eof := tb_inp_eof b\<rparr>)"
proof -
  from tb_read_post [OF assms(1-4,6-8)] obtain st b' w' where res: "res = Ret (st, b', w')"
    and post: "read_post n rx (ms_source ms) b w st b' w'" by blast
  from post obtain new where new: "tb_pending b' = tb_pending b @ new" "length new \<le> n"
    "rx (ms_source ms) w' = rx (ms_source ms) w @ new" "new \<noteq> [] \<longleftrightarrow> st = NewData"
    unfolding read_post_def by blast
  from tb_read_answer [OF assms(1-4,6,7) assms(8) [unfolded res]] obtain r got where
    ans: "read_answer T (ms_source ms) n w r got w'" "st = answer_status r"
      "tb_pending b' = tb_pending b @ answer_bytes r got" by blast
  with new have "new = answer_bytes r got" by simp
  with new ans post show ?thesis unfolding read_post_def res answer_status_def answer_bytes_def Let_def
    by (intro exI [of _ st] exI [of _ b'] exI [of _ w'] exI [of _ r] exI [of _ got]) simp
qed

lemma demo_read:
  obtains b' where "tb_read exact_rt script_tcp_ops 4 demo_buf demo_world =
      Some (Ret (NewData, b', demo_world\<lparr>tw_recv := [20, 21],
        tw_reads := [Inl (io_err WouldBlock)]\<rparr>))"
proof -
  let ?w1 = "demo_world\<lparr>tw_reads := [Inr [20, 21], Inl (io_err WouldBlock)]\<rparr>"
  let ?b1 = "demo_buf\<lparr>tb_inp := [10, 11, 12, 11, 12, 0, 0, 0], tb_inp_cap := 8, tb_rd := 0, tb_wr := 3\<rparr>"
  have grow: "vec_resize (Suc (Suc (Suc (Suc (Suc (Suc (Suc (Suc 0)))))))) 0
      [10, 11, 12, 11, 12, 0 :: u8] = [10, 11, 12, 11, 12, 0, 0, 0]"
    by code_simp
  have space: "tb_inp_makespace exact_rt 4 demo_buf = Ret ?b1"
    using grow
    by (simp add: tb_inp_makespace_def makespace_restart_def makespace_compact_def
        makespace_grow_def demo_buf_def tb_new_def usize_simps usize_bound_def overwrite_def
        slice_def vec_reserve_def isize_max_def exact_rt_def Let_def)
  have "read_loop exact_rt script_tcp_ops 0 7 ?b1 demo_world =
      read_loop exact_rt script_tcp_ops 0 7 ?b1 ?w1"
    by (subst read_loop.simps)
      (simp add: demo_buf_def tb_new_def demo_world_def script_tcp_ops_def slice_def overwrite_def)
  moreover have "\<exists>b'. read_loop exact_rt script_tcp_ops 0 7 ?b1 ?w1 =
      Some (Ret (NewData, b', demo_world\<lparr>tw_recv := [20, 21],
        tw_reads := [Inl (io_err WouldBlock)]\<rparr>))"
    by (subst read_loop.simps)
      (simp add: demo_buf_def tb_new_def demo_world_def script_tcp_ops_def slice_def overwrite_def
        usize_simps usize_bound_def Let_def)
  ultimately show ?thesis
    using space that
    by (auto simp: tb_read_def demo_buf_stream usize_simps usize_bound_def)
qed

lemma demo_room: "tb_wr demo_buf + 4 \<le> isize_max" "2 * 4 \<le> isize_max"
  by (simp_all add: demo_buf_stream isize_max_def)

theorem read_appends_received_witness:
  "\<exists>b'. tb_read exact_rt script_tcp_ops 4 demo_buf demo_world =
      Some (Ret (NewData, b', demo_world\<lparr>tw_recv := [20, 21],
        tw_reads := [Inl (io_err WouldBlock)]\<rparr>)) \<and>
    tb_pending b' = [10, 11, 12, 20, 21]"
proof -
  obtain b' where run: "tb_read exact_rt script_tcp_ops 4 demo_buf demo_world =
      Some (Ret (NewData, b', demo_world\<lparr>tw_recv := [20, 21],
        tw_reads := [Inl (io_err WouldBlock)]\<rparr>))" by (rule demo_read)
  have "0 < (4::nat)" by simp
  from read_appends_received [OF demo_buf_wf(1) exact_rt_ok demo_room this script_read_ok
      demo_buf_stream(1) run] run demo_buf_wf(2)
  show ?thesis by (fastforce simp: demo_world_def Let_def)
qed

text \<open>\<open>read\<close> returns: if signals interrupt the stream's reads only finitely often, \<open>read\<close>
  gives a status.\<close>

theorem read_returns:
  assumes "tb_wf b" "vec_grow_ok rt" "tb_wr b + n \<le> isize_max" "2 * n \<le> isize_max"
    and "tcp_read_ok T rx" "tcp_read_signals T m"
  shows "\<exists>st b' w'. tb_read rt T n b w = Some (Ret (st, b', w'))"
proof -
  from tb_read_total [OF assms(1-4,6), of w] obtain res where res: "tb_read rt T n b w = Some res"
    by auto
  show ?thesis
  proof (cases "tb_stream b")
    case None
    then show ?thesis by (rule_tac tb_read_cases [OF assms(1-4), of T w]) simp
  next
    case (Some ms)
    with tb_read_post [OF assms(1-5) Some res] res show ?thesis by blast
  qed
qed

theorem read_returns_witness:
  "\<exists>st b' w'. tb_read exact_rt script_tcp_ops 4 demo_buf demo_world = Some (Ret (st, b', w'))"
  by (rule read_returns [OF demo_buf_wf(1) exact_rt_ok demo_room script_read_ok
        script_read_signals])

text \<open>\<open>read(0)\<close> reports an end of stream that is not there: as soon as the stream answers a
  read into an empty slice without an error, which by the contract of \<open>Read\<close> is \<open>Ok(0)\<close> also
  when data is waiting, it returns \<open>EndOfStream\<close> and sets \<open>inp_eof\<close>, though no byte was asked
  for.\<close>

theorem read_nothing_reports_eof:
  assumes "tb_wf b" "vec_grow_ok rt" "tb_wr b \<le> isize_max"
    and "tcp_read_ok T rx" "tb_stream b = Some ms"
    and "\<And>v. tcp_read T (ms_source ms) [] v = (Inr 0, [], v)"
  shows "\<exists>b'. tb_read rt T 0 b w = Some (Ret (EndOfStream, b', w)) \<and> tb_inp_eof b'
    \<and> tb_pending b' = tb_pending b"
proof -
  have room: "tb_wr b + 0 \<le> isize_max" "2 * 0 \<le> isize_max" using assms(3) by simp_all
  obtain b1 where b1: "tb_wf b1" "tb_pending b1 = tb_pending b" "tb_wr b1 + 0 \<le> length (tb_inp b1)"
    and run: "tb_read rt T 0 b w = read_loop rt T (ms_source ms) (tb_wr b1 + 0) b1 w"
    by (rule tb_read_cases [OF assms(1,2) room, of T w]) (use assms(5) in simp)
  have "overwrite (tb_wr b1) [] (tb_inp b1) = tb_inp b1" by (simp add: overwrite_def)
  then have "tb_read rt T 0 b w = Some (Ret (EndOfStream, b1\<lparr>tb_inp_eof := True\<rparr>, w))"
    using b1(3) assms(6) unfolding run by (subst read_loop.simps) (simp add: Let_def)
  with b1(2) show ?thesis by (simp add: tb_pending_def)
qed

theorem read_nothing_reports_eof_witness:
  "\<exists>b'. tb_read exact_rt (script_tcp_ops\<lparr>tcp_read := (\<lambda>s buf w. if buf = [] then (Inr 0, [], w)
        else tcp_read script_tcp_ops s buf w)\<rparr>) 0 demo_buf demo_world =
      Some (Ret (EndOfStream, b', demo_world)) \<and> tb_inp_eof b'"
proof -
  let ?T = "script_tcp_ops\<lparr>tcp_read := (\<lambda>s buf w. if buf = [] then (Inr 0, [], w)
        else tcp_read script_tcp_ops s buf w)\<rparr>"
  have ok: "tcp_read_ok ?T (\<lambda>s. tw_recv)"
    using script_read_ok by (simp add: tcp_read_ok_def)
  have "tb_wr demo_buf \<le> isize_max" by (simp add: demo_buf_stream isize_max_def)
  from read_nothing_reports_eof [OF demo_buf_wf(1) exact_rt_ok this ok demo_buf_stream(1)]
  show ?thesis by fastforce
qed

section \<open>The traits and the exchange\<close>

text \<open>The \<open>Read\<close> trait on a well-formed buffer hands out the unread bytes in order, as many
  as the caller's slice takes, and never panics; on an empty buffer it gives \<open>Ok(0)\<close> exactly
  after an end of stream and \<open>WouldBlock\<close> before it. The \<open>Write\<close> trait appends to \<open>out\<close> and
  accepts everything.\<close>

theorem trait_read_write_spec:
  assumes "tb_wf b"
  shows "let k = min (length buf) (length (tb_pending b)) in \<exists>b'. tb_trait_read rt buf b =
        Ret (if tb_pending b \<noteq> [] then Inr k
             else if tb_inp_eof b then Inr 0 else Inl (io_err WouldBlock),
             take k (tb_pending b) @ drop k buf, b')
      \<and> tb_wf b' \<and> tb_pending b' = drop k (tb_pending b) \<and> b' = b\<lparr>tb_rd := tb_rd b + k\<rparr>
      \<and> tb_trait_write buf b = (Inr (length buf), b\<lparr>tb_out := tb_out b @ buf\<rparr>)"
proof (cases "tb_pending b = []")
  case True
  with trait_read_empty [OF assms True, of rt buf] assms show ?thesis
    by (simp add: tb_trait_write_def)
next
  case False
  have "overwrite 0 (take k (tb_pending b)) buf = take k (tb_pending b) @ drop k buf"
    if "k \<le> length (tb_pending b)" for k
    using that by (simp add: overwrite_def min_def)
  with trait_read_some(1) [OF assms False, of rt buf] trait_read_some(2,3) [OF assms False, of buf]
    False show ?thesis
    by (simp add: Let_def tb_trait_write_def)
qed

theorem trait_read_write_spec_witness:
  "\<exists>b'. tb_trait_read exact_rt [0, 0] demo_buf = Ret (Inr 2, [10, 11], b') \<and>
     tb_pending b' = [12] \<and> snd (tb_trait_write [6, 7] demo_buf) =
       demo_buf\<lparr>tb_out := [1, 2, 3, 4, 5, 6, 7]\<rparr>"
  using trait_read_write_spec [OF demo_buf_wf(1), where rt = exact_rt and buf = "[0, 0]"]
    trait_read_write_spec [OF demo_buf_wf(1), where rt = exact_rt and buf = "[6, 7]"]
  by (auto simp: demo_buf_wf(2) demo_buf_stream)

text \<open>C24. \<open>exchange\<close> loses nothing either way: the outgoing bytes of the lower buffer move behind
  those of the upstream one, the unread bytes of the upstream one move behind those of the lower
  one, both in order, and both EOF flags are passed on. It does not panic and keeps both buffers
  well-formed.\<close>

theorem exchange_moves_everything:
  assumes "tb_wf b" "tb_wf u" "vec_grow_ok rt"
    and "tb_wr b + length (tb_pending u) \<le> isize_max" "2 * length (tb_pending u) \<le> isize_max"
  shows "\<exists>b' u'. tb_exchange rt b u = Ret (b', u') \<and> tb_wf b' \<and> tb_wf u'
    \<and> tb_pending b' = tb_pending b @ tb_pending u \<and> tb_pending u' = []
    \<and> tb_out b' = [] \<and> tb_out u' = tb_out u @ tb_out b
    \<and> (tb_out_eof u' \<longleftrightarrow> tb_out_eof u \<or> tb_out_eof b)
    \<and> (tb_inp_eof b' \<longleftrightarrow> tb_inp_eof b \<or> tb_inp_eof u)
    \<and> tb_out_eof b' = tb_out_eof b \<and> tb_inp_eof u' = tb_inp_eof u"
  by (rule tb_exchange_ok [OF assms]) (auto simp: same_io_def)

theorem exchange_moves_everything_witness:
  "\<exists>b' u' :: nat tcp_stream_buf. tb_exchange exact_rt (tb_new\<lparr>tb_out := [7, 8]\<rparr>) demo_buf = Ret (b', u') \<and>
     tb_pending b' = [10, 11, 12] \<and> tb_out u' = [1, 2, 3, 4, 5, 7, 8]"
proof -
  let ?b = "tb_new\<lparr>tb_out := [7, 8]\<rparr> :: nat tcp_stream_buf"
  have "tb_wf ?b" "tb_pending ?b = []" "tb_wr ?b = 0"
    by (simp_all add: tb_wf_def tb_new_def tb_pending_def)
  moreover have "tb_wr ?b + length (tb_pending demo_buf) \<le> isize_max"
    "2 * length (tb_pending demo_buf) \<le> isize_max"
    by (simp_all add: demo_buf_wf(2) tb_new_def isize_max_def)
  ultimately show ?thesis
    using exchange_moves_everything [OF _ demo_buf_wf(1) exact_rt_ok, of ?b]
    by (auto simp: demo_buf_wf(2) demo_buf_stream)
qed

end
