(* ===== verification/Tcp_Link.thy ===== *)
theory Tcp_Link
  imports Tcp_Properties
begin

text \<open>
  Two \<open>TcpStreamBuf\<close> values at the ends of one TCP connection, as a system: the application at
  one end writes into its buffer and flushes it, the one at the other end reads from the stream
  and takes the bytes out, in any order and with anything else going on in the network. What the
  receiver gets is what the sender wrote.
\<close>

section \<open>What a call keeps\<close>

text \<open>What every call that \<open>flush\<close> makes on the stream keeps, \<open>flush\<close> keeps; likewise \<open>read\<close>.\<close>

definition sender_keeps :: "('s, 'w) tcp_ops \<Rightarrow> 's \<Rightarrow> ('w \<Rightarrow> bool) \<Rightarrow> bool" where
  "sender_keeps T s I \<longleftrightarrow> (\<forall>w. I w \<longrightarrow>
     (\<forall>nd. I (snd (tcp_set_nodelay T s nd w))) \<and> (\<forall>buf. I (snd (tcp_write T s buf w))) \<and>
     I (snd (tcp_flush T s w)) \<and> I (snd (tcp_shutdown_write T s w)))"

definition receiver_keeps :: "('s, 'w) tcp_ops \<Rightarrow> 's \<Rightarrow> ('w \<Rightarrow> bool) \<Rightarrow> bool" where
  "receiver_keeps T s I \<longleftrightarrow> (\<forall>w buf. I w \<longrightarrow> I (snd (snd (tcp_read T s buf w))))"

lemma write_loop_keeps:
  assumes "write_loop T s out w = Some (Ret (x, out', w'))" "sender_keeps T s I" "I w"
  shows "I w'"
proof -
  have "sender_keeps T s I \<longrightarrow> I w \<longrightarrow> (\<forall>y. Ret (x, out', w') = Ret y \<longrightarrow> I (snd (snd y)))"
  proof (rule write_loop.raw_induct [OF _ assms(1), where P = "\<lambda>T s out w res.
      sender_keeps T s I \<longrightarrow> I w \<longrightarrow> (\<forall>y. res = Ret y \<longrightarrow> I (snd (snd y)))"], intro impI, goal_cases)
    case (1 rec T s out w res)
    obtain r w1 where call: "tcp_write T s out w = (r, w1)" by fastforce
    have "I w1" using 1(3,4) call unfolding sender_keeps_def by (metis snd_conv)
    with 1(2-4) call show ?case
      by (cases r) (auto split: if_splits dest!: 1(1))
  qed
  with assms(2,3) show ?thesis by auto
qed

lemma tb_flush_keeps:
  assumes "tb_flush T b w = Some (Ret (r, b', w'))" "tb_stream b = Some ms"
    and keep: "sender_keeps T (ms_source ms) I" and "I w"
  shows "I w'"
proof -
  let ?s = "ms_source ms"
  have call: "I (snd (tcp_set_nodelay T ?s nd v))" "I (snd (tcp_flush T ?s v))"
    "I (snd (tcp_shutdown_write T ?s v))" if "I v" for nd v
    using keep that unfolding sender_keeps_def by blast+
  have nd: "I v'" if "flush_nodelay T ?s c v = Some (Ret (x, c', v'))" "I v" for c v x c' v'
    using that retry_keeps [of "tcp_set_nodelay T ?s (tb_nodelay c)" v _ _ I] call(1)
    by (auto simp: flush_nodelay_def set_nodelay_loop_retry split: if_splits)
  have wr: "I v'" if "flush_write T ?s c v = Some (Ret (x, c', v'))" "I v" for c v x c' v'
    using that write_loop_keeps [OF _ keep] by (auto simp: flush_write_def ebind_eq_Ret)
  have fl: "I v'" if "flush_stream T ?s c v = Some (Ret (x, c', v'))" "I v" for c v x c' v'
    using that retry_keeps [of "tcp_flush T ?s" v _ _ I] call(2)
    by (auto simp: flush_stream_def ok_or_block_loop_retry)
  have eof: "I v'" if "flush_eof T ?s c v = Some (Ret (x, c', v'))" "I v" for c v x c' v'
    using that retry_keeps [of "tcp_shutdown_write T ?s" v _ _ I] call(3)
    by (cases "retry (tcp_shutdown_write T ?s) v")
       (auto simp: flush_eof_def ok_or_block_loop_retry split: if_splits sum.splits)
  have step: "I v'" if "and_then m k = Some (Ret (x, c', v'))"
    "\<And>x c v. m = Some (Ret (x, c, v)) \<Longrightarrow> I v"
    "\<And>x c v c' v'. k c v = Some (Ret (x, c', v')) \<Longrightarrow> I v \<Longrightarrow> I v'"
    for m :: "(loop_exit \<times> 'a tcp_stream_buf \<times> 'b) exec" and k x c' v'
    using that by (cases m rule: and_then_cases) auto
  from assms(1,2,4) show ?thesis
    by (auto simp: tb_flush_def split: if_splits
        elim!: step dest: nd wr fl eof)
qed

lemma read_loop_keeps:
  assumes "read_loop rt T s e b w = Some (Ret (st, b', w'))" "receiver_keeps T s I" "I w"
  shows "I w'"
proof -
  have "receiver_keeps T s I \<longrightarrow> I w \<longrightarrow> (\<forall>y. Ret (st, b', w') = Ret y \<longrightarrow> I (snd (snd y)))"
  proof (rule read_loop.raw_induct [OF _ assms(1), where P = "\<lambda>rt T s e b w res.
      receiver_keeps T s I \<longrightarrow> I w \<longrightarrow> (\<forall>y. res = Ret y \<longrightarrow> I (snd (snd y)))"], intro impI, goal_cases)
    case (1 rec rt T s e b w res)
    obtain r buf w1 where call: "tcp_read T s (slice (tb_wr b) e (tb_inp b)) w = (r, buf, w1)"
      using prod_cases3 by blast
    have "I w1" using 1(3,4) call unfolding receiver_keeps_def by (metis snd_conv)
    with 1(2-4) call show ?case
      by (cases r) (auto simp: Let_def split: if_splits outcome.splits dest!: 1(1))
  qed
  with assms(2,3) show ?thesis by auto
qed

lemma tb_read_keeps:
  assumes "tb_read rt T n b w = Some (Ret (st, b', w'))" "tb_stream b = Some ms"
    and "receiver_keeps T (ms_source ms) I" "I w"
    and "tb_wf b" "vec_grow_ok rt" "tb_wr b + n \<le> isize_max" "2 * n \<le> isize_max"
  shows "I w'"
proof (rule tb_read_cases [OF assms(5-8), of T w])
  fix b1
  assume "tb_read rt T n b w = (case tb_stream b of None \<Rightarrow> Some (Ret (ReadWouldBlock, b1, w))
      | Some ms \<Rightarrow> read_loop rt T (ms_source ms) (tb_wr b1 + n) b1 w)"
  with assms(1,2) have "read_loop rt T (ms_source ms) (tb_wr b1 + n) b1 w = Some (Ret (st, b', w'))"
    by simp
  from read_loop_keeps [OF this assms(3,4)] show ?thesis .
qed

section \<open>The system\<close>

record ('s, 'w) tcp_link =
  lk_sender :: "'s tcp_stream_buf"
  lk_receiver :: "'s tcp_stream_buf"
  lk_net :: 'w
  lk_written :: bytes
  lk_got :: bytes

text \<open>The steps: the sending application writes, its buffer is flushed; the receiving buffer
  reads from its stream, the receiving application takes bytes; anything else happens in the
  network that leaves the two streams' records of accepted and delivered bytes alone.\<close>

inductive link_step ::
  "rust_rt \<Rightarrow> ('s, 'w) tcp_ops \<Rightarrow> ('w \<Rightarrow> bytes) \<Rightarrow> ('w \<Rightarrow> bytes)
    \<Rightarrow> ('s, 'w) tcp_link \<Rightarrow> ('s, 'w) tcp_link \<Rightarrow> bool"
  for rt T sent delivered where
  link_write: "tb_trait_write buf (lk_sender s) = (r, a) \<Longrightarrow>
     link_step rt T sent delivered s (s\<lparr>lk_sender := a, lk_written := lk_written s @ buf\<rparr>)"
| link_flush: "tb_flush T (lk_sender s) (lk_net s) = Some (Ret (r, a, w)) \<Longrightarrow>
     link_step rt T sent delivered s (s\<lparr>lk_sender := a, lk_net := w\<rparr>)"
| link_read: "tb_wr (lk_receiver s) + n \<le> isize_max \<Longrightarrow> 2 * n \<le> isize_max \<Longrightarrow>
     tb_read rt T n (lk_receiver s) (lk_net s) = Some (Ret (st, b, w)) \<Longrightarrow>
     link_step rt T sent delivered s (s\<lparr>lk_receiver := b, lk_net := w\<rparr>)"
| link_take: "tb_trait_read rt buf (lk_receiver s) = Ret (Inr k, buf', b) \<Longrightarrow>
     link_step rt T sent delivered s (s\<lparr>lk_receiver := b, lk_got := lk_got s @ take k buf'\<rparr>)"
| link_net: "sent w = sent (lk_net s) \<Longrightarrow> delivered w = delivered (lk_net s) \<Longrightarrow>
     link_step rt T sent delivered s (s\<lparr>lk_net := w\<rparr>)"

inductive link_reachable ::
  "rust_rt \<Rightarrow> ('s, 'w) tcp_ops \<Rightarrow> ('w \<Rightarrow> bytes) \<Rightarrow> ('w \<Rightarrow> bytes)
    \<Rightarrow> ('s, 'w) tcp_link \<Rightarrow> ('s, 'w) tcp_link \<Rightarrow> bool"
  for rt T sent delivered s0 where
  link_start: "link_reachable rt T sent delivered s0 s0"
| link_next: "link_reachable rt T sent delivered s0 s \<Longrightarrow>
     link_step rt T sent delivered s t \<Longrightarrow> link_reachable rt T sent delivered s0 t"

text \<open>Fresh buffers on a fresh connection.\<close>

definition link_init ::
  "('w \<Rightarrow> bytes) \<Rightarrow> ('w \<Rightarrow> bytes) \<Rightarrow> 's mio_source \<Rightarrow> 's mio_source \<Rightarrow> ('s, 'w) tcp_link \<Rightarrow> bool" where
  "link_init sent delivered ma mb s \<longleftrightarrow>
     lk_sender s = tb_new\<lparr>tb_stream := Some ma\<rparr> \<and> lk_receiver s = tb_new\<lparr>tb_stream := Some mb\<rparr> \<and>
     sent (lk_net s) = [] \<and> delivered (lk_net s) = [] \<and> lk_written s = [] \<and> lk_got s = []"

text \<open>
  What TCP promises the two ends: the calls of one end do not change the record of the other, and
  what has been delivered is a prefix of what has been accepted.
\<close>

definition tcp_connection ::
  "('s, 'w) tcp_ops \<Rightarrow> ('s \<Rightarrow> 'w \<Rightarrow> bytes) \<Rightarrow> ('s \<Rightarrow> 'w \<Rightarrow> bytes) \<Rightarrow> 's \<Rightarrow> 's \<Rightarrow> bool" where
  "tcp_connection T tx rx a b \<longleftrightarrow>
     tcp_write_ok T tx \<and> tcp_read_ok T rx \<and>
     (\<forall>v. sender_keeps T a (\<lambda>w. rx b w = v)) \<and> (\<forall>v. receiver_keeps T b (\<lambda>w. tx a w = v)) \<and>
     (\<forall>w. \<exists>rest. tx a w = rx b w @ rest)"

definition link_inv ::
  "('w \<Rightarrow> bytes) \<Rightarrow> ('w \<Rightarrow> bytes) \<Rightarrow> 's mio_source \<Rightarrow> 's mio_source \<Rightarrow> ('s, 'w) tcp_link \<Rightarrow> bool" where
  "link_inv sent delivered ma mb s \<longleftrightarrow>
     tb_stream (lk_sender s) = Some ma \<and> tb_stream (lk_receiver s) = Some mb \<and>
     tb_wf (lk_receiver s) \<and>
     lk_written s = sent (lk_net s) @ tb_out (lk_sender s) \<and>
     delivered (lk_net s) = lk_got s @ tb_pending (lk_receiver s)"

lemma link_init_inv: "link_init sent delivered ma mb s \<Longrightarrow> link_inv sent delivered ma mb s"
  by (simp add: link_init_def link_inv_def tb_new_def tb_wf_def tb_pending_def)

lemma trait_read_took:
  assumes "tb_wf b" "tb_trait_read rt buf b = Ret (Inr k, buf', b')"
  shows "tb_wf b' \<and> tb_pending b = take k buf' @ tb_pending b' \<and> tb_stream b' = tb_stream b"
proof (cases "tb_pending b = []")
  case True
  with assms trait_read_empty [OF assms(1) True, of rt buf] show ?thesis
    by (auto split: if_splits)
next
  case False
  let ?k = "min (length buf) (length (tb_pending b))"
  have "Ret (Inr k, buf', b') = Ret (Inr ?k :: nat io, overwrite 0 (take ?k (tb_pending b)) buf,
      b\<lparr>tb_rd := tb_rd b + ?k\<rparr>)"
    using assms(2) trait_read_some(1) [OF assms(1) False, of rt buf] by (simp only:)
  then have "k = ?k \<and> buf' = overwrite 0 (take ?k (tb_pending b)) buf \<and>
      b' = b\<lparr>tb_rd := tb_rd b + ?k\<rparr>"
    by (simp only: outcome.inject prod.inject sum.inject)
  moreover from this have "take k buf' = take k (tb_pending b)" by (auto simp: overwrite_def)
  ultimately show ?thesis using trait_read_some(2,3) [OF assms(1) False, of buf] by simp
qed

lemma link_step_inv:
  assumes T: "tcp_connection T tx rx (ms_source ma) (ms_source mb)" and rt: "vec_grow_ok rt"
    and step: "link_step rt T (tx (ms_source ma)) (rx (ms_source mb)) s t"
    and inv: "link_inv (tx (ms_source ma)) (rx (ms_source mb)) ma mb s"
  shows "link_inv (tx (ms_source ma)) (rx (ms_source mb)) ma mb t"
proof -
  note i = inv [unfolded link_inv_def]
  note c = T [unfolded tcp_connection_def]
  from step show ?thesis
  proof cases
    case (link_write buf r a)
    then have "a = (lk_sender s)\<lparr>tb_out := tb_out (lk_sender s) @ buf\<rparr>"
      by (simp add: tb_trait_write_def)
    with link_write i show ?thesis by (simp add: link_inv_def)
  next
    case (link_flush r a w)
    have stream: "tb_stream (lk_sender s) = Some ma" using i by blast
    have "flush_ok tx (ms_source ma) (lk_sender s) (lk_net s) (tb_flush T (lk_sender s) (lk_net s))"
      by (rule tb_flush_ok [OF _ stream]) (use c in blast)
    with link_flush have "tx (ms_source ma) w @ tb_out a =
        tx (ms_source ma) (lk_net s) @ tb_out (lk_sender s)" "tb_stream a = Some ma"
      using stream by (simp_all add: flush_ok_def flush_rel_def flush_frame_def)
    moreover have "rx (ms_source mb) w = rx (ms_source mb) (lk_net s)"
      by (rule tb_flush_keeps [OF link_flush(2) stream,
            where I = "\<lambda>v. rx (ms_source mb) v = rx (ms_source mb) (lk_net s)"]) (use c in blast)+
    ultimately show ?thesis using link_flush(1) i by (simp add: link_inv_def)
  next
    case (link_read n st b w)
    have stream: "tb_stream (lk_receiver s) = Some mb" and wf: "tb_wf (lk_receiver s)"
      using i by blast+
    from tb_read_post [OF wf rt link_read(2,3) _ stream link_read(4), of rx] c
    have post: "read_post n rx (ms_source mb) (lk_receiver s) (lk_net s) st b w" by auto
    then obtain new where "tb_pending b = tb_pending (lk_receiver s) @ new"
      "rx (ms_source mb) w = rx (ms_source mb) (lk_net s) @ new"
      unfolding read_post_def by blast
    moreover have "tb_wf b" "tb_stream b = Some mb"
      using post stream by (simp_all add: read_post_def same_io_def)
    moreover have "tx (ms_source ma) w = tx (ms_source ma) (lk_net s)"
      by (rule tb_read_keeps [OF link_read(4) stream _ _ wf rt link_read(2,3),
            where I = "\<lambda>v. tx (ms_source ma) v = tx (ms_source ma) (lk_net s)"]) (use c in blast)+
    ultimately show ?thesis using link_read(1) i by (simp add: link_inv_def)
  next
    case (link_take buf k buf' b)
    with trait_read_took [OF _ link_take(2)] i show ?thesis by (simp add: link_inv_def)
  next
    case (link_net w)
    with i show ?thesis by (simp add: link_inv_def)
  qed
qed

lemma link_reachable_inv:
  assumes "link_reachable rt T (tx (ms_source ma)) (rx (ms_source mb)) s0 s"
    and "tcp_connection T tx rx (ms_source ma) (ms_source mb)" "vec_grow_ok rt"
    and "link_inv (tx (ms_source ma)) (rx (ms_source mb)) ma mb s0"
  shows "link_inv (tx (ms_source ma)) (rx (ms_source mb)) ma mb s"
  using assms(1) by induction (use assms(2-4) link_step_inv in blast)+

section \<open>The property\<close>


text \<open>A connection whose world is the bytes accepted so far and how many of them have been
  delivered; both ends use it at once.\<close>

definition pipe_ops :: "(bool, bytes \<times> nat) tcp_ops" where
  "pipe_ops =
     \<lparr>tcp_set_nodelay = (\<lambda>s nd w. (Inr (), w)),
      tcp_write = (\<lambda>s buf (p, n). if s then (Inl (io_err Other), p, n)
        else (Inr (length buf), p @ buf, min n (length p))),
      tcp_flush = (\<lambda>s w. (Inr (), w)),
      tcp_shutdown_write = (\<lambda>s w. (Inr (), w)),
      tcp_read = (\<lambda>s buf (p, n). if \<not> s \<or> length p \<le> n then (Inl (io_err WouldBlock), buf, p, n)
        else let got = take (length buf) (drop n p)
             in (Inr (length got), overwrite 0 got buf, p, n + length got))\<rparr>"

definition pipe_tx :: "bool \<Rightarrow> bytes \<times> nat \<Rightarrow> bytes" where
  "pipe_tx s = (\<lambda>(p, n). if s then [] else p)"

definition pipe_rx :: "bool \<Rightarrow> bytes \<times> nat \<Rightarrow> bytes" where
  "pipe_rx s = (\<lambda>(p, n). if s then take n p else [])"

lemma pipe_connection: "tcp_connection pipe_ops pipe_tx pipe_rx False True"
proof -
  have "tcp_write_ok pipe_ops pipe_tx"
    by (auto simp: tcp_write_ok_def pipe_ops_def pipe_tx_def split: if_splits)
  moreover have "tcp_read_ok pipe_ops pipe_rx"
    by (auto simp: tcp_read_ok_def pipe_ops_def pipe_rx_def Let_def overwrite_def take_add min_def
        split: if_splits)
  moreover have "\<exists>rest. pipe_tx False w = pipe_rx True w @ rest" for w
    by (cases w) (auto simp: pipe_tx_def pipe_rx_def intro: append_take_drop_id [symmetric])
  ultimately show ?thesis
    by (auto simp: tcp_connection_def sender_keeps_def receiver_keeps_def pipe_ops_def pipe_tx_def
        pipe_rx_def Let_def min_def split: if_splits)
qed

abbreviation end_a :: "bool mio_source" where
  "end_a \<equiv> \<lparr>ms_token = 1, ms_source = False\<rparr>"

abbreviation end_b :: "bool mio_source" where
  "end_b \<equiv> \<lparr>ms_token = 2, ms_source = True\<rparr>"

definition pipe_link :: "(bool, bytes \<times> nat) tcp_link" where
  "pipe_link = \<lparr>lk_sender = tb_new\<lparr>tb_stream := Some end_a\<rparr>,
     lk_receiver = tb_new\<lparr>tb_stream := Some end_b\<rparr>, lk_net = ([], 0), lk_written = [], lk_got = []\<rparr>"

lemma pipe_flush:
  "tb_flush pipe_ops (tb_new\<lparr>tb_stream := Some end_a, tb_out := [1, 2]\<rparr>) ([], 0) =
     Some (Ret (Inr (), tb_new\<lparr>tb_stream := Some end_a, tb_out := []\<rparr>, ([1, 2], 0)))"
  by (simp add: tb_new_def tb_flush_def flush_nodelay_def flush_write_def flush_stream_def
      flush_eof_def pipe_ops_def write_loop.simps ok_or_block_loop.simps)

abbreviation pipe_recv :: "bool tcp_stream_buf" where
  "pipe_recv \<equiv> tb_new\<lparr>tb_stream := Some end_b, tb_inp := [1, 2, 0, 0], tb_inp_cap := 4, tb_wr := 2\<rparr>"

lemma pipe_read:
  "tb_read exact_rt pipe_ops 2 (tb_new\<lparr>tb_stream := Some end_b\<rparr>) ([1, 2], 0) =
     Some (Ret (NewData, pipe_recv, ([1, 2], 2)))"
proof -
  let ?b = "tb_new\<lparr>tb_stream := Some end_b, tb_inp := [0, 0, 0, 0], tb_inp_cap := 4\<rparr>"
  have grow: "vec_resize (Suc (Suc (Suc (Suc 0)))) 0 [] = [0, 0, 0, 0 :: u8]"
    "vec_resize 4 0 [] = [0, 0, 0, 0 :: u8]" by code_simp+
  have space: "tb_inp_makespace exact_rt 2 (tb_new\<lparr>tb_stream := Some end_b\<rparr>) = Ret ?b"
    using grow
    by (simp add: tb_inp_makespace_def makespace_restart_def makespace_grow_def tb_new_def
        usize_simps usize_bound_def vec_reserve_def isize_max_def exact_rt_def Let_def)
  have "read_loop exact_rt pipe_ops True 2 ?b ([1, 2], 0) =
      Some (Ret (NewData, pipe_recv, ([1, 2], 2)))"
    by (subst read_loop.simps)
      (simp add: tb_new_def pipe_ops_def slice_def overwrite_def usize_simps usize_bound_def Let_def)
  moreover have "usize_add exact_rt 0 2 = Ret 2" by (simp add: usize_simps usize_bound_def)
  ultimately show ?thesis
    unfolding tb_read_def space by (simp add: tb_new_def numeral_2_eq_2)
qed

lemma pipe_take:
  "tb_trait_read exact_rt [0, 0] pipe_recv = Ret (Inr 2, [1, 2], pipe_recv\<lparr>tb_rd := 2\<rparr>)"
  by (simp add: tb_trait_read_def tb_new_def usize_simps usize_bound_def Let_def slice_def overwrite_def)

lemma pipe_reachable:
  obtains s where "link_reachable exact_rt pipe_ops (pipe_tx False) (pipe_rx True) pipe_link s"
    "lk_got s = [1, 2]" "lk_written s = [1, 2]"
proof -
  let ?R = "link_reachable exact_rt pipe_ops (pipe_tx False) (pipe_rx True) pipe_link"
  let ?step = "link_step exact_rt pipe_ops (pipe_tx False) (pipe_rx True)"
  let ?s1 = "pipe_link\<lparr>lk_sender := tb_new\<lparr>tb_stream := Some end_a, tb_out := [1, 2]\<rparr>,
      lk_written := [1, 2]\<rparr>"
  let ?s2 = "?s1\<lparr>lk_sender := tb_new\<lparr>tb_stream := Some end_a, tb_out := []\<rparr>, lk_net := ([1, 2], 0)\<rparr>"
  let ?s3 = "?s2\<lparr>lk_receiver := pipe_recv, lk_net := ([1, 2], 2)\<rparr>"
  let ?s4 = "?s3\<lparr>lk_receiver := pipe_recv\<lparr>tb_rd := 2\<rparr>, lk_got := [1, 2]\<rparr>"
  have step1: "?step pipe_link ?s1"
    using link_write [of "[1, 2]" pipe_link, OF surjective_pairing]
    by (simp add: tb_trait_write_def pipe_link_def tb_new_def)
  have step2: "?step ?s1 ?s2"
    using link_flush [of pipe_ops ?s1 "Inr ()"] pipe_flush by (simp add: pipe_link_def)
  have step3: "?step ?s2 ?s3"
    by (rule link_read [where n = 2 and st = NewData])
      (use pipe_read in \<open>simp_all add: pipe_link_def tb_new_def isize_max_def\<close>)
  have "tb_trait_read exact_rt [0, 0] (lk_receiver ?s3) = Ret (Inr 2, [1, 2], pipe_recv\<lparr>tb_rd := 2\<rparr>)"
    by (simp only: tcp_link.simps pipe_link_def pipe_take)
  from link_take [OF this] have step4: "?step ?s3 ?s4"
    by (simp add: pipe_link_def)
  have "?R ?s4"
    by (rule link_next [OF link_next [OF link_next [OF link_next [OF link_start step1] step2]
            step3] step4])
  then show thesis by (rule that) simp_all
qed


end
