(* ===== verification/Datagram.thy ===== *)
theory Datagram
  imports Source_Slot
begin

text \<open>
  What the two UDP queues share: the socket operations of mio's \<open>UdpSocket\<close> as the parameter
  \<open>udp_ops\<close> with addresses of a type \<open>'a\<close>, and the contract of a queue flush as a locale: send
  the packets in order, dropping each from the queue before its send. A receive is given the
  scratch slice and answers with the slice's new contents.
\<close>

record ('s, 'a, 'w) udp_ops =
  udp_send :: "'s \<Rightarrow> bytes \<Rightarrow> 'w \<Rightarrow> nat io \<times> 'w"
  udp_send_to :: "'s \<Rightarrow> bytes \<Rightarrow> 'a \<Rightarrow> 'w \<Rightarrow> nat io \<times> 'w"
  udp_recv :: "'s \<Rightarrow> bytes \<Rightarrow> 'w \<Rightarrow> nat io \<times> bytes \<times> 'w"
  udp_recv_from :: "'s \<Rightarrow> bytes \<Rightarrow> 'w \<Rightarrow> (nat \<times> 'a) io \<times> bytes \<times> 'w"

text \<open>The error by which the code recognises, on Windows, a packet that did not fit.\<close>

definition truncated :: "io_error \<Rightarrow> bool" where
  "truncated e \<longleftrightarrow> err_kind e = Other \<and> raw_os_error e = Some 10040"

section \<open>The contract of a send\<close>

text \<open>\<open>sent w\<close> are the packets the operating system has accepted whole so far: a send that
  answers with the packet's length adds it, any other answer adds nothing.\<close>

definition send_ok :: "('p \<Rightarrow> 'w \<Rightarrow> nat io \<times> 'w) \<Rightarrow> ('p \<Rightarrow> nat) \<Rightarrow> ('w \<Rightarrow> 'p list) \<Rightarrow> bool" where
  "send_ok send plen sent \<longleftrightarrow>
     (\<forall>p w r w'. send p w = (r, w') \<longrightarrow> sent w' = sent w @ (if r = Inr (plen p) then [p] else []))"

text \<open>The answer to a flush whose send of the first packet ended with \<open>r\<close>.\<close>

definition send_answer :: "nat \<Rightarrow> nat io \<Rightarrow> loop_exit" where
  "send_answer len r =
     (case r of
        Inl e \<Rightarrow> if err_kind e = WouldBlock then Return (Inr ()) else Return (Inl e)
      | Inr n \<Rightarrow> if n \<noteq> len then Return (Inl (io_err WriteZero)) else Break)"

lemma send_answer_Break [simp]: "send_answer len r = Break \<longleftrightarrow> r = Inr len"
  by (auto simp: send_answer_def split: sum.splits)

lemma send_answer_whole [simp]: "send_answer len (Inr len) = Break"
  by simp

lemma retry_sent:
  assumes "send_ok send plen sent" "retry (send p) w = Some (r, w')"
  shows "sent w' = sent w @ (if r = Inr (plen p) then [p] else [])"
proof -
  note ok = assms(1) [unfolded send_ok_def, rule_format]
  obtain w0 where "sent w0 = sent w" "send p w0 = (r, w')"
  proof (rule retry_final_call [OF assms(2), where I = "\<lambda>w0. sent w0 = sent w"])
    fix w0
    assume "sent w0 = sent w" "interrupted (fst (send p w0))"
    then show "sent (snd (send p w0)) = sent w"
      using ok [of p w0 "fst (send p w0)" "snd (send p w0)"] by (auto elim!: interruptedE)
  qed (use that in auto)
  with ok [OF this(2)] show ?thesis by simp
qed

section \<open>The contract of a queue\<close>

text \<open>The loop sends the front packet, already removed, with \<open>send\<close>; \<open>plen\<close> is its length.\<close>

locale packet_queue =
  fixes send :: "'p \<Rightarrow> 'w \<Rightarrow> nat io \<times> 'w"
    and plen :: "'p \<Rightarrow> nat"
    and flush_loop :: "'p list \<Rightarrow> 'w \<Rightarrow> (unit io \<times> 'p list \<times> 'w) option"
  assumes flush_Nil: "flush_loop [] w = Some (Inr (), [], w)"
    and flush_Cons: "flush_loop (p # ps) w =
      (case retry (send p) w of
         None \<Rightarrow> None
       | Some (r, w') \<Rightarrow> (case send_answer (plen p) r of
           Return res \<Rightarrow> Some (res, ps, w')
         | Break \<Rightarrow> flush_loop ps w'))"
begin

text \<open>A flush sends a prefix of the queue; if it stops early one packet is gone, neither sent nor
  queued, whether the result is an error or not.\<close>

definition flush_post ::
  "('w \<Rightarrow> 'p list) \<Rightarrow> 'p list \<Rightarrow> 'w \<Rightarrow> unit io \<Rightarrow> 'p list \<Rightarrow> 'w \<Rightarrow> 'p list \<Rightarrow> 'p list \<Rightarrow> bool" where
  "flush_post sent ps w r rest w' pre lost \<longleftrightarrow>
     ps = pre @ lost @ rest \<and> sent w' = sent w @ pre \<and> length lost \<le> 1 \<and>
     (lost = [] \<longrightarrow> rest = [] \<and> r = Inr ()) \<and>
     (\<forall>e. r = Inl e \<longrightarrow> err_kind e \<noteq> WouldBlock \<and> err_kind e \<noteq> Interrupted)"

lemma flush_splits:
  assumes "send_ok send plen sent" "flush_loop ps w = Some (r, rest, w')"
  shows "\<exists>pre lost. flush_post sent ps w r rest w' pre lost"
  using assms(2)
proof (induction ps arbitrary: w)
  case Nil
  then show ?case by (auto simp: flush_Nil flush_post_def)
next
  case (Cons p ps)
  from Cons.prems obtain a w1 where a: "retry (send p) w = Some (a, w1)"
    by (auto simp: flush_Cons split: option.splits)
  note sent = retry_sent [OF assms(1) a]
  show ?case
  proof (cases "send_answer (plen p) a")
    case (Return res)
    have "a \<noteq> Inr (plen p)" using Return send_answer_Break [of "plen p" a] by force
    moreover have "err_kind e \<noteq> WouldBlock \<and> err_kind e \<noteq> Interrupted" if "res = Inl e" for e
      using that Return retry_not_interrupted [OF a]
      by (auto simp: send_answer_def split: sum.splits if_splits)
    ultimately have "flush_post sent (p # ps) w r rest w' [] [p]"
      using Cons.prems a Return sent by (auto simp: flush_Cons flush_post_def)
    then show ?thesis by blast
  next
    case Break
    with Cons.prems a have "flush_loop ps w1 = Some (r, rest, w')" by (simp add: flush_Cons)
    from Cons.IH [OF this] obtain pre lost where "flush_post sent ps w1 r rest w' pre lost"
      by blast
    with Break sent have "flush_post sent (p # ps) w r rest w' (p # pre) lost"
      by (simp add: flush_post_def)
    then show ?thesis by blast
  qed
qed

lemma flush_total:
  assumes "\<And>p. signal_budget m (send p)"
  shows "flush_loop ps w \<noteq> None"
proof (induction ps arbitrary: w)
  case (Cons p ps)
  obtain a w1 where "retry (send p) w = Some (a, w1)" using retry_total [OF assms] by blast
  with Cons show ?case by (simp add: flush_Cons split: loop_exit.splits)
qed (simp add: flush_Nil)

text \<open>Without obstacles everything is sent.\<close>

lemma flush_all:
  assumes "send_ok send plen sent" "\<And>p w. fst (send p w) = Inr (plen p)"
  shows "\<exists>w'. flush_loop ps w = Some (Inr (), [], w') \<and> sent w' = sent w @ ps"
proof (induction ps arbitrary: w)
  case Nil
  show ?case by (simp add: flush_Nil)
next
  case (Cons p ps)
  have "\<not> interrupted (fst (send p w))" by (simp add: assms(2))
  then have a: "retry (send p) w = Some (Inr (plen p), snd (send p w))"
    using assms(2) by (simp add: retry_unfold [of "send p" w] prod_eq_iff)
  from Cons.IH [of "snd (send p w)"] retry_sent [OF assms(1) a] a show ?case
    by (auto simp: flush_Cons send_answer_def)
qed

text \<open>A send that would block makes the flush succeed and takes the packet off the queue.\<close>

lemma flush_blocked:
  assumes "retry (send p) w = Some (Inl e, w')" "err_kind e = WouldBlock"
  shows "flush_loop (p # ps) w = Some (Inr (), ps, w')"
  using assms by (simp add: flush_Cons send_answer_def)

end

text \<open>Two queues whose sends agree flush alike.\<close>

lemma flush_loops_agree:
  assumes "packet_queue send plen loop" "packet_queue send' plen' loop'"
    and "\<And>p. p \<in> set ps \<Longrightarrow> send' (h p) = send p \<and> plen' (h p) = plen p"
  shows "loop' (map h ps) w = map_option (\<lambda>(r, out, w'). (r, map h out, w')) (loop ps w)"
  using assms(3)
proof (induction ps arbitrary: w)
  case Nil
  show ?case
    by (simp add: packet_queue.flush_Nil [OF assms(1)] packet_queue.flush_Nil [OF assms(2)])
next
  case (Cons p ps)
  then show ?case
    by (simp add: packet_queue.flush_Cons [OF assms(1)] packet_queue.flush_Cons [OF assms(2)]
        split: option.splits loop_exit.splits)
qed

end
