(* ===== verification/Udp_Queue.thy ===== *)
theory Udp_Queue
  imports Datagram
begin

text \<open>
  \<open>UdpQueue\<close> of src/udpqueue.rs: a queue of packets for a connected UDP socket. The packets
  queued are a list, front first; the loops are the source's, with "does not return" as
  \<open>None\<close> for the unbounded retry.
\<close>

record 's udp_queue =
  uq_out :: "bytes list"
  uq_socket :: "'s mio_source option"

definition uq_new :: "'s udp_queue" where
  "uq_new = \<lparr>uq_out = [], uq_socket = None\<rparr>"

definition uq_init ::
  "('sl, 'f entry) slab_ops \<Rightarrow> ('s, 'w) source_ops \<Rightarrow> 's mio_source \<Rightarrow> 's udp_queue
    \<Rightarrow> ('sl, 'k) control \<times> 'w \<Rightarrow> ('s udp_queue \<times> ('sl, 'k) control \<times> 'w) option" where
  "uq_init S D socket q cw =
     map_option (Pair (q\<lparr>uq_socket := Some socket\<rparr>)) (drop_slot S D (uq_socket q) cw)"

definition uq_deinit ::
  "('sl, 'f entry) slab_ops \<Rightarrow> ('s, 'w) source_ops \<Rightarrow> 's udp_queue
    \<Rightarrow> ('sl, 'k) control \<times> 'w \<Rightarrow> ('s udp_queue \<times> ('sl, 'k) control \<times> 'w) option" where
  "uq_deinit S D q cw =
     map_option (Pair (q\<lparr>uq_socket := None\<rparr>)) (drop_slot S D (uq_socket q) cw)"

interpretation udp_slot: source_slot uq_socket uq_init uq_deinit
  by unfold_locales
     (unfold uq_init_def uq_deinit_def, (rule exI, rule conjI [rotated], rule refl, simp)+)

definition uq_push :: "bytes \<Rightarrow> 's udp_queue \<Rightarrow> 's udp_queue" where
  "uq_push packet q = q\<lparr>uq_out := uq_out q @ [packet]\<rparr>"

section \<open>Flushing\<close>

text \<open>The inner loop of \<open>flush\<close>: it sends one packet, which has already left the queue.\<close>

partial_function (option) uq_send_loop ::
  "('s, 'a, 'w) udp_ops \<Rightarrow> 's \<Rightarrow> bytes \<Rightarrow> 'w \<Rightarrow> (loop_exit \<times> 'w) option" where
  "uq_send_loop U s pk w =
     (case udp_send U s pk w of (r, w') \<Rightarrow>
        (case r of
           Inl e \<Rightarrow> if err_kind e = Interrupted then uq_send_loop U s pk w'
                    else if err_kind e = WouldBlock then Some (Return (Inr ()), w')
                    else Some (Return (Inl e), w')
         | Inr len \<Rightarrow> if len \<noteq> length pk then Some (Return (Inl (io_err WriteZero)), w')
                      else Some (Break, w')))"

declare uq_send_loop.simps [code]

fun uq_flush_loop ::
  "('s, 'a, 'w) udp_ops \<Rightarrow> 's \<Rightarrow> bytes list \<Rightarrow> 'w \<Rightarrow> (unit io \<times> bytes list \<times> 'w) option" where
  "uq_flush_loop U s [] w = Some (Inr (), [], w)"
| "uq_flush_loop U s (pk # out) w =
     (case uq_send_loop U s pk w of
        None \<Rightarrow> None
      | Some (Return r, w') \<Rightarrow> Some (r, out, w')
      | Some (Break, w') \<Rightarrow> uq_flush_loop U s out w')"

definition uq_flush ::
  "('s, 'a, 'w) udp_ops \<Rightarrow> 's udp_queue \<Rightarrow> 'w \<Rightarrow> (unit io \<times> 's udp_queue \<times> 'w) option" where
  "uq_flush U q w =
     (case uq_socket q of
        None \<Rightarrow> Some (Inr (), q, w)
      | Some ms \<Rightarrow> map_option (\<lambda>(r, out, w'). (r, q\<lparr>uq_out := out\<rparr>, w'))
                     (uq_flush_loop U (ms_source ms) (uq_out q) w))"

section \<open>Reading\<close>

text \<open>\<open>read\<close> gives a slice of the scratch buffer: its bytes, with the buffer's new contents.\<close>

partial_function (option) uq_recv_loop ::
  "('s, 'a, 'w) udp_ops \<Rightarrow> 's \<Rightarrow> bytes \<Rightarrow> 'w \<Rightarrow> (bytes option io \<times> bytes \<times> 'w) exec" where
  "uq_recv_loop U s tmp w =
     (case udp_recv U s tmp w of (r, tmp', w') \<Rightarrow>
        (case r of
           Inl e \<Rightarrow>
             if err_kind e = Interrupted then uq_recv_loop U s tmp' w'
             else if err_kind e = WouldBlock then Some (Ret (Inr None, tmp', w'))
             else if err_kind e = Other \<and> raw_os_error e = Some 10040
             then Some (Ret (Inr (Some tmp'), tmp', w'))
             else Some (Ret (Inl e, tmp', w'))
         | Inr len \<Rightarrow>
             if len \<le> length tmp' then Some (Ret (Inr (Some (take len tmp')), tmp', w'))
             else Some Panic))"

declare uq_recv_loop.simps [code]

definition uq_read ::
  "('s, 'a, 'w) udp_ops \<Rightarrow> bytes \<Rightarrow> 's udp_queue \<Rightarrow> 'w \<Rightarrow> (bytes option io \<times> bytes \<times> 'w) exec" where
  "uq_read U tmp q w =
     (case uq_socket q of
        None \<Rightarrow> Some (Ret (Inr None, tmp, w))
      | Some ms \<Rightarrow> uq_recv_loop U (ms_source ms) tmp w)"

definition uq_read_to_vec ::
  "('s, 'a, 'w) udp_ops \<Rightarrow> bytes \<Rightarrow> 's udp_queue \<Rightarrow> 'w \<Rightarrow> (bytes option io \<times> bytes \<times> 'w) exec" where
  "uq_read_to_vec U tmp q w =
     ebind (uq_read U tmp q w) (\<lambda>(r, tmp', w').
       Some (Ret (case r of
           Inr (Some sl) \<Rightarrow> Inr (Some sl)
         | Inr None \<Rightarrow> Inr None
         | Inl e \<Rightarrow> Inl e, tmp', w')))"

section \<open>The loops as retries\<close>

lemma uq_send_loop_returns:
  assumes "uq_send_loop U s pk w = Some x"
  shows "retry (udp_send U s pk) w \<noteq> None"
proof (rule uq_send_loop.raw_induct [OF _ assms,
      where P = "\<lambda>U s pk w x. retry (udp_send U s pk) w \<noteq> None"], goal_cases)
  case (1 rec U s pk w x)
  then show ?case
    by (cases "udp_send U s pk w"; cases x)
       (auto simp: retry_unfold [of "udp_send U s pk" w] elim!: interruptedE)
qed

lemma uq_send_loop_retry:
  "uq_send_loop U s pk w =
     map_option (\<lambda>(r, w'). (send_answer (length pk) r, w')) (retry (udp_send U s pk) w)"
  by (rule loop_is_retry [OF _ uq_send_loop_returns], subst uq_send_loop.simps)
     (auto simp: interrupted_def send_answer_def split: prod.splits sum.splits)

interpretation udp_queue: packet_queue "udp_send U s" length "uq_flush_loop U s" for U s
  by unfold_locales
     (auto simp: uq_send_loop_retry split: option.splits prod.splits loop_exit.splits)

text \<open>The receive loop is a retry over the scratch buffer and the world.\<close>

definition recv_call :: "('s, 'a, 'w) udp_ops \<Rightarrow> 's \<Rightarrow> bytes \<times> 'w \<Rightarrow> nat io \<times> (bytes \<times> 'w)" where
  "recv_call U s = (\<lambda>(tmp, w). udp_recv U s tmp w)"

lemma recv_call_simp [simp]: "recv_call U s (tmp, w) = udp_recv U s tmp w"
  by (simp add: recv_call_def)

definition recv_answer :: "nat io \<Rightarrow> bytes \<Rightarrow> bytes option io outcome" where
  "recv_answer r tmp =
     (case r of
        Inl e \<Rightarrow> Ret (if err_kind e = WouldBlock then Inr None
                      else if truncated e then Inr (Some tmp) else Inl e)
      | Inr len \<Rightarrow> if len \<le> length tmp then Ret (Inr (Some (take len tmp))) else Panic)"

lemma uq_recv_loop_returns:
  assumes "uq_recv_loop U s tmp w = Some x"
  shows "retry (recv_call U s) (tmp, w) \<noteq> None"
proof (rule uq_recv_loop.raw_induct [OF _ assms,
      where P = "\<lambda>U s tmp w x. retry (recv_call U s) (tmp, w) \<noteq> None"], goal_cases)
  case (1 rec U s tmp w x)
  then show ?case
    by (cases "udp_recv U s tmp w")
       (auto simp: retry_unfold [of "recv_call U s" "(tmp, w)"] elim!: interruptedE
         split: sum.splits if_splits)
qed

lemma uq_recv_loop_retry:
  "uq_recv_loop U s tmp w =
     map_option (\<lambda>(r, tmp', w'). obind (recv_answer r tmp') (\<lambda>a. Ret (a, tmp', w')))
       (retry (recv_call U s) (tmp, w))"
proof -
  have "(\<lambda>(tmp, w). uq_recv_loop U s tmp w) (tmp, w) =
     map_option (\<lambda>(r, tmp', w'). obind (recv_answer r tmp') (\<lambda>a. Ret (a, tmp', w')))
       (retry (recv_call U s) (tmp, w))"
  proof (rule loop_is_retry, goal_cases)
    case (1 tw)
    then show ?case
      by (cases tw, simp only: prod.case, subst uq_recv_loop.simps)
         (auto simp: recv_answer_def truncated_def interrupted_def
           split: prod.splits sum.splits)
  qed (use uq_recv_loop_returns in auto)
  then show ?thesis by simp
qed

end
