(* ===== verification/Udp_Server_Queue.thy ===== *)
theory Udp_Server_Queue
  imports Datagram
begin

text \<open>
  \<open>UdpServerQueue\<close> of src/udpserverqueue.rs: as \<open>UdpQueue\<close>, for a socket that is not connected,
  so every packet comes with an address. A received packet that did not fit is skipped, because
  its source address is not known.
\<close>

record ('s, 'a) udp_server_queue =
  us_out :: "('a \<times> bytes) list"
  us_socket :: "'s mio_source option"

definition us_new :: "('s, 'a) udp_server_queue" where
  "us_new = \<lparr>us_out = [], us_socket = None\<rparr>"

definition us_init ::
  "('sl, 'f entry) slab_ops \<Rightarrow> ('s, 'w) source_ops \<Rightarrow> 's mio_source \<Rightarrow> ('s, 'a) udp_server_queue
    \<Rightarrow> ('sl, 'k) control \<times> 'w \<Rightarrow> (('s, 'a) udp_server_queue \<times> ('sl, 'k) control \<times> 'w) option" where
  "us_init S D socket q cw =
     map_option (Pair (q\<lparr>us_socket := Some socket\<rparr>)) (drop_slot S D (us_socket q) cw)"

definition us_deinit ::
  "('sl, 'f entry) slab_ops \<Rightarrow> ('s, 'w) source_ops \<Rightarrow> ('s, 'a) udp_server_queue
    \<Rightarrow> ('sl, 'k) control \<times> 'w \<Rightarrow> (('s, 'a) udp_server_queue \<times> ('sl, 'k) control \<times> 'w) option" where
  "us_deinit S D q cw =
     map_option (Pair (q\<lparr>us_socket := None\<rparr>)) (drop_slot S D (us_socket q) cw)"

interpretation udp_server_slot: source_slot us_socket us_init us_deinit
  by unfold_locales
     (unfold us_init_def us_deinit_def, (rule exI, rule conjI [rotated], rule refl, simp)+)

definition us_push :: "'a \<Rightarrow> bytes \<Rightarrow> ('s, 'a) udp_server_queue \<Rightarrow> ('s, 'a) udp_server_queue" where
  "us_push addr packet q = q\<lparr>us_out := us_out q @ [(addr, packet)]\<rparr>"

section \<open>Flushing\<close>

partial_function (option) us_send_loop ::
  "('s, 'a, 'w) udp_ops \<Rightarrow> 's \<Rightarrow> 'a \<Rightarrow> bytes \<Rightarrow> 'w \<Rightarrow> (loop_exit \<times> 'w) option" where
  "us_send_loop U s addr pk w =
     (case udp_send_to U s pk addr w of (r, w') \<Rightarrow>
        (case r of
           Inl e \<Rightarrow> if err_kind e = Interrupted then us_send_loop U s addr pk w'
                    else if err_kind e = WouldBlock then Some (Return (Inr ()), w')
                    else Some (Return (Inl e), w')
         | Inr len \<Rightarrow> if len \<noteq> length pk then Some (Return (Inl (io_err WriteZero)), w')
                      else Some (Break, w')))"

declare us_send_loop.simps [code]

fun us_flush_loop ::
  "('s, 'a, 'w) udp_ops \<Rightarrow> 's \<Rightarrow> ('a \<times> bytes) list \<Rightarrow> 'w
    \<Rightarrow> (unit io \<times> ('a \<times> bytes) list \<times> 'w) option" where
  "us_flush_loop U s [] w = Some (Inr (), [], w)"
| "us_flush_loop U s ((addr, pk) # out) w =
     (case us_send_loop U s addr pk w of
        None \<Rightarrow> None
      | Some (Return r, w') \<Rightarrow> Some (r, out, w')
      | Some (Break, w') \<Rightarrow> us_flush_loop U s out w')"

definition us_flush ::
  "('s, 'a, 'w) udp_ops \<Rightarrow> ('s, 'a) udp_server_queue \<Rightarrow> 'w
    \<Rightarrow> (unit io \<times> ('s, 'a) udp_server_queue \<times> 'w) option" where
  "us_flush U q w =
     (case us_socket q of
        None \<Rightarrow> Some (Inr (), q, w)
      | Some ms \<Rightarrow> map_option (\<lambda>(r, out, w'). (r, q\<lparr>us_out := out\<rparr>, w'))
                     (us_flush_loop U (ms_source ms) (us_out q) w))"

section \<open>Reading\<close>

partial_function (option) us_recv_loop ::
  "('s, 'a, 'w) udp_ops \<Rightarrow> 's \<Rightarrow> bytes \<Rightarrow> 'w \<Rightarrow> (('a \<times> bytes) option io \<times> bytes \<times> 'w) exec" where
  "us_recv_loop U s tmp w =
     (case udp_recv_from U s tmp w of (r, tmp', w') \<Rightarrow>
        (case r of
           Inl e \<Rightarrow>
             if err_kind e = Interrupted then us_recv_loop U s tmp' w'
             else if err_kind e = WouldBlock then Some (Ret (Inr None, tmp', w'))
             else if err_kind e = Other \<and> raw_os_error e = Some 10040
             then us_recv_loop U s tmp' w'
             else Some (Ret (Inl e, tmp', w'))
         | Inr (len, addr) \<Rightarrow>
             if len \<le> length tmp' then Some (Ret (Inr (Some (addr, take len tmp')), tmp', w'))
             else Some Panic))"

declare us_recv_loop.simps [code]

definition us_read ::
  "('s, 'a, 'w) udp_ops \<Rightarrow> bytes \<Rightarrow> ('s, 'a) udp_server_queue \<Rightarrow> 'w
    \<Rightarrow> (('a \<times> bytes) option io \<times> bytes \<times> 'w) exec" where
  "us_read U tmp q w =
     (case us_socket q of
        None \<Rightarrow> Some (Ret (Inr None, tmp, w))
      | Some ms \<Rightarrow> us_recv_loop U (ms_source ms) tmp w)"

definition us_read_to_vec ::
  "('s, 'a, 'w) udp_ops \<Rightarrow> bytes \<Rightarrow> ('s, 'a) udp_server_queue \<Rightarrow> 'w
    \<Rightarrow> (('a \<times> bytes) option io \<times> bytes \<times> 'w) exec" where
  "us_read_to_vec U tmp q w =
     ebind (us_read U tmp q w) (\<lambda>(r, tmp', w').
       Some (Ret (case r of
           Inr (Some (addr, sl)) \<Rightarrow> Inr (Some (addr, sl))
         | Inr None \<Rightarrow> Inr None
         | Inl e \<Rightarrow> Inl e, tmp', w')))"

section \<open>The loops as retries\<close>

lemma us_send_loop_returns:
  assumes "us_send_loop U s addr pk w = Some x"
  shows "retry (udp_send_to U s pk addr) w \<noteq> None"
proof (rule us_send_loop.raw_induct [OF _ assms,
      where P = "\<lambda>U s addr pk w x. retry (udp_send_to U s pk addr) w \<noteq> None"], goal_cases)
  case (1 rec U s addr pk w x)
  then show ?case
    by (cases "udp_send_to U s pk addr w"; cases x)
       (auto simp: retry_unfold [of "udp_send_to U s pk addr" w] elim!: interruptedE)
qed

lemma us_send_loop_retry:
  "us_send_loop U s addr pk w =
     map_option (\<lambda>(r, w'). (send_answer (length pk) r, w')) (retry (udp_send_to U s pk addr) w)"
  by (rule loop_is_retry [OF _ us_send_loop_returns], subst us_send_loop.simps)
     (auto simp: interrupted_def send_answer_def split: prod.splits sum.splits)

definition send_entry :: "('s, 'a, 'w) udp_ops \<Rightarrow> 's \<Rightarrow> 'a \<times> bytes \<Rightarrow> 'w \<Rightarrow> nat io \<times> 'w" where
  "send_entry U s = (\<lambda>(addr, pk). udp_send_to U s pk addr)"

lemma send_entry_simp [simp]: "send_entry U s (addr, pk) = udp_send_to U s pk addr"
  by (simp add: send_entry_def)

interpretation udp_server: packet_queue "send_entry U s" "\<lambda>(addr, pk). length pk"
    "us_flush_loop U s" for U s
  by unfold_locales
     (auto simp: us_send_loop_retry split: option.splits prod.splits loop_exit.splits)

text \<open>The receive loop is a retry of the receive in which a packet that did not fit looks
  like an interruption.\<close>

definition recv_from_call ::
  "('s, 'a, 'w) udp_ops \<Rightarrow> 's \<Rightarrow> bytes \<times> 'w \<Rightarrow> (nat \<times> 'a) io \<times> (bytes \<times> 'w)" where
  "recv_from_call U s = (\<lambda>(tmp, w). case udp_recv_from U s tmp w of (r, tw) \<Rightarrow>
     (case r of Inl e \<Rightarrow> if truncated e then Inl (io_err Interrupted) else r | Inr _ \<Rightarrow> r, tw))"

lemma recv_from_call_simp [simp]:
  "udp_recv_from U s tmp w = (r, tw) \<Longrightarrow> recv_from_call U s (tmp, w) =
     (case r of Inl e \<Rightarrow> if truncated e then Inl (io_err Interrupted) else r | Inr _ \<Rightarrow> r, tw)"
  by (simp add: recv_from_call_def)

definition recv_from_answer :: "(nat \<times> 'a) io \<Rightarrow> bytes \<Rightarrow> ('a \<times> bytes) option io outcome" where
  "recv_from_answer r tmp =
     (case r of
        Inl e \<Rightarrow> Ret (if err_kind e = WouldBlock then Inr None else Inl e)
      | Inr (len, addr) \<Rightarrow>
          if len \<le> length tmp then Ret (Inr (Some (addr, take len tmp))) else Panic)"

lemma us_recv_loop_returns:
  assumes "us_recv_loop U s tmp w = Some x"
  shows "retry (recv_from_call U s) (tmp, w) \<noteq> None"
proof (rule us_recv_loop.raw_induct [OF _ assms,
      where P = "\<lambda>U s tmp w x. retry (recv_from_call U s) (tmp, w) \<noteq> None"], goal_cases)
  case (1 rec U s tmp w x)
  then show ?case
    by (cases "udp_recv_from U s tmp w")
       (auto simp: retry_unfold [of "recv_from_call U s" "(tmp, w)"] truncated_def
         elim!: interruptedE split: sum.splits if_splits)
qed

lemma us_recv_loop_retry:
  "us_recv_loop U s tmp w =
     map_option (\<lambda>(r, tmp', w'). obind (recv_from_answer r tmp') (\<lambda>a. Ret (a, tmp', w')))
       (retry (recv_from_call U s) (tmp, w))"
proof -
  have "(\<lambda>(tmp, w). us_recv_loop U s tmp w) (tmp, w) =
     map_option (\<lambda>(r, tmp', w'). obind (recv_from_answer r tmp') (\<lambda>a. Ret (a, tmp', w')))
       (retry (recv_from_call U s) (tmp, w))"
  proof (rule loop_is_retry, goal_cases)
    case (1 tw)
    then show ?case
      by (cases tw, simp only: prod.case, subst us_recv_loop.simps)
         (auto simp: recv_from_answer_def truncated_def interrupted_def
           split: prod.splits sum.splits if_splits)
  qed (use us_recv_loop_returns in auto)
  then show ?thesis by simp
qed

end
