(* ===== verification/Udp_Properties.thy ===== *)
theory Udp_Properties
  imports Udp_Queue Udp_Server_Queue
begin

text \<open>
  The properties of \<open>UdpQueue\<close> and \<open>UdpServerQueue\<close>, each with a witness on a scripted socket.
\<close>

section \<open>A scripted socket\<close>

text \<open>
  The world of the witnesses: the packets sent whole so far, the answers of the next sends
  (\<open>Inr n\<close> accepts at most \<open>n\<close> bytes; an exhausted script accepts everything) and of the next
  receives (an exhausted script would block). Packets sent without an address go to 0.
\<close>

record udp_world =
  uw_sent :: "(nat \<times> bytes) list"
  uw_sends :: "nat io list"
  uw_recvs :: "(nat \<times> bytes) io list"

definition script_send :: "nat \<Rightarrow> bytes \<Rightarrow> udp_world \<Rightarrow> nat io \<times> udp_world" where
  "script_send addr pk w =
     (let (r, rs) = (case uw_sends w of
            [] \<Rightarrow> (Inr (length pk), [])
          | Inl e # rs \<Rightarrow> (Inl e, rs)
          | Inr n # rs \<Rightarrow> (Inr (min n (length pk)), rs))
      in (r, w\<lparr>uw_sends := rs, uw_sent := uw_sent w @ (if r = Inr (length pk) then [(addr, pk)] else [])\<rparr>))"

definition script_recv :: "bytes \<Rightarrow> udp_world \<Rightarrow> (nat \<times> nat) io \<times> bytes \<times> udp_world" where
  "script_recv tmp w =
     (case uw_recvs w of
        [] \<Rightarrow> (Inl (io_err WouldBlock), tmp, w)
      | Inl e # rs \<Rightarrow> (Inl e, tmp, w\<lparr>uw_recvs := rs\<rparr>)
      | Inr (a, pk) # rs \<Rightarrow>
          let got = take (length tmp) pk
          in (Inr (length got, a), overwrite 0 got tmp, w\<lparr>uw_recvs := rs\<rparr>))"

definition script_udp_ops :: "(nat, nat, udp_world) udp_ops" where
  "script_udp_ops =
     \<lparr>udp_send = (\<lambda>s. script_send 0),
      udp_send_to = (\<lambda>s pk addr. script_send addr pk),
      udp_recv = (\<lambda>s tmp w. case script_recv tmp w of (r, tmp', w') \<Rightarrow> (map_sum id fst r, tmp', w')),
      udp_recv_from = (\<lambda>s. script_recv)\<rparr>"

lemma script_udp_sel [simp]:
  "udp_send script_udp_ops s = script_send 0"
  "udp_send_to script_udp_ops s pk addr = script_send addr pk"
  "udp_recv_from script_udp_ops s = script_recv"
  "udp_recv script_udp_ops s tmp w =
     (case script_recv tmp w of (r, tmp', w') \<Rightarrow> (map_sum id fst r, tmp', w'))"
  by (simp_all add: script_udp_ops_def)

lemma script_send_ok:
  "send_ok (udp_send script_udp_ops s) length (map snd \<circ> uw_sent)"
  "send_ok (send_entry script_udp_ops s) (\<lambda>(addr, pk). length pk) uw_sent"
  by (auto simp: send_ok_def script_send_def Let_def split: prod.splits)

lemma script_send_signals: "signal_budget (length \<circ> uw_sends) (script_send a pk)"
  by (auto simp: signal_budget_def script_send_def Let_def split: list.splits sum.splits prod.splits)

definition demo_queue :: "nat udp_queue" where
  "demo_queue = \<lparr>uq_out = [[1], [2, 2], [3]], uq_socket = Some \<lparr>ms_token = 1, ms_source = 0\<rparr>\<rparr>"

definition demo_server :: "(nat, nat) udp_server_queue" where
  "demo_server = \<lparr>us_out = [(7, [1]), (8, [2, 2]), (7, [3])],
     us_socket = Some \<lparr>ms_token = 1, ms_source = 0\<rparr>\<rparr>"

text \<open>The first send is interrupted, the next accepts the packet, and the one after would
  block.\<close>

definition demo_udp :: udp_world where
  "demo_udp = \<lparr>uw_sent = [],
     uw_sends = [Inl (io_err Interrupted), Inr 9, Inl (io_err WouldBlock)],
     uw_recvs = [Inl \<lparr>err_kind = Other, raw_os_error = Some 10040\<rparr>, Inr (5, [4, 5])]\<rparr>"

lemma demo_flush_runs:
  "uq_flush script_udp_ops demo_queue demo_udp =
     Some (Inr (), demo_queue\<lparr>uq_out := [[3]]\<rparr>, demo_udp\<lparr>uw_sent := [(0, [1])], uw_sends := []\<rparr>)"
  "us_flush script_udp_ops demo_server demo_udp =
     Some (Inr (), demo_server\<lparr>us_out := [(7, [3])]\<rparr>, demo_udp\<lparr>uw_sent := [(7, [1])], uw_sends := []\<rparr>)"
  by code_simp+

section \<open>Flushing\<close>

text \<open>C23. \<open>UdpQueue::flush\<close> sends a prefix of the queue, in order. When it returns, the packets
  sent whole, at most one further packet and the packets still queued are the old queue. If no
  packet is given up, the queue is empty and the result is success; an error is never
  \<open>WouldBlock\<close> or \<open>Interrupted\<close>. The socket stays.\<close>

theorem udp_flush_sends_prefix:
  assumes "uq_socket q = Some ms" "send_ok (udp_send U (ms_source ms)) length sent"
    and "uq_flush U q w = Some (r, q', w')"
  shows "\<exists>pre lost. uq_out q = pre @ lost @ uq_out q' \<and> sent w' = sent w @ pre
    \<and> length lost \<le> 1 \<and> (lost = [] \<longrightarrow> uq_out q' = [] \<and> r = Inr ())
    \<and> (\<forall>e. r = Inl e \<longrightarrow> err_kind e \<noteq> WouldBlock \<and> err_kind e \<noteq> Interrupted)
    \<and> uq_socket q' = uq_socket q"
proof -
  from assms(1,3) obtain out where q': "q' = q\<lparr>uq_out := out\<rparr>"
    and run: "uq_flush_loop U (ms_source ms) (uq_out q) w = Some (r, out, w')"
    by (auto simp: uq_flush_def)
  from udp_queue.flush_splits [OF assms(2) run] q' show ?thesis
    by (auto simp: udp_queue.flush_post_def)
qed

theorem udp_flush_sends_prefix_witness:
  "\<exists>q' w' lost. uq_flush script_udp_ops demo_queue demo_udp = Some (Inr (), q', w') \<and>
     uw_sent w' = [(0, [1])] \<and> uq_out q' = [[3]] \<and> uq_out demo_queue = [[1]] @ lost @ [[3]]"
proof -
  have "uq_socket demo_queue = Some \<lparr>ms_token = 1, ms_source = 0\<rparr>" by (simp add: demo_queue_def)
  from udp_flush_sends_prefix [OF this script_send_ok(1) demo_flush_runs(1)] demo_flush_runs(1)
  show ?thesis by (auto simp: demo_udp_def)
qed

text \<open>\<open>UdpServerQueue::flush\<close> sends a prefix of the queue, in order and each packet to its
  own address, under the same terms.\<close>

theorem udp_server_flush_sends_prefix:
  assumes "us_socket q = Some ms"
    and "send_ok (\<lambda>(addr, pk). udp_send_to U (ms_source ms) pk addr) (\<lambda>(addr, pk). length pk) sent"
    and "us_flush U q w = Some (r, q', w')"
  shows "\<exists>pre lost. us_out q = pre @ lost @ us_out q' \<and> sent w' = sent w @ pre
    \<and> length lost \<le> 1 \<and> (lost = [] \<longrightarrow> us_out q' = [] \<and> r = Inr ())
    \<and> (\<forall>e. r = Inl e \<longrightarrow> err_kind e \<noteq> WouldBlock \<and> err_kind e \<noteq> Interrupted)
    \<and> us_socket q' = us_socket q"
proof -
  from assms(1,3) obtain out where q': "q' = q\<lparr>us_out := out\<rparr>"
    and run: "us_flush_loop U (ms_source ms) (us_out q) w = Some (r, out, w')"
    by (auto simp: us_flush_def)
  from udp_server.flush_splits [OF assms(2) [folded send_entry_def] run] q' show ?thesis
    by (auto simp: udp_server.flush_post_def)
qed

theorem udp_server_flush_sends_prefix_witness:
  "\<exists>q' w' lost. us_flush script_udp_ops demo_server demo_udp = Some (Inr (), q', w') \<and>
     uw_sent w' = [(7, [1])] \<and> us_out demo_server = [(7, [1])] @ lost @ us_out q'"
proof -
  have "us_socket demo_server = Some \<lparr>ms_token = 1, ms_source = 0\<rparr>" by (simp add: demo_server_def)
  from udp_server_flush_sends_prefix [OF this script_send_ok(2) [unfolded send_entry_def]
      demo_flush_runs(2)] demo_flush_runs(2)
  show ?thesis by (auto simp: demo_udp_def)
qed

text \<open>A flush returns if signals interrupt sends only finitely often, and one whose sends
  all succeed sends the whole queue in order and leaves it empty.\<close>

theorem udp_flush_complete:
  assumes "uq_socket q = Some ms"
  shows "((\<forall>p. signal_budget m (udp_send U (ms_source ms) p)) \<longrightarrow>
      (\<exists>r q' w'. uq_flush U q w = Some (r, q', w')))
    \<and> (send_ok (udp_send U (ms_source ms)) length sent \<and>
       (\<forall>p w. fst (udp_send U (ms_source ms) p w) = Inr (length p)) \<longrightarrow>
      (\<exists>w'. uq_flush U q w = Some (Inr (), q\<lparr>uq_out := []\<rparr>, w') \<and> sent w' = sent w @ uq_out q))"
proof (intro conjI impI)
  assume "\<forall>p. signal_budget m (udp_send U (ms_source ms) p)"
  then have "uq_flush_loop U (ms_source ms) (uq_out q) w \<noteq> None"
    by (intro udp_queue.flush_total [of m]) blast
  with assms show "\<exists>r q' w'. uq_flush U q w = Some (r, q', w')"
    by (auto simp: uq_flush_def)
next
  assume *: "send_ok (udp_send U (ms_source ms)) length sent \<and>
       (\<forall>p w. fst (udp_send U (ms_source ms) p w) = Inr (length p))"
  from udp_queue.flush_all [of U "ms_source ms" sent "uq_out q" w] * assms
  show "\<exists>w'. uq_flush U q w = Some (Inr (), q\<lparr>uq_out := []\<rparr>, w') \<and> sent w' = sent w @ uq_out q"
    by (auto simp: uq_flush_def)
qed

theorem udp_flush_complete_witness:
  "\<exists>r q' w'. uq_flush script_udp_ops demo_queue demo_udp = Some (r, q', w')"
  by (rule udp_flush_complete [THEN conjunct1, rule_format, of _ "\<lparr>ms_token = 1, ms_source = 0\<rparr>"
        "length \<circ> uw_sends"])
     (simp_all add: demo_queue_def script_send_signals)

text \<open>C38. A send that would block loses its packet: both queues take the packet off the queue
  before the send, and on \<open>WouldBlock\<close> the flush reports success, though the packet has been
  neither sent nor kept. The rest of the queue stays.\<close>

theorem udp_flush_blocked_loses_packet:
  assumes "uq_socket q = Some ms" "uq_out q = pk # rest"
    and "retry (udp_send U (ms_source ms) pk) w = Some (Inl e, w')" "err_kind e = WouldBlock"
    and "us_socket q2 = Some ms" "us_out q2 = (addr, pk) # rest2"
    and "retry (udp_send_to U (ms_source ms) pk addr) w = Some (Inl e2, w2)"
      "err_kind e2 = WouldBlock"
  shows "uq_flush U q w = Some (Inr (), q\<lparr>uq_out := rest\<rparr>, w')
    \<and> us_flush U q2 w = Some (Inr (), q2\<lparr>us_out := rest2\<rparr>, w2)"
  using udp_queue.flush_blocked [OF assms(3,4), of rest]
    udp_server.flush_blocked [of U "ms_source ms" "(addr, pk)" w e2 w2 rest2] assms
  by (simp add: uq_flush_def us_flush_def)

theorem udp_flush_blocked_loses_packet_witness:
  "uq_flush script_udp_ops demo_queue (demo_udp\<lparr>uw_sends := [Inl (io_err WouldBlock)]\<rparr>) =
     Some (Inr (), demo_queue\<lparr>uq_out := [[2, 2], [3]]\<rparr>, demo_udp\<lparr>uw_sends := []\<rparr>)
   \<and> us_flush script_udp_ops demo_server (demo_udp\<lparr>uw_sends := [Inl (io_err WouldBlock)]\<rparr>) =
     Some (Inr (), demo_server\<lparr>us_out := [(8, [2, 2]), (7, [3])]\<rparr>, demo_udp\<lparr>uw_sends := []\<rparr>)"
proof (rule udp_flush_blocked_loses_packet
      [where e = "io_err WouldBlock" and ?e2.0 = "io_err WouldBlock"])
  show "uq_socket demo_queue = Some \<lparr>ms_token = 1, ms_source = 0\<rparr>"
    "us_socket demo_server = Some \<lparr>ms_token = 1, ms_source = 0\<rparr>"
    "uq_out demo_queue = [1] # [[2, 2], [3]]"
    "us_out demo_server = (7, [1]) # [(8, [2, 2]), (7, [3])]"
    by (simp_all add: demo_queue_def demo_server_def)
qed (simp_all add: retry_unfold script_send_def demo_udp_def)

text \<open>\<open>UdpServerQueue\<close> sending to one address \<open>a\<close> flushes exactly as \<open>UdpQueue\<close> does on a
  socket connected to \<open>a\<close>: same result, same packets left, same world.\<close>

theorem udp_server_flush_one_address:
  assumes "\<And>s pk. udp_send_to U s pk a = udp_send U s pk"
    and "us_socket q2 = uq_socket q" "us_out q2 = map (Pair a) (uq_out q)"
  shows "us_flush U q2 w =
    map_option (\<lambda>(r, q', w'). (r, q2\<lparr>us_out := map (Pair a) (uq_out q')\<rparr>, w')) (uq_flush U q w)"
proof (cases "uq_socket q")
  case None
  with assms(2,3) show ?thesis by (cases q2) (simp add: us_flush_def uq_flush_def)
next
  case (Some ms)
  have "us_flush_loop U (ms_source ms) (map (Pair a) (uq_out q)) w =
      map_option (\<lambda>(r, out, w'). (r, map (Pair a) out, w'))
        (uq_flush_loop U (ms_source ms) (uq_out q) w)"
    by (rule flush_loops_agree [OF udp_queue.packet_queue_axioms udp_server.packet_queue_axioms])
       (simp add: assms(1))
  with Some assms(2,3) show ?thesis
    by (simp add: us_flush_def uq_flush_def option.map_comp comp_def case_prod_beta)
qed

theorem udp_server_flush_one_address_witness:
  "\<exists>q' w'. us_flush script_udp_ops (demo_server\<lparr>us_out := map (Pair 0) (uq_out demo_queue)\<rparr>) demo_udp =
     Some (Inr (), q', w') \<and> us_out q' = [(0, [3])]"
proof -
  let ?q2 = "demo_server\<lparr>us_out := map (Pair 0) (uq_out demo_queue)\<rparr>"
  have "us_flush script_udp_ops ?q2 demo_udp =
    map_option (\<lambda>(r, q', w'). (r, ?q2\<lparr>us_out := map (Pair 0) (uq_out q')\<rparr>, w'))
      (uq_flush script_udp_ops demo_queue demo_udp)"
    by (rule udp_server_flush_one_address) (simp_all add: demo_server_def demo_queue_def)
  then show ?thesis by (simp add: demo_flush_runs(1))
qed

section \<open>Reading\<close>

text \<open>The contract of a receive: the scratch slice keeps its length and the count fits it.\<close>

definition recv_ok :: "('s, 'a, 'w) udp_ops \<Rightarrow> 's \<Rightarrow> bool" where
  "recv_ok U s \<longleftrightarrow>
     (\<forall>tmp w n tmp' w'. udp_recv U s tmp w = (Inr n, tmp', w') \<longrightarrow> n \<le> length tmp') \<and>
     (\<forall>tmp w n a tmp' w'. udp_recv_from U s tmp w = (Inr (n, a), tmp', w') \<longrightarrow> n \<le> length tmp')"

lemma retry_recv_fits:
  assumes "recv_ok U s" "retry (recv_call U s) (tmp, w) = Some (Inr n, tmp', w')"
  shows "n \<le> length tmp'"
proof -
  from retry_last_call [OF assms(2), of "\<lambda>_. True"] obtain tw where
    "recv_call U s tw = (Inr n, tmp', w')" by blast
  with assms(1) show ?thesis unfolding recv_ok_def by (cases tw) (simp, blast)
qed

text \<open>\<open>UdpQueue::read\<close> gives the first answer of the socket that is not \<open>Interrupted\<close>: the
  received packet as the slice of the scratch buffer that holds it, \<open>None\<close> if it would block, the
  whole scratch buffer if the packet did not fit (Windows), and any other error as it is. It never
  panics, \<open>read_to_vec\<close> gives the same, and without a socket both give \<open>None\<close>.\<close>

theorem udp_read_first_answer:
  assumes "uq_socket q = Some ms" "recv_ok U (ms_source ms)"
    and "retry (recv_call U (ms_source ms)) (tmp, w) = Some (r, tmp', w')"
  shows "uq_read U tmp q w = Some (Ret (
      case r of
        Inr n \<Rightarrow> Inr (Some (take n tmp'))
      | Inl e \<Rightarrow> if err_kind e = WouldBlock then Inr None
                 else if err_kind e = Other \<and> raw_os_error e = Some 10040 then Inr (Some tmp')
                 else Inl e, tmp', w'))
    \<and> uq_read_to_vec U tmp q w = uq_read U tmp q w
    \<and> uq_read U tmp (q\<lparr>uq_socket := None\<rparr>) w = Some (Ret (Inr None, tmp, w))"
  using assms(1,3) retry_recv_fits [OF assms(2), of tmp w _ tmp' w']
  by (cases r) (auto simp: uq_read_def uq_read_to_vec_def uq_recv_loop_retry recv_answer_def
      truncated_def)

theorem udp_read_first_answer_witness:
  "uq_read script_udp_ops [0, 0, 0] demo_queue
      (demo_udp\<lparr>uw_recvs := [Inl (io_err Interrupted), Inr (5, [4, 5])]\<rparr>) =
    Some (Ret (Inr (Some [4, 5]), [4, 5, 0], demo_udp\<lparr>uw_recvs := []\<rparr>))"
proof -
  have sock: "uq_socket demo_queue = Some \<lparr>ms_token = 1, ms_source = 0\<rparr>"
    by (simp add: demo_queue_def)
  have "recv_ok script_udp_ops 0"
    by (auto simp: recv_ok_def script_recv_def overwrite_def Let_def split: list.splits sum.splits)
  then have ok: "recv_ok script_udp_ops (ms_source \<lparr>ms_token = 1, ms_source = 0\<rparr>)" by simp
  have "retry (recv_call script_udp_ops 0) ([0, 0, 0], demo_udp\<lparr>uw_recvs :=
      [Inl (io_err Interrupted), Inr (5, [4, 5])]\<rparr>) =
    Some (Inr 2, [4, 5, 0], demo_udp\<lparr>uw_recvs := []\<rparr>)"
    by (simp add: retry_unfold script_recv_def overwrite_def)
  then have "retry (recv_call script_udp_ops (ms_source \<lparr>ms_token = 1, ms_source = 0\<rparr>))
      ([0, 0, 0], demo_udp\<lparr>uw_recvs := [Inl (io_err Interrupted), Inr (5, [4, 5])]\<rparr>) =
    Some (Inr 2, [4, 5, 0], demo_udp\<lparr>uw_recvs := []\<rparr>)" by simp
  from udp_read_first_answer [OF sock ok this] show ?thesis by simp
qed

text \<open>\<open>UdpServerQueue::read\<close> gives the first answer that is neither \<open>Interrupted\<close> nor a
  packet that did not fit, with the sender's address: it skips such packets and goes on.\<close>

theorem udp_server_read_first_answer:
  assumes "us_socket q = Some ms" "interrupted_upto (recv_from_call U (ms_source ms)) (tmp, w) n"
    and "state_after (recv_from_call U (ms_source ms)) (tmp, w) n = (tmp0, w0)"
    and "udp_recv_from U (ms_source ms) tmp0 w0 = (r, tmp', w')"
    and "\<forall>e. r = Inl e \<longrightarrow> err_kind e \<noteq> Interrupted \<and> \<not> (err_kind e = Other \<and> raw_os_error e = Some 10040)"
    and "\<forall>k a. r = Inr (k, a) \<longrightarrow> k \<le> length tmp'"
  shows "us_read U tmp q w = Some (Ret (
      case r of
        Inr (k, addr) \<Rightarrow> Inr (Some (addr, take k tmp'))
      | Inl e \<Rightarrow> if err_kind e = WouldBlock then Inr None else Inl e, tmp', w'))
    \<and> us_read_to_vec U tmp q w = us_read U tmp q w"
proof -
  have "recv_from_call U (ms_source ms) (tmp0, w0) = (r, tmp', w')"
    using assms(4,5) by (cases r) (auto simp: truncated_def)
  then have "retry (recv_from_call U (ms_source ms)) (tmp, w) = Some (r, tmp', w')"
    using assms(2,3,5) by (intro retry_first_answer [of _ _ n]) (auto elim!: interruptedE)
  with assms(1,6) show ?thesis
    by (cases r) (auto simp: us_read_def us_read_to_vec_def us_recv_loop_retry recv_from_answer_def)
qed

theorem udp_server_read_first_answer_witness:
  "us_read script_udp_ops [0, 0, 0] demo_server demo_udp =
    Some (Ret (Inr (Some (5, [4, 5])), [4, 5, 0], demo_udp\<lparr>uw_recvs := []\<rparr>))"
proof -
  let ?f = "recv_from_call script_udp_ops (ms_source \<lparr>ms_token = 1, ms_source = (0 :: nat)\<rparr>)"
  have sock: "us_socket demo_server = Some \<lparr>ms_token = 1, ms_source = 0\<rparr>"
    by (simp add: demo_server_def)
  have first: "?f ([0, 0, 0], demo_udp) =
      (Inl (io_err Interrupted), [0, 0, 0], demo_udp\<lparr>uw_recvs := [Inr (5, [4, 5])]\<rparr>)"
    by (simp add: recv_from_call_def script_recv_def demo_udp_def truncated_def)
  have "udp_recv_from script_udp_ops (ms_source \<lparr>ms_token = 1, ms_source = 0\<rparr>) [0, 0, 0]
      (demo_udp\<lparr>uw_recvs := [Inr (5, [4, 5])]\<rparr>) =
    (Inr (2, 5), [4, 5, 0], demo_udp\<lparr>uw_recvs := []\<rparr>)"
    by (simp add: script_recv_def overwrite_def)
  from udp_server_read_first_answer [OF sock _ _ this, of "[0, 0, 0]" demo_udp 1] first
  show ?thesis by (simp add: numeral_eq_Suc)
qed

text \<open>The case of a packet that did not fit is never taken with errors from the standard
  library: since it documents that it never uses the kind \<open>Other\<close> for an error of the operating
  system, the error 10040 comes out of both reads as an error.\<close>

theorem udp_oversized_packet_is_error:
  assumes "uq_socket q = Some ms" "us_socket q2 = Some ms"
    and "udp_recv U (ms_source ms) tmp w = (Inl e, tmp', w')"
    and "udp_recv_from U (ms_source ms) tmp w = (Inl e, tmp2, w2)"
    and "raw_os_error e = Some 10040"
    and "raw_os_error e \<noteq> None \<longrightarrow> err_kind e \<noteq> Other"
    and "err_kind e \<noteq> Interrupted" "err_kind e \<noteq> WouldBlock"
  shows "uq_read U tmp q w = Some (Ret (Inl e, tmp', w'))
    \<and> us_read U tmp q2 w = Some (Ret (Inl e, tmp2, w2))"
  using assms by (auto simp: uq_read_def us_read_def uq_recv_loop.simps us_recv_loop.simps)

theorem udp_oversized_packet_is_error_witness:
  "let e = \<lparr>err_kind = OtherKind 40, raw_os_error = Some 10040\<rparr>;
       w = demo_udp\<lparr>uw_recvs := [Inl e]\<rparr>
   in uq_read script_udp_ops [0] demo_queue w = Some (Ret (Inl e, [0], demo_udp\<lparr>uw_recvs := []\<rparr>))"
  unfolding Let_def
  by (rule udp_oversized_packet_is_error [where ?q2.0 = demo_server
        and ms = "\<lparr>ms_token = 1, ms_source = 0\<rparr>" and ?tmp2.0 = "[0]"
        and ?w2.0 = "demo_udp\<lparr>uw_recvs := []\<rparr>", THEN conjunct1])
     (simp_all add: demo_queue_def demo_server_def script_recv_def)

end
