(* ===== verification/Tls_Engine.thy ===== *)
theory Tls_Engine
  imports Tcp_Output Tcp_Input
begin

text \<open>
  \<open>TlsServerEngine\<close> of src/tls_rustls.rs, which moves data between a TCP-side buffer \<open>ext\<close> and a
  plain-text buffer \<open>int\<close> through a rustls \<open>ServerConnection\<close>. The connection is the parameter
  \<open>tls_ops\<close> over an abstract connection state \<open>'c\<close>.

  rustls is handed \<open>ext\<close> as a \<open>Write\<close> and as a \<open>Read\<close>. What it does with them is a tree of calls:
  each call of the trait, and how rustls goes on with the answer.
\<close>

section \<open>The rustls connection\<close>

datatype 'c write_prog =
  WriteDone "nat io" 'c
| WriteCall bytes "nat io \<Rightarrow> 'c write_prog"
| WriteFlush "unit io \<Rightarrow> 'c write_prog"

datatype 'c read_prog =
  ReadDone "nat io" 'c
| ReadCall bytes "nat io \<Rightarrow> bytes \<Rightarrow> 'c read_prog"

text \<open>Running such a tree on a \<open>TcpStreamBuf\<close>, whose trait implementations answer the calls.\<close>

primrec run_write :: "'c write_prog \<Rightarrow> 's tcp_stream_buf \<Rightarrow> nat io \<times> 'c \<times> 's tcp_stream_buf" where
  "run_write (WriteDone r c) b = (r, c, b)"
| "run_write (WriteCall buf k) b =
     run_write (k (fst (tb_trait_write buf b))) (snd (tb_trait_write buf b))"
| "run_write (WriteFlush k) b = run_write (k (fst (tb_trait_flush b))) (snd (tb_trait_flush b))"

primrec run_read ::
  "rust_rt \<Rightarrow> 'c read_prog \<Rightarrow> 's tcp_stream_buf \<Rightarrow> (nat io \<times> 'c \<times> 's tcp_stream_buf) outcome" where
  "run_read rt (ReadDone r c) b = Ret (r, c, b)"
| "run_read rt (ReadCall buf k) b =
     (case tb_trait_read rt buf b of
        Panic \<Rightarrow> Panic
      | Ret (r, buf', b') \<Rightarrow> run_read rt (k r buf') b')"

text \<open>The operations of \<open>ServerConnection\<close> that the engine uses; errors of rustls have type
  \<open>'e\<close>. \<open>process_new_packets\<close> answers with \<open>plaintext_bytes_to_read\<close> of its \<open>IoState\<close>.\<close>

record ('g, 'e, 'c) tls_ops =
  tls_new :: "'g \<Rightarrow> 'e + 'c"
  tls_wants_write :: "'c \<Rightarrow> bool"
  tls_wants_read :: "'c \<Rightarrow> bool"
  tls_write_tls :: "'c \<Rightarrow> 'c write_prog"
  tls_read_tls :: "'c \<Rightarrow> 'c read_prog"
  tls_process_new_packets :: "'c \<Rightarrow> ('e + nat) \<times> 'c"
  tls_writer_write :: "'c \<Rightarrow> bytes \<Rightarrow> nat io \<times> 'c"
  tls_reader_read :: "'c \<Rightarrow> bytes \<Rightarrow> nat io \<times> bytes \<times> 'c"
  tls_send_close_notify :: "'c \<Rightarrow> 'c"

section \<open>The engine\<close>

datatype tls_eof = TlsClose | TlsAbort

text \<open>\<open>TlsError\<close> carries a message: one constructor for each message the code makes, with the
  error it reports.\<close>

datatype 'e tls_error =
  UnexpectedWriteTls io_error
| FailedFlushTcp io_error
| UnexpectedWriter io_error
| UnexpectedReadTls io_error
| TlsStreamError 'e
| TlsReadError io_error

record 'c tls_engine =
  te_sc :: "'c option"
  te_sent_out_eof :: bool
  te_inp_eof :: "tls_eof option"

definition tls_engine_new :: "('g, 'e, 'c) tls_ops \<Rightarrow> 'g option \<Rightarrow> 'e + 'c tls_engine" where
  "tls_engine_new E config =
     (case config of
        None \<Rightarrow> Inr \<lparr>te_sc = None, te_sent_out_eof = False, te_inp_eof = None\<rparr>
      | Some conf \<Rightarrow>
          (case tls_new E conf of
             Inl e \<Rightarrow> Inl e
           | Inr c \<Rightarrow> Inr \<lparr>te_sc = Some c, te_sent_out_eof = False, te_inp_eof = None\<rparr>))"

text \<open>The state \<open>process\<close> works on in TLS mode: the connection and the two flags of the engine,
  the two borrowed buffers and the network behind \<open>ext\<close>.\<close>

record ('c, 's, 'w) tls_state =
  tl_sc :: 'c
  tl_sent_out_eof :: bool
  tl_inp_eof :: "tls_eof option"
  tl_ext :: "'s tcp_stream_buf"
  tl_int :: "'s tcp_stream_buf"
  tl_net :: 'w

text \<open>How one turn of the loop ends: \<open>continue\<close>, \<open>break\<close>, or \<open>return Err(_)\<close>.\<close>

datatype 'e tls_exit = Continue | Stop | Fail "'e tls_error"

section \<open>The turns of the loop\<close>

text \<open>rustls wants to write: let it write into \<open>ext\<close>, and flush \<open>ext\<close>.\<close>

definition tls_write_turn ::
  "('s, 'w) tcp_ops \<Rightarrow> ('g, 'e, 'c) tls_ops \<Rightarrow> ('c, 's, 'w) tls_state
    \<Rightarrow> ('e tls_exit \<times> ('c, 's, 'w) tls_state) exec" where
  "tls_write_turn T E st =
     (case run_write (tls_write_tls E (tl_sc st)) (tl_ext st) of (r, c, ext) \<Rightarrow>
        (case r of
           Inl e \<Rightarrow> Some (Ret (Fail (UnexpectedWriteTls e), st\<lparr>tl_sc := c, tl_ext := ext\<rparr>))
         | Inr _ \<Rightarrow>
             let ext1 = (if tl_sent_out_eof st \<and> \<not> tls_wants_write E c
                         then ext\<lparr>tb_out_eof := True\<rparr> else ext)
             in ebind (tb_flush T ext1 (tl_net st)) (\<lambda>(r, ext2, w).
                  Some (Ret (case r of Inl e \<Rightarrow> Fail (FailedFlushTcp e) | Inr _ \<Rightarrow> Continue,
                             st\<lparr>tl_sc := c, tl_ext := ext2, tl_net := w\<rparr>)))))"

text \<open>Plain-text output: hand it to rustls.\<close>

definition tls_push_turn ::
  "('g, 'e, 'c) tls_ops \<Rightarrow> ('c, 's, 'w) tls_state \<Rightarrow> ('e tls_exit \<times> ('c, 's, 'w) tls_state) exec" where
  "tls_push_turn E st =
     (case tls_writer_write E (tl_sc st) (tb_out (tl_int st)) of (r, c) \<Rightarrow>
        (case r of
           Inl e \<Rightarrow> Some (Ret (Fail (UnexpectedWriter e), st\<lparr>tl_sc := c\<rparr>))
         | Inr len \<Rightarrow>
             if len \<le> length (tb_out (tl_int st))
             then Some (Ret (Continue, st\<lparr>tl_sc := c,
                    tl_int := (tl_int st)\<lparr>tb_out := drop len (tb_out (tl_int st))\<rparr>\<rparr>))
             else Some Panic))"

text \<open>End of the output: close the outgoing side at the TLS level.\<close>

definition tls_close_turn ::
  "('g, 'e, 'c) tls_ops \<Rightarrow> ('c, 's, 'w) tls_state \<Rightarrow> ('e tls_exit \<times> ('c, 's, 'w) tls_state) exec" where
  "tls_close_turn E st =
     Some (Ret (Continue, st\<lparr>tl_sc := tls_send_close_notify E (tl_sc st), tl_sent_out_eof := True\<rparr>))"

text \<open>The loop around \<open>reader().read(..)\<close>: it has no exit at the end of the stream.\<close>

partial_function (option) tls_reader_loop ::
  "rust_rt \<Rightarrow> ('g, 'e, 'c) tls_ops \<Rightarrow> ('c, 's, 'w) tls_state
    \<Rightarrow> ('e tls_exit \<times> ('c, 's, 'w) tls_state) exec" where
  "tls_reader_loop rt E st =
     (if tb_wr (tl_int st) \<le> length (tb_inp (tl_int st)) then
        (case tls_reader_read E (tl_sc st) (drop (tb_wr (tl_int st)) (tb_inp (tl_int st))) of
           (r, buf, c) \<Rightarrow>
             let intb = (tl_int st)\<lparr>tb_inp := overwrite (tb_wr (tl_int st)) buf (tb_inp (tl_int st))\<rparr>;
                 st1 = st\<lparr>tl_sc := c, tl_int := intb\<rparr>
             in (case r of
                   Inl e \<Rightarrow>
                     if err_kind e = WouldBlock then Some (Ret (Continue, st1))
                     else if err_kind e = UnexpectedEof
                     then tls_reader_loop rt E (st1\<lparr>tl_inp_eof := Some TlsAbort\<rparr>)
                     else Some (Ret (Fail (TlsReadError e), st1))
                 | Inr len \<Rightarrow>
                     if len = 0 then tls_reader_loop rt E (st1\<lparr>tl_inp_eof := Some TlsClose\<rparr>)
                     else (case usize_add rt (tb_wr intb) len of
                             Panic \<Rightarrow> Some Panic
                           | Ret wr \<Rightarrow> tls_reader_loop rt E (st1\<lparr>tl_int := intb\<lparr>tb_wr := wr\<rparr>\<rparr>))))
      else Some Panic)"

declare tls_reader_loop.simps [code]

text \<open>Unread bytes in \<open>ext\<close>: let rustls read them, and move the plain text to \<open>int\<close>.\<close>

definition tls_pull_turn ::
  "rust_rt \<Rightarrow> ('g, 'e, 'c) tls_ops \<Rightarrow> ('c, 's, 'w) tls_state
    \<Rightarrow> ('e tls_exit \<times> ('c, 's, 'w) tls_state) exec" where
  "tls_pull_turn rt E st =
     ebind (Some (run_read rt (tls_read_tls E (tl_sc st)) (tl_ext st))) (\<lambda>(r, c, ext).
       let st1 = st\<lparr>tl_sc := c, tl_ext := ext\<rparr> in
       (case r of
          Inl e \<Rightarrow> Some (Ret (Fail (UnexpectedReadTls e), st1))
        | Inr _ \<Rightarrow>
            (case tls_process_new_packets E c of (p, c') \<Rightarrow>
               let st2 = st1\<lparr>tl_sc := c'\<rparr> in
               (case p of
                  Inl e \<Rightarrow> Some (Ret (Fail (TlsStreamError e), st2))
                | Inr read_len \<Rightarrow>
                    if 0 < read_len
                    then ebind (Some (tb_inp_makespace rt read_len (tl_int st2))) (\<lambda>intb.
                           tls_reader_loop rt E (st2\<lparr>tl_int := intb\<rparr>))
                    else Some (Ret (Continue, st2))))))"

definition tls_turn ::
  "rust_rt \<Rightarrow> ('s, 'w) tcp_ops \<Rightarrow> ('g, 'e, 'c) tls_ops \<Rightarrow> ('c, 's, 'w) tls_state
    \<Rightarrow> ('e tls_exit \<times> ('c, 's, 'w) tls_state) exec" where
  "tls_turn rt T E st =
     (if tls_wants_write E (tl_sc st) then tls_write_turn T E st
      else if tb_out (tl_int st) \<noteq> [] then tls_push_turn E st
      else if tb_out_eof (tl_int st) \<and> tb_out (tl_int st) = [] \<and> \<not> tl_sent_out_eof st
      then tls_close_turn E st
      else if tls_wants_read E (tl_sc st) \<and> tb_rd (tl_ext st) \<noteq> tb_wr (tl_ext st)
      then tls_pull_turn rt E st
      else Some (Ret (Stop, st)))"

partial_function (option) tls_loop ::
  "rust_rt \<Rightarrow> ('s, 'w) tcp_ops \<Rightarrow> ('g, 'e, 'c) tls_ops \<Rightarrow> ('c, 's, 'w) tls_state
    \<Rightarrow> (('e tls_error + unit) \<times> ('c, 's, 'w) tls_state) exec" where
  "tls_loop rt T E st =
     (case tls_turn rt T E st of
        None \<Rightarrow> None
      | Some Panic \<Rightarrow> Some Panic
      | Some (Ret (Continue, st')) \<Rightarrow> tls_loop rt T E st'
      | Some (Ret (Stop, st')) \<Rightarrow> Some (Ret (Inr (), st'))
      | Some (Ret (Fail e, st')) \<Rightarrow> Some (Ret (Inl e, st')))"

declare tls_loop.simps [code]

section \<open>process\<close>

text \<open>Without a TLS configuration the data passes through.\<close>

definition tls_pass_through ::
  "rust_rt \<Rightarrow> ('s, 'w) tcp_ops \<Rightarrow> 'c tls_engine \<Rightarrow> 's tcp_stream_buf \<Rightarrow> 's tcp_stream_buf \<Rightarrow> 'w
    \<Rightarrow> (('e tls_error + tls_eof option) \<times> 'c tls_engine \<times> 's tcp_stream_buf \<times> 's tcp_stream_buf \<times> 'w) exec"
  where
  "tls_pass_through rt T te ext intb w =
     ebind (Some (tb_exchange rt intb ext)) (\<lambda>(int1, ext1).
       let te1 = (if tb_inp_eof int1 then te\<lparr>te_inp_eof := Some TlsClose\<rparr> else te)
       in ebind (tb_flush T ext1 w) (\<lambda>(r, ext2, w').
            Some (Ret (case r of Inl e \<Rightarrow> Inl (FailedFlushTcp e) | Inr _ \<Rightarrow> Inr (te_inp_eof te1),
                       te1, ext2, int1, w'))))"

definition tls_process ::
  "rust_rt \<Rightarrow> ('s, 'w) tcp_ops \<Rightarrow> ('g, 'e, 'c) tls_ops \<Rightarrow> 'c tls_engine
    \<Rightarrow> 's tcp_stream_buf \<Rightarrow> 's tcp_stream_buf \<Rightarrow> 'w
    \<Rightarrow> (('e tls_error + tls_eof option) \<times> 'c tls_engine \<times> 's tcp_stream_buf \<times> 's tcp_stream_buf \<times> 'w) exec"
  where
  "tls_process rt T E te ext intb w =
     (case te_sc te of
        Some c \<Rightarrow>
          ebind (tls_loop rt T E \<lparr>tl_sc = c, tl_sent_out_eof = te_sent_out_eof te,
                   tl_inp_eof = te_inp_eof te, tl_ext = ext, tl_int = intb, tl_net = w\<rparr>)
            (\<lambda>(r, st). Some (Ret (case r of Inl e \<Rightarrow> Inl e | Inr _ \<Rightarrow> Inr (tl_inp_eof st),
               \<lparr>te_sc = Some (tl_sc st), te_sent_out_eof = tl_sent_out_eof st,
                te_inp_eof = tl_inp_eof st\<rparr>, tl_ext st, tl_int st, tl_net st)))
      | None \<Rightarrow> tls_pass_through rt T te ext intb w)"

section \<open>Cases\<close>

lemma tls_write_turn_cases:
  assumes "tls_write_turn T E st = Some (Ret (x, st'))"
  obtains
    (err) e c ext where "run_write (tls_write_tls E (tl_sc st)) (tl_ext st) = (Inl e, c, ext)"
      "x = Fail (UnexpectedWriteTls e)" "st' = st\<lparr>tl_sc := c, tl_ext := ext\<rparr>"
  | (flush) n c ext ext1 r ext2 w where
      "run_write (tls_write_tls E (tl_sc st)) (tl_ext st) = (Inr n, c, ext)"
      "ext1 = (if tl_sent_out_eof st \<and> \<not> tls_wants_write E c then ext\<lparr>tb_out_eof := True\<rparr> else ext)"
      "tb_flush T ext1 (tl_net st) = Some (Ret (r, ext2, w))"
      "x = (case r of Inl e \<Rightarrow> Fail (FailedFlushTcp e) | Inr _ \<Rightarrow> Continue)"
      "st' = st\<lparr>tl_sc := c, tl_ext := ext2, tl_net := w\<rparr>"
proof -
  obtain r c ext where run: "run_write (tls_write_tls E (tl_sc st)) (tl_ext st) = (r, c, ext)"
    using prod_cases3 by blast
  show thesis
  proof (cases r)
    case (Inl e)
    with run assms show thesis by (intro err) (auto simp: tls_write_turn_def)
  next
    case (Inr n)
    let ?ext = "if tl_sent_out_eof st \<and> \<not> tls_wants_write E c then ext\<lparr>tb_out_eof := True\<rparr> else ext"
    from run assms Inr obtain a where a: "tb_flush T ?ext (tl_net st) = Some (Ret a)"
      "(case a of (r, ext2, w) \<Rightarrow> Some (Ret (case r of Inl e \<Rightarrow> Fail (FailedFlushTcp e)
          | Inr _ \<Rightarrow> Continue, st\<lparr>tl_sc := c, tl_ext := ext2, tl_net := w\<rparr>))) = Some (Ret (x, st'))"
      by (auto simp: tls_write_turn_def Let_def ebind_eq_Ret)
    obtain r2 ext2 w where "a = (r2, ext2, w)" by (cases a)
    with a run Inr flush [of n c ext ?ext r2 ext2 w] show thesis by simp
  qed
qed

lemma tls_pull_turn_cases:
  assumes "tls_pull_turn rt E st = Some (Ret (x, st'))"
  obtains
    (err) e c ext where "run_read rt (tls_read_tls E (tl_sc st)) (tl_ext st) = Ret (Inl e, c, ext)"
      "x = Fail (UnexpectedReadTls e)" "st' = st\<lparr>tl_sc := c, tl_ext := ext\<rparr>"
  | (stream) r c ext c1 e where
      "run_read rt (tls_read_tls E (tl_sc st)) (tl_ext st) = Ret (Inr r, c, ext)"
      "tls_process_new_packets E c = (Inl e, c1)"
      "x = Fail (TlsStreamError e)" "st' = st\<lparr>tl_ext := ext, tl_sc := c1\<rparr>"
  | (none) r c ext c1 where
      "run_read rt (tls_read_tls E (tl_sc st)) (tl_ext st) = Ret (Inr r, c, ext)"
      "tls_process_new_packets E c = (Inr 0, c1)"
      "x = Continue" "st' = st\<lparr>tl_ext := ext, tl_sc := c1\<rparr>"
  | (plain) r c ext c1 n int1 where
      "run_read rt (tls_read_tls E (tl_sc st)) (tl_ext st) = Ret (Inr r, c, ext)"
      "tls_process_new_packets E c = (Inr n, c1)" "0 < n"
      "tb_inp_makespace rt n (tl_int st) = Ret int1"
      "tls_reader_loop rt E (st\<lparr>tl_ext := ext, tl_sc := c1, tl_int := int1\<rparr>) = Some (Ret (x, st'))"
proof -
  from assms obtain r c ext where
    run: "run_read rt (tls_read_tls E (tl_sc st)) (tl_ext st) = Ret (r, c, ext)"
    by (auto simp: tls_pull_turn_def ebind_eq_Ret)
  obtain p c1 where p: "tls_process_new_packets E c = (p, c1)" by fastforce
  show thesis
  proof (cases r)
    case (Inl e)
    with run assms show thesis by (intro err) (auto simp: tls_pull_turn_def)
  next
    case r: (Inr k)
    show thesis
    proof (cases p)
      case (Inl e)
      with run r p assms show thesis by (intro stream) (auto simp: tls_pull_turn_def)
    next
      case (Inr n)
      show thesis
      proof (cases "n = 0")
        case True
        with run r p Inr assms show thesis by (intro none) (auto simp: tls_pull_turn_def)
      next
        case False
        with run r p Inr assms obtain int1 where "tb_inp_makespace rt n (tl_int st) = Ret int1"
          "tls_reader_loop rt E (st\<lparr>tl_ext := ext, tl_sc := c1, tl_int := int1\<rparr>) = Some (Ret (x, st'))"
          by (auto simp: tls_pull_turn_def ebind_eq_Ret)
        with False run r p Inr show thesis by (intro plain) auto
      qed
    qed
  qed
qed

text \<open>The reader's loop works on the connection and \<open>int\<close> only.\<close>

lemma reader_loop_keeps:
  assumes "tls_reader_loop rt E st = Some (Ret (x, st'))"
  shows "tl_ext st' = tl_ext st" "tl_sent_out_eof st' = tl_sent_out_eof st"
    "tl_net st' = tl_net st" "x \<noteq> Stop"
proof -
  have "\<forall>y. Ret (x, st') = Ret y \<longrightarrow> tl_ext (snd y) = tl_ext st \<and>
      tl_sent_out_eof (snd y) = tl_sent_out_eof st \<and> tl_net (snd y) = tl_net st \<and> fst y \<noteq> Stop"
  proof (rule tls_reader_loop.raw_induct [OF _ assms, where P = "\<lambda>rt E st res.
      \<forall>y. res = Ret y \<longrightarrow> tl_ext (snd y) = tl_ext st \<and>
        tl_sent_out_eof (snd y) = tl_sent_out_eof st \<and> tl_net (snd y) = tl_net st \<and>
        fst y \<noteq> Stop"], goal_cases)
    case (1 rec rt E st res)
    obtain r buf c where call: "tls_reader_read E (tl_sc st)
        (drop (tb_wr (tl_int st)) (tb_inp (tl_int st))) = (r, buf, c)" using prod_cases3 by blast
    from 1(2) call show ?case
      by (cases r) (auto simp: Let_def dest!: 1(1) split: if_splits outcome.splits)
  qed
  then show "tl_ext st' = tl_ext st" "tl_sent_out_eof st' = tl_sent_out_eof st"
    "tl_net st' = tl_net st" "x \<noteq> Stop"
    by simp_all
qed

text \<open>What the turns that go on keep holds before the last turn of a call of the loop.\<close>

lemma tls_loop_keeps:
  assumes "tls_loop rt T E st = Some res" "res = Ret (r, st')"
    and "\<And>st st'. Q st \<Longrightarrow> tls_turn rt T E st = Some (Ret (Continue, st')) \<Longrightarrow> Q st'" "Q st"
  obtains st0 x where "Q st0" "tls_turn rt T E st0 = Some (Ret (x, st'))"
    "(x = Stop \<and> r = Inr ()) \<or> (\<exists>e. x = Fail e \<and> r = Inl e)"
proof -
  have "(\<forall>st st'. Q st \<longrightarrow> tls_turn rt T E st = Some (Ret (Continue, st')) \<longrightarrow> Q st') \<longrightarrow> Q st \<longrightarrow>
      res = Ret (r, st') \<longrightarrow> (\<exists>st0 x. Q st0 \<and> tls_turn rt T E st0 = Some (Ret (x, st')) \<and>
        ((x = Stop \<and> r = Inr ()) \<or> (\<exists>e. x = Fail e \<and> r = Inl e)))"
  proof (rule tls_loop.raw_induct [OF _ assms(1), where P = "\<lambda>rt T E st res.
      (\<forall>st st'. Q st \<longrightarrow> tls_turn rt T E st = Some (Ret (Continue, st')) \<longrightarrow> Q st') \<longrightarrow> Q st \<longrightarrow>
      res = Ret (r, st') \<longrightarrow> (\<exists>st0 x. Q st0 \<and> tls_turn rt T E st0 = Some (Ret (x, st')) \<and>
        ((x = Stop \<and> r = Inr ()) \<or> (\<exists>e. x = Fail e \<and> r = Inl e)))"],
      intro impI, goal_cases)
    case (1 rec rt T E st res)
    show ?case
    proof (cases "tls_turn rt T E st")
      case None
      with 1(2) show ?thesis by simp
    next
      case (Some out)
      with 1(2,5) obtain x st1 where turn: "tls_turn rt T E st = Some (Ret (x, st1))"
        by (cases out) auto
      show ?thesis
      proof (cases x)
        case Continue
        with 1(3,4) turn have "Q st1" by blast
        from 1(2) Continue turn have "rec rt T E st1 = Some res" by simp
        then show ?thesis
          by (rule 1(1) [THEN mp, THEN mp, THEN mp, OF _ 1(3) \<open>Q st1\<close> 1(5)])
      next
        case Stop
        with 1(2,5) turn have "st1 = st'" "r = Inr ()" by simp_all
        with Stop 1(4) turn show ?thesis by (intro exI [of _ st] exI [of _ x]) simp
      next
        case (Fail e)
        with 1(2,5) turn have "st1 = st'" "r = Inl e" by simp_all
        with Fail 1(4) turn show ?thesis by (intro exI [of _ st] exI [of _ x]) simp
      qed
    qed
  qed
  with assms(2-4) that show thesis by blast
qed

lemma tls_turn_Stop:
  assumes "tls_turn rt T E st = Some (Ret (Stop, st'))"
  shows "st' = st" "\<not> tls_wants_write E (tl_sc st)" "tb_out (tl_int st) = []"
    "tb_out_eof (tl_int st) \<longrightarrow> tl_sent_out_eof st"
    "tls_wants_read E (tl_sc st) \<longrightarrow> tb_rd (tl_ext st) = tb_wr (tl_ext st)"
proof -
  have "tls_write_turn T E st \<noteq> Some (Ret (Stop, st'))"
    by (auto elim!: tls_write_turn_cases split: sum.splits)
  moreover have "tls_push_turn E st \<noteq> Some (Ret (Stop, st'))"
    by (auto simp: tls_push_turn_def split: prod.splits sum.splits)
  moreover have "tls_close_turn E st \<noteq> Some (Ret (Stop, st'))"
    by (simp add: tls_close_turn_def)
  moreover have "tls_pull_turn rt E st \<noteq> Some (Ret (Stop, st'))"
    by (auto elim!: tls_pull_turn_cases dest: reader_loop_keeps(4))
  ultimately show "st' = st" "\<not> tls_wants_write E (tl_sc st)" "tb_out (tl_int st) = []"
    "tb_out_eof (tl_int st) \<longrightarrow> tl_sent_out_eof st"
    "tls_wants_read E (tl_sc st) \<longrightarrow> tb_rd (tl_ext st) = tb_wr (tl_ext st)"
    using assms by (auto simp: tls_turn_def split: if_splits)
qed

lemma tls_process_cases:
  assumes "te_sc te = Some c" "tls_process rt T E te ext intb w = Some (Ret (r, te', ext', int', w'))"
  obtains rl st' where "tls_loop rt T E \<lparr>tl_sc = c, tl_sent_out_eof = te_sent_out_eof te,
      tl_inp_eof = te_inp_eof te, tl_ext = ext, tl_int = intb, tl_net = w\<rparr> = Some (Ret (rl, st'))"
    "r = (case rl of Inl e \<Rightarrow> Inl e | Inr _ \<Rightarrow> Inr (tl_inp_eof st'))"
    "te' = \<lparr>te_sc = Some (tl_sc st'), te_sent_out_eof = tl_sent_out_eof st',
       te_inp_eof = tl_inp_eof st'\<rparr>"
    "ext' = tl_ext st'" "int' = tl_int st'" "w' = tl_net st'"
  using assms by (auto simp: tls_process_def ebind_eq_Ret)


end
