(* ===== verification/Tls_Eof.thy ===== *)
theory Tls_Eof
  imports Tls_Engine
begin

text \<open>
  The end of the input in \<open>TlsServerEngine::process\<close>: the loop around rustls' reader repeats
  when the reader reports it, and rustls keeps reporting it.
\<close>

section \<open>The reader's contract at the end of the stream\<close>

text \<open>An answer of the reader that tells of the end of the stream: \<open>Ok(0)\<close> after a clean close
  (and into an empty slice), \<open>UnexpectedEof\<close> otherwise.\<close>

definition is_eof :: "nat io \<Rightarrow> bool" where
  "is_eof r \<longleftrightarrow> (case r of Inl e \<Rightarrow> err_kind e = UnexpectedEof | Inr n \<Rightarrow> n = 0)"

text \<open>As documented for rustls' \<open>Reader\<close>, the end of the stream stays: after such an answer the
  next read of a slice of the same length gives the same answer and leaves the connection.\<close>

definition reader_eof_stays :: "('g, 'e, 'c) tls_ops \<Rightarrow> bool" where
  "reader_eof_stays E \<longleftrightarrow>
     (\<forall>c buf r buf' c'. tls_reader_read E c buf = (r, buf', c') \<and> is_eof r \<longrightarrow>
        (\<forall>buf2. length buf2 = length buf \<longrightarrow>
           (\<exists>buf3. length buf3 = length buf2 \<and> tls_reader_read E c' buf2 = (r, buf3, c')))) \<and>
     (\<forall>c buf r buf' c'. tls_reader_read E c buf = (r, buf', c') \<longrightarrow> length buf' = length buf)"

text \<open>A state of the reader's loop in which every read answers \<open>r\<close>, an end of stream.\<close>

definition at_eof :: "('g, 'e, 'c) tls_ops \<Rightarrow> nat io \<Rightarrow> ('c, 's, 'w) tls_state \<Rightarrow> bool" where
  "at_eof E r st \<longleftrightarrow> is_eof r \<and> tb_wr (tl_int st) \<le> length (tb_inp (tl_int st)) \<and>
     (\<forall>buf. length buf = length (tb_inp (tl_int st)) - tb_wr (tl_int st) \<longrightarrow>
        (\<exists>buf'. length buf' = length buf \<and>
           tls_reader_read E (tl_sc st) buf = (r, buf', tl_sc st)))"

text \<open>The state after a read that got no bytes; \<open>eof\<close> is what the loop then stores.\<close>

definition after_read ::
  "('c, 's, 'w) tls_state \<Rightarrow> bytes \<Rightarrow> 'c \<Rightarrow> tls_eof option \<Rightarrow> ('c, 's, 'w) tls_state" where
  "after_read st buf c eof = st\<lparr>tl_sc := c,
     tl_int := (tl_int st)\<lparr>tb_inp := overwrite (tb_wr (tl_int st)) buf (tb_inp (tl_int st))\<rparr>,
     tl_inp_eof := eof\<rparr>"

lemma after_read_at_eof:
  assumes "reader_eof_stays E" "tb_wr (tl_int st) \<le> length (tb_inp (tl_int st))"
    and "tls_reader_read E (tl_sc st) (drop (tb_wr (tl_int st)) (tb_inp (tl_int st))) = (r, buf, c)"
    and "is_eof r"
  shows "at_eof E r (after_read st buf c eof)"
proof -
  have "length buf = length (tb_inp (tl_int st)) - tb_wr (tl_int st)"
    using assms(1,3) unfolding reader_eof_stays_def by (metis length_drop)
  moreover have "\<exists>buf3. length buf3 = length buf2 \<and> tls_reader_read E c buf2 = (r, buf3, c)"
    if "length buf2 = length (tb_inp (tl_int st)) - tb_wr (tl_int st)" for buf2
    using assms(1,3,4) that unfolding reader_eof_stays_def by (metis length_drop)
  ultimately show ?thesis using assms(2,4) by (simp add: at_eof_def after_read_def)
qed

lemma at_eof_read:
  assumes "at_eof E r st"
  obtains buf where "is_eof r" "tb_wr (tl_int st) \<le> length (tb_inp (tl_int st))"
    "tls_reader_read E (tl_sc st) (drop (tb_wr (tl_int st)) (tb_inp (tl_int st))) = (r, buf, tl_sc st)"
  using assms unfolding at_eof_def by (metis length_drop)

section \<open>The loop does not come back\<close>

text \<open>What is known of a run of the loop that returns: it did not start at the end of the
  stream, and it has not changed the EOF state.\<close>

lemma reader_loop_eof:
  assumes "tls_reader_loop rt E st = Some res" "reader_eof_stays E"
  shows "\<not> at_eof E r st \<and> (\<forall>x st'. res = Ret (x, st') \<longrightarrow> tl_inp_eof st' = tl_inp_eof st)"
proof -
  have "reader_eof_stays E \<longrightarrow> (\<forall>r. \<not> at_eof E r st) \<and>
      (\<forall>x st'. res = Ret (x, st') \<longrightarrow> tl_inp_eof st' = tl_inp_eof st)"
  proof (rule tls_reader_loop.raw_induct [OF _ assms(1), where P = "\<lambda>rt E st res.
        reader_eof_stays E \<longrightarrow> (\<forall>r. \<not> at_eof E r st) \<and>
        (\<forall>x st'. res = Ret (x, st') \<longrightarrow> tl_inp_eof st' = tl_inp_eof st)"], intro impI, goal_cases)
    case (1 rec rt E st res)
    let ?int = "tl_int st"
    obtain r buf c where call:
      "tls_reader_read E (tl_sc st) (drop (tb_wr ?int) (tb_inp ?int)) = (r, buf, c)"
      using prod_cases3 by blast
    show ?case
    proof (cases "tb_wr ?int \<le> length (tb_inp ?int)")
      case False
      with 1(2) show ?thesis by (auto simp: at_eof_def)
    next
      case fits: True
      show ?thesis
      proof (cases "is_eof r")
        case True
        note stuck = after_read_at_eof [OF 1(3) fits call True]
        have "\<exists>eof. rec rt E (after_read st buf c eof) = Some res"
          using 1(2) fits call True
          by (cases r) (auto simp: is_eof_def after_read_def Let_def)
        with 1(1,3) stuck show ?thesis by blast
      next
        case False
        have "\<not> at_eof E r' st" for r'
          using call False by (auto elim!: at_eof_read)
        moreover have "tl_inp_eof st' = tl_inp_eof st" if "res = Ret (x, st')" for x st'
        proof (cases r)
          case (Inl e)
          with False that 1(2) fits call show ?thesis
            by (auto simp: is_eof_def Let_def split: if_splits)
        next
          case (Inr n)
          with False have "n \<noteq> 0" by (simp add: is_eof_def)
          with Inr that 1 fits call show ?thesis
            by (fastforce simp: Let_def split: outcome.splits)
        qed
        ultimately show ?thesis by blast
      qed
    qed
  qed
  with assms(2) show ?thesis by blast
qed

lemma at_eof_hangs: "reader_eof_stays E \<Longrightarrow> at_eof E r st \<Longrightarrow> tls_reader_loop rt E st = None"
  using reader_loop_eof [of rt E st] by (cases "tls_reader_loop rt E st") auto

section \<open>A call that returns has not seen the end\<close>

lemma tls_turn_eof:
  assumes "reader_eof_stays E" "tls_turn rt T E st = Some (Ret (x, st'))"
  shows "tl_inp_eof st' = tl_inp_eof st"
proof -
  have "tl_inp_eof st' = tl_inp_eof st" if "tls_write_turn T E st = Some (Ret (x, st'))"
    using that by (cases rule: tls_write_turn_cases) simp_all
  moreover have "tl_inp_eof st' = tl_inp_eof st" if "tls_push_turn E st = Some (Ret (x, st'))"
    using that by (auto simp: tls_push_turn_def split: prod.splits sum.splits if_splits)
  moreover have "tl_inp_eof st' = tl_inp_eof st" if "tls_close_turn E st = Some (Ret (x, st'))"
    using that by (auto simp: tls_close_turn_def)
  moreover have "tl_inp_eof st' = tl_inp_eof st" if "tls_pull_turn rt E st = Some (Ret (x, st'))"
    using that
  proof (cases rule: tls_pull_turn_cases)
    case (plain r c ext c1 n int1)
    with reader_loop_eof [OF plain(5) assms(1)] show ?thesis by simp
  qed simp_all
  ultimately show ?thesis using assms(2) by (auto simp: tls_turn_def split: if_splits)
qed

end
