(* ===== verification/Tls_Data.thy ===== *)
theory Tls_Data
  imports Tls_Engine
begin

text \<open>
  What \<open>TlsServerEngine::process\<close> does with the data: plain text and TLS bytes are neither lost
  nor reordered on their way through the buffers, whatever the connection makes of them.
\<close>

section \<open>The buffers under rustls' hands\<close>

text \<open>A write into \<open>ext\<close> only appends to its output; a read only takes unread bytes from the
  front.\<close>

lemma run_write_appends:
  "run_write p b = (r, c, b') \<Longrightarrow> \<exists>t. b' = b\<lparr>tb_out := tb_out b @ t\<rparr>"
proof (induction p arbitrary: b)
  case (WriteCall buf k)
  then show ?case by (fastforce simp: tb_trait_write_def)
next
  case (WriteFlush k)
  then show ?case by (fastforce simp: tb_trait_flush_def)
next
  case (WriteDone r0 c0)
  then show ?case by (intro exI [of _ "[]"]) simp
qed

lemma run_read_takes:
  assumes "tb_wf b" "run_read rt p b = Ret (r, c, b')"
  shows "\<exists>n. tb_wf b' \<and> tb_pending b' = drop n (tb_pending b) \<and> b' = b\<lparr>tb_rd := tb_rd b'\<rparr>"
  using assms
proof (induction p arbitrary: b)
  case (ReadDone r' c')
  then show ?case by (auto intro!: exI [of _ 0])
next
  case (ReadCall buf k)
  show ?case
  proof (cases "tb_pending b = []")
    case True
    from ReadCall.prems(2) trait_read_empty [OF ReadCall.prems(1) True, of rt buf]
    obtain r0 where "run_read rt (k r0 buf) b = Ret (r, c, b')" by auto
    from ReadCall.IH [OF rangeI rangeI ReadCall.prems(1) this] show ?thesis .
  next
    case False
    let ?m = "min (length buf) (length (tb_pending b))"
    from ReadCall.prems(2) trait_read_some(1) [OF ReadCall.prems(1) False, of rt buf]
    obtain r0 buf0 where "run_read rt (k r0 buf0) (b\<lparr>tb_rd := tb_rd b + ?m\<rparr>) = Ret (r, c, b')"
      by simp
    from ReadCall.IH [OF rangeI rangeI _ this] trait_read_some(2,3) [OF ReadCall.prems(1) False, of buf]
    obtain n where "tb_wf b'" "tb_pending b' = drop n (drop ?m (tb_pending b))"
      "b' = (b\<lparr>tb_rd := tb_rd b + ?m\<rparr>)\<lparr>tb_rd := tb_rd b'\<rparr>" by metis
    then show ?thesis by (intro exI [of _ "n + ?m"]) simp
  qed
qed

text \<open>\<open>inp_makespace\<close> that returns, for a size a vector can have: no condition on the room.\<close>

lemma makespace_grow_Ret:
  assumes wf: "tb_wf b" and rt: "vec_grow_ok rt" and n: "n \<le> isize_max"
    and ret: "makespace_grow rt n b = Ret b'"
  shows "tb_wf b' \<and> tb_pending b' = tb_pending b \<and> same_io b b'"
proof -
  note w = tb_wfD [OF wf]
  let ?lim = "max (tb_wr b + n) (n * 2)" and ?len = "length (tb_inp b)"
  have add: "usize_add rt (tb_wr b) n = Ret (tb_wr b + n)" using w n by (intro usize_add_small)
  have mul: "usize_mul rt n 2 = Ret (n * 2)"
    using n twice_isize_max by (intro usize_mul_in_range) linarith
  show ?thesis
  proof (cases "?len < ?lim")
    case False
    with ret add mul wf show ?thesis by (auto simp: makespace_grow_def)
  next
    case True
    with ret add mul obtain cap where
      cap: "vec_reserve rt (tb_inp_cap b) ?len (?lim - ?len) = Ret cap"
      and b': "b' = b\<lparr>tb_inp := vec_resize cap 0 (tb_inp b), tb_inp_cap := cap\<rparr>"
      by (auto simp: makespace_grow_def Let_def obind_eq_Ret)
    have "?len \<le> cap \<and> cap \<le> isize_max"
    proof (cases "?lim - ?len \<le> tb_inp_cap b - ?len")
      case True
      with cap w show ?thesis by (simp add: vec_reserve_def)
    next
      case False
      with cap have "?len + (?lim - ?len) \<le> isize_max"
        "cap = vec_grow rt (tb_inp_cap b) ?len (?lim - ?len)"
        by (auto simp: vec_reserve_def split: if_splits)
      with rt have "?len + (?lim - ?len) \<le> cap \<and> cap \<le> isize_max"
        unfolding vec_grow_ok_def by blast
      then show ?thesis by linarith
    qed
    then show ?thesis
      using w unfolding b'
      by (auto simp: vec_resize_grow tb_wf_def tb_pending_def same_io_def slice_append_left)
  qed
qed

lemma makespace_Ret:
  assumes wf: "tb_wf b" and rt: "vec_grow_ok rt" and n: "n \<le> isize_max"
    and ret: "tb_inp_makespace rt n b = Ret b'"
  shows "tb_wf b' \<and> tb_pending b' = tb_pending b \<and> same_io b b'"
proof -
  let ?r = "makespace_restart b"
  note r = makespace_restart_ok [OF wf]
  obtain b1 where b1: "makespace_compact ?r = Ret b1" "tb_wf b1" "tb_pending b1 = tb_pending ?r"
    "same_io ?r b1"
    using makespace_compact_ok [OF r(1)] by metis
  note io1 = same_io_trans [OF r(3) b1(4)]
  have "usize_add rt (tb_wr ?r) n = Ret (tb_wr ?r + n)" "usize_add rt (tb_wr b1) n = Ret (tb_wr b1 + n)"
    using tb_wfD(6) [OF r(1)] tb_wfD(6) [OF b1(2)] n by (auto intro: usize_add_small)
  with b1(1) have "tb_inp_makespace rt n b =
      (if tb_wr ?r + n \<le> length (tb_inp ?r) then Ret ?r
       else if tb_rd ?r \<noteq> 0
       then if tb_wr b1 + n \<le> length (tb_inp b1) then Ret b1 else makespace_grow rt n b1
       else makespace_grow rt n ?r)"
    by (simp only: tb_inp_makespace_def Let_def obind_simps)
  with ret consider "b' = ?r" | "b' = b1" | "makespace_grow rt n ?r = Ret b'"
    | "makespace_grow rt n b1 = Ret b'"
    by (metis outcome.inject)
  then show ?thesis
  proof cases
    case 3
    from makespace_grow_Ret [OF r(1) rt n 3] same_io_trans [OF r(3)] show ?thesis
      by (simp add: r(2))
  next
    case 4
    from makespace_grow_Ret [OF b1(2) rt n 4] same_io_trans [OF io1] show ?thesis
      by (simp add: b1(3) r(2))
  qed (use r b1 io1 in simp_all)
qed

section \<open>The contract of the connection\<close>

text \<open>
  \<open>pout c\<close> is the plain text the connection has been given to send, \<open>pin c\<close> the plain text it
  has handed out. Only the writer and the reader change them: a successful write of \<open>n\<close> bytes
  takes the first \<open>n\<close>, a successful read of \<open>n\<close> bytes puts the next \<open>n\<close> at the start of the slice.
  A batch of packets has no more plain text than a vector holds.
\<close>

definition tls_data_ok ::
  "('g, 'e, 'c) tls_ops \<Rightarrow> ('c \<Rightarrow> bytes) \<Rightarrow> ('c \<Rightarrow> bytes) \<Rightarrow> bool" where
  "tls_data_ok E pout pin \<longleftrightarrow>
     (\<forall>c buf r c'. tls_writer_write E c buf = (r, c') \<longrightarrow> pin c' = pin c \<and>
        (case r of Inr n \<Rightarrow> n \<le> length buf \<and> pout c' = pout c @ take n buf
                 | Inl e \<Rightarrow> pout c' = pout c)) \<and>
     (\<forall>c buf r buf' c'. tls_reader_read E c buf = (r, buf', c') \<longrightarrow>
        pout c' = pout c \<and> length buf' = length buf \<and>
        (case r of Inr n \<Rightarrow> n \<le> length buf \<and> pin c' = pin c @ take n buf'
                 | Inl e \<Rightarrow> pin c' = pin c)) \<and>
     (\<forall>c. pout (tls_send_close_notify E c) = pout c \<and> pin (tls_send_close_notify E c) = pin c) \<and>
     (\<forall>c p c'. tls_process_new_packets E c = (p, c') \<longrightarrow> pout c' = pout c \<and> pin c' = pin c \<and>
        (\<forall>n. p = Inr n \<longrightarrow> n \<le> isize_max))"

text \<open>Reading and writing TLS leaves the plain text alone.\<close>

definition tls_wire_ok ::
  "rust_rt \<Rightarrow> 's itself \<Rightarrow> ('g, 'e, 'c) tls_ops \<Rightarrow> ('c \<Rightarrow> bytes) \<Rightarrow> ('c \<Rightarrow> bytes) \<Rightarrow> bool" where
  "tls_wire_ok rt ty E pout pin \<longleftrightarrow>
     (\<forall>c (b :: 's tcp_stream_buf) r c' b'. run_write (tls_write_tls E c) b = (r, c', b') \<longrightarrow>
        pout c' = pout c \<and> pin c' = pin c) \<and>
     (\<forall>c (b :: 's tcp_stream_buf) r c' b'. run_read rt (tls_read_tls E c) b = Ret (r, c', b') \<longrightarrow>
        pout c' = pout c \<and> pin c' = pin c)"

text \<open>
  The TLS bytes: \<open>win c\<close> are those that the connection has taken in through \<open>read_tls\<close>, \<open>wout c\<close> those that
  it has written through \<open>write_tls\<close>. They are logs of the calls: each call of the \<open>Write\<close> adds the bytes
  it accepted, each call of the \<open>Read\<close> those it handed over, and nothing else changes them.
\<close>

primrec writes_logged ::
  "('c \<Rightarrow> bytes) \<Rightarrow> ('c \<Rightarrow> bytes) \<Rightarrow> bytes \<Rightarrow> 'c write_prog \<Rightarrow> bytes \<Rightarrow> bool" where
  "writes_logged wout win v (WriteDone r c) = (\<lambda>t. wout c = t \<and> win c = v)"
| "writes_logged wout win v (WriteCall buf k) = (\<lambda>t.
     (\<forall>n\<le>length buf. writes_logged wout win v (k (Inr n)) (t @ take n buf)) \<and>
     (\<forall>e. writes_logged wout win v (k (Inl e)) t))"
| "writes_logged wout win v (WriteFlush k) = (\<lambda>t. \<forall>r. writes_logged wout win v (k r) t)"

primrec reads_logged ::
  "('c \<Rightarrow> bytes) \<Rightarrow> ('c \<Rightarrow> bytes) \<Rightarrow> bytes \<Rightarrow> 'c read_prog \<Rightarrow> bytes \<Rightarrow> bool" where
  "reads_logged wout win v (ReadDone r c) = (\<lambda>t. win c = t \<and> wout c = v)"
| "reads_logged wout win v (ReadCall buf k) = (\<lambda>t. \<forall>buf'. length buf' = length buf \<longrightarrow>
     (\<forall>n\<le>length buf. reads_logged wout win v (k (Inr n) buf') (t @ take n buf')) \<and>
     (\<forall>e. reads_logged wout win v (k (Inl e) buf') t))"

definition tls_bytes_ok ::
  "('g, 'e, 'c) tls_ops \<Rightarrow> ('c \<Rightarrow> bytes) \<Rightarrow> ('c \<Rightarrow> bytes) \<Rightarrow> bool" where
  "tls_bytes_ok E wout win \<longleftrightarrow>
     (\<forall>c. writes_logged wout win (win c) (tls_write_tls E c) (wout c)) \<and>
     (\<forall>c. reads_logged wout win (wout c) (tls_read_tls E c) (win c)) \<and>
     (\<forall>c buf r c'. tls_writer_write E c buf = (r, c') \<longrightarrow> wout c' = wout c \<and> win c' = win c) \<and>
     (\<forall>c buf r buf' c'. tls_reader_read E c buf = (r, buf', c') \<longrightarrow> wout c' = wout c \<and> win c' = win c) \<and>
     (\<forall>c. wout (tls_send_close_notify E c) = wout c \<and> win (tls_send_close_notify E c) = win c) \<and>
     (\<forall>c p c'. tls_process_new_packets E c = (p, c') \<longrightarrow> wout c' = wout c \<and> win c' = win c)"

lemma tls_bytes_okD:
  assumes "tls_bytes_ok E wout win"
  shows "writes_logged wout win (win c) (tls_write_tls E c) (wout c)"
    "reads_logged wout win (wout c) (tls_read_tls E c) (win c)"
    "tls_writer_write E c buf = (r, c') \<Longrightarrow> wout c' = wout c \<and> win c' = win c"
    "tls_reader_read E c buf = (r, buf', c') \<Longrightarrow> wout c' = wout c \<and> win c' = win c"
    "wout (tls_send_close_notify E c) = wout c" "win (tls_send_close_notify E c) = win c"
    "tls_process_new_packets E c = (p, c') \<Longrightarrow> wout c' = wout c \<and> win c' = win c"
  using assms unfolding tls_bytes_ok_def by blast+

text \<open>What is logged is what came into \<open>ext\<close>'s output, and what went out of its unread bytes.\<close>

lemma run_write_logged:
  assumes "writes_logged wout win v p t" "run_write p b = (r, c, b')"
  obtains put where "wout c = t @ put" "win c = v" "b' = b\<lparr>tb_out := tb_out b @ put\<rparr>"
proof -
  have "writes_logged wout win v p t \<longrightarrow> run_write p b = (r, c, b') \<longrightarrow>
    (\<exists>put. wout c = t @ put \<and> win c = v \<and> b' = b\<lparr>tb_out := tb_out b @ put\<rparr>)"
  proof (induction p arbitrary: b t)
    case (WriteCall buf k)
    show ?case
    proof (intro impI)
      assume log: "writes_logged wout win v (WriteCall buf k) t"
        and run: "run_write (WriteCall buf k) b = (r, c, b')"
      from log have "writes_logged wout win v (k (Inr (length buf))) (t @ buf)" by fastforce
      moreover from run have "run_write (k (Inr (length buf))) (b\<lparr>tb_out := tb_out b @ buf\<rparr>) = (r, c, b')"
        by (simp add: tb_trait_write_def)
      ultimately obtain put where "wout c = (t @ buf) @ put" "win c = v"
        "b' = (b\<lparr>tb_out := tb_out b @ buf\<rparr>)\<lparr>tb_out := tb_out (b\<lparr>tb_out := tb_out b @ buf\<rparr>) @ put\<rparr>"
        using WriteCall.IH by blast
      then show "\<exists>put. wout c = t @ put \<and> win c = v \<and> b' = b\<lparr>tb_out := tb_out b @ put\<rparr>"
        by (intro exI [of _ "buf @ put"]) simp
    qed
  next
    case (WriteFlush k)
    from WriteFlush.IH [of "k (Inr ())" t b] show ?case by (simp add: tb_trait_flush_def)
  next
    case (WriteDone r0 c0)
    then show ?case by (auto intro!: exI [of _ "[]"])
  qed
  with assms that show thesis by blast
qed

lemma run_read_logged:
  assumes "reads_logged wout win v p t" "tb_wf b" "run_read rt p b = Ret (r, c, b')"
  shows "wout c = v \<and> win c @ tb_pending b' = t @ tb_pending b"
  using assms
proof (induction p arbitrary: b t)
  case (ReadDone r0 c0)
  then show ?case by simp
next
  case (ReadCall buf k)
  show ?case
  proof (cases "tb_pending b = []")
    case True
    from ReadCall.prems(3) trait_read_empty [OF ReadCall.prems(2) True, of rt buf]
    have "run_read rt (k (if tb_inp_eof b then Inr 0 else Inl (io_err WouldBlock)) buf) b = Ret (r, c, b')"
      by simp
    moreover have "reads_logged wout win v (k (if tb_inp_eof b then Inr 0 else Inl (io_err WouldBlock)) buf) t"
      using ReadCall.prems(1) by (cases "tb_inp_eof b") fastforce+
    ultimately show ?thesis using ReadCall.IH [OF rangeI rangeI] ReadCall.prems(2) by blast
  next
    case False
    let ?m = "min (length buf) (length (tb_pending b))"
    let ?b = "b\<lparr>tb_rd := tb_rd b + ?m\<rparr>" and ?got = "overwrite 0 (take ?m (tb_pending b)) buf"
    note some = trait_read_some [OF ReadCall.prems(2) False]
    from ReadCall.prems(3) some(1) [of rt buf] have run: "run_read rt (k (Inr ?m) ?got) ?b = Ret (r, c, b')"
      by simp
    have "length ?got = length buf" by simp
    with ReadCall.prems(1) have log: "reads_logged wout win v (k (Inr ?m) ?got) (t @ take ?m ?got)"
      by (simp del: length_overwrite)
    have "take ?m ?got = take ?m (tb_pending b)" by (simp add: overwrite_def)
    with ReadCall.IH [OF rangeI rangeI log some(2) [of buf] run] some(3) [of buf] show ?thesis
      by (simp add: append_eq_conv_conj)
  qed
qed

section \<open>One turn\<close>

text \<open>From one state to a later one: plain text to send is with the connection or still in
  \<open>int\<close>, plain text received has come behind the unread bytes of \<open>int\<close>, TLS bytes that are no longer unread
  in \<open>ext\<close> are with the connection, and what the connection has written is behind the earlier output of \<open>ext\<close>,
  on the way to the stream.\<close>

record 'c tls_logs =
  lg_pout :: "'c \<Rightarrow> bytes"
  lg_pin :: "'c \<Rightarrow> bytes"
  lg_wout :: "'c \<Rightarrow> bytes"
  lg_win :: "'c \<Rightarrow> bytes"

definition tls_rel ::
  "('s \<Rightarrow> 'w \<Rightarrow> bytes) \<Rightarrow> 's mio_source \<Rightarrow> 'c tls_logs
    \<Rightarrow> ('c, 's, 'w) tls_state \<Rightarrow> ('c, 's, 'w) tls_state \<Rightarrow> bool" where
  "tls_rel tx ms L st st' \<longleftrightarrow>
     tb_wf (tl_ext st') \<and> tb_wf (tl_int st') \<and> tb_stream (tl_ext st') = Some ms \<and>
     tb_out_eof (tl_int st') = tb_out_eof (tl_int st) \<and>
     lg_pout L (tl_sc st') @ tb_out (tl_int st') = lg_pout L (tl_sc st) @ tb_out (tl_int st) \<and>
     (\<exists>new. lg_pin L (tl_sc st') = lg_pin L (tl_sc st) @ new \<and>
            tb_pending (tl_int st') = tb_pending (tl_int st) @ new) \<and>
     lg_win L (tl_sc st') @ tb_pending (tl_ext st') = lg_win L (tl_sc st) @ tb_pending (tl_ext st) \<and>
     (\<exists>put. lg_wout L (tl_sc st') = lg_wout L (tl_sc st) @ put \<and>
            tx (ms_source ms) (tl_net st') @ tb_out (tl_ext st') =
            tx (ms_source ms) (tl_net st) @ tb_out (tl_ext st) @ put)"

text \<open>The contract of the connection, all together.\<close>

definition tls_conn_ok ::
  "rust_rt \<Rightarrow> 's itself \<Rightarrow> ('g, 'e, 'c) tls_ops \<Rightarrow> 'c tls_logs \<Rightarrow> bool" where
  "tls_conn_ok rt ty E L \<longleftrightarrow> tls_data_ok E (lg_pout L) (lg_pin L) \<and>
     tls_wire_ok rt TYPE('s) E (lg_pout L) (lg_pin L) \<and> tls_bytes_ok E (lg_wout L) (lg_win L)"

lemma tls_relI:
  assumes "tb_wf (tl_ext st')" "tb_wf (tl_int st')" "tb_stream (tl_ext st') = Some ms"
    "tb_out_eof (tl_int st') = tb_out_eof (tl_int st)"
    "lg_pout L (tl_sc st') @ tb_out (tl_int st') = lg_pout L (tl_sc st) @ tb_out (tl_int st)"
    "lg_pin L (tl_sc st') = lg_pin L (tl_sc st) @ new"
    "tb_pending (tl_int st') = tb_pending (tl_int st) @ new"
    "lg_win L (tl_sc st') @ tb_pending (tl_ext st') = lg_win L (tl_sc st) @ tb_pending (tl_ext st)"
    "lg_wout L (tl_sc st') = lg_wout L (tl_sc st) @ put"
    "tx (ms_source ms) (tl_net st') @ tb_out (tl_ext st') =
       tx (ms_source ms) (tl_net st) @ tb_out (tl_ext st) @ put"
  shows "tls_rel tx ms L st st'"
  using assms unfolding tls_rel_def by blast

lemma tls_rel_refl:
  "tb_wf (tl_ext st) \<Longrightarrow> tb_wf (tl_int st) \<Longrightarrow> tb_stream (tl_ext st) = Some ms \<Longrightarrow>
     tls_rel tx ms L st st"
  by (simp add: tls_rel_def)

lemma tls_rel_trans:
  assumes "tls_rel tx ms L a b" "tls_rel tx ms L b c"
  shows "tls_rel tx ms L a c"
proof -
  from assms obtain n1 p1 n2 p2 where
    "lg_pin L (tl_sc b) = lg_pin L (tl_sc a) @ n1" "tb_pending (tl_int b) = tb_pending (tl_int a) @ n1"
    "lg_pin L (tl_sc c) = lg_pin L (tl_sc b) @ n2" "tb_pending (tl_int c) = tb_pending (tl_int b) @ n2"
    "lg_wout L (tl_sc b) = lg_wout L (tl_sc a) @ p1" "lg_wout L (tl_sc c) = lg_wout L (tl_sc b) @ p2"
    "tx (ms_source ms) (tl_net b) @ tb_out (tl_ext b) =
       tx (ms_source ms) (tl_net a) @ tb_out (tl_ext a) @ p1"
    "tx (ms_source ms) (tl_net c) @ tb_out (tl_ext c) =
       tx (ms_source ms) (tl_net b) @ tb_out (tl_ext b) @ p2"
    unfolding tls_rel_def by blast
  then have "lg_pin L (tl_sc c) = lg_pin L (tl_sc a) @ n1 @ n2"
    "tb_pending (tl_int c) = tb_pending (tl_int a) @ n1 @ n2"
    "lg_wout L (tl_sc c) = lg_wout L (tl_sc a) @ p1 @ p2"
    "tx (ms_source ms) (tl_net c) @ tb_out (tl_ext c) =
       tx (ms_source ms) (tl_net a) @ tb_out (tl_ext a) @ p1 @ p2"
    by simp_all
  with assms show ?thesis by (intro tls_relI) (simp_all add: tls_rel_def)
qed

text \<open>The contract, call by call.\<close>

lemma conn_write:
  fixes b :: "'s tcp_stream_buf"
  assumes "tls_conn_ok rt TYPE('s) E L" "run_write (tls_write_tls E c) b = (r, c', b')"
  obtains put where "lg_pout L c' = lg_pout L c" "lg_pin L c' = lg_pin L c" "lg_win L c' = lg_win L c"
    "lg_wout L c' = lg_wout L c @ put" "b' = b\<lparr>tb_out := tb_out b @ put\<rparr>"
proof -
  have wire: "tls_wire_ok rt TYPE('s) E (lg_pout L) (lg_pin L)" and bytes: "tls_bytes_ok E (lg_wout L) (lg_win L)"
    using assms(1) by (simp_all add: tls_conn_ok_def)
  have plain: "lg_pout L c' = lg_pout L c" "lg_pin L c' = lg_pin L c"
    using wire assms(2) unfolding tls_wire_ok_def by blast+
  obtain put where "lg_wout L c' = lg_wout L c @ put" "lg_win L c' = lg_win L c" "b' = b\<lparr>tb_out := tb_out b @ put\<rparr>"
    by (rule run_write_logged [OF tls_bytes_okD(1) [OF bytes] assms(2)])
  with plain show thesis by (intro that)
qed

lemma conn_read:
  fixes b :: "'s tcp_stream_buf"
  assumes "tls_conn_ok rt TYPE('s) E L" "tb_wf b" "run_read rt (tls_read_tls E c) b = Ret (r, c', b')"
  shows "lg_pout L c' = lg_pout L c" "lg_pin L c' = lg_pin L c" "lg_wout L c' = lg_wout L c"
    "lg_win L c' @ tb_pending b' = lg_win L c @ tb_pending b" "tb_wf b'" "tb_stream b' = tb_stream b"
    "tb_out b' = tb_out b"
proof -
  have wire: "tls_wire_ok rt TYPE('s) E (lg_pout L) (lg_pin L)" and bytes: "tls_bytes_ok E (lg_wout L) (lg_win L)"
    using assms(1) by (simp_all add: tls_conn_ok_def)
  show "lg_pout L c' = lg_pout L c" "lg_pin L c' = lg_pin L c"
    using wire assms(3) unfolding tls_wire_ok_def by blast+
  show "lg_wout L c' = lg_wout L c" "lg_win L c' @ tb_pending b' = lg_win L c @ tb_pending b"
    using run_read_logged [OF tls_bytes_okD(2) [OF bytes] assms(2,3)] by simp_all
  from run_read_takes [OF assms(2,3)] have "tb_wf b'" and eq: "b' = b\<lparr>tb_rd := tb_rd b'\<rparr>" by blast+
  then show "tb_wf b'" by simp
  show "tb_stream b' = tb_stream b" "tb_out b' = tb_out b"
    by (subst eq, simp)+
qed

lemma conn_writer:
  assumes "tls_conn_ok rt TYPE('s) E L" "tls_writer_write E c buf = (r, c')"
  shows "lg_pin L c' = lg_pin L c" "lg_wout L c' = lg_wout L c" "lg_win L c' = lg_win L c"
    "r = Inr n \<Longrightarrow> n \<le> length buf \<and> lg_pout L c' = lg_pout L c @ take n buf"
    "r = Inl e \<Longrightarrow> lg_pout L c' = lg_pout L c"
proof -
  have data: "tls_data_ok E (lg_pout L) (lg_pin L)" and bytes: "tls_bytes_ok E (lg_wout L) (lg_win L)"
    using assms(1) by (simp_all add: tls_conn_ok_def)
  have "lg_pin L c' = lg_pin L c \<and> (case r of Inr n \<Rightarrow> n \<le> length buf \<and> lg_pout L c' = lg_pout L c @ take n buf
      | Inl e \<Rightarrow> lg_pout L c' = lg_pout L c)"
    using data [unfolded tls_data_ok_def, THEN conjunct1, rule_format, OF assms(2)] .
  then show "lg_pin L c' = lg_pin L c"
    "r = Inr n \<Longrightarrow> n \<le> length buf \<and> lg_pout L c' = lg_pout L c @ take n buf"
    "r = Inl e \<Longrightarrow> lg_pout L c' = lg_pout L c" by simp_all
  show "lg_wout L c' = lg_wout L c" "lg_win L c' = lg_win L c"
    using tls_bytes_okD(3) [OF bytes assms(2)] by simp_all
qed

lemma conn_reader:
  assumes "tls_conn_ok rt TYPE('s) E L" "tls_reader_read E c buf = (r, buf', c')"
  shows "lg_pout L c' = lg_pout L c" "lg_wout L c' = lg_wout L c" "lg_win L c' = lg_win L c"
    "length buf' = length buf" "r = Inr n \<Longrightarrow> n \<le> length buf \<and> lg_pin L c' = lg_pin L c @ take n buf'"
    "r = Inl e \<Longrightarrow> lg_pin L c' = lg_pin L c"
proof -
  have data: "tls_data_ok E (lg_pout L) (lg_pin L)" and bytes: "tls_bytes_ok E (lg_wout L) (lg_win L)"
    using assms(1) by (simp_all add: tls_conn_ok_def)
  have "lg_pout L c' = lg_pout L c \<and> length buf' = length buf \<and>
      (case r of Inr n \<Rightarrow> n \<le> length buf \<and> lg_pin L c' = lg_pin L c @ take n buf'
       | Inl e \<Rightarrow> lg_pin L c' = lg_pin L c)"
    using data [unfolded tls_data_ok_def, THEN conjunct2, THEN conjunct1, rule_format, OF assms(2)] .
  then show "lg_pout L c' = lg_pout L c" "length buf' = length buf"
    "r = Inr n \<Longrightarrow> n \<le> length buf \<and> lg_pin L c' = lg_pin L c @ take n buf'"
    "r = Inl e \<Longrightarrow> lg_pin L c' = lg_pin L c" by simp_all
  show "lg_wout L c' = lg_wout L c" "lg_win L c' = lg_win L c"
    using tls_bytes_okD(4) [OF bytes assms(2)] by simp_all
qed

lemma conn_close:
  assumes "tls_conn_ok rt TYPE('s) E L"
  shows "f \<in> {lg_pout L, lg_pin L, lg_wout L, lg_win L} \<Longrightarrow> f (tls_send_close_notify E c) = f c"
  using assms tls_bytes_okD(5,6) [of E "lg_wout L" "lg_win L" c]
  by (auto simp: tls_conn_ok_def tls_data_ok_def)

lemma conn_packets:
  assumes "tls_conn_ok rt TYPE('s) E L" "tls_process_new_packets E c = (p, c')"
  shows "lg_pout L c' = lg_pout L c" "lg_pin L c' = lg_pin L c" "lg_wout L c' = lg_wout L c"
    "lg_win L c' = lg_win L c" "p = Inr n \<Longrightarrow> n \<le> isize_max"
proof -
  have data: "tls_data_ok E (lg_pout L) (lg_pin L)" and bytes: "tls_bytes_ok E (lg_wout L) (lg_win L)"
    using assms(1) by (simp_all add: tls_conn_ok_def)
  have "lg_pout L c' = lg_pout L c \<and> lg_pin L c' = lg_pin L c \<and> (\<forall>n. p = Inr n \<longrightarrow> n \<le> isize_max)"
    using data [unfolded tls_data_ok_def, THEN conjunct2, THEN conjunct2, THEN conjunct2,
        rule_format, OF assms(2)] by blast
  then show "lg_pout L c' = lg_pout L c" "lg_pin L c' = lg_pin L c" "p = Inr n \<Longrightarrow> n \<le> isize_max"
    by simp_all
  show "lg_wout L c' = lg_wout L c" "lg_win L c' = lg_win L c"
    using tls_bytes_okD(7) [OF bytes assms(2)] by simp_all
qed

lemma flush_data:
  assumes "tcp_write_ok T tx" "tb_stream b = Some ms" "tb_flush T b w = Some (Ret (r, b', w'))"
  shows "tx (ms_source ms) w' @ tb_out b' = tx (ms_source ms) w @ tb_out b"
    "tb_stream b' = Some ms" "tb_wf b' = tb_wf b" "tb_pending b' = tb_pending b"
    "tb_out_eof b' = tb_out_eof b" "tb_rd b' = tb_rd b" "tb_wr b' = tb_wr b"
  using tb_flush_ok [OF assms(1,2), of w] assms(2,3)
  by (simp_all add: flush_ok_def flush_rel_def flush_frame_def tb_wf_def tb_pending_def)

lemma write_turn_data:
  fixes st :: "('c, 's, 'w) tls_state"
  assumes T: "tcp_write_ok T tx" and E: "tls_conn_ok rt TYPE('s) E L"
    and st: "tb_wf (tl_ext st)" "tb_wf (tl_int st)" "tb_stream (tl_ext st) = Some ms"
    and turn: "tls_write_turn T E st = Some (Ret (x, st'))"
  shows "tls_rel tx ms L st st'"
  using turn
proof (cases rule: tls_write_turn_cases)
  case (err e c ext)
  obtain put where c: "lg_pout L c = lg_pout L (tl_sc st)" "lg_pin L c = lg_pin L (tl_sc st)"
    "lg_win L c = lg_win L (tl_sc st)" "lg_wout L c = lg_wout L (tl_sc st) @ put"
    and ext: "ext = (tl_ext st)\<lparr>tb_out := tb_out (tl_ext st) @ put\<rparr>"
    by (rule conn_write [OF E err(1)])
  from st c show ?thesis unfolding err(3) ext
    by (intro tls_relI [where new = "[]" and put = put]) (simp_all add: tb_wf_def tb_pending_def)
next
  case (flush n c ext ext1 r ext2 w)
  obtain put where c: "lg_pout L c = lg_pout L (tl_sc st)" "lg_pin L c = lg_pin L (tl_sc st)"
    "lg_win L c = lg_win L (tl_sc st)" "lg_wout L c = lg_wout L (tl_sc st) @ put"
    and ext: "ext = (tl_ext st)\<lparr>tb_out := tb_out (tl_ext st) @ put\<rparr>"
    by (rule conn_write [OF E flush(1)])
  then have e1: "tb_out ext1 = tb_out (tl_ext st) @ put" "tb_stream ext1 = Some ms"
    "tb_wf ext1" "tb_pending ext1 = tb_pending (tl_ext st)"
    using flush(2) st by (simp_all add: tb_wf_def tb_pending_def)
  note fl = flush_data [OF T e1(2) flush(3)]
  show ?thesis
    using st(2) e1 fl c unfolding flush(5)
    by (intro tls_relI [where new = "[]" and put = put]) simp_all
qed

lemma push_turn_data:
  fixes st :: "('c, 's, 'w) tls_state"
  assumes E: "tls_conn_ok rt TYPE('s) E L"
    and st: "tb_wf (tl_ext st)" "tb_wf (tl_int st)" "tb_stream (tl_ext st) = Some ms"
    and turn: "tls_push_turn E st = Some (Ret (x, st'))"
  shows "tls_rel tx ms L st st'"
proof -
  let ?int = "tl_int st"
  obtain r c where call: "tls_writer_write E (tl_sc st) (tb_out ?int) = (r, c)" by fastforce
  note ok = conn_writer [OF E call]
  show ?thesis
  proof (cases r)
    case (Inl e)
    with turn call have "st' = st\<lparr>tl_sc := c\<rparr>" by (simp add: tls_push_turn_def)
    with st ok(1-3) ok(5) [OF Inl] show ?thesis
      by (intro tls_relI [where new = "[]" and put = "[]"]) simp_all
  next
    case (Inr n)
    with turn call ok(4) [OF Inr]
    have "st' = st\<lparr>tl_sc := c, tl_int := ?int\<lparr>tb_out := drop n (tb_out ?int)\<rparr>\<rparr>"
      by (simp add: tls_push_turn_def)
    with st ok(1-3) ok(4) [OF Inr] show ?thesis
      by (intro tls_relI [where new = "[]" and put = "[]"])
        (simp_all add: tb_wf_def tb_pending_def)
  qed
qed

lemma close_turn_data:
  fixes st :: "('c, 's, 'w) tls_state"
  assumes E: "tls_conn_ok rt TYPE('s) E L"
    and st: "tb_wf (tl_ext st)" "tb_wf (tl_int st)" "tb_stream (tl_ext st) = Some ms"
    and turn: "tls_close_turn E st = Some (Ret (x, st'))"
  shows "tls_rel tx ms L st st'"
proof -
  from turn have "st' = st\<lparr>tl_sc := tls_send_close_notify E (tl_sc st), tl_sent_out_eof := True\<rparr>"
    by (simp add: tls_close_turn_def)
  with st conn_close [OF E] show ?thesis
    by (intro tls_relI [where new = "[]" and put = "[]"]) simp_all
qed

text \<open>The reader's loop: every successful read moves the next plain text behind the unread
  bytes.\<close>

lemma reader_loop_data:
  fixes st :: "('c, 's, 'w) tls_state"
  assumes "tls_reader_loop rt E st = Some res" "res = Ret (x, st')" "tls_conn_ok rt TYPE('s) E L"
    and "tb_wf (tl_ext st)" "tb_wf (tl_int st)" "tb_stream (tl_ext st) = Some ms"
  shows "tls_rel tx ms L st st'"
proof -
  have "tls_conn_ok rt TYPE('s) E L \<longrightarrow> res = Ret (x, st') \<longrightarrow> tls_rel tx ms L st st
      \<longrightarrow> tls_rel tx ms L st st'"
  proof (rule tls_reader_loop.raw_induct [OF _ assms(1), where P = "\<lambda>rt E (st :: ('c, 's, 'w) tls_state) res.
      tls_conn_ok rt TYPE('s) E L \<longrightarrow> res = Ret (x, st') \<longrightarrow> tls_rel tx ms L st st
      \<longrightarrow> tls_rel tx ms L st st'"], intro impI, goal_cases)
    case (1 rec rt E st res)
    let ?int = "tl_int st"
    have wf: "tb_wf ?int" "tb_wf (tl_ext st)" "tb_stream (tl_ext st) = Some ms"
      using 1(5) by (simp_all add: tls_rel_def)
    note w = tb_wfD [OF wf(1)]
    obtain r buf c where call:
      "tls_reader_read E (tl_sc st) (drop (tb_wr ?int) (tb_inp ?int)) = (r, buf, c)"
      using prod_cases3 by blast
    note ok = conn_reader [OF 1(3) call]
    have len: "length buf = length (tb_inp ?int) - tb_wr ?int" using ok(4) by simp
    note tail = read_into_tail [OF wf(1) len w(2) order_refl]
    let ?int1 = "?int\<lparr>tb_inp := overwrite (tb_wr ?int) buf (tb_inp ?int)\<rparr>"
    let ?st1 = "st\<lparr>tl_sc := c, tl_int := ?int1\<rparr>"
    have rel: "tls_rel tx ms L st (?st1\<lparr>tl_inp_eof := eof\<rparr>)" if "lg_pin L c = lg_pin L (tl_sc st)" for eof
      using ok(1-3) wf tail(1-3) that
      by (intro tls_relI [where new = "[]" and put = "[]"]) (simp_all add: same_io_def)
    have rel0: "tls_rel tx ms L st ?st1" if "lg_pin L c = lg_pin L (tl_sc st)"
      using rel [OF that, of "tl_inp_eof st"] by simp
    have again: "tls_rel tx ms L st st'"
      if "tls_rel tx ms L st st1" "rec rt E st1 = Some res" for st1
    proof -
      have "tls_rel tx ms L st1 st1"
        using that(1) by (intro tls_rel_refl) (simp_all add: tls_rel_def)
      then have "tls_rel tx ms L st1 st'"
        using 1(1) [OF that(2)] 1(3,4) by blast
      with that(1) show ?thesis by (rule tls_rel_trans)
    qed
    show ?case
    proof (cases r)
      case (Inl e)
      have "lg_pin L c = lg_pin L (tl_sc st)" by (rule ok(6) [OF Inl])
      note rel = rel [OF this] rel0 [OF this]
      from 1(2) w(2) call Inl consider "Some (Ret (Continue, ?st1)) = Some res"
        | "rec rt E (?st1\<lparr>tl_inp_eof := Some TlsAbort\<rparr>) = Some res"
        | "Some (Ret (Fail (TlsReadError e), ?st1)) = Some res"
        by (simp add: Let_def split: if_splits)
      then show ?thesis
        by cases (use rel 1(4) again [OF rel(1)] in auto)
    next
      case (Inr n)
      show ?thesis
      proof (cases "n = 0")
        case True
        with ok(5) [OF Inr] have "lg_pin L c = lg_pin L (tl_sc st)" by simp
        with 1(2) w(2) call Inr True again [OF rel] show ?thesis by (simp add: Let_def)
      next
        case False
        have n: "n \<le> length buf" "lg_pin L c = lg_pin L (tl_sc st) @ take n buf" using ok(4) ok(5) [OF Inr] by simp_all
        then have "tb_wr ?int1 + n \<le> isize_max" using len w by simp
        then have "usize_add rt (tb_wr ?int1) n = Ret (tb_wr ?int + n)"
          by (subst usize_add_small) simp_all
        with 1(2) w(2) call Inr False
        have run: "rec rt E (?st1\<lparr>tl_int := ?int1\<lparr>tb_wr := tb_wr ?int + n\<rparr>\<rparr>) = Some res"
          by (simp add: Let_def)
        have "tls_rel tx ms L st (?st1\<lparr>tl_int := ?int1\<lparr>tb_wr := tb_wr ?int + n\<rparr>\<rparr>)"
          using ok(1-3) n wf tail(3,6,7)
          by (intro tls_relI [where new = "take n buf" and put = "[]"])
            (simp_all add: same_io_def)
        from again [OF this run] show ?thesis .
      qed
    qed
  qed
  with assms(2-6) tls_rel_refl [OF assms(4-6), of tx L] show ?thesis by blast
qed

lemma pull_turn_data:
  fixes st :: "('c, 's, 'w) tls_state"
  assumes E: "tls_conn_ok rt TYPE('s) E L" and rt: "vec_grow_ok rt"
    and st: "tb_wf (tl_ext st)" "tb_wf (tl_int st)" "tb_stream (tl_ext st) = Some ms"
    and turn: "tls_pull_turn rt E st = Some (Ret (x, st'))"
  shows "tls_rel tx ms L st st'"
proof -
  have rel: "tls_rel tx ms L st (st\<lparr>tl_ext := ext, tl_sc := c1, tl_int := b\<rparr>)"
    if "run_read rt (tls_read_tls E (tl_sc st)) (tl_ext st) = Ret (r, c, ext)"
      "\<forall>f\<in>{lg_pout L, lg_pin L, lg_wout L, lg_win L}. f c1 = f c"
      "tb_wf b \<and> tb_pending b = tb_pending (tl_int st) \<and> same_io (tl_int st) b" for r c ext c1 b
    using conn_read [OF E st(1) that(1)] that(2,3) st(3)
    by (intro tls_relI [where new = "[]" and put = "[]"]) (simp_all add: same_io_def)
  have int: "tb_wf (tl_int st) \<and> tb_pending (tl_int st) = tb_pending (tl_int st) \<and> same_io (tl_int st) (tl_int st)"
    using st(2) by simp
  have same: "st\<lparr>tl_ext := e, tl_sc := c, tl_int := tl_int st\<rparr> = st\<lparr>tl_ext := e, tl_sc := c\<rparr>"
    "st\<lparr>tl_ext := e, tl_sc := c\<rparr> = st\<lparr>tl_sc := c, tl_ext := e\<rparr>" for e c
    by simp_all
  from turn show ?thesis
  proof (cases rule: tls_pull_turn_cases)
    case (err e c ext)
    with rel [OF err(1) _ int, of c] show ?thesis by (simp add: same)
  next
    case (stream r c ext c1 e)
    with rel [OF stream(1) _ int, of c1] conn_packets(1-4) [OF E stream(2)] show ?thesis by (simp add: same)
  next
    case (none r c ext c1)
    with rel [OF none(1) _ int, of c1] conn_packets(1-4) [OF E none(2)] show ?thesis by (simp add: same)
  next
    case (plain r c ext c1 n int1)
    note p = conn_packets [OF E plain(2)]
    have int1: "tb_wf int1 \<and> tb_pending int1 = tb_pending (tl_int st) \<and> same_io (tl_int st) int1"
      using makespace_Ret [OF st(2) rt p(5) [OF refl] plain(4)] .
    let ?st1 = "st\<lparr>tl_ext := ext, tl_sc := c1, tl_int := int1\<rparr>"
    have r1: "tls_rel tx ms L st ?st1" using rel [OF plain(1) _ int1, of c1] p(1-4) by simp
    then have st1: "tb_wf (tl_ext ?st1)" "tb_wf (tl_int ?st1)" "tb_stream (tl_ext ?st1) = Some ms"
      by (simp_all add: tls_rel_def)
    have "tls_rel tx ms L ?st1 st'"
      by (rule reader_loop_data [OF plain(5) refl E st1])
    with r1 show ?thesis by (rule tls_rel_trans)
  qed
qed

lemma tls_turn_data:
  fixes st :: "('c, 's, 'w) tls_state"
  assumes "tcp_write_ok T tx" "tls_conn_ok rt TYPE('s) E L" "vec_grow_ok rt"
    and st: "tb_wf (tl_ext st)" "tb_wf (tl_int st)" "tb_stream (tl_ext st) = Some ms"
    and turn: "tls_turn rt T E st = Some (Ret (x, st'))"
  shows "tls_rel tx ms L st st'"
  using turn write_turn_data [OF assms(1,2) st] push_turn_data [OF assms(2) st]
    close_turn_data [OF assms(2) st] pull_turn_data [OF assms(2,3) st] tls_rel_refl [OF st]
  unfolding tls_turn_def by (auto split: if_splits)

lemma tls_loop_data:
  fixes st :: "('c, 's, 'w) tls_state"
  assumes "tcp_write_ok T tx" "tls_conn_ok rt TYPE('s) E L" "vec_grow_ok rt"
    and st: "tb_wf (tl_ext st)" "tb_wf (tl_int st)" "tb_stream (tl_ext st) = Some ms"
    and run: "tls_loop rt T E st = Some (Ret (r, st'))"
  shows "tls_rel tx ms L st st'"
proof -
  have step: "tls_rel tx ms L st st2"
    if "tls_rel tx ms L st st1" "tls_turn rt T E st1 = Some (Ret (x, st2))" for st1 x st2
  proof -
    have "tls_rel tx ms L st1 st2"
      by (rule tls_turn_data [OF assms(1-3) _ _ _ that(2)]) (use that(1) in \<open>simp_all add: tls_rel_def\<close>)
    with that(1) show ?thesis by (rule tls_rel_trans)
  qed
  show ?thesis
  proof (rule tls_loop_keeps [OF run refl, where Q = "tls_rel tx ms L st"])
    show "tls_rel tx ms L st st" by (rule tls_rel_refl [OF st])
  qed (blast intro: step)+
qed

end
