(* ===== verification/Tls_Progress.thy ===== *)
theory Tls_Progress
  imports Tls_Data
begin

text \<open>
  How \<open>TlsServerEngine::process\<close> ends: what is true when it answers \<open>Ok\<close>, how the end of the
  output reaches the TCP side, and that it returns while there is only output to move.
\<close>

section \<open>The end of the output\<close>

text \<open>As documented for rustls, after \<open>send_close_notify\<close> there is something to write.\<close>

definition close_notify_wants_write :: "('g, 'e, 'c) tls_ops \<Rightarrow> bool" where
  "close_notify_wants_write E \<longleftrightarrow> (\<forall>c. tls_wants_write E (tls_send_close_notify E c))"

text \<open>Once the close has been sent, it has been passed on to \<open>ext\<close>.\<close>

definition close_passed :: "('g, 'e, 'c) tls_ops \<Rightarrow> ('c, 's, 'w) tls_state \<Rightarrow> bool" where
  "close_passed E st \<longleftrightarrow>
     (tl_sent_out_eof st \<and> \<not> tls_wants_write E (tl_sc st) \<longrightarrow> tb_out_eof (tl_ext st))"

lemma flush_no_stream: "tb_stream b = None \<Longrightarrow> tb_flush T b w = Some (Ret (Inr (), b, w))"
  by (simp add: tb_flush_def)

lemma flush_keeps_out_eof:
  assumes "tcp_write_ok T tx" "tb_flush T b w = Some (Ret (r, b', w'))"
  shows "tb_out_eof b' = tb_out_eof b \<and> tb_rd b' = tb_rd b \<and> tb_wr b' = tb_wr b"
proof (cases "tb_stream b")
  case None
  with assms(2) show ?thesis by (simp add: flush_no_stream)
next
  case (Some ms)
  with flush_data [OF assms(1) Some assms(2)] show ?thesis by simp
qed

lemma run_read_out_eof:
  "tb_wf b \<Longrightarrow> run_read rt p b = Ret (r, c, b') \<Longrightarrow> tb_out_eof b' = tb_out_eof b \<and> tb_wf b'"
  by (metis run_read_takes tcp_stream_buf.select_convs(2) tcp_stream_buf.surjective
      tcp_stream_buf.update_convs(6))

lemma tls_turn_close_passed:
  assumes "tcp_write_ok T tx" "close_notify_wants_write E"
    and "close_passed E st" "tb_wf (tl_ext st)"
    and turn: "tls_turn rt T E st = Some (Ret (Continue, st'))"
  shows "close_passed E st' \<and> tb_wf (tl_ext st')"
proof -
  have "close_passed E st' \<and> tb_wf (tl_ext st')"
    if "tls_write_turn T E st = Some (Ret (Continue, st'))"
    using that
  proof (cases rule: tls_write_turn_cases)
    case (flush n c ext ext1 r ext2 w)
    from run_write_appends [OF flush(1)] have "tb_wf ext" using assms(4) by (auto simp: tb_wf_def)
    then have "tb_wf ext1" using flush(2) by (simp add: tb_wf_def)
    moreover have "tb_wf ext2 = tb_wf ext1"
    proof (cases "tb_stream ext1")
      case None
      with flush(3) show ?thesis by (simp add: flush_no_stream)
    next
      case (Some ms)
      from flush_data(3) [OF assms(1) Some flush(3)] show ?thesis .
    qed
    moreover have "tb_out_eof ext2 = tb_out_eof ext1"
      using flush_keeps_out_eof [OF assms(1) flush(3)] by simp
    ultimately show ?thesis using flush(2,5) by (simp add: close_passed_def)
  qed simp
  moreover have "close_passed E st' \<and> tb_wf (tl_ext st')"
    if "tls_push_turn E st = Some (Ret (Continue, st'))" "\<not> tls_wants_write E (tl_sc st)"
    using that assms(3,4)
    by (auto simp: tls_push_turn_def close_passed_def split: prod.splits sum.splits if_splits)
  moreover have "close_passed E st' \<and> tb_wf (tl_ext st')"
    if "tls_close_turn E st = Some (Ret (Continue, st'))"
    using that assms(2,4)
    by (auto simp: tls_close_turn_def close_passed_def close_notify_wants_write_def)
  moreover have "close_passed E st' \<and> tb_wf (tl_ext st')"
    if "tls_pull_turn rt E st = Some (Ret (Continue, st'))" "\<not> tls_wants_write E (tl_sc st)"
    using that(1)
  proof (cases rule: tls_pull_turn_cases)
    case (none r c ext c1)
    with run_read_out_eof [OF assms(4) none(1)] that(2) assms(3) show ?thesis
      by (simp add: close_passed_def)
  next
    case (plain r c ext c1 n int1)
    with run_read_out_eof [OF assms(4) plain(1)] reader_loop_keeps [OF plain(5)] that(2) assms(3)
    show ?thesis by (simp add: close_passed_def)
  qed simp_all
  ultimately show ?thesis using turn by (auto simp: tls_turn_def split: if_splits)
qed

text \<open>The state in which a successful call ends.\<close>

lemma tls_loop_Ok:
  assumes "tcp_write_ok T tx" "close_notify_wants_write E"
    and "close_passed E st" "tb_wf (tl_ext st)"
    and run: "tls_loop rt T E st = Some (Ret (Inr u, st'))"
  shows "\<not> tls_wants_write E (tl_sc st') \<and> tb_out (tl_int st') = [] \<and>
    (tb_out_eof (tl_int st') \<longrightarrow> tl_sent_out_eof st' \<and> tb_out_eof (tl_ext st')) \<and>
    (tls_wants_read E (tl_sc st') \<longrightarrow> tb_pending (tl_ext st') = []) \<and> close_passed E st'"
proof (rule tls_loop_keeps [OF run refl, where Q = "\<lambda>st. close_passed E st \<and> tb_wf (tl_ext st)"])
  fix st0 x
  assume st0: "close_passed E st0 \<and> tb_wf (tl_ext st0)"
    "tls_turn rt T E st0 = Some (Ret (x, st'))"
    and "(x = Stop \<and> Inr u = Inr ()) \<or> (\<exists>e. x = Fail e \<and> Inr u = Inl e)"
  then have "tls_turn rt T E st0 = Some (Ret (Stop, st'))" by auto
  note stop = tls_turn_Stop [OF this]
  with st0(1) show "\<not> tls_wants_write E (tl_sc st') \<and> tb_out (tl_int st') = [] \<and>
    (tb_out_eof (tl_int st') \<longrightarrow> tl_sent_out_eof st' \<and> tb_out_eof (tl_ext st')) \<and>
    (tls_wants_read E (tl_sc st') \<longrightarrow> tb_pending (tl_ext st') = []) \<and> close_passed E st'"
    by (auto simp: close_passed_def tb_pending_def)
qed (use assms(3,4) tls_turn_close_passed [OF assms(1,2)] in blast)+

section \<open>Output only\<close>

text \<open>\<open>todo c\<close> bounds the number of writes the connection still wants to make; the writer
  accepts some of every non-empty slice.\<close>

definition tls_output_progress :: "'s itself \<Rightarrow> ('g, 'e, 'c) tls_ops \<Rightarrow> ('c \<Rightarrow> nat) \<Rightarrow> bool" where
  "tls_output_progress ty E todo \<longleftrightarrow>
     (\<forall>c (b :: 's tcp_stream_buf) n c' b'. tls_wants_write E c \<and>
        run_write (tls_write_tls E c) b = (Inr n, c', b') \<longrightarrow> todo c' < todo c) \<and>
     (\<forall>c buf n c'. buf \<noteq> [] \<and> tls_writer_write E c buf = (Inr n, c') \<longrightarrow> 0 < n \<and> n \<le> length buf)"

definition output_left :: "('c \<Rightarrow> nat) \<Rightarrow> (('c, 's, 'w) tls_state \<times> ('c, 's, 'w) tls_state) set" where
  "output_left todo = measures [\<lambda>st. length (tb_out (tl_int st)),
     \<lambda>st. if tl_sent_out_eof st then 0 else 1, \<lambda>st. todo (tl_sc st)]"

lemma tls_turn_output:
  fixes st :: "('c, 's, 'w) tls_state"
  assumes "tcp_write_ok T tx" "tcp_signals T m" "tls_output_progress TYPE('s) E todo"
    and idle: "tb_rd (tl_ext st) = tb_wr (tl_ext st)"
  obtains x st' where "tls_turn rt T E st = Some (Ret (x, st'))"
    "x = Continue \<Longrightarrow> (st', st) \<in> output_left todo \<and> tb_rd (tl_ext st') = tb_wr (tl_ext st')"
proof (cases "tls_wants_write E (tl_sc st)")
  case True
  obtain r c ext where run: "run_write (tls_write_tls E (tl_sc st)) (tl_ext st) = (r, c, ext)"
    using prod_cases3 by blast
  from run_write_appends [OF run] idle have ext: "tb_rd ext = tb_wr ext" by auto
  show thesis
  proof (cases r)
    case (Inl e)
    with True run show thesis
      by (intro that [of "Fail (UnexpectedWriteTls e)" "st\<lparr>tl_sc := c, tl_ext := ext\<rparr>"])
        (simp_all add: tls_turn_def tls_write_turn_def)
  next
    case (Inr n)
    let ?ext = "if tl_sent_out_eof st \<and> \<not> tls_wants_write E c then ext\<lparr>tb_out_eof := True\<rparr> else ext"
    have "tb_flush T ?ext (tl_net st) \<noteq> Some Panic"
    proof (cases "tb_stream ?ext")
      case (Some ms)
      then show ?thesis using tb_flush_ok [OF assms(1) Some, of "tl_net st"] by (simp add: flush_ok_def)
    qed (simp add: flush_no_stream)
    with tb_flush_total [OF assms(2), of ?ext "tl_net st"] obtain r2 ext2 w where
      fl: "tb_flush T ?ext (tl_net st) = Some (Ret (r2, ext2, w))"
      by (metis not_None_eq outcome.exhaust prod_cases3)
    have "tb_rd ext2 = tb_wr ext2"
      using flush_keeps_out_eof [OF assms(1) fl] ext by (simp split: if_splits)
    moreover have "todo c < todo (tl_sc st)"
      using assms(3) True run Inr unfolding tls_output_progress_def by blast
    ultimately show thesis
      using True run Inr fl
      by (intro that [of "case r2 of Inl e \<Rightarrow> Fail (FailedFlushTcp e) | Inr _ \<Rightarrow> Continue"
            "st\<lparr>tl_sc := c, tl_ext := ext2, tl_net := w\<rparr>"])
        (simp_all add: tls_turn_def tls_write_turn_def Let_def output_left_def)
  qed
next
  case nowrite: False
  show thesis
  proof (cases "tb_out (tl_int st) = []")
    case False
    obtain r c where call: "tls_writer_write E (tl_sc st) (tb_out (tl_int st)) = (r, c)"
      by fastforce
    show thesis
    proof (cases r)
      case (Inl e)
      with nowrite False call show thesis
        by (intro that [of "Fail (UnexpectedWriter e)" "st\<lparr>tl_sc := c\<rparr>"])
          (simp_all add: tls_turn_def tls_push_turn_def)
    next
      case (Inr n)
      with assms(3) False call have "0 < n" "n \<le> length (tb_out (tl_int st))"
        unfolding tls_output_progress_def by blast+
      with nowrite False call Inr idle show thesis
        by (intro that [of Continue "st\<lparr>tl_sc := c,
              tl_int := (tl_int st)\<lparr>tb_out := drop n (tb_out (tl_int st))\<rparr>\<rparr>"])
          (simp_all add: tls_turn_def tls_push_turn_def output_left_def)
    qed
  next
    case True
    show thesis
    proof (cases "tb_out_eof (tl_int st) \<and> \<not> tl_sent_out_eof st")
      case True
      with nowrite \<open>tb_out (tl_int st) = []\<close> idle show thesis
        by (intro that [of Continue "st\<lparr>tl_sc := tls_send_close_notify E (tl_sc st),
              tl_sent_out_eof := True\<rparr>"])
          (simp_all add: tls_turn_def tls_close_turn_def output_left_def)
    next
      case False
      with nowrite True idle show thesis
        by (intro that [of Stop st]) (auto simp: tls_turn_def)
    qed
  qed
qed

lemma tls_loop_output:
  fixes st :: "('c, 's, 'w) tls_state"
  assumes "tcp_write_ok T tx" "tcp_signals T m" "tls_output_progress TYPE('s) E todo"
    and "tb_rd (tl_ext st) = tb_wr (tl_ext st)"
  shows "\<exists>r st'. tls_loop rt T E st = Some (Ret (r, st'))"
proof -
  have "wf (output_left todo :: (('c, 's, 'w) tls_state \<times> _) set)" by (simp add: output_left_def)
  then show ?thesis using assms(4)
  proof (induction st rule: wf_induct_rule)
    case (less st)
    show ?case
    proof (rule tls_turn_output [OF assms(1-3) less.prems, of rt])
      fix x st1
      assume turn: "tls_turn rt T E st = Some (Ret (x, st1))"
        and next1: "x = Continue \<Longrightarrow>
          (st1, st) \<in> output_left todo \<and> tb_rd (tl_ext st1) = tb_wr (tl_ext st1)"
      show ?thesis
      proof (cases x)
        case Continue
        with next1 less.IH obtain r st' where "tls_loop rt T E st1 = Some (Ret (r, st'))" by blast
        with turn Continue show ?thesis by (subst tls_loop.simps) simp
      qed (use turn in \<open>subst tls_loop.simps, simp\<close>)+
    qed
  qed
qed

end
