(* ===== verification/Tls_Properties.thy ===== *)
theory Tls_Properties
  imports Tls_Eof Tls_Progress Tcp_Properties
begin

text \<open>
  The properties of \<open>TlsServerEngine\<close>, each with a witness on a toy connection.
\<close>

section \<open>A toy connection\<close>

text \<open>
  A connection that sends plain text as it is and closes with the byte 255, in both directions.
  Its reader answers as rustls documents it: \<open>Ok(0)\<close> once the peer has closed and into an empty
  slice, \<open>WouldBlock\<close> while nothing is there.
\<close>

record toy_tls =
  ty_out :: bytes
  ty_raw :: bytes
  ty_plain :: bytes
  ty_closed :: bool
  ty_pout :: bytes
  ty_pin :: bytes
  ty_wout :: bytes
  ty_win :: bytes

definition toy_reader :: "toy_tls \<Rightarrow> bytes \<Rightarrow> nat io \<times> bytes \<times> toy_tls" where
  "toy_reader c buf =
     (if buf = [] then (Inr 0, [], c)
      else if ty_plain c = []
      then (if ty_closed c then Inr 0 else Inl (io_err WouldBlock), buf, c)
      else let got = take (length buf) (ty_plain c)
           in (Inr (length got), overwrite 0 got buf,
               c\<lparr>ty_plain := drop (length got) (ty_plain c), ty_pin := ty_pin c @ got\<rparr>))"

definition toy_ops :: "(unit, string, toy_tls) tls_ops" where
  "toy_ops =
     \<lparr>tls_new = (\<lambda>_. Inr \<lparr>ty_out = [], ty_raw = [], ty_plain = [], ty_closed = False,
        ty_pout = [], ty_pin = [], ty_wout = [], ty_win = []\<rparr>),
      tls_wants_write = (\<lambda>c. ty_out c \<noteq> []),
      tls_wants_read = (\<lambda>c. ty_plain c = [] \<and> \<not> ty_closed c),
      tls_write_tls = (\<lambda>c. WriteCall (ty_out c) (\<lambda>r. WriteDone r (case r of
        Inr n \<Rightarrow> c\<lparr>ty_out := drop n (ty_out c), ty_wout := ty_wout c @ take n (ty_out c)\<rparr>
      | Inl _ \<Rightarrow> c))),
      tls_read_tls = (\<lambda>c. ReadCall [0, 0, 0, 0] (\<lambda>r buf. ReadDone r
        (case r of Inr n \<Rightarrow> c\<lparr>ty_raw := take n buf, ty_win := ty_win c @ take n buf\<rparr>
         | Inl _ \<Rightarrow> c\<lparr>ty_raw := []\<rparr>))),
      tls_process_new_packets = (\<lambda>c. let p = ty_plain c @ takeWhile (\<lambda>x. x \<noteq> 255) (ty_raw c)
        in (Inr (min (length p) 16), c\<lparr>ty_raw := [], ty_plain := p,
              ty_closed := ty_closed c \<or> 255 \<in> set (ty_raw c)\<rparr>)),
      tls_writer_write = (\<lambda>c buf. (Inr (length buf),
        c\<lparr>ty_out := ty_out c @ buf, ty_pout := ty_pout c @ buf\<rparr>)),
      tls_reader_read = toy_reader,
      tls_send_close_notify = (\<lambda>c. c\<lparr>ty_out := ty_out c @ [255]\<rparr>)\<rparr>"

lemma toy_reader_eof:
  assumes "toy_reader c buf = (r, buf', c')" "is_eof r"
  shows "c' = c \<and> (buf = [] \<and> r = Inr 0 \<or> buf \<noteq> [] \<and> ty_plain c = [] \<and> ty_closed c \<and> r = Inr 0)"
proof (cases "buf = [] \<or> ty_plain c = []")
  case True
  with assms show ?thesis by (auto simp: toy_reader_def is_eof_def split: if_splits)
next
  case False
  with assms show ?thesis
    by (auto simp: toy_reader_def is_eof_def Let_def min_def split: if_splits)
qed

lemma toy_reader_length: "toy_reader c buf = (r, buf', c') \<Longrightarrow> length buf' = length buf"
  by (auto simp: toy_reader_def Let_def split: if_splits)

lemma toy_eof_stays: "reader_eof_stays toy_ops"
proof -
  have read: "tls_reader_read toy_ops = toy_reader" by (simp add: toy_ops_def)
  have "\<exists>buf3. length buf3 = length buf2 \<and> toy_reader c' buf2 = (r, buf3, c')"
    if "toy_reader c buf = (r, buf', c')" "is_eof r" "length buf2 = length buf"
    for c buf r buf' c' buf2
    using toy_reader_eof [OF that(1,2)] that(3) by (auto simp: toy_reader_def)
  then show ?thesis
    unfolding reader_eof_stays_def read using toy_reader_length by blast
qed

lemma toy_data_ok: "tls_data_ok toy_ops ty_pout ty_pin"
  by (auto simp: tls_data_ok_def toy_ops_def toy_reader_def Let_def isize_max_def overwrite_def
      min_def split: if_splits)

lemma toy_wire_ok: "tls_wire_ok rt TYPE('s) toy_ops ty_pout ty_pin"
  by (auto simp: tls_wire_ok_def toy_ops_def split: outcome.splits sum.splits)

lemma toy_bytes_ok: "tls_bytes_ok toy_ops ty_wout ty_win"
  by (auto simp: tls_bytes_ok_def toy_ops_def toy_reader_def Let_def split: if_splits)

lemma toy_close_notify: "close_notify_wants_write toy_ops"
  by (simp add: close_notify_wants_write_def toy_ops_def)

lemma toy_progress: "tls_output_progress TYPE('s) toy_ops (\<lambda>c. length (ty_out c))"
  by (auto simp: tls_output_progress_def toy_ops_def tb_trait_write_def)

definition toy_conn :: toy_tls where
  "toy_conn = \<lparr>ty_out = [], ty_raw = [], ty_plain = [], ty_closed = False,
     ty_pout = [], ty_pin = [], ty_wout = [], ty_win = []\<rparr>"

definition toy_engine :: "toy_tls tls_engine" where
  "toy_engine = \<lparr>te_sc = Some toy_conn, te_sent_out_eof = False, te_inp_eof = None\<rparr>"

text \<open>Plain text to send and the output closed, a TCP side with nothing unread.\<close>

definition toy_int :: "nat tcp_stream_buf" where
  "toy_int = tb_new\<lparr>tb_out := [1, 2], tb_out_eof := True\<rparr>"

definition toy_ext :: "nat tcp_stream_buf" where
  "toy_ext = tb_new\<lparr>tb_stream := Some \<lparr>ms_token = 1, ms_source = 0\<rparr>\<rparr>"

lemma toy_bufs:
  "tb_wf toy_int" "tb_wf toy_ext" "tb_stream toy_ext = Some \<lparr>ms_token = 1, ms_source = 0\<rparr>"
  "tb_rd toy_ext = tb_wr toy_ext" "tb_out toy_int = [1, 2]" "tb_out_eof toy_int"
  "tb_pending toy_int = []" "tb_pending toy_ext = []" "tb_out toy_ext = []"
  by (simp_all add: toy_int_def toy_ext_def tb_new_def tb_wf_def tb_pending_def)

lemma toy_sc: "te_sc toy_engine = Some toy_conn" "\<not> te_sent_out_eof toy_engine"
  "te_inp_eof toy_engine = None" "ty_pout toy_conn = []" "ty_pin toy_conn = []"
  "ty_wout toy_conn = []" "ty_win toy_conn = []"
  by (simp_all add: toy_engine_def toy_conn_def)

section \<open>Data\<close>

text \<open>C17. TLS mode neither loses nor reorders data, on every call of \<open>process\<close> that returns, with
  \<open>Ok\<close> or an error: the plain text given to rustls followed by the output left in \<open>int\<close> is what
  it was; the plain text rustls handed out has come, in order, behind the unread bytes of \<open>int\<close>; the
  TLS bytes rustls has taken in followed by the unread bytes of \<open>ext\<close> are what they were; and exactly the
  TLS bytes that rustls has written have been added, at the end, to the bytes on the stream followed by the output of
  \<open>ext\<close>. Both buffers stay well-formed.\<close>

theorem tls_conserves_data:
  fixes ext :: "'s tcp_stream_buf"
  assumes "tcp_write_ok T tx" "tls_data_ok E pout pin" "tls_wire_ok rt TYPE('s) E pout pin"
    "tls_bytes_ok E wout win" "vec_grow_ok rt"
    and "te_sc te = Some c" "tb_wf ext" "tb_wf intb" "tb_stream ext = Some ms"
    and "tls_process rt T E te ext intb w = Some (Ret (r, te', ext', int', w'))"
  shows "\<exists>c' new put. te_sc te' = Some c'
    \<and> pout c' @ tb_out int' = pout c @ tb_out intb
    \<and> pin c' = pin c @ new \<and> tb_pending int' = tb_pending intb @ new
    \<and> win c' @ tb_pending ext' = win c @ tb_pending ext
    \<and> wout c' = wout c @ put
    \<and> tx (ms_source ms) w' @ tb_out ext' = tx (ms_source ms) w @ tb_out ext @ put
    \<and> tb_wf ext' \<and> tb_wf int'"
proof (rule tls_process_cases [OF assms(6,10)])
  let ?st = "\<lparr>tl_sc = c, tl_sent_out_eof = te_sent_out_eof te, tl_inp_eof = te_inp_eof te,
    tl_ext = ext, tl_int = intb, tl_net = w\<rparr>"
  let ?L = "\<lparr>lg_pout = pout, lg_pin = pin, lg_wout = wout, lg_win = win\<rparr>"
  fix rl st'
  assume run: "tls_loop rt T E ?st = Some (Ret (rl, st'))"
    and eqs: "te' = \<lparr>te_sc = Some (tl_sc st'), te_sent_out_eof = tl_sent_out_eof st',
       te_inp_eof = tl_inp_eof st'\<rparr>" "ext' = tl_ext st'" "int' = tl_int st'" "w' = tl_net st'"
  have "tls_conn_ok rt TYPE('s) E ?L" using assms(2-4) by (simp add: tls_conn_ok_def)
  then have "tls_rel tx ms ?L ?st st'"
    by (rule tls_loop_data [OF assms(1) _ assms(5) _ _ _ run]) (simp_all add: assms(7-9))
  then show ?thesis unfolding tls_rel_def eqs by simp
qed

lemma toy_run:
  obtains r te' ext' int' w' where "tls_process exact_rt script_tcp_ops toy_ops toy_engine toy_ext
      toy_int demo_world = Some (Ret (r, te', ext', int', w'))"
proof -
  have "\<exists>r st'. tls_loop exact_rt script_tcp_ops toy_ops
      \<lparr>tl_sc = toy_conn, tl_sent_out_eof = te_sent_out_eof toy_engine,
       tl_inp_eof = te_inp_eof toy_engine, tl_ext = toy_ext, tl_int = toy_int,
       tl_net = demo_world\<rparr> = Some (Ret (r, st'))"
    by (rule tls_loop_output [OF script_write_ok script_signals toy_progress]) (simp add: toy_bufs)
  then show thesis using that by (auto simp: tls_process_def toy_sc(1))
qed

theorem tls_conserves_data_witness:
  "\<exists>r te' ext' int' w' c'. tls_process exact_rt script_tcp_ops toy_ops toy_engine toy_ext toy_int
      demo_world = Some (Ret (r, te', ext', int', w')) \<and> te_sc te' = Some c' \<and>
    ty_pout c' @ tb_out int' = [1, 2] \<and> tw_sent w' @ tb_out ext' = tw_sent demo_world @ ty_wout c'"
proof -
  obtain r te' ext' int' w' where run: "tls_process exact_rt script_tcp_ops toy_ops toy_engine
      toy_ext toy_int demo_world = Some (Ret (r, te', ext', int', w'))" by (rule toy_run)
  from tls_conserves_data [OF script_write_ok toy_data_ok toy_wire_ok toy_bytes_ok exact_rt_ok toy_sc(1)
      toy_bufs(2,1,3) run] run
  show ?thesis by (auto simp: toy_bufs toy_sc)
qed

section \<open>Results\<close>

text \<open>When \<open>process\<close> answers \<open>Ok\<close> in TLS mode there is nothing left to do: rustls has nothing to
  write, all plain-text output has been handed over, a requested end of output has been sent as
  close_notify and passed on to \<open>ext\<close>, and if rustls wants to read there are no unread bytes.\<close>

theorem tls_ok_means_done:
  assumes "tcp_write_ok T tx" "close_notify_wants_write E"
    and "te_sc te = Some c" "tb_wf ext"
    and "te_sent_out_eof te \<and> \<not> tls_wants_write E c \<longrightarrow> tb_out_eof ext"
    and "tls_process rt T E te ext intb w = Some (Ret (Inr x, te', ext', int', w'))"
  shows "\<exists>c'. te_sc te' = Some c' \<and> \<not> tls_wants_write E c' \<and> tb_out int' = []
    \<and> (tb_out_eof int' \<longrightarrow> te_sent_out_eof te' \<and> tb_out_eof ext')
    \<and> (tls_wants_read E c' \<longrightarrow> tb_pending ext' = [])
    \<and> (te_sent_out_eof te' \<longrightarrow> tb_out_eof ext')"
proof (rule tls_process_cases [OF assms(3,6)])
  let ?st = "\<lparr>tl_sc = c, tl_sent_out_eof = te_sent_out_eof te, tl_inp_eof = te_inp_eof te,
    tl_ext = ext, tl_int = intb, tl_net = w\<rparr>"
  fix rl st'
  assume run: "tls_loop rt T E ?st = Some (Ret (rl, st'))"
    and rl: "Inr x = (case rl of Inl e \<Rightarrow> Inl e | Inr _ \<Rightarrow> Inr (tl_inp_eof st'))"
    and eqs: "te' = \<lparr>te_sc = Some (tl_sc st'), te_sent_out_eof = tl_sent_out_eof st',
       te_inp_eof = tl_inp_eof st'\<rparr>" "ext' = tl_ext st'" "int' = tl_int st'"
  from rl run obtain u where ok: "tls_loop rt T E ?st = Some (Ret (Inr u, st'))"
    by (cases rl) auto
  have "close_passed E ?st" "tb_wf (tl_ext ?st)" using assms(4,5) by (simp_all add: close_passed_def)
  from tls_loop_Ok [OF assms(1,2) this ok] show ?thesis
    unfolding eqs by (simp add: close_passed_def)
qed

text \<open>While there is only output to move, with no unread bytes in \<open>ext\<close>, \<open>process\<close> returns:
  rustls' pending writes are finite, its writer accepts some of every slice and signals are
  finite.\<close>

theorem tls_output_returns:
  fixes ext :: "'s tcp_stream_buf"
  assumes "tcp_write_ok T tx" "tcp_signals T m" "tls_output_progress TYPE('s) E todo"
    and "te_sc te = Some c" "tb_rd ext = tb_wr ext"
  shows "\<exists>r te' ext' int' w'. tls_process rt T E te ext intb w = Some (Ret (r, te', ext', int', w'))"
proof -
  have "\<exists>r st'. tls_loop rt T E \<lparr>tl_sc = c, tl_sent_out_eof = te_sent_out_eof te,
      tl_inp_eof = te_inp_eof te, tl_ext = ext, tl_int = intb, tl_net = w\<rparr> = Some (Ret (r, st'))"
    by (rule tls_loop_output [OF assms(1-3)]) (simp add: assms(5))
  with assms(4) show ?thesis by (auto simp: tls_process_def)
qed

theorem tls_output_returns_witness:
  "\<exists>r te' ext' int' w'. tls_process exact_rt script_tcp_ops toy_ops toy_engine toy_ext toy_int
     demo_world = Some (Ret (r, te', ext', int', w'))"
  by (rule tls_output_returns [OF script_write_ok script_signals toy_progress toy_sc(1) toy_bufs(4)])

theorem tls_ok_means_done_witness:
  "\<exists>ext' int' te' w' c'. tls_process exact_rt script_tcp_ops toy_ops toy_engine toy_ext toy_int
      (demo_world\<lparr>tw_writes := []\<rparr>) = Some (Ret (Inr None, te', ext', int', w')) \<and>
    tw_sent w' = [1, 2, 255] \<and> tb_out int' = [] \<and> tb_out_eof ext' \<and> te_sc te' = Some c'"
proof -
  have "map_option (map_outcome (\<lambda>(r, te, ext, intb, w). (r, tw_sent w, tb_out_eof intb)))
      (tls_process exact_rt script_tcp_ops toy_ops toy_engine toy_ext toy_int
        (demo_world\<lparr>tw_writes := []\<rparr>)) = Some (Ret (Inr None, [1, 2, 255], True))"
    by (simp add: tls_process_def toy_sc tls_loop.simps tls_turn_def tls_push_turn_def
        tls_write_turn_def tls_close_turn_def toy_ops_def toy_conn_def toy_int_def toy_ext_def
        tb_new_def tb_flush_def flush_nodelay_def flush_write_def flush_stream_def flush_eof_def
        script_tcp_ops_def demo_world_def write_loop.simps ok_or_block_loop.simps
        tb_trait_write_def)
  from map_exec_RetD [OF this] obtain te' ext' int' w' where
    run: "tls_process exact_rt script_tcp_ops toy_ops toy_engine toy_ext toy_int
        (demo_world\<lparr>tw_writes := []\<rparr>) = Some (Ret (Inr None, te', ext', int', w'))"
      "tw_sent w' = [1, 2, 255]" "tb_out_eof int'" by auto
  have "te_sent_out_eof toy_engine \<and> \<not> tls_wants_write toy_ops toy_conn \<longrightarrow>
      tb_out_eof toy_ext" by (simp add: toy_sc)
  from tls_ok_means_done [OF script_write_ok toy_close_notify toy_sc(1) toy_bufs(2) this run(1)]
  have "tb_out int' = []" "\<exists>c'. te_sc te' = Some c'" "te_sent_out_eof te' \<longrightarrow> tb_out_eof ext'"
    "tb_out_eof int' \<longrightarrow> te_sent_out_eof te' \<and> tb_out_eof ext'" by auto
  with run show ?thesis by blast
qed

section \<open>The end of the input\<close>

text \<open>C33. In TLS mode \<open>process\<close> never reports the end of the input. Since rustls' reader keeps
  answering with the end of the stream once it is reached, a call that returns has not seen it:
  the EOF state is the one before the call, in the engine and in the result.\<close>

theorem tls_never_reports_eof:
  assumes "reader_eof_stays E" "te_sc te = Some c"
    and "tls_process rt T E te ext intb w = Some (Ret (r, te', ext', int', w'))"
  shows "te_inp_eof te' = te_inp_eof te \<and> (\<forall>x. r = Inr x \<longrightarrow> x = te_inp_eof te)"
proof (rule tls_process_cases [OF assms(2,3)])
  let ?st = "\<lparr>tl_sc = c, tl_sent_out_eof = te_sent_out_eof te, tl_inp_eof = te_inp_eof te,
    tl_ext = ext, tl_int = intb, tl_net = w\<rparr>"
  fix rl st'
  assume run: "tls_loop rt T E ?st = Some (Ret (rl, st'))"
    and eqs: "r = (case rl of Inl e \<Rightarrow> Inl e | Inr _ \<Rightarrow> Inr (tl_inp_eof st'))"
     "te' = \<lparr>te_sc = Some (tl_sc st'), te_sent_out_eof = tl_sent_out_eof st',
       te_inp_eof = tl_inp_eof st'\<rparr>"
  have "tl_inp_eof st' = te_inp_eof te"
  proof (rule tls_loop_keeps [OF run refl, where Q = "\<lambda>st. tl_inp_eof st = te_inp_eof te"])
    show "tl_inp_eof ?st = te_inp_eof te" by simp
  qed (auto dest!: tls_turn_eof [OF assms(1)])
  then show ?thesis unfolding eqs by (auto split: sum.splits)
qed

theorem tls_never_reports_eof_witness:
  "\<exists>r te' ext' int' w'. tls_process exact_rt script_tcp_ops toy_ops toy_engine toy_ext toy_int
     demo_world = Some (Ret (r, te', ext', int', w')) \<and> te_inp_eof te' = None"
proof -
  obtain r te' ext' int' w' where run: "tls_process exact_rt script_tcp_ops toy_ops toy_engine
      toy_ext toy_int demo_world = Some (Ret (r, te', ext', int', w'))" by (rule toy_run)
  from tls_never_reports_eof [OF toy_eof_stays toy_sc(1) run] run show ?thesis
    by (auto simp: toy_sc)
qed

text \<open>C34. The loop around the reader has no exit at the end of the stream: once the reader
  answers with it, after a clean or an unclean close or because the slice offered is empty, the
  loop never returns.\<close>

theorem tls_reader_loop_hangs_at_eof:
  assumes "reader_eof_stays E" "tb_wr (tl_int st) \<le> length (tb_inp (tl_int st))"
    and "tls_reader_read E (tl_sc st) (drop (tb_wr (tl_int st)) (tb_inp (tl_int st))) = (r, buf, c)"
    and "r = Inr 0 \<or> (\<exists>e. r = Inl e \<and> err_kind e = UnexpectedEof)"
  shows "tls_reader_loop rt E st = None"
proof -
  have eof: "is_eof r" using assms(4) by (auto simp: is_eof_def)
  note stuck = after_read_at_eof [OF assms(1-3) eof]
  have "tls_reader_loop rt E st = tls_reader_loop rt E (after_read st buf c (Some TlsClose)) \<or>
      tls_reader_loop rt E st = tls_reader_loop rt E (after_read st buf c (Some TlsAbort))"
    using assms(2-4) by (subst (1 3) tls_reader_loop.simps) (auto simp: after_read_def Let_def)
  then show ?thesis using at_eof_hangs [OF assms(1) stuck] by metis
qed

theorem tls_reader_loop_hangs_at_eof_witness:
  "tls_reader_loop exact_rt toy_ops
     \<lparr>tl_sc = toy_conn\<lparr>ty_closed := True\<rparr>, tl_sent_out_eof = False, tl_inp_eof = None,
      tl_ext = toy_ext, tl_int = toy_int\<lparr>tb_inp := [0, 0], tb_inp_cap := 2\<rparr>, tl_net = demo_world\<rparr> = None"
  by (rule tls_reader_loop_hangs_at_eof [OF toy_eof_stays, where r = "Inr 0"])
     (simp_all add: toy_int_def tb_new_def toy_ops_def toy_reader_def toy_conn_def)

section \<open>Without TLS\<close>

text \<open>Without a TLS configuration \<open>process\<close> passes the data through: the output of \<open>int\<close> goes
  behind that of \<open>ext\<close> and on to the stream, the unread bytes of \<open>ext\<close> come behind those of
  \<open>int\<close>, nothing is lost or reordered, a requested end of output is passed to \<open>ext\<close>, and the
  result is the end of the input exactly if it has been seen on either side or before. It does not
  panic.\<close>

theorem tls_pass_through_spec:
  assumes "tcp_write_ok T tx" "vec_grow_ok rt" "tb_wf intb" "tb_wf ext" "tb_stream ext = Some ms"
    and "tb_wr intb + length (tb_pending ext) \<le> isize_max" "2 * length (tb_pending ext) \<le> isize_max"
    and "te_sc te = None" "tls_process rt T E te ext intb w = Some res"
  shows "\<exists>r te' ext' int' w'. res = Ret (r, te', ext', int', w')
    \<and> tb_pending int' = tb_pending intb @ tb_pending ext \<and> tb_pending ext' = []
    \<and> tb_out int' = []
    \<and> tx (ms_source ms) w' @ tb_out ext' = tx (ms_source ms) w @ tb_out ext @ tb_out intb
    \<and> (tb_out_eof ext' \<longleftrightarrow> tb_out_eof ext \<or> tb_out_eof intb)
    \<and> te_inp_eof te' = (if tb_inp_eof intb \<or> tb_inp_eof ext then Some TlsClose else te_inp_eof te)
    \<and> (\<forall>x. r = Inr x \<longrightarrow> x = te_inp_eof te')"
proof (rule tb_exchange_ok [OF assms(3,4,2,6,7)])
  fix int1 ext1
  assume x: "tb_exchange rt intb ext = Ret (int1, ext1)"
    "tb_pending int1 = tb_pending intb @ tb_pending ext" "tb_pending ext1 = []" "tb_out int1 = []"
    "tb_out ext1 = tb_out ext @ tb_out intb" "tb_out_eof ext1 = (tb_out_eof ext \<or> tb_out_eof intb)"
    "tb_inp_eof int1 = (tb_inp_eof intb \<or> tb_inp_eof ext)"
    "same_io ext (ext1\<lparr>tb_out := tb_out ext, tb_out_eof := tb_out_eof ext\<rparr>)"
  have s: "tb_stream ext1 = Some ms" using x(8) assms(5) by (simp add: same_io_def)
  have "tb_flush T ext1 w \<noteq> Some Panic"
    using tb_flush_ok [OF assms(1) s, of w] by (simp add: flush_ok_def)
  with assms(8,9) x(1) obtain r ext' w' where fl: "tb_flush T ext1 w = Some (Ret (r, ext', w'))"
    and res: "res = Ret (case r of Inl e \<Rightarrow> Inl (FailedFlushTcp e)
        | Inr _ \<Rightarrow> Inr (te_inp_eof (if tb_inp_eof int1 then te\<lparr>te_inp_eof := Some TlsClose\<rparr> else te)),
      if tb_inp_eof int1 then te\<lparr>te_inp_eof := Some TlsClose\<rparr> else te, ext', int1, w')"
    by (cases "tb_flush T ext1 w"; cases "the (tb_flush T ext1 w)")
      (auto simp: tls_process_def tls_pass_through_def Let_def)
  note f = flush_data [OF assms(1) s fl]
  show ?thesis unfolding res using x f by (auto split: sum.splits)
qed

theorem tls_pass_through_spec_witness:
  "\<exists>r te' ext' int' w'. tls_process exact_rt script_tcp_ops toy_ops (toy_engine\<lparr>te_sc := None\<rparr>)
      toy_ext toy_int demo_world = Some (Ret (r, te', ext', int', w')) \<and>
    tw_sent w' @ tb_out ext' = [1, 2] \<and> tb_out_eof ext'"
proof -
  let ?te = "toy_engine\<lparr>te_sc := None\<rparr>"
  obtain int1 ext1 where "tb_exchange exact_rt toy_int toy_ext = Ret (int1, ext1)"
    by (rule tb_exchange_ok [OF toy_bufs(1,2) exact_rt_ok])
      (simp_all add: toy_bufs toy_int_def tb_new_def)
  with tb_flush_total [OF script_signals, of ext1 demo_world]
  have "tls_process exact_rt script_tcp_ops toy_ops ?te toy_ext toy_int demo_world \<noteq> None"
    by (auto simp: tls_process_def tls_pass_through_def Let_def ebind_eq_None)
  then obtain res where run: "tls_process exact_rt script_tcp_ops toy_ops ?te toy_ext toy_int
      demo_world = Some res" by blast
  have "tb_wr toy_int + length (tb_pending toy_ext) \<le> isize_max"
    "2 * length (tb_pending toy_ext) \<le> isize_max" "te_sc ?te = None"
    by (simp_all add: toy_bufs toy_int_def tb_new_def)
  from tls_pass_through_spec [OF script_write_ok exact_rt_ok toy_bufs(1,2,3) this run] run
  show ?thesis by (auto simp: toy_bufs demo_world_def)
qed

end
