(* ===== verification/Tcp_Types.thy ===== *)
theory Tcp_Types
  imports Tcp_Link
begin

text \<open>
  Type safety of \<open>TcpStreamBuf\<close>: every buffer that an application can make with the operations and
  the public fields is well-formed, and no operation on it panics.
\<close>

section \<open>Uses of a buffer\<close>

text \<open>\<open>n\<close> more bytes can be addressed behind the write offset, and twice \<open>n\<close> bytes at all.\<close>

definition has_room :: "nat \<Rightarrow> 's tcp_stream_buf \<Rightarrow> bool" where
  "has_room n b \<longleftrightarrow> tb_wr b + n \<le> isize_max \<and> 2 * n \<le> isize_max"

text \<open>
  What an application does with a buffer: the operations, the traits, an exchange with another
  buffer below or above it, consuming input by moving \<open>rd\<close> up to \<open>wr\<close>, and any change of the
  output and its EOF flag. (The poller is named for the type of its waker only.)
\<close>

inductive tb_use ::
  "rust_rt \<Rightarrow> ('s, 'w) tcp_ops \<Rightarrow> ('sl, 'f entry) slab_ops \<Rightarrow> ('s, 'w) source_ops
    \<Rightarrow> ('k, 'w) poll_ops \<Rightarrow> 's tcp_stream_buf \<Rightarrow> 's tcp_stream_buf \<Rightarrow> bool"
  for rt T S D and P :: "('k, 'w) poll_ops" where
  use_init: "tb_init S D ms b (cw :: ('sl, 'k) control \<times> 'w) = Some (b', cw') \<Longrightarrow> tb_use rt T S D P b b'"
| use_deinit: "tb_deinit S D b (cw :: ('sl, 'k) control \<times> 'w) = Some (b', cw') \<Longrightarrow> tb_use rt T S D P b b'"
| use_set_nodelay: "tb_use rt T S D P b (tb_set_nodelay nd b)"
| use_pause_writes: "tb_use rt T S D P b (tb_pause_writes p b)"
| use_flush: "tb_flush T b w = Some (Ret (r, b', w')) \<Longrightarrow> tb_use rt T S D P b b'"
| use_makespace: "has_room n b \<Longrightarrow> tb_inp_makespace rt n b = Ret b' \<Longrightarrow> tb_use rt T S D P b b'"
| use_read: "has_room n b \<Longrightarrow> tb_read rt T n b w = Some (Ret (st, b', w')) \<Longrightarrow> tb_use rt T S D P b b'"
| use_trait_read: "tb_trait_read rt buf b = Ret (r, buf', b') \<Longrightarrow> tb_use rt T S D P b b'"
| use_trait_write: "tb_trait_write buf b = (r, b') \<Longrightarrow> tb_use rt T S D P b b'"
| use_trait_flush: "tb_trait_flush b = (r, b') \<Longrightarrow> tb_use rt T S D P b b'"
| use_exchange_below: "tb_wf u \<Longrightarrow> has_room (length (tb_pending u)) b \<Longrightarrow>
     tb_exchange rt b u = Ret (b', u') \<Longrightarrow> tb_use rt T S D P b b'"
| use_exchange_above: "tb_wf l \<Longrightarrow> has_room (length (tb_pending b)) l \<Longrightarrow>
     tb_exchange rt l b = Ret (l', b') \<Longrightarrow> tb_use rt T S D P b b'"
| use_consume: "tb_rd b \<le> rd \<Longrightarrow> rd \<le> tb_wr b \<Longrightarrow> tb_use rt T S D P b (b\<lparr>tb_rd := rd\<rparr>)"
| use_output: "tb_use rt T S D P b (b\<lparr>tb_out := out, tb_out_eof := eof\<rparr>)"

text \<open>The buffers that can be made, starting from \<open>TcpStreamBuf::new\<close>.\<close>

inductive tb_made ::
  "rust_rt \<Rightarrow> ('s, 'w) tcp_ops \<Rightarrow> ('sl, 'f entry) slab_ops \<Rightarrow> ('s, 'w) source_ops
    \<Rightarrow> ('k, 'w) poll_ops \<Rightarrow> 's tcp_stream_buf \<Rightarrow> bool"
  for rt T S D and P :: "('k, 'w) poll_ops" where
  made_new: "tb_made rt T S D P tb_new"
| made_use: "tb_made rt T S D P b \<Longrightarrow> tb_use rt T S D P b b' \<Longrightarrow> tb_made rt T S D P b'"

section \<open>Preservation\<close>

lemma tb_wf_same_input:
  assumes "tb_inp b' = tb_inp b" "tb_inp_cap b' = tb_inp_cap b" "tb_rd b' = tb_rd b" "tb_wr b' = tb_wr b"
  shows "tb_wf b' = tb_wf b"
  using assms by (simp add: tb_wf_def)

lemma flush_keeps_wf:
  assumes "tb_flush T b w = Some (Ret (r, b', w'))" "tcp_write_ok T tx" "tb_wf b"
  shows "tb_wf b'"
proof (cases "tb_stream b")
  case None
  with assms(1,3) show ?thesis by (auto simp: tb_flush_def split: if_splits)
next
  case (Some ms)
  from tb_flush_ok [OF assms(2) Some, of w] assms(1,3) show ?thesis
    by (auto simp: flush_ok_def flush_rel_def flush_frame_def tb_wf_def)
qed

lemma flush_no_panic: "tcp_write_ok T tx \<Longrightarrow> tb_flush T b w \<noteq> Some Panic"
  using tb_flush_ok [of T tx b _ w]
  by (cases "tb_stream b") (auto simp: tb_flush_def flush_ok_def)

lemma read_result:
  assumes "tb_wf b" "vec_grow_ok rt" "has_room n b" "tcp_read_ok T rx" "tb_read rt T n b w = Some res"
  shows "\<exists>st b' w'. res = Ret (st, b', w') \<and> tb_wf b'"
proof (cases "tb_stream b")
  case None
  have room: "tb_wr b + n \<le> isize_max" "2 * n \<le> isize_max" using assms(3) by (simp_all add: has_room_def)
  show ?thesis
    by (rule tb_read_cases [OF assms(1,2) room, of T w]) (use None assms(5) in auto)
next
  case (Some ms)
  have room: "tb_wr b + n \<le> isize_max" "2 * n \<le> isize_max" using assms(3) by (simp_all add: has_room_def)
  from tb_read_post [OF assms(1,2) room assms(4) Some assms(5)] show ?thesis
    by (auto simp: read_post_def)
qed

lemma makespace_result:
  assumes "tb_wf b" "vec_grow_ok rt" "has_room n b"
  shows "\<exists>b'. tb_inp_makespace rt n b = Ret b' \<and> tb_wf b'"
proof -
  have "tb_wr b + n \<le> isize_max" "2 * n \<le> isize_max" using assms(3) by (simp_all add: has_room_def)
  from makespace_ok [OF assms(1,2) this] show ?thesis by metis
qed

lemma trait_read_result:
  assumes "tb_wf b"
  shows "\<exists>r buf' b'. tb_trait_read rt buf b = Ret (r, buf', b') \<and> tb_wf b'"
proof (cases "tb_pending b = []")
  case True
  with trait_read_empty [OF assms True, of rt buf] assms show ?thesis by simp
next
  case False
  from trait_read_some(1) [OF assms False, of rt buf] trait_read_some(2) [OF assms False, of buf]
  show ?thesis by simp
qed

lemma exchange_result:
  assumes "tb_wf b" "tb_wf u" "vec_grow_ok rt" "has_room (length (tb_pending u)) b"
  shows "\<exists>b' u'. tb_exchange rt b u = Ret (b', u') \<and> tb_wf b' \<and> tb_wf u'"
proof -
  have "tb_wr b + length (tb_pending u) \<le> isize_max" "2 * length (tb_pending u) \<le> isize_max"
    using assms(4) by (simp_all add: has_room_def)
  from tb_exchange_ok [OF assms(1-3) this] show ?thesis by metis
qed

lemma tb_use_wf:
  assumes "tb_use rt T S D P b b'" "tb_wf b" "vec_grow_ok rt" "tcp_write_ok T tx" "tcp_read_ok T rx"
  shows "tb_wf b'"
  using assms
proof (induction rule: tb_use.induct)
  case (use_flush b w r b' w')
  show ?case by (rule flush_keeps_wf [OF use_flush.hyps use_flush.prems(3,1)])
next
  case (use_makespace n b b')
  then show ?case using makespace_result [of b rt n] by auto
next
  case (use_read n b w st b' w')
  then show ?case using read_result [of b rt n T rx w] by auto
next
  case (use_trait_read buf b r buf' b')
  then show ?case using trait_read_result [of b rt buf] by auto
next
  case (use_exchange_below u b b' u')
  then show ?case using exchange_result [of b u rt] by auto
next
  case (use_exchange_above l b l' b')
  then show ?case using exchange_result [of l b rt] by auto
next
  case (use_consume b rd)
  then show ?case by (simp add: tb_wf_def)
qed (auto simp: tb_wf_def tb_init_def tb_deinit_def tb_set_nodelay_def tb_pause_writes_def
    tb_trait_write_def tb_trait_flush_def)

lemma tb_made_wf:
  assumes "tb_made rt T S D P b" "vec_grow_ok rt" "tcp_write_ok T tx" "tcp_read_ok T rx"
  shows "tb_wf b"
  using assms(1) by induction (use assms(2-4) tb_new_wf tb_use_wf in blast)+

section \<open>The property\<close>

text \<open>C18. Well-typed buffers do not go wrong: every buffer that operations, traits, exchanges and
  the permitted changes of the public fields make from a new one keeps its offsets in order and
  within the input vector, and on it no operation panics: not \<open>flush\<close>, not the \<open>Read\<close> trait, and,
  within the address space, not \<open>inp_makespace\<close>, \<open>read\<close> or \<open>exchange\<close>.\<close>

theorem tcp_buffer_type_safe:
  assumes "vec_grow_ok rt" "tcp_write_ok T tx" "tcp_read_ok T rx"
    and "tb_made rt T S D P b" "tb_made rt T S D P u" "has_room n b" "has_room (length (tb_pending u)) b"
  shows "tb_rd b \<le> tb_wr b \<and> tb_wr b \<le> length (tb_inp b) \<and> length (tb_inp b) \<le> tb_inp_cap b
    \<and> tb_flush T b w \<noteq> Some Panic \<and> tb_trait_read rt buf b \<noteq> Panic
    \<and> tb_inp_makespace rt n b \<noteq> Panic \<and> tb_read rt T n b w \<noteq> Some Panic
    \<and> tb_exchange rt b u \<noteq> Panic"
proof -
  have wf: "tb_wf b" "tb_wf u" using assms tb_made_wf by blast+
  have "tb_rd b \<le> tb_wr b" "tb_wr b \<le> length (tb_inp b)" "length (tb_inp b) \<le> tb_inp_cap b"
    using tb_wfD [OF wf(1)] by blast+
  moreover have "tb_flush T b w \<noteq> Some Panic" by (rule flush_no_panic [OF assms(2)])
  moreover have "tb_trait_read rt buf b \<noteq> Panic" using trait_read_result [OF wf(1), of rt buf] by auto
  moreover have "tb_inp_makespace rt n b \<noteq> Panic"
    using makespace_result [OF wf(1) assms(1,6)] by auto
  moreover have "tb_read rt T n b w \<noteq> Some Panic"
    using read_result [OF wf(1) assms(1,6,3), of w] by auto
  moreover have "tb_exchange rt b u \<noteq> Panic" using exchange_result [OF wf assms(1,7)] by auto
  ultimately show ?thesis by blast
qed

text \<open>A source and a poller on which every call succeeds.\<close>

definition tame_source_ops :: "(nat, tcp_world) source_ops" where
  "tame_source_ops = \<lparr>so_register = (\<lambda>s t i w. (Inr (), w)),
     so_reregister = (\<lambda>s t i w. (Inr (), w)), so_deregister = (\<lambda>s w. (Inr (), w))\<rparr>"

definition tame_poll_ops :: "(nat, tcp_world) poll_ops" where
  "tame_poll_ops = \<lparr>po_poll = (\<lambda>d (evs, w). (Inr (), [], w)), po_waker_new = (\<lambda>t w. (Inr 7, w)),
     po_wake = (\<lambda>k w. (Inr (), w))\<rparr>"

abbreviation demo_made :: "nat tcp_stream_buf \<Rightarrow> bool" where
  "demo_made \<equiv> tb_made exact_rt script_tcp_ops (slots_ops :: (nat entry option list, nat entry) slab_ops)
     tame_source_ops tame_poll_ops"

theorem tcp_buffer_type_safe_witness:
  "\<exists>b. demo_made b \<and> tb_out b = [1, 2] \<and> tb_rd b \<le> tb_wr b \<and>
     tb_read exact_rt script_tcp_ops 4 b demo_world \<noteq> Some Panic \<and> tb_exchange exact_rt b tb_new \<noteq> Panic"
proof -
  let ?b = "tb_new\<lparr>tb_out := [1, 2], tb_out_eof := True\<rparr> :: nat tcp_stream_buf"
  have made: "demo_made ?b" by (rule made_use [OF made_new use_output])
  have "has_room 4 ?b" "has_room (length (tb_pending (tb_new :: nat tcp_stream_buf))) ?b"
    by (simp_all add: has_room_def tb_new_def tb_pending_def isize_max_def)
  from tcp_buffer_type_safe [OF exact_rt_ok script_write_ok script_read_ok made made_new this,
      of demo_world "[]"] made
  show ?thesis by (intro exI [of _ ?b]) simp
qed

end
