(* ===== verification/Echo_Server.thy ===== *)
theory Echo_Server
  imports Tcp_Link
begin

text \<open>
  examples/echo_server.rs, an application of the crate: the actor \<open>Echoer\<close>, which sends back on a
  TCP connection whatever it receives, one second later; and the actor \<open>Listener\<close>, which accepts
  the connections. The event loop around them is in \<open>Main_Loop\<close>.

  Stakker is not part of the repository. What a handler asks of it through its context \<open>cx\<close> is
  the list of its requests, in order; messages are replaced by one constructor for each text.
\<close>

section \<open>What the actors ask of Stakker\<close>

text \<open>\<open>Duration::from_secs\<close>, in nanoseconds.\<close>

definition secs :: "nat \<Rightarrow> nat" where
  "secs n = n * 1000000000"

text \<open>The errors given to \<open>fail!\<close>: the messages of the two actors and the type \<open>AbortError\<close>.\<close>

datatype actor_failure =
  ListenSetupFailed io_error
| ConnectionTimeout
| ChildAborted
| AcceptFailed io_error
| StreamSetupFailed io_error
| ReadFailure io_error
| WriteFailure io_error
| AbortError

text \<open>\<open>stakker::StopCause\<close>, the cause given to the handler of an actor's end.\<close>

datatype stop_cause = Stopped | Failed actor_failure | Killed actor_failure | Dropped | Lost

datatype echo_call = SendData bytes | SendEof

datatype echo_request = RqFail actor_failure | RqStop | RqAfter nat echo_call

section \<open>Echoer\<close>

record 's echoer =
  ec_tcp :: "'s tcp_stream_buf"

definition echoer_flush ::
  "('s, 'w) tcp_ops \<Rightarrow> 's echoer \<Rightarrow> echo_request list \<Rightarrow> 'w
    \<Rightarrow> ('s echoer \<times> echo_request list \<times> 'w) exec" where
  "echoer_flush T a rq w =
     ebind (tb_flush T (ec_tcp a) w) (\<lambda>(r, tcp, w').
       let rq1 = (case r of Inl e \<Rightarrow> rq @ [RqFail (WriteFailure e)] | Inr _ \<Rightarrow> rq);
           rq2 = (if tb_out_eof tcp \<and> tb_out tcp = [] then rq1 @ [RqStop] else rq1)
       in Some (Ret (a\<lparr>ec_tcp := tcp\<rparr>, rq2, w')))"

definition echoer_send_data ::
  "('s, 'w) tcp_ops \<Rightarrow> bytes \<Rightarrow> 's echoer \<Rightarrow> echo_request list \<Rightarrow> 'w
    \<Rightarrow> ('s echoer \<times> echo_request list \<times> 'w) exec" where
  "echoer_send_data T data a rq w =
     echoer_flush T (a\<lparr>ec_tcp := (ec_tcp a)\<lparr>tb_out := tb_out (ec_tcp a) @ data\<rparr>\<rparr>) rq w"

definition echoer_send_eof ::
  "('s, 'w) tcp_ops \<Rightarrow> 's echoer \<Rightarrow> echo_request list \<Rightarrow> 'w
    \<Rightarrow> ('s echoer \<times> echo_request list \<times> 'w) exec" where
  "echoer_send_eof T a rq w =
     echoer_flush T (a\<lparr>ec_tcp := (ec_tcp a)\<lparr>tb_out_eof := True\<rparr>\<rparr>) rq w"

text \<open>The bytes \<open>b'!'\<close> and \<open>b'%'\<close>.\<close>

abbreviation BANG :: u8 where "BANG \<equiv> 33"
abbreviation PERCENT :: u8 where "PERCENT \<equiv> 37"

definition check_special_chars ::
  "('s, 'w) tcp_ops \<Rightarrow> bytes \<Rightarrow> 's echoer \<Rightarrow> echo_request list \<Rightarrow> 'w
    \<Rightarrow> ('s echoer \<times> echo_request list \<times> 'w) exec" where
  "check_special_chars T data a rq w =
     ebind (if BANG \<in> set data
            then echoer_flush T (a\<lparr>ec_tcp := (ec_tcp a)\<lparr>tb_out_eof := True\<rparr>\<rparr>) rq w
            else Some (Ret (a, rq, w))) (\<lambda>(a1, rq1, w1).
       Some (Ret (a1, if PERCENT \<in> set data then rq1 @ [RqFail AbortError] else rq1, w1)))"

text \<open>The loop of \<open>ready\<close>: read and go on while there is new data, \<open>break\<close> after anything else.\<close>

partial_function (option) echoer_read_loop ::
  "rust_rt \<Rightarrow> ('s, 'w) tcp_ops \<Rightarrow> 's echoer \<Rightarrow> echo_request list \<Rightarrow> 'w
    \<Rightarrow> ('s echoer \<times> echo_request list \<times> 'w) exec" where
  "echoer_read_loop rt T a rq w =
     (case tb_read rt T 8192 (ec_tcp a) w of
        None \<Rightarrow> None
      | Some Panic \<Rightarrow> Some Panic
      | Some (Ret (NewData, tcp, w1)) \<Rightarrow>
          if tb_rd tcp \<le> tb_wr tcp \<and> tb_wr tcp \<le> length (tb_inp tcp) then
            let data = slice (tb_rd tcp) (tb_wr tcp) (tb_inp tcp) in
            (case check_special_chars T data (a\<lparr>ec_tcp := tcp\<lparr>tb_rd := tb_wr tcp\<rparr>\<rparr>) rq w1 of
               None \<Rightarrow> None
             | Some Panic \<Rightarrow> Some Panic
             | Some (Ret (a2, rq2, w2)) \<Rightarrow>
                 echoer_read_loop rt T a2 (rq2 @ [RqAfter (secs 1) (SendData data)]) w2)
          else Some Panic
      | Some (Ret (ReadWouldBlock, tcp, w1)) \<Rightarrow> Some (Ret (a\<lparr>ec_tcp := tcp\<rparr>, rq, w1))
      | Some (Ret (EndOfStream, tcp, w1)) \<Rightarrow>
          Some (Ret (a\<lparr>ec_tcp := tcp\<rparr>, rq @ [RqAfter (secs 1) SendEof], w1))
      | Some (Ret (ReadError e, tcp, w1)) \<Rightarrow>
          Some (Ret (a\<lparr>ec_tcp := tcp\<rparr>, rq @ [RqFail (ReadFailure e)], w1)))"

declare echoer_read_loop.simps [code]

definition echoer_ready ::
  "rust_rt \<Rightarrow> ('s, 'w) tcp_ops \<Rightarrow> ready \<Rightarrow> 's echoer \<Rightarrow> echo_request list \<Rightarrow> 'w
    \<Rightarrow> ('s echoer \<times> echo_request list \<times> 'w) exec" where
  "echoer_ready rt T ready a rq w =
     ebind (if is_readable ready then echoer_read_loop rt T a rq w else Some (Ret (a, rq, w)))
       (\<lambda>(a1, rq1, w1).
          if is_writable ready then echoer_flush T a1 rq1 w1 else Some (Ret (a1, rq1, w1)))"

text \<open>The calls that \<open>after!\<close> delays.\<close>

definition echoer_call ::
  "('s, 'w) tcp_ops \<Rightarrow> echo_call \<Rightarrow> 's echoer \<Rightarrow> echo_request list \<Rightarrow> 'w
    \<Rightarrow> ('s echoer \<times> echo_request list \<times> 'w) exec" where
  "echoer_call T call = (case call of SendData d \<Rightarrow> echoer_send_data T d | SendEof \<Rightarrow> echoer_send_eof T)"

section \<open>Creation of an Echoer\<close>

definition PORT :: "16 word" where "PORT = 7777"

text \<open>
  What the program uses of \<open>mio::net::TcpListener\<close>, with handles \<open>'l\<close> for listeners, \<open>'s\<close> for
  streams and \<open>'a\<close> for addresses (\<open>bind\<close> on a port of the local host), and the two \<open>Interest\<close> constants of mio.
\<close>

record ('l, 's, 'a, 'w) listen_ops =
  lo_bind :: "16 word \<Rightarrow> 'w \<Rightarrow> 'l io \<times> 'w"
  lo_accept :: "'l \<Rightarrow> 'w \<Rightarrow> ('s \<times> 'a) io \<times> 'w"
  lo_readable :: interest
  lo_writable :: interest

text \<open>\<open>fwd\<close> is the forward to \<open>ready()\<close> of the new actor, and the \<open>Control\<close> is that of the
  \<open>MioPoll\<close> which \<open>MioPoll::new\<close> put into the anymap.\<close>

definition echoer_setup ::
  "('l, 's, 'a, 'w) listen_ops \<Rightarrow> ('sl, 'f entry) slab_ops \<Rightarrow> ('s, 'w) source_ops \<Rightarrow> 'f \<Rightarrow> 's
    \<Rightarrow> ('sl, 'k) control \<times> 'w \<Rightarrow> ('s echoer io \<times> ('sl, 'k) control \<times> 'w) option" where
  "echoer_setup L S D fwd stream cw =
     (case mio_poll_add S D stream (lo_readable L OR lo_writable L) 10 fwd cw of
        None \<Rightarrow> None
      | Some (Inl e, cw1) \<Rightarrow> Some (Inl e, cw1)
      | Some (Inr source, cw1) \<Rightarrow>
          map_option (\<lambda>(tcp, cw2). (Inr \<lparr>ec_tcp = tcp\<rparr>, cw2)) (tb_init S D source tb_new cw1))"

definition echoer_init ::
  "('l, 's, 'a, 'w) listen_ops \<Rightarrow> ('sl, 'f entry) slab_ops \<Rightarrow> ('s, 'w) source_ops \<Rightarrow> 'f \<Rightarrow> 's
    \<Rightarrow> ('sl, 'k) control \<times> 'w
    \<Rightarrow> ('s echoer option \<times> echo_request list \<times> ('sl, 'k) control \<times> 'w) option" where
  "echoer_init L S D fwd stream cw =
     (case echoer_setup L S D fwd stream cw of
        None \<Rightarrow> None
      | Some (Inl e, cw1) \<Rightarrow> Some (None, [RqFail (StreamSetupFailed e)], cw1)
      | Some (Inr this, cw1) \<Rightarrow> Some (Some this, [], cw1))"

section \<open>Listener\<close>

text \<open>
  \<open>ActorOwnSlab\<close> and \<open>MaxTimerKey\<close> are values of Stakker, which may change its own state \<open>'st\<close>
  with them: \<open>actor_in_slab!\<close> adds a child that is created from a stream, and \<open>timer_max!\<close>
  creates the timer of a key or moves it to a later time.
\<close>

record ('s, 'ch, 'tk, 'st) actor_ops =
  ao_slab_new :: 'ch
  ao_key_default :: 'tk
  ao_actor_in_slab :: "'s \<Rightarrow> 'ch \<times> 'st \<Rightarrow> 'ch \<times> 'st"
  ao_timer_max :: "nat \<Rightarrow> 'tk \<times> 'st \<Rightarrow> 'tk \<times> 'st"

record ('l, 'ch, 'tk) listener =
  li_children :: 'ch
  li_listener :: "'l mio_source"
  li_inactivity :: 'tk

definition listener_activity ::
  "('s, 'ch, 'tk, 'st) actor_ops \<Rightarrow> nat \<Rightarrow> ('l, 'ch, 'tk) listener \<times> 'st
    \<Rightarrow> ('l, 'ch, 'tk) listener \<times> 'st" where
  "listener_activity A now = (\<lambda>(li, st).
     case ao_timer_max A (now + secs 60) (li_inactivity li, st) of (key, st1) \<Rightarrow>
       (li\<lparr>li_inactivity := key\<rparr>, st1))"

text \<open>The closure of the timer.\<close>

definition inactivity_expired :: "echo_request list" where
  "inactivity_expired = [RqFail ConnectionTimeout]"

text \<open>The handler of a child's end.\<close>

definition child_terminated :: "stop_cause \<Rightarrow> echo_request list" where
  "child_terminated cause =
     (case cause of
        Failed e \<Rightarrow> if e = AbortError then [RqFail ChildAborted] else []
      | _ \<Rightarrow> [])"

text \<open>An accepted connection: a new child, and activity.\<close>

definition adopt_child ::
  "('s, 'ch, 'tk, 'st) actor_ops \<Rightarrow> nat \<Rightarrow> 's \<Rightarrow> ('l, 'ch, 'tk) listener \<times> 'st
    \<Rightarrow> ('l, 'ch, 'tk) listener \<times> 'st" where
  "adopt_child A now stream = (\<lambda>(li, st).
     case ao_actor_in_slab A stream (li_children li, st) of (ch, st1) \<Rightarrow>
       listener_activity A now (li\<lparr>li_children := ch\<rparr>, st1))"

partial_function (option) listener_connect ::
  "('l, 's, 'a, 'w) listen_ops \<Rightarrow> ('s, 'ch, 'tk, 'st) actor_ops \<Rightarrow> nat
    \<Rightarrow> ('l, 'ch, 'tk) listener \<times> 'st \<Rightarrow> 'w
    \<Rightarrow> ((('l, 'ch, 'tk) listener \<times> 'st) \<times> echo_request list \<times> 'w) option" where
  "listener_connect L A now x w =
     (case lo_accept L (ms_source (li_listener (fst x))) w of (r, w1) \<Rightarrow>
        (case r of
           Inr (stream, addr) \<Rightarrow> listener_connect L A now (adopt_child A now stream x) w1
         | Inl e \<Rightarrow>
             if err_kind e = WouldBlock then Some (x, [], w1)
             else if err_kind e = Interrupted then listener_connect L A now x w1
             else Some (x, [RqFail (AcceptFailed e)], w1)))"

declare listener_connect.simps [code]

definition listener_setup ::
  "('l, 's, 'a, 'w) listen_ops \<Rightarrow> ('s, 'ch, 'tk, 'st) actor_ops \<Rightarrow> ('sl, 'f entry) slab_ops
    \<Rightarrow> ('l, 'w) source_ops \<Rightarrow> 'f \<Rightarrow> nat \<Rightarrow> 'st \<Rightarrow> ('sl, 'k) control \<times> 'w
    \<Rightarrow> (('l, 'ch, 'tk) listener io \<times> 'st \<times> ('sl, 'k) control \<times> 'w) option" where
  "listener_setup L A S D fwd now st = (\<lambda>(c, w).
     case lo_bind L PORT w of
       (Inl e, w1) \<Rightarrow> Some (Inl e, st, c, w1)
     | (Inr listen, w1) \<Rightarrow>
         (case mio_poll_add S D listen (lo_readable L) 10 fwd (c, w1) of
            None \<Rightarrow> None
          | Some (Inl e, cw) \<Rightarrow> Some (Inl e, st, cw)
          | Some (Inr source, cw) \<Rightarrow>
              (case listener_activity A now (\<lparr>li_children = ao_slab_new A, li_listener = source,
                      li_inactivity = ao_key_default A\<rparr>, st) of
                 (this, st1) \<Rightarrow> Some (Inr this, st1, cw))))"

definition listener_init ::
  "('l, 's, 'a, 'w) listen_ops \<Rightarrow> ('s, 'ch, 'tk, 'st) actor_ops \<Rightarrow> ('sl, 'f entry) slab_ops
    \<Rightarrow> ('l, 'w) source_ops \<Rightarrow> 'f \<Rightarrow> nat \<Rightarrow> 'st \<Rightarrow> ('sl, 'k) control \<times> 'w
    \<Rightarrow> (('l, 'ch, 'tk) listener option \<times> echo_request list \<times> 'st \<times> ('sl, 'k) control \<times> 'w) option" where
  "listener_init L A S D fwd now st cw =
     (case listener_setup L A S D fwd now st cw of
        None \<Rightarrow> None
      | Some (Inl e, st1, cw1) \<Rightarrow> Some (None, [RqFail (ListenSetupFailed e)], st1, cw1)
      | Some (Inr this, st1, cw1) \<Rightarrow> Some (Some this, [], st1, cw1))"

end
