(* ===== verification/Echo_Actor.thy ===== *)
theory Echo_Actor
  imports Echo_Server
begin

text \<open>
  What the handlers of \<open>Echoer\<close> do, as one postcondition \<open>echo_post\<close> that they share: the bytes
  read are asked to be sent back later and nothing else, output is moved to the stream in order,
  the actor asks to be stopped only when its output is complete, and its input buffer stays the
  one allocation it started with.
\<close>

section \<open>The stream\<close>

text \<open>
  What the actor relies on: the contracts of \<open>Write\<close> and \<open>Read\<close>, the two directions of the stream
  being independent of each other, and \<open>Ok(0)\<close> of a read being final (\<open>ended\<close>).
\<close>

definition echo_stream ::
  "('s, 'w) tcp_ops \<Rightarrow> ('s \<Rightarrow> 'w \<Rightarrow> bytes) \<Rightarrow> ('s \<Rightarrow> 'w \<Rightarrow> bytes) \<Rightarrow> ('w \<Rightarrow> bool) \<Rightarrow> 's \<Rightarrow> bool" where
  "echo_stream T tx rx ended s \<longleftrightarrow>
     tcp_write_ok T tx \<and> tcp_read_ok T rx \<and>
     (\<forall>v. sender_keeps T s (\<lambda>w. rx s w = v)) \<and> (\<forall>v. receiver_keeps T s (\<lambda>w. tx s w = v)) \<and>
     sender_keeps T s ended \<and> receiver_keeps T s ended \<and>
     (\<forall>buf w n buf' w'. tcp_read T s buf w = (Inr n, buf', w') \<longrightarrow>
        (ended w \<longrightarrow> n = 0) \<and> (n = 0 \<and> buf \<noteq> [] \<longrightarrow> ended w'))"

lemma echo_streamD:
  assumes "echo_stream T tx rx ended s"
  shows "tcp_write_ok T tx" "tcp_read_ok T rx" "sender_keeps T s (\<lambda>w. rx s w = v)"
    "receiver_keeps T s (\<lambda>w. tx s w = v)" "sender_keeps T s ended" "receiver_keeps T s ended"
    "tcp_read T s buf w = (Inr n, buf', w') \<Longrightarrow> ended w \<Longrightarrow> n = 0"
    "tcp_read T s buf w = (Inr 0, buf', w') \<Longrightarrow> buf \<noteq> [] \<Longrightarrow> ended w'"
  using assms unfolding echo_stream_def by blast+

section \<open>Reading into an empty buffer\<close>

text \<open>
  The input buffer of the actor between its calls: nothing unread, and either never used or the
  one allocation made by the first \<open>read(8192)\<close>, which asks for twice as much.
\<close>

definition echo_alloc :: "rust_rt \<Rightarrow> nat" where
  "echo_alloc rt = vec_grow rt 0 0 16384"

definition echo_space :: "rust_rt \<Rightarrow> 's tcp_stream_buf \<Rightarrow> bool" where
  "echo_space rt b \<longleftrightarrow> tb_inp b = [] \<and> tb_inp_cap b = 0 \<or>
     length (tb_inp b) = echo_alloc rt \<and> tb_inp_cap b = echo_alloc rt"

definition echo_buf :: "rust_rt \<Rightarrow> 's mio_source \<Rightarrow> 's tcp_stream_buf \<Rightarrow> bool" where
  "echo_buf rt ms b \<longleftrightarrow> tb_stream b = Some ms \<and> \<not> tb_pause b \<and> tb_wf b \<and> tb_rd b = tb_wr b \<and>
     tb_wr b \<le> 8192 \<and> echo_space rt b"

lemma echo_alloc_bounds:
  assumes "vec_grow_ok rt"
  shows "16384 \<le> echo_alloc rt" "echo_alloc rt \<le> isize_max"
proof -
  have "0 + 16384 \<le> isize_max" by (simp add: isize_max_def)
  then show "16384 \<le> echo_alloc rt" "echo_alloc rt \<le> isize_max"
    using assms unfolding vec_grow_ok_def echo_alloc_def by fastforce+
qed

lemma makespace_empty:
  assumes b: "echo_buf rt ms b" and rt: "vec_grow_ok rt"
  obtains b1 where "tb_inp_makespace rt 8192 b = Ret b1" "tb_rd b1 = 0" "tb_wr b1 = 0"
    "length (tb_inp b1) = echo_alloc rt" "tb_inp_cap b1 = echo_alloc rt" "same_io b b1"
proof -
  note al = echo_alloc_bounds [OF rt]
  have add: "usize_add rt 0 8192 = Ret 8192" and mul: "usize_mul rt 8192 2 = Ret 16384"
    by (simp_all add: usize_simps usize_bound_def)
  let ?r = "b\<lparr>tb_rd := 0, tb_wr := 0\<rparr>"
  have restart: "makespace_restart b = ?r" using b by (simp add: makespace_restart_def echo_buf_def)
  consider (fresh) "tb_inp b = []" "tb_inp_cap b = 0"
    | (used) "length (tb_inp b) = echo_alloc rt" "tb_inp_cap b = echo_alloc rt"
    using b by (auto simp: echo_buf_def echo_space_def)
  then show thesis
  proof cases
    case used
    with al add show thesis
      by (intro that [of ?r]) (simp_all add: tb_inp_makespace_def restart same_io_def)
  next
    case fresh
    have reserve: "vec_reserve rt 0 0 16384 = Ret (echo_alloc rt)"
      by (simp add: vec_reserve_def isize_max_def echo_alloc_def)
    let ?b = "?r\<lparr>tb_inp := vec_resize (echo_alloc rt) 0 [], tb_inp_cap := echo_alloc rt\<rparr>"
    have "makespace_grow rt 8192 ?r = Ret ?b"
      using fresh reserve by (simp add: makespace_grow_def add mul Let_def)
    then have "tb_inp_makespace rt 8192 b = Ret ?b"
      using fresh by (simp add: tb_inp_makespace_def restart add Let_def)
    then show thesis
      by (intro that [of ?b]) (simp_all add: same_io_def vec_resize_def)
  qed
qed

text \<open>What the loop of \<open>read\<close> leaves alone, and that it respects the end of the stream.\<close>

lemma read_loop_frame:
  assumes "read_loop rt T s e b w = Some (Ret (st, b', w'))" "tcp_read_ok T rx"
  shows "tb_rd b' = tb_rd b \<and> length (tb_inp b') = length (tb_inp b) \<and> tb_inp_cap b' = tb_inp_cap b"
proof -
  have "tcp_read_ok T rx \<longrightarrow> (\<forall>y. Ret (st, b', w') = Ret y \<longrightarrow> tb_rd (fst (snd y)) = tb_rd b \<and>
      length (tb_inp (fst (snd y))) = length (tb_inp b) \<and> tb_inp_cap (fst (snd y)) = tb_inp_cap b)"
  proof (rule read_loop.raw_induct [OF _ assms(1), where P = "\<lambda>rt T s e b w res.
      tcp_read_ok T rx \<longrightarrow> (\<forall>y. res = Ret y \<longrightarrow> tb_rd (fst (snd y)) = tb_rd b \<and>
        length (tb_inp (fst (snd y))) = length (tb_inp b) \<and> tb_inp_cap (fst (snd y)) = tb_inp_cap b)"],
      intro impI, goal_cases)
    case (1 rec rt T s e b w res)
    obtain r buf w1 where call: "tcp_read T s (slice (tb_wr b) e (tb_inp b)) w = (r, buf, w1)"
      using prod_cases3 by blast
    show ?case
    proof (cases "tb_wr b \<le> e \<and> e \<le> length (tb_inp b)")
      case True
      then have "length (overwrite (tb_wr b) buf (tb_inp b)) = length (tb_inp b)"
        using tcp_read_okD(1) [OF 1(3) call] by simp
      with 1(2,3) call True show ?thesis
        by (cases r) (auto simp: Let_def split: if_splits outcome.splits dest!: 1(1))
    qed (use 1(2) in auto)
  qed
  with assms(2) show ?thesis by simp
qed

lemma read_loop_ended:
  assumes "read_loop rt T s e b w = Some (Ret (st, b', w'))" "echo_stream T tx rx ended s"
    and "tb_wr b < e"
  shows "(ended w \<longrightarrow> ended w' \<and> st \<noteq> NewData) \<and> (st = EndOfStream \<longrightarrow> ended w')"
proof -
  have "echo_stream T tx rx ended s \<longrightarrow> tb_wr b < e \<longrightarrow> (\<forall>y. Ret (st, b', w') = Ret y \<longrightarrow>
      (ended w \<longrightarrow> ended (snd (snd y)) \<and> fst y \<noteq> NewData) \<and> (fst y = EndOfStream \<longrightarrow> ended (snd (snd y))))"
  proof (rule read_loop.raw_induct [OF _ assms(1), where P = "\<lambda>rt T s e b w res.
      echo_stream T tx rx ended s \<longrightarrow> tb_wr b < e \<longrightarrow> (\<forall>y. res = Ret y \<longrightarrow>
      (ended w \<longrightarrow> ended (snd (snd y)) \<and> fst y \<noteq> NewData) \<and> (fst y = EndOfStream \<longrightarrow> ended (snd (snd y))))"],
      intro impI, goal_cases)
    case (1 rec rt T s e b w res)
    obtain r buf w1 where call: "tcp_read T s (slice (tb_wr b) e (tb_inp b)) w = (r, buf, w1)"
      using prod_cases3 by blast
    show ?case
    proof (cases "tb_wr b \<le> e \<and> e \<le> length (tb_inp b)")
      case True
      with 1(4) have "slice (tb_wr b) e (tb_inp b) \<noteq> []" by (simp add: slice_eq_Nil)
      with echo_streamD(7,8) [OF 1(3)] call
      have fin: "\<And>n. r = Inr n \<Longrightarrow> ended w \<Longrightarrow> n = 0" "r = Inr 0 \<Longrightarrow> ended w1" by blast+
      have keep: "ended w \<longrightarrow> ended w1"
        using echo_streamD(6) [OF 1(3)] call unfolding receiver_keeps_def by (metis snd_conv)
      from 1(2-4) call keep fin True show ?thesis
        by (cases r) (auto simp: Let_def split: if_splits outcome.splits dest!: 1(1))
    qed (use 1(2) in auto)
  qed
  with assms(2,3) show ?thesis by simp
qed

text \<open>One read of the actor: \<open>new\<close> are the bytes it got, and the buffer's whole contents.\<close>

lemma echo_read:
  assumes b: "echo_buf rt ms b" and rt: "vec_grow_ok rt"
    and T: "echo_stream T tx rx ended (ms_source ms)"
    and run: "tb_read rt T 8192 b w = Some res"
  obtains st b' w' where "res = Ret (st, b', w')" "tb_rd b' = 0" "tb_wr b' \<le> 8192"
    "tb_wr b' \<le> length (tb_inp b')" "tb_pending b' \<noteq> [] \<longleftrightarrow> st = NewData"
    "rx (ms_source ms) w' = rx (ms_source ms) w @ tb_pending b'"
    "tx (ms_source ms) w' = tx (ms_source ms) w" "same_io b (b'\<lparr>tb_inp_eof := tb_inp_eof b\<rparr>)"
    "echo_buf rt ms (b'\<lparr>tb_rd := tb_wr b'\<rparr>)"
    "st \<noteq> NewData \<Longrightarrow> echo_buf rt ms b'"
    "ended w \<Longrightarrow> ended w' \<and> st \<noteq> NewData" "st = EndOfStream \<Longrightarrow> ended w'"
proof -
  note B = b [unfolded echo_buf_def]
  obtain b1 where sp: "tb_inp_makespace rt 8192 b = Ret b1" "tb_rd b1 = 0" "tb_wr b1 = 0"
    "length (tb_inp b1) = echo_alloc rt" "tb_inp_cap b1 = echo_alloc rt" "same_io b b1"
    by (rule makespace_empty [OF b rt])
  have "usize_add rt 0 8192 = Ret 8192" by (simp add: usize_simps usize_bound_def)
  with run sp B have loop: "read_loop rt T (ms_source ms) 8192 b1 w = Some res"
    by (simp add: tb_read_def same_io_def)
  have room: "tb_wr b + 8192 \<le> isize_max" "2 * 8192 \<le> isize_max"
    using B by (simp_all add: isize_max_def)
  have strm: "tb_stream b = Some ms" and wf: "tb_wf b" using B by simp_all
  from tb_read_post [OF wf rt room echo_streamD(2) [OF T] strm run] obtain st b' w' where
    res: "res = Ret (st, b', w')" and post: "read_post 8192 rx (ms_source ms) b w st b' w'" by blast
  note loop = loop [unfolded res]
  have nil: "tb_pending b = []" using B by (simp add: tb_pending_def)
  with post have p: "length (tb_pending b') \<le> 8192"
    "rx (ms_source ms) w' = rx (ms_source ms) w @ tb_pending b'" "tb_pending b' \<noteq> [] \<longleftrightarrow> st = NewData"
    "tb_wf b'" "same_io b (b'\<lparr>tb_inp_eof := tb_inp_eof b\<rparr>)"
    by (auto simp: read_post_def)
  from read_loop_frame [OF loop echo_streamD(2) [OF T]] sp have fr: "tb_rd b' = 0"
    "length (tb_inp b') = echo_alloc rt" "tb_inp_cap b' = echo_alloc rt" by simp_all
  have wr: "tb_wr b' \<le> 8192" using length_pending [OF p(4)] p(1) fr(1) by simp
  have strm': "tb_stream b' = Some ms" "\<not> tb_pause b'" using p(5) B by (simp_all add: same_io_def)
  have buf: "echo_buf rt ms (b'\<lparr>tb_rd := tb_wr b'\<rparr>)"
    using p(4) wr fr(2,3) strm' by (simp add: echo_buf_def tb_wf_def echo_space_def)
  have done_buf: "echo_buf rt ms b'" if "st \<noteq> NewData"
  proof -
    have "tb_wr b' = 0" using that p(3) length_pending [OF p(4)] fr(1) by simp
    with p(4) fr strm' show ?thesis by (simp add: echo_buf_def echo_space_def)
  qed
  have "tx (ms_source ms) w' = tx (ms_source ms) w"
    by (rule read_loop_keeps [OF loop echo_streamD(4) [OF T]]) simp
  moreover have "(ended w \<longrightarrow> ended w' \<and> st \<noteq> NewData) \<and> (st = EndOfStream \<longrightarrow> ended w')"
    by (rule read_loop_ended [OF loop T]) (simp add: sp)
  ultimately show thesis
    using that [OF res fr(1) wr _ p(3,2) _ p(5) buf done_buf] tb_wfD(2) [OF p(4)] by blast
qed

section \<open>The postcondition\<close>

fun rq_calls :: "echo_request list \<Rightarrow> (nat \<times> echo_call) list" where
  "rq_calls [] = []"
| "rq_calls (RqAfter d c # rq) = (d, c) # rq_calls rq"
| "rq_calls (RqFail e # rq) = rq_calls rq"
| "rq_calls (RqStop # rq) = rq_calls rq"

lemma rq_calls_append [simp]: "rq_calls (xs @ ys) = rq_calls xs @ rq_calls ys"
  by (induction xs rule: rq_calls.induct) auto

text \<open>The delayed calls that bring back the chunks \<open>ds\<close>, and then end the output \<open>e\<close> times.\<close>

definition echo_calls :: "bytes list \<Rightarrow> nat \<Rightarrow> (nat \<times> echo_call) list" where
  "echo_calls ds e = map (\<lambda>d. (secs 1, SendData d)) ds @ replicate e (secs 1, SendEof)"

lemma echo_calls_simps [simp]:
  "echo_calls [] 0 = []" "echo_calls [d] 0 = [(secs 1, SendData d)]"
  "echo_calls [] (Suc e) = (secs 1, SendEof) # echo_calls [] e"
  by (simp_all add: echo_calls_def)

lemma echo_calls_append:
  "0 < e \<longrightarrow> ds' = [] \<Longrightarrow> echo_calls ds e @ echo_calls ds' e' = echo_calls (ds @ ds') (e + e')"
  by (cases "e = 0") (auto simp: echo_calls_def replicate_add)

text \<open>
  After a handler: \<open>ds\<close> are the chunks read, each to be sent a second later; output has moved to
  the stream in order; \<open>out_eof\<close> is set only by a \<open>'!'\<close> among the chunks; the actor asks to be
  stopped only with its output complete, and does so on a \<open>'!'\<close> if there is no output.
\<close>

definition echo_post ::
  "rust_rt \<Rightarrow> ('s \<Rightarrow> 'w \<Rightarrow> bytes) \<Rightarrow> ('s \<Rightarrow> 'w \<Rightarrow> bytes) \<Rightarrow> ('w \<Rightarrow> bool) \<Rightarrow> 's mio_source
    \<Rightarrow> 's echoer \<Rightarrow> 'w \<Rightarrow> 's echoer \<Rightarrow> echo_request list \<Rightarrow> 'w \<Rightarrow> bytes list \<Rightarrow> nat \<Rightarrow> bool" where
  "echo_post rt tx rx ended ms a w a' new w' ds e \<longleftrightarrow>
     echo_buf rt ms (ec_tcp a') \<and> rq_calls new = echo_calls ds e \<and>
     rx (ms_source ms) w' = rx (ms_source ms) w @ concat ds \<and>
     tx (ms_source ms) w' @ tb_out (ec_tcp a') = tx (ms_source ms) w @ tb_out (ec_tcp a) \<and>
     (ended w \<longrightarrow> ended w' \<and> ds = []) \<and> (0 < e \<longrightarrow> ended w') \<and>
     (tb_out_eof (ec_tcp a') \<longleftrightarrow> tb_out_eof (ec_tcp a) \<or> BANG \<in> set (concat ds)) \<and>
     (RqStop \<in> set new \<longrightarrow> tb_out (ec_tcp a') = [] \<and> tb_out_eof (ec_tcp a')) \<and>
     (tb_out (ec_tcp a) = [] \<longrightarrow>
        tb_out (ec_tcp a') = [] \<and> (BANG \<in> set (concat ds) \<longrightarrow> RqStop \<in> set new))"

lemma echo_post_refl:
  "echo_buf rt ms (ec_tcp a) \<Longrightarrow> echo_post rt tx rx ended ms a w a [] w [] 0"
  by (simp add: echo_post_def)

lemma echo_post_trans:
  assumes "echo_post rt tx rx ended ms a w a1 new1 w1 ds1 e1"
    and "echo_post rt tx rx ended ms a1 w1 a2 new2 w2 ds2 e2"
  shows "echo_post rt tx rx ended ms a w a2 (new1 @ new2) w2 (ds1 @ ds2) (e1 + e2)"
proof -
  have "0 < e1 \<longrightarrow> ds2 = []" using assms by (auto simp: echo_post_def)
  from echo_calls_append [OF this, of ds1 e2] assms show ?thesis
    by (auto simp: echo_post_def)
qed

text \<open>A handler: it does not panic, adds to the requests, and what it did satisfies \<open>P\<close>.\<close>

definition handled ::
  "('s echoer \<Rightarrow> echo_request list \<Rightarrow> 'w \<Rightarrow> bool) \<Rightarrow> echo_request list
    \<Rightarrow> ('s echoer \<times> echo_request list \<times> 'w) exec \<Rightarrow> bool" where
  "handled P rq m \<longleftrightarrow> m \<noteq> Some Panic \<and>
     (\<forall>a' rq' w'. m = Some (Ret (a', rq', w')) \<longrightarrow> (\<exists>new. rq' = rq @ new \<and> P a' new w'))"

lemma handled_mono: "handled P rq m \<Longrightarrow> (\<And>a new w. P a new w \<Longrightarrow> Q a new w) \<Longrightarrow> handled Q rq m"
  unfolding handled_def by blast

lemma handled_Ret: "handled P rq (Some (Ret (a, rq @ new, w))) \<longleftrightarrow> P a new w"
  by (auto simp: handled_def)

lemma handled_bind:
  assumes "handled P rq m"
    and "\<And>a new w. P a new w \<Longrightarrow> handled (\<lambda>a' new' w'. Q a' (new @ new') w') (rq @ new) (k a (rq @ new) w)"
  shows "handled Q rq (ebind m (\<lambda>(a, rq, w). k a rq w))"
  using assms unfolding handled_def
  by (cases m; cases "the m"; fastforce)

section \<open>Flushing\<close>

lemma tb_flush_nil:
  assumes "tb_flush T b w = Some (Ret (r, b', w'))" "tb_out b = []"
  shows "tb_out b' = []"
proof -
  have nd: "tb_out c' = []" if "flush_nodelay T s c v = Some (Ret (x, c', v'))" "tb_out c = []"
    for s c v x c' v'
    using that by (auto simp: flush_nodelay_def split: if_splits)
  have wr: "tb_out c' = []" if "flush_write T s c v = Some (Ret (x, c', v'))" "tb_out c = []"
    for s c v x c' v'
    using that by (auto simp: flush_write_def ebind_eq_Ret write_loop.simps)
  have fl: "tb_out c' = []" if "flush_stream T s c v = Some (Ret (x, c', v'))" "tb_out c = []"
    for s c v x c' v'
    using that by (auto simp: flush_stream_def)
  have eof: "tb_out c' = []" if "flush_eof T s c v = Some (Ret (x, c', v'))" "tb_out c = []"
    for s c v x c' v'
    using that
    by (cases "ok_or_block_loop (tcp_shutdown_write T s) v")
       (auto simp: flush_eof_def and_then_def split: if_splits loop_exit.splits)
  have step: "tb_out c' = []" if "and_then m k = Some (Ret (x, c', v'))"
    "\<And>x c v. m = Some (Ret (x, c, v)) \<Longrightarrow> tb_out c = []"
    "\<And>x c v c' v'. k c v = Some (Ret (x, c', v')) \<Longrightarrow> tb_out c = [] \<Longrightarrow> tb_out c' = []"
    for m :: "(loop_exit \<times> 'a tcp_stream_buf \<times> 'b) exec" and k x c' v'
    using that by (cases m rule: and_then_cases) auto
  from assms show ?thesis
    by (auto simp: tb_flush_def split: if_splits option.splits elim!: step dest: nd wr fl eof)
qed

lemma echo_buf_frame: "echo_buf rt ms b \<Longrightarrow> flush_frame b b' \<Longrightarrow> echo_buf rt ms b'"
  by (simp add: echo_buf_def flush_frame_def tb_wf_def echo_space_def)

lemma echo_buf_out [simp]:
  "echo_buf rt ms (b\<lparr>tb_out := d\<rparr>) = echo_buf rt ms b"
  "echo_buf rt ms (b\<lparr>tb_out_eof := x\<rparr>) = echo_buf rt ms b"
  by (simp_all add: echo_buf_def tb_wf_def echo_space_def)

lemma echoer_flush_post:
  assumes a: "echo_buf rt ms (ec_tcp a)" and T: "echo_stream T tx rx ended (ms_source ms)"
  shows "handled (\<lambda>a' new w'. echo_post rt tx rx ended ms a w a' new w' [] 0 \<and>
    (tb_out_eof (ec_tcp a) \<and> tb_out (ec_tcp a) = [] \<longrightarrow> RqStop \<in> set new)) rq
    (echoer_flush T a rq w)"
proof -
  let ?s = "ms_source ms"
  have strm: "tb_stream (ec_tcp a) = Some ms" using a by (simp add: echo_buf_def)
  have ok: "flush_ok tx ?s (ec_tcp a) w (tb_flush T (ec_tcp a) w)"
    by (rule tb_flush_ok [OF echo_streamD(1) [OF T] strm])
  show ?thesis
  proof (cases "tb_flush T (ec_tcp a) w")
    case None
    then show ?thesis by (simp add: echoer_flush_def handled_def)
  next
    case (Some res)
    with ok obtain r b' w' where res: "res = Ret (r, b', w')"
      by (cases res) (auto simp: flush_ok_def)
    note run = Some [unfolded res]
    let ?new = "(case r of Inl e \<Rightarrow> [RqFail (WriteFailure e)] | Inr _ \<Rightarrow> []) @
      (if tb_out_eof b' \<and> tb_out b' = [] then [RqStop] else [])"
    have "flush_rel tx ?s (ec_tcp a) w b' w'" using ok run by (simp add: flush_ok_def)
    moreover have "rx ?s w' = rx ?s w"
      by (rule tb_flush_keeps [OF run strm echo_streamD(3) [OF T]]) simp
    moreover have "ended w \<longrightarrow> ended w'"
      using tb_flush_keeps [OF run strm echo_streamD(5) [OF T]] by blast
    ultimately have "echo_post rt tx rx ended ms a w (a\<lparr>ec_tcp := b'\<rparr>) ?new w' [] 0 \<and>
        (tb_out_eof (ec_tcp a) \<and> tb_out (ec_tcp a) = [] \<longrightarrow> RqStop \<in> set ?new)"
      using a tb_flush_nil [OF run]
      by (auto simp: echo_post_def flush_rel_def intro: echo_buf_frame split: sum.splits)
        (simp_all add: flush_frame_def)
    moreover have "echoer_flush T a rq w = Some (Ret (a\<lparr>ec_tcp := b'\<rparr>, rq @ ?new, w'))"
      by (simp add: echoer_flush_def run Let_def split: sum.splits)
    ultimately show ?thesis by (simp only: handled_Ret) blast
  qed
qed

lemma check_special_chars_post:
  fixes data :: bytes
  assumes a: "echo_buf rt ms (ec_tcp a)" and T: "echo_stream T tx rx ended (ms_source ms)"
  defines "a0 \<equiv> a\<lparr>ec_tcp := (ec_tcp a)\<lparr>tb_out_eof := tb_out_eof (ec_tcp a) \<or> BANG \<in> set data\<rparr>\<rparr>"
  shows "handled (\<lambda>a' new w'. echo_post rt tx rx ended ms a0 w a' new w' [] 0 \<and>
    (BANG \<in> set data \<and> tb_out (ec_tcp a) = [] \<longrightarrow> RqStop \<in> set new)) rq
    (check_special_chars T data a rq w)"
proof -
  have a0: "echo_buf rt ms (ec_tcp a0)" using a by (simp add: a0_def)
  have "handled (\<lambda>a' new w'. echo_post rt tx rx ended ms a0 w a' new w' [] 0 \<and>
    (BANG \<in> set data \<and> tb_out (ec_tcp a) = [] \<longrightarrow> RqStop \<in> set new)) rq
     (if BANG \<in> set data
      then echoer_flush T (a\<lparr>ec_tcp := (ec_tcp a)\<lparr>tb_out_eof := True\<rparr>\<rparr>) rq w
      else Some (Ret (a, rq, w)))"
  proof (cases "BANG \<in> set data")
    case True
    with echoer_flush_post [OF a0 T, of w rq] show ?thesis by (simp add: a0_def)
  next
    case False
    then show ?thesis using handled_Ret [of _ rq a "[]" w] echo_post_refl [OF a0] by (simp add: a0_def)
  qed
  then show ?thesis
    unfolding check_special_chars_def
  proof (rule handled_bind)
    fix a' new w'
    assume "echo_post rt tx rx ended ms a0 w a' new w' [] 0 \<and>
      (BANG \<in> set data \<and> tb_out (ec_tcp a) = [] \<longrightarrow> RqStop \<in> set new)"
    then show "handled (\<lambda>a'' new' w''. echo_post rt tx rx ended ms a0 w a'' (new @ new') w'' [] 0 \<and>
        (BANG \<in> set data \<and> tb_out (ec_tcp a) = [] \<longrightarrow> RqStop \<in> set (new @ new')))
       (rq @ new) (Some (Ret (a', if PERCENT \<in> set data then (rq @ new) @ [RqFail AbortError]
         else rq @ new, w')))"
      by (auto simp: handled_def echo_post_def)
  qed
qed

section \<open>The handlers\<close>

abbreviation echo_some ::
  "rust_rt \<Rightarrow> ('s \<Rightarrow> 'w \<Rightarrow> bytes) \<Rightarrow> ('s \<Rightarrow> 'w \<Rightarrow> bytes) \<Rightarrow> ('w \<Rightarrow> bool) \<Rightarrow> 's mio_source
    \<Rightarrow> 's echoer \<Rightarrow> 'w \<Rightarrow> 's echoer \<Rightarrow> echo_request list \<Rightarrow> 'w \<Rightarrow> bool" where
  "echo_some rt tx rx ended ms a w a' new w' \<equiv>
     \<exists>ds e. echo_post rt tx rx ended ms a w a' new w' ds e"

text \<open>A read, its effect on the buffer, and the check of the characters, up to the next turn.\<close>

lemma echo_chunk:
  assumes a: "echo_buf rt ms (ec_tcp a)" and rt: "vec_grow_ok rt"
    and T: "echo_stream T tx rx ended (ms_source ms)"
    and read: "tb_read rt T 8192 (ec_tcp a) w = Some (Ret (NewData, tcp, w1))"
    and check: "check_special_chars T (tb_pending tcp) (a\<lparr>ec_tcp := tcp\<lparr>tb_rd := tb_wr tcp\<rparr>\<rparr>) rq w1 =
      Some (Ret (a2, rq2, w2))"
  obtains new where "rq2 @ [RqAfter (secs 1) (SendData (tb_pending tcp))] = rq @ new"
    "echo_post rt tx rx ended ms a w a2 new w2 [tb_pending tcp] 0" "tb_pending tcp \<noteq> []"
proof -
  obtain b' where r: "tb_rd tcp = 0" "tb_pending tcp \<noteq> []"
    "rx (ms_source ms) w1 = rx (ms_source ms) w @ tb_pending tcp"
    "tx (ms_source ms) w1 = tx (ms_source ms) w"
    "same_io (ec_tcp a) (tcp\<lparr>tb_inp_eof := tb_inp_eof (ec_tcp a)\<rparr>)"
    "echo_buf rt ms (tcp\<lparr>tb_rd := tb_wr tcp\<rparr>)" "\<not> ended w"
    by (rule echo_read [OF a rt T read]) auto
  let ?a = "a\<lparr>ec_tcp := tcp\<lparr>tb_rd := tb_wr tcp\<rparr>\<rparr>"
  have "echo_buf rt ms (ec_tcp ?a)" using r(6) by simp
  from check_special_chars_post [OF this T, of "tb_pending tcp" w1 rq] check obtain new where
    new: "rq2 = rq @ new" "echo_post rt tx rx ended ms (?a\<lparr>ec_tcp := (ec_tcp ?a)\<lparr>tb_out_eof :=
        tb_out_eof (ec_tcp ?a) \<or> BANG \<in> set (tb_pending tcp)\<rparr>\<rparr>) w1 a2 new w2 [] 0"
      "BANG \<in> set (tb_pending tcp) \<and> tb_out tcp = [] \<longrightarrow> RqStop \<in> set new"
    by (auto simp: handled_def)
  have "echo_post rt tx rx ended ms a w a2 (new @ [RqAfter (secs 1) (SendData (tb_pending tcp))]) w2
      [tb_pending tcp] 0"
    using new(2,3) r by (auto simp: echo_post_def same_io_def)
  with new(1) r(2) show thesis by (intro that) simp_all
qed

lemma echoer_read_loop_post:
  assumes "echo_buf rt ms (ec_tcp a)" and rt: "vec_grow_ok rt"
    and T: "echo_stream T tx rx ended (ms_source ms)"
  shows "handled (echo_some rt tx rx ended ms a w) rq (echoer_read_loop rt T a rq w)"
proof (cases "echoer_read_loop rt T a rq w")
  case None
  then show ?thesis by (simp add: handled_def)
next
  case (Some res)
  have "vec_grow_ok rt \<longrightarrow> echo_stream T tx rx ended (ms_source ms) \<longrightarrow> echo_buf rt ms (ec_tcp a) \<longrightarrow>
    handled (echo_some rt tx rx ended ms a w) rq (Some res)"
  proof (rule echoer_read_loop.raw_induct [OF _ Some, where P = "\<lambda>rt T a rq w res.
      vec_grow_ok rt \<longrightarrow> echo_stream T tx rx ended (ms_source ms) \<longrightarrow> echo_buf rt ms (ec_tcp a) \<longrightarrow>
      handled (echo_some rt tx rx ended ms a w) rq (Some res)"], intro impI, goal_cases)
    case (1 rec rt T a rq w res)
    note IH = 1(1) and step = 1(2) and rt = 1(3) and T = 1(4) and a = 1(5)
    obtain st tcp w1 where read: "tb_read rt T 8192 (ec_tcp a) w = Some (Ret (st, tcp, w1))"
    proof (cases "tb_read rt T 8192 (ec_tcp a) w")
      case None
      with step show thesis by simp
    next
      case (Some x)
      then show thesis by (rule echo_read [OF a rt T]) (use Some that in auto)
    qed
    obtain st' b' w' where r: "st' = st" "b' = tcp" "w' = w1" "tb_rd tcp = 0"
      "tb_wr tcp \<le> length (tb_inp tcp)" "tb_pending tcp \<noteq> [] \<longleftrightarrow> st = NewData"
      "rx (ms_source ms) w1 = rx (ms_source ms) w @ tb_pending tcp"
      "tx (ms_source ms) w1 = tx (ms_source ms) w"
      "same_io (ec_tcp a) (tcp\<lparr>tb_inp_eof := tb_inp_eof (ec_tcp a)\<rparr>)"
      "st \<noteq> NewData \<Longrightarrow> echo_buf rt ms tcp" "ended w \<longrightarrow> ended w1" "st = EndOfStream \<longrightarrow> ended w1"
      by (rule echo_read [OF a rt T read]) auto
    show ?case
    proof (cases "st = NewData")
      case False
      let ?new = "case st of EndOfStream \<Rightarrow> [RqAfter (secs 1) SendEof]
        | ReadError e \<Rightarrow> [RqFail (ReadFailure e)] | _ \<Rightarrow> []"
      have "echo_post rt tx rx ended ms a w (a\<lparr>ec_tcp := tcp\<rparr>) ?new w1 []
          (if st = EndOfStream then 1 else 0)"
        using r(4-) False by (auto simp: echo_post_def same_io_def split: read_status.splits)
      moreover have "Some res = Some (Ret (a\<lparr>ec_tcp := tcp\<rparr>, rq @ ?new, w1))"
        using step read False by (auto split: read_status.splits)
      ultimately show ?thesis by (simp only: handled_Ret) blast
    next
      case True
      let ?d = "tb_pending tcp"
      let ?check = "check_special_chars T ?d (a\<lparr>ec_tcp := tcp\<lparr>tb_rd := tb_wr tcp\<rparr>\<rparr>) rq w1"
      have "echo_buf rt ms (ec_tcp (a\<lparr>ec_tcp := tcp\<lparr>tb_rd := tb_wr tcp\<rparr>\<rparr>))"
        by (rule echo_read [OF a rt T read]) auto
      from check_special_chars_post [OF this T, of ?d w1 rq] have "?check \<noteq> Some Panic"
        by (simp add: handled_def)
      with step read True r(4,5) obtain a2 rq2 w2 where check: "?check = Some (Ret (a2, rq2, w2))"
        and rec: "rec rt T a2 (rq2 @ [RqAfter (secs 1) (SendData ?d)]) w2 = Some res"
        by (auto simp: tb_pending_def Let_def split: option.splits outcome.splits)
      obtain new where new: "rq2 @ [RqAfter (secs 1) (SendData ?d)] = rq @ new"
        "echo_post rt tx rx ended ms a w a2 new w2 [?d] 0"
        by (rule echo_chunk [OF a rt T read [unfolded True] check])
      from new(2) have "echo_buf rt ms (ec_tcp a2)" by (simp add: echo_post_def)
      with IH [OF rec] rt T new(1) have h: "handled (echo_some rt tx rx ended ms a2 w2) (rq @ new) (Some res)"
        by simp
      then obtain a' rq' w' where res: "res = Ret (a', rq', w')"
        by (cases res) (auto simp: handled_def)
      with h obtain new' ds e where "rq' = rq @ (new @ new')"
        "echo_post rt tx rx ended ms a2 w2 a' new' w' ds e"
        by (auto simp: handled_def)
      with echo_post_trans [OF new(2)] show ?thesis unfolding res by (simp only: handled_Ret) blast
    qed
  qed
  with assms Some show ?thesis by simp
qed

lemma echoer_ready_post:
  assumes a: "echo_buf rt ms (ec_tcp a)" and rt: "vec_grow_ok rt"
    and T: "echo_stream T tx rx ended (ms_source ms)"
  shows "handled (echo_some rt tx rx ended ms a w) rq (echoer_ready rt T ready a rq w)"
  unfolding echoer_ready_def
proof (rule handled_bind)
  show "handled (echo_some rt tx rx ended ms a w) rq
      (if is_readable ready then echoer_read_loop rt T a rq w else Some (Ret (a, rq, w)))"
    using echoer_read_loop_post [OF assms, of w rq] handled_Ret [of _ rq a "[]" w]
      echo_post_refl [OF a, of tx rx ended w]
    by (cases "is_readable ready") (simp, simp, blast)
  fix a1 new w1
  assume "echo_some rt tx rx ended ms a w a1 new w1"
  then obtain ds e where post: "echo_post rt tx rx ended ms a w a1 new w1 ds e" by blast
  then have a1: "echo_buf rt ms (ec_tcp a1)" by (simp add: echo_post_def)
  show "handled (\<lambda>a' new' w'. echo_some rt tx rx ended ms a w a' (new @ new') w') (rq @ new)
      (if is_writable ready then echoer_flush T a1 (rq @ new) w1 else Some (Ret (a1, rq @ new, w1)))"
  proof (cases "is_writable ready")
    case True
    show ?thesis
      unfolding if_P [OF True]
      by (rule handled_mono [OF echoer_flush_post [OF a1 T]]) (blast dest: echo_post_trans [OF post])
  next
    case False
    with post handled_Ret [of _ "rq @ new" a1 "[]" w1] show ?thesis by auto
  qed
qed

text \<open>A delayed call, on a state in which it has already been given to the actor.\<close>

definition call_given :: "echo_call \<Rightarrow> 's echoer \<Rightarrow> 's echoer" where
  "call_given c a = a\<lparr>ec_tcp := (case c of
     SendData d \<Rightarrow> (ec_tcp a)\<lparr>tb_out := tb_out (ec_tcp a) @ d\<rparr>
   | SendEof \<Rightarrow> (ec_tcp a)\<lparr>tb_out_eof := True\<rparr>)\<rparr>"

lemma echoer_call_flush: "echoer_call T c a rq w = echoer_flush T (call_given c a) rq w"
  by (cases c) (simp_all add: echoer_call_def call_given_def echoer_send_data_def echoer_send_eof_def)

lemma call_given_fields:
  "echo_buf rt ms (ec_tcp (call_given c a)) = echo_buf rt ms (ec_tcp a)"
  "tb_out (ec_tcp (call_given c a)) = tb_out (ec_tcp a) @ (case c of SendData d \<Rightarrow> d | SendEof \<Rightarrow> [])"
  "tb_out_eof (ec_tcp (call_given c a)) = (tb_out_eof (ec_tcp a) \<or> c = SendEof)"
  by (cases c; simp add: call_given_def)+

lemma echoer_call_post:
  assumes "echo_buf rt ms (ec_tcp a)" "echo_stream T tx rx ended (ms_source ms)"
  shows "handled (\<lambda>a' new w'. echo_post rt tx rx ended ms (call_given c a) w a' new w' [] 0) rq
    (echoer_call T c a rq w)"
  unfolding echoer_call_flush
  by (rule handled_mono [OF echoer_flush_post]) (use assms in \<open>auto simp: call_given_fields\<close>)

section \<open>Termination\<close>

text \<open>
  The peer has sent finitely many bytes and signals arrive finitely often: \<open>m\<close> bounds the calls
  that give data or are interrupted, and no call raises it.
\<close>

definition echo_budget :: "('s, 'w) tcp_ops \<Rightarrow> 's \<Rightarrow> ('w \<Rightarrow> nat) \<Rightarrow> bool" where
  "echo_budget T s m \<longleftrightarrow>
     tcp_signals T m \<and> tcp_read_signals T m \<and>
     (\<forall>k. sender_keeps T s (\<lambda>w. m w \<le> k)) \<and> (\<forall>k. receiver_keeps T s (\<lambda>w. m w \<le> k)) \<and>
     (\<forall>buf w n buf' w'. tcp_read T s buf w = (Inr n, buf', w') \<and> 0 < n \<longrightarrow> m w' < m w)"

lemma echo_budgetD:
  assumes "echo_budget T s m"
  shows "tcp_signals T m" "tcp_read_signals T m" "sender_keeps T s (\<lambda>w. m w \<le> k)"
    "receiver_keeps T s (\<lambda>w. m w \<le> k)"
    "tcp_read T s buf w = (Inr n, buf', w') \<Longrightarrow> 0 < n \<Longrightarrow> m w' < m w"
  using assms unfolding echo_budget_def by blast+

lemma read_loop_budget:
  assumes "read_loop rt T s e b w = Some (Ret (NewData, b', w'))" "echo_budget T s m"
  shows "m w' < m w"
proof -
  have "echo_budget T s m \<longrightarrow> (\<forall>y. Ret (NewData, b', w') = Ret y \<and> fst y = NewData \<longrightarrow> m (snd (snd y)) < m w)"
  proof (rule read_loop.raw_induct [OF _ assms(1), where P = "\<lambda>rt T s e b w res.
      echo_budget T s m \<longrightarrow> (\<forall>y. res = Ret y \<and> fst y = NewData \<longrightarrow> m (snd (snd y)) < m w)"],
      intro impI, goal_cases)
    case (1 rec rt T s e b w res)
    obtain r buf w1 where call: "tcp_read T s (slice (tb_wr b) e (tb_inp b)) w = (r, buf, w1)"
      using prod_cases3 by blast
    have le: "m w1 \<le> m w"
      using echo_budgetD(4) [OF 1(3), of "m w"] call unfolding receiver_keeps_def
      by (metis order_refl snd_conv)
    show ?case
    proof (cases "tb_wr b \<le> e \<and> e \<le> length (tb_inp b)")
      case True
      have "m w1 < m w" if "r = Inr n" "0 < n" for n
        using echo_budgetD(5) [OF 1(3)] call that by blast
      with 1(2,3) call le True show ?thesis
        by (cases r) (auto simp: Let_def split: if_splits outcome.splits
            dest!: 1(1) intro: less_le_trans)
    qed (use 1(2) in auto)
  qed
  with assms(2) show ?thesis by simp
qed

lemma echo_read_budget:
  assumes b: "echo_buf rt ms b" and rt: "vec_grow_ok rt" and m: "echo_budget T (ms_source ms) m"
    and run: "tb_read rt T 8192 b w = Some (Ret (NewData, b', w'))"
  shows "m w' < m w"
proof -
  obtain b1 where sp: "tb_inp_makespace rt 8192 b = Ret b1" "tb_wr b1 = 0" "same_io b b1"
    by (rule makespace_empty [OF b rt])
  have "usize_add rt 0 8192 = Ret 8192" by (simp add: usize_simps usize_bound_def)
  with run sp b have "read_loop rt T (ms_source ms) 8192 b1 w = Some (Ret (NewData, b', w'))"
    by (simp add: tb_read_def same_io_def echo_buf_def)
  from read_loop_budget [OF this m] show ?thesis .
qed

lemma echoer_flush_total: "tcp_signals T m \<Longrightarrow> echoer_flush T a rq w \<noteq> None"
  using tb_flush_total [of T m "ec_tcp a" w] by (auto simp: echoer_flush_def ebind_eq_None Let_def)

lemma echoer_flush_keeps:
  assumes "echoer_flush T a rq w = Some (Ret (a', rq', w'))" "tb_stream (ec_tcp a) = Some ms"
    "sender_keeps T (ms_source ms) I" "I w"
  shows "I w'"
  using assms(1) tb_flush_keeps [OF _ assms(2-4)] by (auto simp: echoer_flush_def ebind_eq_Ret Let_def)

lemma check_special_chars_total:
  assumes "tcp_signals T m"
  shows "check_special_chars T data a rq w \<noteq> None"
  using echoer_flush_total [OF assms] by (auto simp: check_special_chars_def ebind_eq_None)

lemma check_special_chars_keeps:
  assumes "check_special_chars T data a rq w = Some (Ret (a', rq', w'))"
    "tb_stream (ec_tcp a) = Some ms" "sender_keeps T (ms_source ms) I" "I w"
  shows "I w'"
  using assms(1) assms(2,4) echoer_flush_keeps [OF _ _ assms(3)]
  by (auto simp: check_special_chars_def ebind_eq_Ret split: if_splits)

lemma echoer_read_loop_total:
  assumes "echo_buf rt ms (ec_tcp a)" "vec_grow_ok rt" "echo_stream T tx rx ended (ms_source ms)"
    and m: "echo_budget T (ms_source ms) m"
  shows "echoer_read_loop rt T a rq w \<noteq> None"
  using assms(1)
proof (induction "m w" arbitrary: a rq w rule: less_induct)
  case less
  have room: "tb_wf (ec_tcp a)" "tb_wr (ec_tcp a) + 8192 \<le> isize_max" "2 * 8192 \<le> isize_max"
    using less(2) by (simp_all add: echo_buf_def isize_max_def)
  have "tb_read rt T 8192 (ec_tcp a) w \<noteq> None"
    by (rule tb_read_total [OF room(1) assms(2) room(2,3) echo_budgetD(2) [OF m]])
  then obtain res where res: "tb_read rt T 8192 (ec_tcp a) w = Some res" by blast
  obtain st tcp w1 where r: "res = Ret (st, tcp, w1)" "tb_rd tcp = 0" "tb_wr tcp \<le> length (tb_inp tcp)"
    "echo_buf rt ms (tcp\<lparr>tb_rd := tb_wr tcp\<rparr>)"
    by (rule echo_read [OF less(2) assms(2,3) res])
  note read = res [unfolded r(1)]
  show ?case
  proof (cases "st = NewData")
    case False
    with read show ?thesis
      by (subst echoer_read_loop.simps) (auto split: read_status.splits)
  next
    case True
    let ?d = "tb_pending tcp"
    let ?check = "check_special_chars T ?d (a\<lparr>ec_tcp := tcp\<lparr>tb_rd := tb_wr tcp\<rparr>\<rparr>) rq w1"
    have ec: "echo_buf rt ms (ec_tcp (a\<lparr>ec_tcp := tcp\<lparr>tb_rd := tb_wr tcp\<rparr>\<rparr>))" using r(4) by simp
    from check_special_chars_post [OF ec assms(3), of ?d w1 rq]
      check_special_chars_total [OF echo_budgetD(1) [OF m]]
    obtain a2 rq2 w2 where check: "?check = Some (Ret (a2, rq2, w2))"
      by (cases "?check"; cases "the ?check") (auto simp: handled_def)
    have "m w2 \<le> m w1"
      by (rule check_special_chars_keeps [OF check, of ms "\<lambda>w. m w \<le> m w1"])
        (use ec echo_budgetD(3) [OF m] in \<open>simp_all add: echo_buf_def\<close>)
    also have "m w1 < m w" by (rule echo_read_budget [OF less(2) assms(2) m read [unfolded True]])
    finally have "m w2 < m w" .
    moreover obtain new where "echo_post rt tx rx ended ms a w a2 new w2 [?d] 0"
      by (rule echo_chunk [OF less(2) assms(2,3) read [unfolded True] check])
    then have "echo_buf rt ms (ec_tcp a2)" by (simp add: echo_post_def)
    ultimately have "echoer_read_loop rt T a2 (rq2 @ [RqAfter (secs 1) (SendData ?d)]) w2 \<noteq> None"
      by (rule less(1))
    with read True check r(2,3) show ?thesis
      by (subst echoer_read_loop.simps) (simp add: tb_pending_def Let_def)
  qed
qed

lemma echoer_ready_total:
  assumes "echo_buf rt ms (ec_tcp a)" "vec_grow_ok rt" "echo_stream T tx rx ended (ms_source ms)"
    and "echo_budget T (ms_source ms) m"
  shows "echoer_ready rt T ready a rq w \<noteq> None"
  using echoer_read_loop_total [OF assms, of rq w] echoer_flush_total [OF echo_budgetD(1) [OF assms(4)]]
  by (auto simp: echoer_ready_def ebind_eq_None split: if_splits)

section \<open>What the handlers keep\<close>

text \<open>What every call on the stream keeps, the handlers keep.\<close>

lemma echoer_read_loop_keeps:
  assumes run: "echoer_read_loop rt T a rq w = Some (Ret (a', rq', w'))"
    and a: "echo_buf rt ms (ec_tcp a)" and "vec_grow_ok rt"
    and "echo_stream T tx rx ended (ms_source ms)"
    and "sender_keeps T (ms_source ms) I" "receiver_keeps T (ms_source ms) I" "I w"
  shows "I w'"
proof -
  let ?ok = "\<lambda>rt T. vec_grow_ok rt \<and> echo_stream T tx rx ended (ms_source ms) \<and>
    sender_keeps T (ms_source ms) I \<and> receiver_keeps T (ms_source ms) I"
  have "?ok rt T \<longrightarrow> echo_buf rt ms (ec_tcp a) \<longrightarrow> I w \<longrightarrow>
      (\<forall>y. Ret (a', rq', w') = Ret y \<longrightarrow> I (snd (snd y)))"
  proof (rule echoer_read_loop.raw_induct [OF _ run, where P = "\<lambda>rt T a rq w res.
      ?ok rt T \<longrightarrow> echo_buf rt ms (ec_tcp a) \<longrightarrow> I w \<longrightarrow> (\<forall>y. res = Ret y \<longrightarrow> I (snd (snd y)))"],
      intro impI, goal_cases)
    case (1 rec rt T a rq w res)
    note IH = 1(1) and step = 1(2) and ok = 1(3) and a = 1(4) and w = 1(5)
    show ?case
    proof (intro allI impI)
      fix y
      assume y: "res = Ret y"
      with step obtain st tcp w1 where read: "tb_read rt T 8192 (ec_tcp a) w = Some (Ret (st, tcp, w1))"
        by (auto split: option.splits outcome.splits)
      have "I w1"
        by (rule tb_read_keeps [OF read, of ms])
          (use a ok w in \<open>auto simp: echo_buf_def isize_max_def\<close>)
      show "I (snd (snd y))"
      proof (cases "st = NewData")
        case False
        with step read y \<open>I w1\<close> show ?thesis by (auto split: read_status.splits)
      next
        case True
        let ?d = "tb_pending tcp"
        obtain b' where r: "tb_rd tcp \<le> tb_wr tcp" "tb_wr tcp \<le> length (tb_inp tcp)"
          "echo_buf rt ms (tcp\<lparr>tb_rd := tb_wr tcp\<rparr>)"
          by (rule echo_read [OF a _ _ read]) (use ok in auto)
        from step read True r y obtain a2 rq2 w2 where
          check: "check_special_chars T ?d (a\<lparr>ec_tcp := tcp\<lparr>tb_rd := tb_wr tcp\<rparr>\<rparr>) rq w1 = Some (Ret (a2, rq2, w2))"
          and rec: "rec rt T a2 (rq2 @ [RqAfter (secs 1) (SendData ?d)]) w2 = Some res"
          by (auto simp: tb_pending_def Let_def split: option.splits outcome.splits)
        have "I w2"
          by (rule check_special_chars_keeps [OF check, of ms])
            (use r(3) ok \<open>I w1\<close> in \<open>simp_all add: echo_buf_def\<close>)
        moreover obtain new where "echo_post rt tx rx ended ms a w a2 new w2 [?d] 0"
          by (rule echo_chunk [OF a _ _ read [unfolded True] check]) (use ok in auto)
        then have "echo_buf rt ms (ec_tcp a2)" by (simp add: echo_post_def)
        ultimately show ?thesis using IH [OF rec] ok y by blast
      qed
    qed
  qed
  with assms show ?thesis by auto
qed

lemma echoer_ready_keeps:
  assumes run: "echoer_ready rt T ready a rq w = Some (Ret (a', rq', w'))"
    and a: "echo_buf rt ms (ec_tcp a)" and rt: "vec_grow_ok rt"
    and T: "echo_stream T tx rx ended (ms_source ms)"
    and I: "sender_keeps T (ms_source ms) I" "receiver_keeps T (ms_source ms) I" "I w"
  shows "I w'"
proof -
  from run obtain a1 rq1 w1 where
    read: "(if is_readable ready then echoer_read_loop rt T a rq w else Some (Ret (a, rq, w))) =
      Some (Ret (a1, rq1, w1))"
    and rest: "(if is_writable ready then echoer_flush T a1 rq1 w1 else Some (Ret (a1, rq1, w1))) =
      Some (Ret (a', rq', w'))"
    unfolding echoer_ready_def ebind_eq_Ret by auto
  have "I w1"
    using read I(3) echoer_read_loop_keeps [OF _ a rt T I] by (auto split: if_splits)
  moreover have "echo_buf rt ms (ec_tcp a1)"
    using read a echoer_read_loop_post [OF a rt T, of w rq]
    by (auto simp: handled_def echo_post_def split: if_splits)
  ultimately show ?thesis
    using rest echoer_flush_keeps [OF _ _ I(1)] by (auto simp: echo_buf_def split: if_splits)
qed

lemma echoer_call_keeps:
  assumes "echoer_call T c a rq w = Some (Ret (a', rq', w'))"
    and "echo_buf rt ms (ec_tcp a)" "sender_keeps T (ms_source ms) I" "I w"
  shows "I w'"
proof -
  have "tb_stream (ec_tcp (call_given c a)) = Some ms"
    using assms(2) call_given_fields(1) [of rt ms c a] by (simp add: echo_buf_def)
  with assms(1) show ?thesis
    unfolding echoer_call_flush by (rule echoer_flush_keeps) (use assms(3,4) in auto)
qed

end
