(* ===== verification/Echo_Connection.thy ===== *)
theory Echo_Connection
  imports Echo_Actor
begin

text \<open>
  One connection of the echo server as a system: the actor, the calls it has delayed, the time,
  and the network. The properties of the example are stated here over all reachable states.

  Stakker runs a handler to its end, then ends the actor if the handler asked for it, and drops
  the calls to an ended actor. Calls delayed by \<open>after!\<close> are run when they are due, in order of
  their times and, at the same time, in the order in which they were asked for; all delays of the
  actor are the same, so this is first in, first out.
\<close>

section \<open>The system\<close>

record ('s, 'w) echo_conn =
  cn_actor :: "'s echoer"
  cn_running :: bool
  cn_end :: "echo_request list"
  cn_now :: nat
  cn_delayed :: "(nat \<times> echo_call) list"
  cn_received :: "(nat \<times> bytes) list"
  cn_net :: 'w

fun ends_actor :: "echo_request \<Rightarrow> bool" where
  "ends_actor (RqFail e) = True"
| "ends_actor RqStop = True"
| "ends_actor (RqAfter d c) = False"

text \<open>The chunks among delayed calls, which are the chunks that the handler has read.\<close>

fun data_calls :: "(nat \<times> echo_call) list \<Rightarrow> bytes list" where
  "data_calls [] = []"
| "data_calls ((t, SendData d) # cs) = d # data_calls cs"
| "data_calls ((t, SendEof) # cs) = data_calls cs"

definition after_handler ::
  "('s, 'w) echo_conn \<Rightarrow> 's echoer \<Rightarrow> echo_request list \<Rightarrow> 'w \<Rightarrow> ('s, 'w) echo_conn" where
  "after_handler s a rq w =
     s\<lparr>cn_actor := a,
       cn_running := \<not> list_ex ends_actor rq,
       cn_end := filter ends_actor rq,
       cn_delayed := cn_delayed s @ map (\<lambda>(d, c). (cn_now s + d, c)) (rq_calls rq),
       cn_received := cn_received s @ map (Pair (cn_now s)) (data_calls (rq_calls rq)),
       cn_net := w\<rparr>"

text \<open>The cause of the end that a request asks for.\<close>

fun end_cause :: "echo_request \<Rightarrow> stop_cause" where
  "end_cause (RqFail e) = Failed e"
| "end_cause RqStop = Stopped"
| "end_cause (RqAfter d c) = Dropped"

text \<open>
  The steps: an event for the stream; the first delayed call, once it is due; time passes;
  anything happens in the network that leaves the records of the stream alone.
\<close>

inductive echo_step ::
  "rust_rt \<Rightarrow> ('s, 'w) tcp_ops \<Rightarrow> ('w \<Rightarrow> bytes) \<Rightarrow> ('w \<Rightarrow> bytes) \<Rightarrow> ('w \<Rightarrow> bool)
    \<Rightarrow> ('s, 'w) echo_conn \<Rightarrow> ('s, 'w) echo_conn \<Rightarrow> bool"
  for rt T sent got ended where
  step_ready: "cn_running s \<Longrightarrow>
     echoer_ready rt T ready (cn_actor s) [] (cn_net s) = Some (Ret (a, rq, w)) \<Longrightarrow>
     echo_step rt T sent got ended s (after_handler s a rq w)"
| step_fire: "cn_running s \<Longrightarrow> cn_delayed s = (due, c) # rest \<Longrightarrow> due \<le> cn_now s \<Longrightarrow>
     echoer_call T c (cn_actor s) [] (cn_net s) = Some (Ret (a, rq, w)) \<Longrightarrow>
     echo_step rt T sent got ended s (after_handler (s\<lparr>cn_delayed := rest\<rparr>) a rq w)"
| step_time: "cn_now s \<le> t \<Longrightarrow> echo_step rt T sent got ended s (s\<lparr>cn_now := t\<rparr>)"
| step_net: "sent w = sent (cn_net s) \<Longrightarrow> got w = got (cn_net s) \<Longrightarrow>
     (ended (cn_net s) \<longrightarrow> ended w) \<Longrightarrow> echo_step rt T sent got ended s (s\<lparr>cn_net := w\<rparr>)"

inductive_cases echo_stepE: "echo_step rt T sent got ended s t"

inductive echo_reachable ::
  "rust_rt \<Rightarrow> ('s, 'w) tcp_ops \<Rightarrow> ('w \<Rightarrow> bytes) \<Rightarrow> ('w \<Rightarrow> bytes) \<Rightarrow> ('w \<Rightarrow> bool)
    \<Rightarrow> ('s, 'w) echo_conn \<Rightarrow> ('s, 'w) echo_conn \<Rightarrow> bool"
  for rt T sent got ended s0 where
  echo_begin: "echo_reachable rt T sent got ended s0 s0"
| echo_next: "echo_reachable rt T sent got ended s0 s \<Longrightarrow> echo_step rt T sent got ended s t \<Longrightarrow>
     echo_reachable rt T sent got ended s0 t"

text \<open>The actor as \<open>Echoer::setup\<close> makes it, on a stream without a past.\<close>

definition echoer_new :: "'s mio_source \<Rightarrow> 's echoer" where
  "echoer_new ms = \<lparr>ec_tcp = tb_new\<lparr>tb_stream := Some ms, tb_sent_out_eof := False,
     tb_pending_set_nodelay := True\<rparr>\<rparr>"

definition echo_init ::
  "('w \<Rightarrow> bytes) \<Rightarrow> ('w \<Rightarrow> bytes) \<Rightarrow> 's mio_source \<Rightarrow> ('s, 'w) echo_conn \<Rightarrow> bool" where
  "echo_init sent got ms s \<longleftrightarrow>
     cn_actor s = echoer_new ms \<and> cn_running s \<and> cn_end s = [] \<and> cn_delayed s = [] \<and>
     cn_received s = [] \<and> sent (cn_net s) = [] \<and> got (cn_net s) = []"

section \<open>The invariant\<close>

definition all_bytes :: "(nat \<times> bytes) list \<Rightarrow> bytes" where
  "all_bytes xs = concat (map snd xs)"

lemma all_bytes_simps [simp]: "all_bytes [] = []" "all_bytes (x # xs) = snd x @ all_bytes xs"
  "all_bytes (xs @ ys) = all_bytes xs @ all_bytes ys" "all_bytes (map (Pair t) ds) = concat ds"
  by (simp_all add: all_bytes_def comp_def)

definition due_calls :: "(nat \<times> bytes) list \<Rightarrow> (nat \<times> echo_call) list" where
  "due_calls xs = map (\<lambda>(t, d). (t + secs 1, SendData d)) xs"

lemma due_calls_simps [simp]: "due_calls [] = []"
  "due_calls (x # xs) = (fst x + secs 1, SendData (snd x)) # due_calls xs"
  "due_calls (xs @ ys) = due_calls xs @ due_calls ys" "due_calls xs = [] \<longleftrightarrow> xs = []"
  by (auto simp: due_calls_def split: prod.splits)

text \<open>
  \<open>old\<close> are the chunks given to the output, \<open>young\<close> those that still wait; behind them wait only
  calls of \<open>send_eof\<close>.
\<close>

definition echo_split ::
  "('w \<Rightarrow> bytes) \<Rightarrow> ('w \<Rightarrow> bool) \<Rightarrow> ('s, 'w) echo_conn
    \<Rightarrow> (nat \<times> bytes) list \<Rightarrow> (nat \<times> bytes) list \<Rightarrow> (nat \<times> echo_call) list \<Rightarrow> bool" where
  "echo_split sent ended s old young eofs \<longleftrightarrow>
     cn_received s = old @ young \<and>
     sent (cn_net s) @ tb_out (ec_tcp (cn_actor s)) = all_bytes old \<and>
     cn_delayed s = due_calls young @ eofs \<and>
     snd ` set eofs \<subseteq> {SendEof} \<and> (eofs \<noteq> [] \<longrightarrow> ended (cn_net s)) \<and>
     (\<forall>x\<in>set old. fst x + secs 1 \<le> cn_now s) \<and>
     (tb_out_eof (ec_tcp (cn_actor s)) \<longrightarrow>
        ended (cn_net s) \<and> young = [] \<or> BANG \<in> set (all_bytes (cn_received s)))"

definition echo_core ::
  "rust_rt \<Rightarrow> ('w \<Rightarrow> bytes) \<Rightarrow> ('w \<Rightarrow> bytes) \<Rightarrow> ('w \<Rightarrow> bool) \<Rightarrow> 's mio_source \<Rightarrow> ('s, 'w) echo_conn \<Rightarrow> bool" where
  "echo_core rt sent got ended ms s \<longleftrightarrow>
     echo_buf rt ms (ec_tcp (cn_actor s)) \<and> got (cn_net s) = all_bytes (cn_received s) \<and>
     (\<exists>old young eofs. echo_split sent ended s old young eofs)"

definition echo_inv ::
  "rust_rt \<Rightarrow> ('w \<Rightarrow> bytes) \<Rightarrow> ('w \<Rightarrow> bytes) \<Rightarrow> ('w \<Rightarrow> bool) \<Rightarrow> 's mio_source \<Rightarrow> ('s, 'w) echo_conn \<Rightarrow> bool" where
  "echo_inv rt sent got ended ms s \<longleftrightarrow> echo_core rt sent got ended ms s \<and>
     (RqStop \<in> set (cn_end s) \<longrightarrow>
        tb_out (ec_tcp (cn_actor s)) = [] \<and> tb_out_eof (ec_tcp (cn_actor s)))"

lemma echo_init_inv:
  assumes "echo_init sent got ms s"
  shows "echo_inv rt sent got ended ms s"
proof -
  have "echo_split sent ended s [] [] []"
    using assms by (simp add: echo_split_def echo_init_def echoer_new_def tb_new_def)
  with assms show ?thesis
    by (auto simp: echo_inv_def echo_core_def echo_init_def echoer_new_def tb_new_def echo_buf_def tb_wf_def
        echo_space_def)
qed

lemma data_calls_append [simp]: "data_calls (xs @ ys) = data_calls xs @ data_calls ys"
  by (induction xs rule: data_calls.induct) auto

lemma data_calls_due [simp]: "data_calls (due_calls xs) = map snd xs"
  by (induction xs) simp_all

lemma data_calls_eof: "snd ` set es \<subseteq> {SendEof} \<Longrightarrow> data_calls es = []"
  by (induction es rule: data_calls.induct) auto

lemma data_calls_echo [simp]: "data_calls (echo_calls ds e) = ds"
proof -
  have "data_calls (replicate e (t, SendEof)) = []" for t by (induction e) auto
  then show ?thesis unfolding echo_calls_def by (induction ds) auto
qed

lemma after_handler_fields [simp]:
  "cn_actor (after_handler s a rq w) = a" "cn_net (after_handler s a rq w) = w"
  "cn_now (after_handler s a rq w) = cn_now s"
  "RqStop \<in> set (cn_end (after_handler s a rq w)) \<longleftrightarrow> RqStop \<in> set rq"
  "cn_running (after_handler s a rq w) \<longleftrightarrow> \<not> list_ex ends_actor rq"
  by (simp_all add: after_handler_def)

lemma after_handler_end: "cn_end (after_handler s a rq w) = filter ends_actor rq"
  by (simp add: after_handler_def)

lemma after_handler_calls:
  assumes "rq_calls rq = echo_calls ds e"
  shows "cn_received (after_handler s a rq w) = cn_received s @ map (Pair (cn_now s)) ds"
    "cn_delayed (after_handler s a rq w) = cn_delayed s @ due_calls (map (Pair (cn_now s)) ds) @
       replicate e (cn_now s + secs 1, SendEof)"
  by (simp_all add: after_handler_def assms) (simp_all add: echo_calls_def due_calls_def)

text \<open>A handler keeps the invariant, from a state in which it was given its call.\<close>

lemma after_handler_inv:
  assumes core: "echo_core rt (tx (ms_source ms)) (rx (ms_source ms)) ended ms s"
    and post: "echo_post rt tx rx ended ms (cn_actor s) (cn_net s) a rq w ds e"
  shows "echo_inv rt (tx (ms_source ms)) (rx (ms_source ms)) ended ms (after_handler s a rq w)"
proof -
  note p = post [unfolded echo_post_def]
  obtain old young eofs where sp: "echo_split (tx (ms_source ms)) ended s old young eofs"
    using core by (auto simp: echo_core_def)
  note calls = after_handler_calls [of rq ds e s a w]
  let ?new = "map (Pair (cn_now s)) ds"
  let ?eofs = "eofs @ replicate e (cn_now s + secs 1, SendEof)"
  have "eofs \<noteq> [] \<longrightarrow> ds = []" using sp p by (simp add: echo_split_def)
  then have "echo_split (tx (ms_source ms)) ended (after_handler s a rq w) old (young @ ?new) ?eofs"
    using sp p calls by (cases "ds = []") (auto simp: echo_split_def)
  with core p calls show ?thesis by (auto simp: echo_inv_def echo_core_def)
qed

text \<open>Giving the first delayed call to the actor.\<close>

lemma given_core:
  assumes core: "echo_core rt sent got ended ms s"
    and head: "cn_delayed s = (due, c) # rest" "due \<le> cn_now s"
  shows "echo_core rt sent got ended ms (s\<lparr>cn_delayed := rest, cn_actor := call_given c (cn_actor s)\<rparr>)"
proof -
  let ?s = "s\<lparr>cn_delayed := rest, cn_actor := call_given c (cn_actor s)\<rparr>"
  obtain old young eofs where sp: "echo_split sent ended s old young eofs"
    using core by (auto simp: echo_core_def)
  have "\<exists>old young eofs. echo_split sent ended ?s old young eofs"
  proof (cases young)
    case (Cons x xs)
    with head(1) sp have hd: "due = fst x + secs 1" "c = SendData (snd x)" "rest = due_calls xs @ eofs"
      by (auto simp: echo_split_def)
    have "echo_split sent ended ?s (old @ [x]) xs eofs"
      using sp Cons hd head(2) by (auto simp: echo_split_def call_given_fields)
    then show ?thesis by blast
  next
    case Nil
    with head(1) sp have hd: "eofs = (due, c) # rest" by (simp add: echo_split_def)
    with sp have "c = SendEof" by (auto simp: echo_split_def)
    with sp Nil hd have "echo_split sent ended ?s old [] rest"
      by (auto simp: echo_split_def call_given_fields)
    then show ?thesis by blast
  qed
  with core show ?thesis by (simp add: echo_core_def call_given_fields)
qed

lemma echo_step_inv:
  assumes T: "echo_stream T tx rx ended (ms_source ms)" and rt: "vec_grow_ok rt"
    and step: "echo_step rt T (tx (ms_source ms)) (rx (ms_source ms)) ended s t"
    and inv: "echo_inv rt (tx (ms_source ms)) (rx (ms_source ms)) ended ms s"
  shows "echo_inv rt (tx (ms_source ms)) (rx (ms_source ms)) ended ms t"
proof -
  have core: "echo_core rt (tx (ms_source ms)) (rx (ms_source ms)) ended ms s"
    and buf: "echo_buf rt ms (ec_tcp (cn_actor s))"
    using inv by (simp_all add: echo_inv_def echo_core_def)
  obtain old young eofs where sp: "echo_split (tx (ms_source ms)) ended s old young eofs"
    using core by (auto simp: echo_core_def)
  from step show ?thesis
  proof cases
    case (step_ready ready a rq w)
    from echoer_ready_post [OF buf rt T, of "cn_net s" "[]" ready] step_ready(3) obtain ds e where
      "echo_post rt tx rx ended ms (cn_actor s) (cn_net s) a rq w ds e"
      by (auto simp: handled_def)
    from after_handler_inv [OF core this] step_ready(1) show ?thesis by simp
  next
    case (step_fire due c rest a rq w)
    let ?s = "s\<lparr>cn_delayed := rest, cn_actor := call_given c (cn_actor s)\<rparr>"
    from echoer_call_post [OF buf T, of c "cn_net s" "[]"] step_fire(5) have
      "echo_post rt tx rx ended ms (cn_actor ?s) (cn_net ?s) a rq w [] 0"
      by (auto simp: handled_def)
    from after_handler_inv [OF given_core [OF core step_fire(3,4)] this] step_fire(1) show ?thesis
      by (simp add: after_handler_def)
  next
    case (step_time t')
    have "echo_split (tx (ms_source ms)) ended t old young eofs"
      using sp step_time by (auto simp: echo_split_def intro: order_trans)
    with inv step_time(1) show ?thesis by (auto simp: echo_inv_def echo_core_def)
  next
    case (step_net w)
    have "echo_split (tx (ms_source ms)) ended t old young eofs"
      using sp step_net by (auto simp: echo_split_def)
    with inv step_net(1,3) show ?thesis by (auto simp: echo_inv_def echo_core_def)
  qed
qed

lemma echo_reachable_inv:
  assumes "echo_reachable rt T (tx (ms_source ms)) (rx (ms_source ms)) ended s0 s"
    and "echo_stream T tx rx ended (ms_source ms)" "vec_grow_ok rt"
    and "echo_init (tx (ms_source ms)) (rx (ms_source ms)) ms s0"
  shows "echo_inv rt (tx (ms_source ms)) (rx (ms_source ms)) ended ms s"
  using assms(1)
  by induction (use assms(2-4) echo_init_inv echo_step_inv in blast)+

section \<open>Draining\<close>

text \<open>Everything received has been sent once nothing is left in the output and no data waits.\<close>

lemma echo_all_sent:
  assumes "echo_inv rt sent got ended ms s" "tb_out (ec_tcp (cn_actor s)) = []"
    and "cn_delayed s = [] \<or> tb_out_eof (ec_tcp (cn_actor s)) \<and> BANG \<notin> set (got (cn_net s))"
  shows "sent (cn_net s) = got (cn_net s)"
proof -
  obtain old young eofs where sp: "echo_split sent ended s old young eofs"
    and got: "got (cn_net s) = all_bytes (cn_received s)"
    using assms(1) by (auto simp: echo_inv_def echo_core_def)
  from assms(3) sp got have "young = []" by (auto simp: echo_split_def)
  with sp got assms(2) show ?thesis by (simp add: echo_split_def)
qed

lemma echo_reachable_trans:
  assumes "echo_reachable rt T sent got ended s1 s2" "echo_reachable rt T sent got ended s0 s1"
  shows "echo_reachable rt T sent got ended s0 s2"
  using assms by induction (auto intro: echo_next)

lemma echoer_flush_all:
  assumes a: "echo_buf rt ms (ec_tcp a)"
    and T: "echo_stream T tx rx ended (ms_source ms)" "tcp_accepts T (ms_source ms)"
  obtains a' w' where "echoer_flush T a rq w =
      Some (Ret (a', rq @ (if tb_out_eof (ec_tcp a) then [RqStop] else []), w'))"
    "tb_out (ec_tcp a') = []" "tb_out_eof (ec_tcp a') = tb_out_eof (ec_tcp a)"
    "rx (ms_source ms) w' = rx (ms_source ms) w"
proof -
  have b: "tb_stream (ec_tcp a) = Some ms" "\<not> tb_pause (ec_tcp a)" using a by (simp_all add: echo_buf_def)
  obtain b' w' where run: "tb_flush T (ec_tcp a) w = Some (Ret (Inr (), b', w'))" "tb_out b' = []"
    by (rule tb_flush_all [OF echo_streamD(1) [OF T(1)] T(2) b])
  from tb_flush_ok [OF echo_streamD(1) [OF T(1)] b(1), of w] run(1)
  have eof: "tb_out_eof b' = tb_out_eof (ec_tcp a)"
    by (simp add: flush_ok_def flush_rel_def flush_frame_def)
  have "rx (ms_source ms) w' = rx (ms_source ms) w"
    by (rule tb_flush_keeps [OF run(1) b(1) echo_streamD(3) [OF T(1)]]) simp
  moreover have "echoer_flush T a rq w =
      Some (Ret (a\<lparr>ec_tcp := b'\<rparr>, rq @ (if tb_out_eof (ec_tcp a) then [RqStop] else []), w'))"
    by (simp add: echoer_flush_def run eof Let_def)
  ultimately show thesis
    using run(2) eof by (intro that [of "a\<lparr>ec_tcp := b'\<rparr>" w']) simp_all
qed

text \<open>
  On a stream that accepts what it is given, letting time pass and running the delayed calls sends
  back everything received; if the end of the stream was among it, the actor has stopped.
\<close>

lemma echo_drain:
  assumes T: "echo_stream T tx rx ended (ms_source ms)" "tcp_accepts T (ms_source ms)"
    and rt: "vec_grow_ok rt"
    and "echo_inv rt (tx (ms_source ms)) (rx (ms_source ms)) ended ms s" "cn_running s"
    and "BANG \<notin> set (rx (ms_source ms) (cn_net s))"
  shows "\<exists>s'. echo_reachable rt T (tx (ms_source ms)) (rx (ms_source ms)) ended s s' \<and>
    tx (ms_source ms) (cn_net s') = rx (ms_source ms) (cn_net s) \<and>
    rx (ms_source ms) (cn_net s') = rx (ms_source ms) (cn_net s) \<and>
    (SendEof \<in> snd ` set (cn_delayed s) \<longrightarrow> cn_end s' = [RqStop])"
  using assms(4-)
proof (induction "length (cn_delayed s)" arbitrary: s)
  case 0
  let ?tx = "tx (ms_source ms)" and ?rx = "rx (ms_source ms)"
  have buf: "echo_buf rt ms (ec_tcp (cn_actor s))" using 0(2) by (simp add: echo_inv_def echo_core_def)
  let ?rq = "if tb_out_eof (ec_tcp (cn_actor s)) then [RqStop] else []"
  obtain a w where run: "echoer_flush T (cn_actor s) [] (cn_net s) = Some (Ret (a, ?rq, w))"
    "tb_out (ec_tcp a) = []" "?rx w = ?rx (cn_net s)"
    by (rule echoer_flush_all [OF buf T, of "[]" "cn_net s"]) simp
  have "echoer_ready rt T (Ready READY_WR) (cn_actor s) [] (cn_net s) = Some (Ret (a, ?rq, w))"
    using run(1) by (simp add: echoer_ready_def is_readable_def is_writable_def ready_consts)
  from step_ready [OF 0(3) this]
  have step: "echo_step rt T ?tx ?rx ended s (after_handler s a ?rq w)" .
  from echo_step_inv [OF T(1) rt step 0(2)]
  have "echo_inv rt ?tx ?rx ended ms (after_handler s a ?rq w)" .
  moreover have "cn_delayed (after_handler s a ?rq w) = []" using 0(1) by (simp add: after_handler_def)
  ultimately have "?tx w = ?rx w"
    using echo_all_sent [of rt ?tx ?rx ended ms "after_handler s a ?rq w"] run(2) by simp
  then show ?case
    using echo_next [OF echo_begin step] run(3) 0(1)
    by (intro exI [of _ "after_handler s a ?rq w"]) simp
next
  case (Suc n)
  let ?tx = "tx (ms_source ms)" and ?rx = "rx (ms_source ms)"
  let ?R = "echo_reachable rt T ?tx ?rx ended"
  obtain due c rest where del: "cn_delayed s = (due, c) # rest" "length rest = n"
    using Suc(2) by (cases "cn_delayed s") auto
  let ?s1 = "s\<lparr>cn_now := max due (cn_now s)\<rparr>"
  have step1: "echo_step rt T ?tx ?rx ended s ?s1" by (rule step_time) simp
  note inv1 = echo_step_inv [OF T(1) rt step1 Suc(3)]
  let ?given = "call_given c (cn_actor s)"
  have buf: "echo_buf rt ms (ec_tcp ?given)"
    using Suc(3) by (simp add: echo_inv_def echo_core_def call_given_fields)
  let ?rq = "if tb_out_eof (ec_tcp ?given) then [RqStop] else []"
  obtain a w where run: "echoer_flush T ?given [] (cn_net s) = Some (Ret (a, ?rq, w))"
    "tb_out (ec_tcp a) = []" "tb_out_eof (ec_tcp a) = tb_out_eof (ec_tcp ?given)"
    "?rx w = ?rx (cn_net s)"
    by (rule echoer_flush_all [OF buf T, of "[]" "cn_net s"]) simp
  let ?s2 = "after_handler (?s1\<lparr>cn_delayed := rest\<rparr>) a ?rq w"
  have step2: "echo_step rt T ?tx ?rx ended ?s1 ?s2"
    by (rule step_fire [of _ due c]) (use Suc(4) del(1) run(1) in \<open>simp_all add: echoer_call_flush\<close>)
  note inv2 = echo_step_inv [OF T(1) rt step2 inv1]
  have reach: "?R s ?s2" by (rule echo_next [OF echo_next [OF echo_begin step1] step2])
  have del2: "cn_delayed ?s2 = rest" by (simp add: after_handler_def)
  have net2: "cn_net ?s2 = w" by simp
  show ?case
  proof (cases "tb_out_eof (ec_tcp ?given)")
    case True
    have "?tx w = ?rx w"
      using echo_all_sent [OF inv2] run True Suc(5) by (simp only: after_handler_fields) simp
    with reach run(4) True show ?thesis by (intro exI [of _ ?s2]) (simp add: after_handler_end)
  next
    case False
    then have c: "c \<noteq> SendEof" by (simp add: call_given_fields)
    have "n = length (cn_delayed ?s2)" using del(2) del2 by simp
    moreover have "cn_running ?s2" using False by simp
    moreover have "BANG \<notin> set (?rx (cn_net ?s2))" using Suc(5) run(4) by simp
    ultimately have "\<exists>s'. ?R ?s2 s' \<and> ?tx (cn_net s') = ?rx (cn_net ?s2) \<and>
        ?rx (cn_net s') = ?rx (cn_net ?s2) \<and>
        (SendEof \<in> snd ` set (cn_delayed ?s2) \<longrightarrow> cn_end s' = [RqStop])"
      using Suc(1) inv2 by blast
    then obtain s' where s': "?R ?s2 s'" "?tx (cn_net s') = ?rx (cn_net ?s2)"
      "?rx (cn_net s') = ?rx (cn_net ?s2)"
      "SendEof \<in> snd ` set (cn_delayed ?s2) \<longrightarrow> cn_end s' = [RqStop]" by blast
    have "SendEof \<in> snd ` set (cn_delayed s) \<longrightarrow> cn_end s' = [RqStop]"
      using s'(4) c unfolding del2 del(1) by auto
    with echo_reachable_trans [OF s'(1) reach] s'(2,3) run(4) show ?thesis
      unfolding net2 by auto
  qed
qed

section \<open>After the end\<close>

lemma echo_ended:
  assumes "echo_reachable rt T sent got ended s s'" "\<not> cn_running s"
  shows "\<not> cn_running s' \<and> sent (cn_net s') = sent (cn_net s) \<and> got (cn_net s') = got (cn_net s) \<and>
    cn_end s' = cn_end s"
  using assms by induction (auto elim: echo_stepE)

text \<open>An actor has ended exactly when its last handler has asked for it.\<close>

lemma echo_end_asked:
  assumes "echo_reachable rt T sent got ended s0 s" "cn_running s0" "cn_end s0 = []"
  shows "(cn_running s \<longleftrightarrow> cn_end s = []) \<and> (\<forall>q\<in>set (cn_end s). ends_actor q)"
  using assms
proof induction
  case (echo_next s t)
  then show ?case
    by (auto elim!: echo_stepE simp: after_handler_def filter_empty_conv list_ex_iff)
qed simp

end
