(* ===== verification/Echo_Run.thy ===== *)
theory Echo_Run
  imports Echo_Connection
begin

text \<open>
  Infinite runs of a connection, and what must happen in them: Stakker lets time pass without bound and
  runs the calls that are due; then everything received is sent back, in every such run.
\<close>

section \<open>Fair runs\<close>

text \<open>The step that runs the first delayed call.\<close>

definition echo_fire :: "('s, 'w) tcp_ops \<Rightarrow> ('s, 'w) echo_conn \<Rightarrow> ('s, 'w) echo_conn \<Rightarrow> bool" where
  "echo_fire T s t \<longleftrightarrow> cn_running s \<and> (\<exists>due c rest a rq w. cn_delayed s = (due, c) # rest \<and> due \<le> cn_now s \<and>
     echoer_call T c (cn_actor s) [] (cn_net s) = Some (Ret (a, rq, w)) \<and>
     t = after_handler (s\<lparr>cn_delayed := rest\<rparr>) a rq w)"

definition echo_run ::
  "rust_rt \<Rightarrow> ('s, 'w) tcp_ops \<Rightarrow> ('w \<Rightarrow> bytes) \<Rightarrow> ('w \<Rightarrow> bytes) \<Rightarrow> ('w \<Rightarrow> bool)
    \<Rightarrow> ('s, 'w) echo_conn \<Rightarrow> (nat \<Rightarrow> ('s, 'w) echo_conn) \<Rightarrow> bool" where
  "echo_run rt T sent got ended s0 r \<longleftrightarrow> r 0 = s0 \<and> (\<forall>i. echo_step rt T sent got ended (r i) (r (Suc i)))"

text \<open>Time passes without bound, and a call that is due is run, unless the actor ends before.\<close>

definition echo_fair :: "('s, 'w) tcp_ops \<Rightarrow> (nat \<Rightarrow> ('s, 'w) echo_conn) \<Rightarrow> bool" where
  "echo_fair T r \<longleftrightarrow> (\<forall>t i. \<exists>j\<ge>i. t \<le> cn_now (r j)) \<and>
     (\<forall>i due c rest. cn_running (r i) \<and> cn_delayed (r i) = (due, c) # rest \<and> due \<le> cn_now (r i) \<longrightarrow>
        (\<exists>j\<ge>i. \<not> cn_running (r j) \<or> echo_fire T (r j) (r (Suc j))))"

lemma echo_run_reachable:
  assumes "echo_run rt T sent got ended s0 r" "i \<le> j"
  shows "echo_reachable rt T sent got ended (r i) (r j)"
  using assms(2)
proof (induction j rule: dec_induct)
  case base
  show ?case by (rule echo_begin)
next
  case (step j)
  from assms(1) have "echo_step rt T sent got ended (r j) (r (Suc j))" by (simp add: echo_run_def)
  with step.IH show ?case by (rule echo_next)
qed

section \<open>One step\<close>

text \<open>
  What a step does to the delayed calls and the chunks received: both grow together, unless
  the first call is run.
\<close>

definition calls_grow :: "('s, 'w) echo_conn \<Rightarrow> ('s, 'w) echo_conn \<Rightarrow> bool" where
  "calls_grow s t \<longleftrightarrow> (\<exists>new m. cn_delayed t = cn_delayed s @ new \<and> cn_received t = cn_received s @ m \<and>
     map snd m = data_calls new)"

lemma calls_grow_refl [simp]: "cn_delayed t = cn_delayed s \<Longrightarrow> cn_received t = cn_received s \<Longrightarrow> calls_grow s t"
  by (simp add: calls_grow_def)

lemma calls_grow_trans [trans]:
  assumes "calls_grow s t" "calls_grow t u"
  shows "calls_grow s u"
proof -
  from assms obtain n1 m1 n2 m2 where "cn_delayed u = cn_delayed s @ (n1 @ n2)"
    "cn_received u = cn_received s @ (m1 @ m2)" "map snd (m1 @ m2) = data_calls (n1 @ n2)"
    by (auto simp: calls_grow_def)
  then show ?thesis unfolding calls_grow_def by blast
qed

lemma echo_step_grows:
  assumes "echo_step rt T sent got ended s t" "\<not> echo_fire T s t"
  shows "calls_grow s t"
proof -
  have data: "data_calls (map (\<lambda>(d, c). (n + d, c)) xs) = data_calls xs" for n and xs :: "(nat \<times> echo_call) list"
    by (induction xs rule: data_calls.induct) auto
  from assms(1) show ?thesis
  proof cases
    case (step_ready ready a rq w)
    then show ?thesis
      by (auto simp: calls_grow_def after_handler_def data comp_def)
  next
    case (step_fire due c rest a rq w)
    with assms(2) show ?thesis by (auto simp: echo_fire_def)
  qed simp_all
qed

text \<open>Running the first call gives it to the actor and asks for no other.\<close>

lemma echo_fire_post:
  assumes "echo_inv rt (tx (ms_source ms)) (rx (ms_source ms)) ended ms s"
    and "echo_stream T tx rx ended (ms_source ms)"
    and "cn_delayed s = (due, c) # rest" "echo_fire T s t"
  shows "cn_delayed t = rest \<and> cn_received t = cn_received s"
proof -
  have buf: "echo_buf rt ms (ec_tcp (cn_actor s))" using assms(1) by (simp add: echo_inv_def echo_core_def)
  from assms(3,4) obtain a rq w where
    run: "echoer_call T c (cn_actor s) [] (cn_net s) = Some (Ret (a, rq, w))"
    and t: "t = after_handler (s\<lparr>cn_delayed := rest\<rparr>) a rq w" by (auto simp: echo_fire_def)
  from echoer_call_post [OF buf assms(2), of c "cn_net s" "[]"] run have "rq_calls rq = []"
    by (auto simp: handled_def echo_post_def)
  then show ?thesis by (simp add: t after_handler_def)
qed

text \<open>On a stream that accepts what it is given no output is ever left.\<close>

lemma echo_step_flushed:
  assumes T: "echo_stream T tx rx ended (ms_source ms)" "tcp_accepts T (ms_source ms)" and rt: "vec_grow_ok rt"
    and step: "echo_step rt T (tx (ms_source ms)) (rx (ms_source ms)) ended s t"
    and inv: "echo_inv rt (tx (ms_source ms)) (rx (ms_source ms)) ended ms s"
    and out: "tb_out (ec_tcp (cn_actor s)) = []"
  shows "tb_out (ec_tcp (cn_actor t)) = []"
proof -
  have buf: "echo_buf rt ms (ec_tcp (cn_actor s))" using inv by (simp add: echo_inv_def echo_core_def)
  from step show ?thesis
  proof cases
    case (step_ready ready a rq w)
    from echoer_ready_post [OF buf rt T(1), of "cn_net s" "[]" ready] step_ready(3) out show ?thesis
      by (auto simp: step_ready(1) handled_def echo_post_def)
  next
    case (step_fire due c rest a rq w)
    let ?given = "call_given c (cn_actor s)"
    have "echo_buf rt ms (ec_tcp ?given)" using buf by (simp add: call_given_fields)
    from echoer_flush_all [OF this T, of "[]" "cn_net s"] obtain a' rq' w' where
      "echoer_flush T ?given [] (cn_net s) = Some (Ret (a', rq', w'))" "tb_out (ec_tcp a') = []" by metis
    with step_fire(1,5) show ?thesis by (simp add: echoer_call_flush)
  qed (use out in simp_all)
qed

text \<open>The bytes of both directions are only added to.\<close>

lemma echo_received_grows:
  assumes "echo_reachable rt T (tx (ms_source ms)) (rx (ms_source ms)) ended s t"
    and "echo_stream T tx rx ended (ms_source ms)" "vec_grow_ok rt"
    and "echo_inv rt (tx (ms_source ms)) (rx (ms_source ms)) ended ms s"
  shows "echo_inv rt (tx (ms_source ms)) (rx (ms_source ms)) ended ms t \<and>
    (\<exists>m. cn_received t = cn_received s @ m)"
  using assms(1)
proof induction
  case echo_begin
  with assms(4) show ?case by simp
next
  case (echo_next t u)
  then have inv: "echo_inv rt (tx (ms_source ms)) (rx (ms_source ms)) ended ms t" by simp
  have "\<exists>m. cn_received u = cn_received t @ m"
  proof (cases "echo_fire T t u")
    case True
    then obtain due c rest where "cn_delayed t = (due, c) # rest" by (auto simp: echo_fire_def)
    from echo_fire_post [OF inv assms(2) this True] show ?thesis by simp
  next
    case False
    from echo_step_grows [OF echo_next(2) False] show ?thesis by (auto simp: calls_grow_def)
  qed
  with echo_next echo_step_inv [OF assms(2,3) echo_next(2) inv] show ?case by auto
qed

lemma echo_inv_received:
  "echo_inv rt sent got ended ms s \<Longrightarrow> got (cn_net s) = all_bytes (cn_received s)"
  by (simp add: echo_inv_def echo_core_def)

section \<open>Calls are run\<close>

text \<open>The first delayed call of a running actor is run in the end, unless the actor ends before.\<close>

lemma run_grows:
  assumes "echo_run rt T sent got ended s0 r" "i \<le> j"
    and "\<forall>k. i \<le> k \<and> k < j \<longrightarrow> \<not> echo_fire T (r k) (r (Suc k))"
  shows "calls_grow (r i) (r j)"
  using assms(2,3)
proof (induction j rule: dec_induct)
  case (step j)
  have st: "echo_step rt T sent got ended (r j) (r (Suc j))" using assms(1) by (simp add: echo_run_def)
  have "\<not> echo_fire T (r j) (r (Suc j))" "calls_grow (r i) (r j)" using step by simp_all
  from this(2) echo_step_grows [OF st this(1)] show ?case by (rule calls_grow_trans)
qed simp

lemma first_call_run:
  assumes run: "echo_run rt T sent got ended s0 r" and fair: "echo_fair T r"
    and head: "cn_delayed (r i) \<noteq> []"
  obtains j where "i \<le> j" "calls_grow (r i) (r j)" "\<not> cn_running (r j) \<or> echo_fire T (r j) (r (Suc j))"
proof -
  let ?P = "\<lambda>j. i \<le> j \<and> (\<not> cn_running (r j) \<or> echo_fire T (r j) (r (Suc j)))"
  have "\<exists>j. ?P j"
  proof (rule ccontr)
    assume none: "\<nexists>j. ?P j"
    then have grow: "calls_grow (r i) (r j)" if "i \<le> j" for j
      using run_grows [OF run that] by blast
    obtain due c rest where d: "cn_delayed (r i) = (due, c) # rest" using head by (cases "cn_delayed (r i)") auto
    from fair have "\<exists>j\<ge>i. due \<le> cn_now (r j)" unfolding echo_fair_def by blast
    then obtain j where j: "i \<le> j" "due \<le> cn_now (r j)" by blast
    from grow [OF j(1)] d obtain rest' where "cn_delayed (r j) = (due, c) # rest'" by (auto simp: calls_grow_def)
    moreover have "cn_running (r j)" using none j(1) by blast
    ultimately obtain k where "j \<le> k" "\<not> cn_running (r k) \<or> echo_fire T (r k) (r (Suc k))"
      using fair j(2) unfolding echo_fair_def by metis
    with none j(1) show False by (meson le_trans)
  qed
  then have least: "?P (LEAST j. ?P j)" by (rule LeastI_ex)
  have "\<forall>k. i \<le> k \<and> k < (LEAST j. ?P j) \<longrightarrow> \<not> echo_fire T (r k) (r (Suc k))"
    using not_less_Least by blast
  from run_grows [OF run _ this] least show thesis by (intro that [of "LEAST j. ?P j"]) auto
qed

text \<open>So all the calls in front are run, in order, or the actor ends.\<close>

lemma calls_run:
  assumes run: "echo_run rt T (tx (ms_source ms)) (rx (ms_source ms)) ended s0 r" and fair: "echo_fair T r"
    and T: "echo_stream T tx rx ended (ms_source ms)"
    and inv: "\<And>i. echo_inv rt (tx (ms_source ms)) (rx (ms_source ms)) ended ms (r i)"
  shows "cn_delayed (r i) = xs @ ys \<Longrightarrow> \<exists>j\<ge>i. \<not> cn_running (r j) \<or> (\<exists>new m. cn_delayed (r j) = ys @ new \<and>
    cn_received (r j) = cn_received (r i) @ m \<and> map snd m = data_calls new)"
proof (induction xs arbitrary: i ys)
  case Nil
  then show ?case by (intro exI [of _ i]) auto
next
  case (Cons x xs)
  then have "cn_delayed (r i) \<noteq> []" by simp
  then obtain j where j: "i \<le> j" "calls_grow (r i) (r j)" "\<not> cn_running (r j) \<or> echo_fire T (r j) (r (Suc j))"
    by (rule first_call_run [OF run fair])
  show ?case
  proof (cases "cn_running (r j)")
    case False
    with j(1) show ?thesis by blast
  next
    case True
    with j(3) have fire: "echo_fire T (r j) (r (Suc j))" by simp
    obtain n1 m1 where g: "cn_delayed (r j) = x # xs @ ys @ n1" "cn_received (r j) = cn_received (r i) @ m1"
      "map snd m1 = data_calls n1" using j(2) Cons.prems by (auto simp: calls_grow_def)
    obtain due c where "x = (due, c)" by fastforce
    with echo_fire_post [OF inv T _ fire] g(1) have after: "cn_delayed (r (Suc j)) = xs @ (ys @ n1)"
      "cn_received (r (Suc j)) = cn_received (r j)" by simp_all
    from Cons.IH [OF after(1)] obtain k where k: "Suc j \<le> k" "\<not> cn_running (r k) \<or> (\<exists>new m.
      cn_delayed (r k) = (ys @ n1) @ new \<and> cn_received (r k) = cn_received (r (Suc j)) @ m \<and>
      map snd m = data_calls new)" by blast
    show ?thesis
    proof (cases "cn_running (r k)")
      case False
      with k(1) j(1) show ?thesis by (intro exI [of _ k]) auto
    next
      case True
      with k(2) obtain n2 m2 where "cn_delayed (r k) = ys @ (n1 @ n2)"
        "cn_received (r k) = cn_received (r i) @ (m1 @ m2)" "map snd (m1 @ m2) = data_calls (n1 @ n2)"
        using after(2) g(2,3) by auto
      with k(1) j(1) show ?thesis
        by (intro exI [of _ k]) (metis Suc_leD le_trans)
    qed
  qed
qed

section \<open>The echo arrives\<close>

text \<open>
  In a fair run on a stream that accepts what it is given, with an actor that does not fail and gets
  no \<open>'!'\<close>: an actor that has ended has sent back everything, and nothing changes any more.
\<close>

lemma ended_all_sent:
  assumes "echo_inv rt sent got ended ms s" "\<not> cn_running s" "RqStop \<in> set (cn_end s)"
    "BANG \<notin> set (got (cn_net s))"
  shows "sent (cn_net s) = got (cn_net s)"
  using assms echo_all_sent [OF assms(1)] by (auto simp: echo_inv_def)

lemma echo_sent_grows:
  assumes "echo_reachable rt T (tx (ms_source ms)) (rx (ms_source ms)) ended s t"
    and T: "echo_stream T tx rx ended (ms_source ms)" "tcp_accepts T (ms_source ms)" and rt: "vec_grow_ok rt"
    and inv: "echo_inv rt (tx (ms_source ms)) (rx (ms_source ms)) ended ms s"
    and out: "tb_out (ec_tcp (cn_actor s)) = []"
  shows "echo_inv rt (tx (ms_source ms)) (rx (ms_source ms)) ended ms t \<and> tb_out (ec_tcp (cn_actor t)) = [] \<and>
    (\<exists>m. tx (ms_source ms) (cn_net t) = tx (ms_source ms) (cn_net s) @ m)"
  using assms(1)
proof induction
  case echo_begin
  with inv out show ?case by simp
next
  case (echo_next t u)
  let ?tx = "tx (ms_source ms)"
  from echo_next have invt: "echo_inv rt ?tx (rx (ms_source ms)) ended ms t"
    and outt: "tb_out (ec_tcp (cn_actor t)) = []" by simp_all
  have buf: "echo_buf rt ms (ec_tcp (cn_actor t))" using invt by (simp add: echo_inv_def echo_core_def)
  note outu = echo_step_flushed [OF T rt echo_next(2) invt outt]
  have "\<exists>m. ?tx (cn_net u) = ?tx (cn_net t) @ m"
    using echo_next(2)
  proof cases
    case (step_ready ready a rq w)
    from echoer_ready_post [OF buf rt T(1), of "cn_net t" "[]" ready] step_ready(3) outt outu show ?thesis
      by (auto simp: step_ready(1) handled_def echo_post_def)
  next
    case (step_fire due c rest a rq w)
    from echoer_call_post [OF buf T(1), of c "cn_net t" "[]"] step_fire(5) outt outu show ?thesis
      by (auto simp: step_fire(1) handled_def echo_post_def call_given_fields)
  qed simp_all
  with echo_next.IH echo_step_inv [OF T(1) rt echo_next(2) invt] outu show ?case by auto
qed

lemma split_sent:
  assumes "echo_inv rt sent got ended ms s" "tb_out (ec_tcp (cn_actor s)) = []"
    and "cn_received s = xs @ m" "map snd m = data_calls (cn_delayed s)"
  shows "sent (cn_net s) = all_bytes xs"
proof -
  from assms(1) obtain old young eofs where sp: "echo_split sent ended s old young eofs"
    by (auto simp: echo_inv_def echo_core_def)
  then have "data_calls (cn_delayed s) = map snd young" by (simp add: echo_split_def data_calls_eof)
  with assms(4) have "length young = length m" by (metis length_map)
  with sp assms(3) have "old = xs" by (auto simp: echo_split_def)
  with sp assms(2) show ?thesis by (simp add: echo_split_def)
qed

text \<open>A call of \<open>send_eof\<close> that is run stops the actor.\<close>

lemma eof_call_stops:
  assumes "echo_inv rt (tx (ms_source ms)) (rx (ms_source ms)) ended ms s"
    and T: "echo_stream T tx rx ended (ms_source ms)" "tcp_accepts T (ms_source ms)"
    and "cn_delayed s = (due, SendEof) # rest" "echo_fire T s t"
  shows "\<not> cn_running t"
proof -
  let ?given = "call_given SendEof (cn_actor s)"
  from assms(4,5) obtain a rq w where
    run: "echoer_call T SendEof (cn_actor s) [] (cn_net s) = Some (Ret (a, rq, w))"
    and t: "t = after_handler (s\<lparr>cn_delayed := rest\<rparr>) a rq w" by (auto simp: echo_fire_def)
  have "echo_buf rt ms (ec_tcp ?given)" "tb_out_eof (ec_tcp ?given)"
    using assms(1) by (simp_all add: echo_inv_def echo_core_def call_given_fields)
  with echoer_flush_all [OF this(1) T, of "[]" "cn_net s"] run have "rq = [RqStop]"
    by (auto simp: echoer_call_flush)
  then show ?thesis by (simp add: t)
qed

lemma echo_run_arrives:
  assumes T: "echo_stream T tx rx ended (ms_source ms)" "tcp_accepts T (ms_source ms)" and rt: "vec_grow_ok rt"
    and init: "echo_init (tx (ms_source ms)) (rx (ms_source ms)) ms s0"
    and run: "echo_run rt T (tx (ms_source ms)) (rx (ms_source ms)) ended s0 r" and fair: "echo_fair T r"
    and ok: "\<And>i e. RqFail e \<notin> set (cn_end (r i))" "\<And>i. BANG \<notin> set (rx (ms_source ms) (cn_net (r i)))"
  shows "\<exists>j\<ge>i. \<forall>k\<ge>j. (\<exists>more. tx (ms_source ms) (cn_net (r k)) = rx (ms_source ms) (cn_net (r i)) @ more) \<and>
    (SendEof \<in> snd ` set (cn_delayed (r i)) \<longrightarrow> RqStop \<in> set (cn_end (r k)))"
proof -
  let ?tx = "tx (ms_source ms)" and ?rx = "rx (ms_source ms)"
  have reach: "echo_reachable rt T ?tx ?rx ended s0 (r i)" for i
    using echo_run_reachable [OF run le0, of i] run by (simp add: echo_run_def)
  note inv = echo_reachable_inv [OF reach T(1) rt init]
  have init': "cn_running s0" "cn_end s0 = []" "tb_out (ec_tcp (cn_actor s0)) = []"
    using init by (simp_all add: echo_init_def echoer_new_def tb_new_def)
  have out: "tb_out (ec_tcp (cn_actor (r i))) = []" for i
    using echo_sent_grows [OF reach T rt echo_init_inv [OF init] init'(3)] by blast
  have stopped: "RqStop \<in> set (cn_end (r j))" if "\<not> cn_running (r j)" for j
  proof -
    note asked = echo_end_asked [OF reach [of j] init'(1,2)]
    with that obtain q where q: "q \<in> set (cn_end (r j))" "ends_actor q" by (cases "cn_end (r j)") auto
    with ok(1) [of _ j] show ?thesis by (cases q) auto
  qed
  have rx_grows: "\<exists>m. cn_received (r k) = cn_received (r j) @ m" if "j \<le> k" for j k
    using echo_received_grows [OF echo_run_reachable [OF run that] T(1) rt inv] by blast
  have tx_grows: "\<exists>m. ?tx (cn_net (r k)) = ?tx (cn_net (r j)) @ m" if "j \<le> k" for j k
    using echo_sent_grows [OF echo_run_reachable [OF run that] T rt inv out] by blast
  have final: "\<exists>more. ?tx (cn_net (r j)) = ?rx (cn_net (r i)) @ more" if "i \<le> j" "\<not> cn_running (r j)" for i j
  proof -
    have "?tx (cn_net (r j)) = ?rx (cn_net (r j))"
      by (rule ended_all_sent [OF inv that(2) stopped [OF that(2)] ok(2)])
    with rx_grows [OF that(1)] echo_inv_received [OF inv] show ?thesis by auto
  qed
  note run_calls = calls_run [OF run fair T(1) inv]
  have sent: "\<exists>j\<ge>i. \<exists>more. ?tx (cn_net (r j)) = ?rx (cn_net (r i)) @ more" for i
  proof -
    from run_calls [of i "cn_delayed (r i)" "[]"] obtain j where j: "i \<le> j" "\<not> cn_running (r j) \<or> (\<exists>m.
      cn_received (r j) = cn_received (r i) @ m \<and> map snd m = data_calls (cn_delayed (r j)))" by auto
    show ?thesis
    proof (cases "cn_running (r j)")
      case False
      with final j(1) show ?thesis by blast
    next
      case True
      with j(2) have "?tx (cn_net (r j)) = all_bytes (cn_received (r i))"
        using split_sent [OF inv out] by blast
      with j(1) echo_inv_received [OF inv, of i] show ?thesis by (intro exI [of _ j]) simp
    qed
  qed
  have ends: "\<exists>j\<ge>i. \<not> cn_running (r j)" if eof: "SendEof \<in> snd ` set (cn_delayed (r i))"
  proof -
    from eof obtain t xs ys where "cn_delayed (r i) = xs @ (t, SendEof) # ys"
      by (auto dest!: split_list)
    from run_calls [OF this] obtain j where j: "i \<le> j" "\<not> cn_running (r j) \<or>
      (\<exists>new. cn_delayed (r j) = (t, SendEof) # ys @ new)" by auto
    show ?thesis
    proof (cases "cn_running (r j)")
      case False
      with j(1) show ?thesis by blast
    next
      case True
      with j(2) obtain new where d: "cn_delayed (r j) = (t, SendEof) # ys @ new" by blast
      then have "cn_delayed (r j) \<noteq> []" by simp
      then obtain k where k: "j \<le> k" "calls_grow (r j) (r k)" "\<not> cn_running (r k) \<or> echo_fire T (r k) (r (Suc k))"
        by (rule first_call_run [OF run fair])
      from k(2) d obtain rest where "cn_delayed (r k) = (t, SendEof) # rest" by (auto simp: calls_grow_def)
      from k(3) eof_call_stops [OF inv T this] have "\<not> cn_running (r k) \<or> \<not> cn_running (r (Suc k))" by blast
      moreover have "i \<le> k" "i \<le> Suc k" using j(1) k(1) by simp_all
      ultimately show ?thesis by blast
    qed
  qed
  obtain j1 more where j1: "i \<le> j1" "?tx (cn_net (r j1)) = ?rx (cn_net (r i)) @ more" using sent by blast
  obtain j2 where j2: "i \<le> j2" "SendEof \<in> snd ` set (cn_delayed (r i)) \<longrightarrow> \<not> cn_running (r j2)"
    using ends by (cases "SendEof \<in> snd ` set (cn_delayed (r i))") auto
  show ?thesis
  proof (intro exI [of _ "max j1 j2"] conjI allI impI)
    show "i \<le> max j1 j2" using j1(1) by simp
    fix k
    assume k: "max j1 j2 \<le> k"
    from tx_grows [of j1 k] j1(2) k show "\<exists>more. ?tx (cn_net (r k)) = ?rx (cn_net (r i)) @ more" by auto
    assume "SendEof \<in> snd ` set (cn_delayed (r i))"
    with j2(2) have "\<not> cn_running (r j2)" by blast
    with echo_ended [OF echo_run_reachable [OF run, of j2 k]] stopped k
    show "RqStop \<in> set (cn_end (r k))" by simp
  qed
qed

section \<open>Runs exist\<close>

text \<open>Every reachable state in which the actor has ended is passed by a fair run: time passes from then on.\<close>

lemma echo_path:
  assumes "echo_reachable rt T sent got ended s0 s"
  shows "\<exists>r n. r 0 = s0 \<and> r n = s \<and> (\<forall>i<n. echo_step rt T sent got ended (r i) (r (Suc i)))"
  using assms
proof induction
  case echo_begin
  show ?case by (intro exI [of _ "\<lambda>_. s0"] exI [of _ 0]) simp
next
  case (echo_next s t)
  then obtain r n where r: "r 0 = s0" "r n = s" "\<forall>i<n. echo_step rt T sent got ended (r i) (r (Suc i))"
    by blast
  with echo_next(2) show ?case
    by (intro exI [of _ "\<lambda>i. if i \<le> n then r i else t"] exI [of _ "Suc n"]) (auto simp: less_Suc_eq)
qed

lemma echo_run_exists:
  assumes "echo_reachable rt T sent got ended s0 s" "\<not> cn_running s"
  obtains r n where "echo_run rt T sent got ended s0 r" "echo_fair T r" "r n = s"
    "\<And>i. n \<le> i \<Longrightarrow> r i = s\<lparr>cn_now := cn_now s + (i - n)\<rparr>"
proof -
  from echo_path [OF assms(1)] obtain p n where p: "p 0 = s0" "p n = s"
    "\<forall>i<n. echo_step rt T sent got ended (p i) (p (Suc i))" by blast
  let ?r = "\<lambda>i. if i \<le> n then p i else s\<lparr>cn_now := cn_now s + (i - n)\<rparr>"
  have later: "?r i = s\<lparr>cn_now := cn_now s + (i - n)\<rparr>" if "n \<le> i" for i
    using that p(2) by (cases "i = n") simp_all
  have "echo_run rt T sent got ended s0 ?r"
    unfolding echo_run_def
  proof (intro conjI allI)
    fix i
    show "echo_step rt T sent got ended (?r i) (?r (Suc i))"
    proof (cases "i < n")
      case True
      with p(3) show ?thesis by simp
    next
      case False
      then have n: "n \<le> i" "n \<le> Suc i" by simp_all
      have "echo_step rt T sent got ended (s\<lparr>cn_now := cn_now s + (i - n)\<rparr>)
          ((s\<lparr>cn_now := cn_now s + (i - n)\<rparr>)\<lparr>cn_now := cn_now s + (Suc i - n)\<rparr>)"
        by (rule step_time) simp
      then show ?thesis unfolding later [OF n(1)] later [OF n(2)] by simp
    qed
  qed (use p in simp)
  moreover have "echo_fair T ?r"
    unfolding echo_fair_def
  proof (intro conjI allI impI)
    fix t i
    have "i \<le> max i n + t" "t \<le> cn_now (?r (max i n + t))" by (simp_all add: later)
    then show "\<exists>j\<ge>i. t \<le> cn_now (?r j)" by blast
  next
    fix i due c rest
    have "i \<le> max i n" "\<not> cn_running (?r (max i n))"
      using assms(2) by (simp, unfold later [OF max.cobounded2], simp)
    then show "\<exists>j\<ge>i. \<not> cn_running (?r j) \<or> echo_fire T (?r j) (?r (Suc j))" by blast
  qed
  ultimately show thesis using later p(2) by (intro that [of ?r n]) simp_all
qed

end
