(* ===== verification/Echo_Demo.thy ===== *)
theory Echo_Demo
  imports Echo_Run
begin

text \<open>
  A network for the witnesses of the echo server: streams that accept every write and hand over what
  is in their inboxes, with any number of streams, and further fields for what else a world has.
\<close>

section \<open>The streams\<close>

record demo_net =
  dn_sent :: "nat \<Rightarrow> bytes"
  dn_got :: "nat \<Rightarrow> bytes"
  dn_inbox :: "nat \<Rightarrow> bytes"
  dn_closed :: "nat \<Rightarrow> bool"

abbreviation demo_tx :: "nat \<Rightarrow> 'z demo_net_scheme \<Rightarrow> bytes" where
  "demo_tx s w \<equiv> dn_sent w s"

abbreviation demo_rx :: "nat \<Rightarrow> 'z demo_net_scheme \<Rightarrow> bytes" where
  "demo_rx s w \<equiv> dn_got w s"

definition inbox_ops :: "(nat, 'z demo_net_scheme) tcp_ops" where
  "inbox_ops =
     \<lparr>tcp_set_nodelay = (\<lambda>s nd w. (Inr (), w)),
      tcp_write = (\<lambda>s buf w. (Inr (length buf), w\<lparr>dn_sent := (dn_sent w)(s := dn_sent w s @ buf)\<rparr>)),
      tcp_flush = (\<lambda>s w. (Inr (), w)),
      tcp_shutdown_write = (\<lambda>s w. (Inr (), w)),
      tcp_read = (\<lambda>s buf w.
        if dn_inbox w s = [] then (if dn_closed w s then Inr 0 else Inl (io_err WouldBlock), buf, w)
        else let got = take (length buf) (dn_inbox w s)
             in (Inr (length got), overwrite 0 got buf,
                 w\<lparr>dn_inbox := (dn_inbox w)(s := drop (length buf) (dn_inbox w s)),
                   dn_got := (dn_got w)(s := dn_got w s @ got)\<rparr>))\<rparr>"

definition inbox_ended :: "nat \<Rightarrow> 'z demo_net_scheme \<Rightarrow> bool" where
  "inbox_ended s w \<longleftrightarrow> dn_inbox w s = [] \<and> dn_closed w s"

lemma inbox_stream: "echo_stream inbox_ops demo_tx demo_rx (inbox_ended s) s"
proof -
  have "tcp_write_ok inbox_ops demo_tx"
    by (auto simp: tcp_write_ok_def inbox_ops_def)
  moreover have "tcp_read_ok inbox_ops demo_rx"
    by (auto simp: tcp_read_ok_def inbox_ops_def overwrite_def Let_def min_def split: if_splits)
  ultimately show ?thesis
    by (auto simp: echo_stream_def sender_keeps_def receiver_keeps_def inbox_ops_def inbox_ended_def
        Let_def min_def split: if_splits)
qed

lemma inbox_budget: "echo_budget inbox_ops s (\<lambda>w. length (dn_inbox w s))"
  by (auto simp: echo_budget_def tcp_signals_def tcp_read_signals_def signal_budget_def
      sender_keeps_def receiver_keeps_def inbox_ops_def Let_def split: if_splits)

lemma inbox_accepts: "tcp_accepts inbox_ops s"
  by (simp add: tcp_accepts_def inbox_ops_def)

section \<open>Reading\<close>

text \<open>The world after everything in the inbox of a stream has been read.\<close>

definition inbox_taken :: "nat \<Rightarrow> 'z demo_net_scheme \<Rightarrow> 'z demo_net_scheme" where
  "inbox_taken s w = w\<lparr>dn_inbox := (dn_inbox w)(s := []), dn_got := (dn_got w)(s := dn_got w s @ dn_inbox w s)\<rparr>"

lemma inbox_taken_simps [simp]:
  "dn_inbox (inbox_taken s w) s = []" "dn_closed (inbox_taken s w) = dn_closed w"
  "dn_got (inbox_taken s w) s = dn_got w s @ dn_inbox w s" "dn_sent (inbox_taken s w) = dn_sent w"
  "dn_inbox w s = [] \<Longrightarrow> inbox_taken s w = w"
  by (simp_all add: inbox_taken_def fun_upd_idem)

lemma inbox_read:
  assumes b: "echo_buf rt ms b" and rt: "vec_grow_ok rt"
    and w: "length (dn_inbox w (ms_source ms)) \<le> 8192" "dn_closed w (ms_source ms)"
  shows "\<exists>b'. tb_read rt inbox_ops 8192 b w = Some (Ret (
    if dn_inbox w (ms_source ms) = [] then EndOfStream else NewData, b', inbox_taken (ms_source ms) w))"
proof -
  obtain b1 where sp: "tb_inp_makespace rt 8192 b = Ret b1" "tb_wr b1 = 0" "same_io b b1"
    "length (tb_inp b1) = echo_alloc rt"
    by (rule makespace_empty [OF b rt])
  have len: "8192 \<le> length (tb_inp b1)" using sp(4) echo_alloc_bounds(1) [OF rt] by simp
  have add: "usize_add rt 0 8192 = Ret 8192" by (simp add: usize_simps usize_bound_def)
  have "\<exists>b'. read_loop rt inbox_ops (ms_source ms) 8192 b1 w = Some (Ret (
      if dn_inbox w (ms_source ms) = [] then EndOfStream else NewData, b', inbox_taken (ms_source ms) w))"
    using w sp(2) len
    by (subst read_loop.simps)
      (simp add: inbox_ops_def Let_def usize_simps usize_bound_def min_absorb2 inbox_taken_def fun_upd_idem)
  with add sp b show ?thesis by (simp add: tb_read_def same_io_def echo_buf_def)
qed

text \<open>The first turn of the actor's loop, when there is something in the inbox.\<close>

lemma inbox_first_turn:
  assumes a: "echo_buf rt ms (ec_tcp a)" and rt: "vec_grow_ok rt"
    and w: "length (dn_inbox w (ms_source ms)) \<le> 8192" "dn_closed w (ms_source ms)"
    and d: "d = dn_inbox w (ms_source ms)" "d \<noteq> []"
  obtains b where "echo_buf rt ms (b\<lparr>tb_rd := tb_wr b\<rparr>)"
    "\<And>rq a2 rq2 w2. check_special_chars inbox_ops d (a\<lparr>ec_tcp := b\<lparr>tb_rd := tb_wr b\<rparr>\<rparr>) rq
        (inbox_taken (ms_source ms) w) = Some (Ret (a2, rq2, w2)) \<Longrightarrow>
      echoer_read_loop rt inbox_ops a rq w =
      echoer_read_loop rt inbox_ops a2 (rq2 @ [RqAfter (secs 1) (SendData d)]) w2"
proof -
  let ?s = "ms_source ms"
  obtain b where r: "tb_read rt inbox_ops 8192 (ec_tcp a) w = Some (Ret (NewData, b, inbox_taken ?s w))"
    using inbox_read [OF a rt w] d by auto
  obtain b' where p: "tb_pending b = d" "tb_wr b \<le> length (tb_inp b)" "tb_rd b = 0"
    "echo_buf rt ms (b\<lparr>tb_rd := tb_wr b\<rparr>)"
    by (rule echo_read [OF a rt inbox_stream r]) (auto simp: d)
  show thesis
  proof (rule that [OF p(4)])
    fix rq a2 rq2 w2
    assume "check_special_chars inbox_ops d (a\<lparr>ec_tcp := b\<lparr>tb_rd := tb_wr b\<rparr>\<rparr>) rq
      (inbox_taken ?s w) = Some (Ret (a2, rq2, w2))"
    with p r show "echoer_read_loop rt inbox_ops a rq w =
      echoer_read_loop rt inbox_ops a2 (rq2 @ [RqAfter (secs 1) (SendData d)]) w2"
      by (subst echoer_read_loop.simps) (simp add: tb_pending_def Let_def del: One_nat_def)
  qed
qed

lemma exec_returns: "m \<noteq> None \<Longrightarrow> m \<noteq> Some Panic \<Longrightarrow> returns m"
  by (auto simp: returns_def split: option.splits outcome.splits)

text \<open>Whatever is in the inbox, the event brings all of it.\<close>

lemma inbox_ready_got:
  assumes a: "echo_buf rt ms (ec_tcp a)" and rt: "vec_grow_ok rt"
    and w: "length (dn_inbox w (ms_source ms)) \<le> 8192" "dn_closed w (ms_source ms)"
      "dn_inbox w (ms_source ms) \<noteq> []"
  obtains a' rq w' where "echoer_ready rt inbox_ops (Ready READY_RD) a [] w = Some (Ret (a', rq, w'))"
    "dn_got w' (ms_source ms) = dn_got w (ms_source ms) @ dn_inbox w (ms_source ms)"
proof -
  let ?s = "ms_source ms" and ?d = "dn_inbox w (ms_source ms)"
  let ?w1 = "inbox_taken ?s w"
  let ?loop = "\<lambda>a rq w. echoer_read_loop rt inbox_ops a rq w"
  note T = inbox_stream [of ?s]
  obtain b where b: "echo_buf rt ms (b\<lparr>tb_rd := tb_wr b\<rparr>)"
    and turn: "\<And>rq a2 rq2 w2. check_special_chars inbox_ops ?d (a\<lparr>ec_tcp := b\<lparr>tb_rd := tb_wr b\<rparr>\<rparr>) rq
        ?w1 = Some (Ret (a2, rq2, w2)) \<Longrightarrow>
      ?loop a rq w = ?loop a2 (rq2 @ [RqAfter (secs 1) (SendData ?d)]) w2"
    by (rule inbox_first_turn [OF a rt w(1,2) refl w(3)]) (rule that)
  let ?a1 = "a\<lparr>ec_tcp := b\<lparr>tb_rd := tb_wr b\<rparr>\<rparr>"
  let ?check = "check_special_chars inbox_ops ?d ?a1 [] ?w1"
  have "echo_buf rt ms (ec_tcp ?a1)" using b by simp
  note h = check_special_chars_post [OF this T, of ?d ?w1 "[]"]
  have "?check \<noteq> None"
    by (rule check_special_chars_total [OF echo_budgetD(1) [OF inbox_budget [of ?s]]])
  moreover have "?check \<noteq> Some Panic" using h by (simp add: handled_def)
  ultimately have "returns ?check" by (rule exec_returns)
  then obtain a2 rq2 w2 where check: "?check = Some (Ret (a2, rq2, w2))"
    unfolding returns_iff by (auto simp only: split_paired_Ex)
  have post: "echo_buf rt ms (ec_tcp a2)" "dn_got w2 ?s = dn_got ?w1 ?s" "inbox_ended ?s w2"
    using h w(2) unfolding check by (auto simp: handled_def echo_post_def inbox_ended_def)
  let ?rq = "rq2 @ [RqAfter (secs 1) (SendData ?d)]"
  obtain a' rq' w' where run: "?loop a2 ?rq w2 = Some (Ret (a', rq', w'))" "dn_got w' ?s = dn_got ?w1 ?s"
  proof (cases "?loop a2 ?rq w2")
    case None
    with echoer_read_loop_total [OF post(1) rt T inbox_budget] show thesis by blast
  next
    case (Some res)
    with echoer_read_loop_post [OF post(1) rt T, of w2 ?rq] post(2,3) show thesis
      by (cases res) (auto simp: handled_def echo_post_def intro: that)
  qed
  from turn [OF check] run show thesis
    by (intro that [of a' rq' w'])
      (simp_all add: echoer_ready_def is_readable_def is_writable_def ready_consts)
qed

text \<open>Without special characters: the contents of the inbox, and then the end of the stream.\<close>

lemma inbox_ready:
  assumes a: "echo_buf rt ms (ec_tcp a)" and rt: "vec_grow_ok rt"
    and w: "length (dn_inbox w (ms_source ms)) \<le> 8192" "dn_closed w (ms_source ms)"
    and d: "d = dn_inbox w (ms_source ms)" "d \<noteq> []" "BANG \<notin> set d" "PERCENT \<notin> set d"
  obtains a' where "echoer_ready rt inbox_ops (Ready READY_RD) a [] w =
    Some (Ret (a', [RqAfter (secs 1) (SendData d), RqAfter (secs 1) SendEof], inbox_taken (ms_source ms) w))"
proof -
  let ?w1 = "inbox_taken (ms_source ms) w"
  obtain b1 where b1: "echo_buf rt ms (b1\<lparr>tb_rd := tb_wr b1\<rparr>)"
    and turn: "\<And>rq a2 rq2 w2. check_special_chars inbox_ops d (a\<lparr>ec_tcp := b1\<lparr>tb_rd := tb_wr b1\<rparr>\<rparr>) rq
        ?w1 = Some (Ret (a2, rq2, w2)) \<Longrightarrow>
      echoer_read_loop rt inbox_ops a rq w =
      echoer_read_loop rt inbox_ops a2 (rq2 @ [RqAfter (secs 1) (SendData d)]) w2"
    by (rule inbox_first_turn [OF a rt w d(1,2)]) (rule that)
  let ?a2 = "a\<lparr>ec_tcp := b1\<lparr>tb_rd := tb_wr b1\<rparr>\<rparr>"
  have "echo_buf rt ms (ec_tcp ?a2)" using b1 by simp
  then obtain b2 where r2: "tb_read rt inbox_ops 8192 (ec_tcp ?a2) ?w1 = Some (Ret (EndOfStream, b2, ?w1))"
    using inbox_read [OF _ rt, of ms "ec_tcp ?a2" ?w1] w(2) by auto
  have "check_special_chars inbox_ops d ?a2 [] ?w1 = Some (Ret (?a2, [], ?w1))"
    using d(3,4) by (simp add: check_special_chars_def)
  note turn [OF this]
  also have "echoer_read_loop rt inbox_ops ?a2 ([] @ [RqAfter (secs 1) (SendData d)]) ?w1 =
      Some (Ret (?a2\<lparr>ec_tcp := b2\<rparr>, [RqAfter (secs 1) (SendData d), RqAfter (secs 1) SendEof], ?w1))"
    by (subst echoer_read_loop.simps) (simp only: r2, simp)
  finally show thesis
    by (intro that [of "?a2\<lparr>ec_tcp := b2\<rparr>"])
      (simp add: echoer_ready_def is_readable_def is_writable_def ready_consts)
qed

section \<open>One connection\<close>

abbreviation demo_source :: "nat mio_source" where
  "demo_source \<equiv> \<lparr>ms_token = 1, ms_source = 0\<rparr>"

text \<open>The peer has sent \<open>inbox\<close> and closed.\<close>

definition demo_conn :: "bytes \<Rightarrow> (nat, demo_net) echo_conn" where
  "demo_conn inbox = \<lparr>cn_actor = echoer_new demo_source, cn_running = True, cn_end = [], cn_now = 0,
     cn_delayed = [], cn_received = [],
     cn_net = \<lparr>dn_sent = (\<lambda>s. []), dn_got = (\<lambda>s. []), dn_inbox = (\<lambda>s. inbox), dn_closed = (\<lambda>s. True)\<rparr>\<rparr>"

lemma demo_conn_sel [simp]:
  "cn_actor (demo_conn inbox) = echoer_new demo_source" "cn_running (demo_conn inbox)"
  "dn_sent (cn_net (demo_conn inbox)) s = []" "dn_got (cn_net (demo_conn inbox)) s = []"
  "dn_inbox (cn_net (demo_conn inbox)) s = inbox" "dn_closed (cn_net (demo_conn inbox)) s"
  by (simp_all add: demo_conn_def)

lemma demo_init: "echo_init (demo_tx (ms_source demo_source)) (demo_rx (ms_source demo_source)) demo_source
    (demo_conn inbox)"
  by (simp add: echo_init_def demo_conn_def)

lemma demo_buf: "echo_buf rt ms (ec_tcp (echoer_new ms))"
  by (simp add: echo_buf_def echoer_new_def tb_new_def tb_wf_def echo_space_def)

lemma demo_ready_got:
  assumes "inbox \<noteq> []" "length inbox \<le> 8192"
  obtains a rq w where "echoer_ready exact_rt inbox_ops (Ready READY_RD) (cn_actor (demo_conn inbox)) []
      (cn_net (demo_conn inbox)) = Some (Ret (a, rq, w))" "dn_got w 0 = inbox"
  using assms inbox_ready_got [OF demo_buf [of exact_rt demo_source] exact_rt_ok, of "cn_net (demo_conn inbox)"]
  by auto

abbreviation demo_reach :: "bytes \<Rightarrow> (nat, demo_net) echo_conn \<Rightarrow> bool" where
  "demo_reach inbox \<equiv> echo_reachable exact_rt inbox_ops (demo_tx (ms_source demo_source))
     (demo_rx (ms_source demo_source)) (inbox_ended (ms_source demo_source)) (demo_conn inbox)"

lemma demo_read_all:
  obtains s where "demo_reach [72, 105] s" "cn_running s" "dn_got (cn_net s) 0 = [72, 105]"
    "SendEof \<in> snd ` set (cn_delayed s)"
proof -
  obtain a where "echoer_ready exact_rt inbox_ops (Ready READY_RD) (echoer_new demo_source) []
      (cn_net (demo_conn [72, 105])) =
    Some (Ret (a, [RqAfter (secs 1) (SendData [72, 105]), RqAfter (secs 1) SendEof],
      inbox_taken 0 (cn_net (demo_conn [72, 105]))))"
    by (rule inbox_ready [OF demo_buf [of exact_rt demo_source] exact_rt_ok,
          of "cn_net (demo_conn [72, 105])" "[72, 105]"]) simp_all
  then have "echoer_ready exact_rt inbox_ops (Ready READY_RD) (cn_actor (demo_conn [72, 105])) []
      (cn_net (demo_conn [72, 105])) =
    Some (Ret (a, [RqAfter (secs 1) (SendData [72, 105]), RqAfter (secs 1) SendEof],
      inbox_taken 0 (cn_net (demo_conn [72, 105]))))" by simp
  from echo_next [OF echo_begin step_ready [OF demo_conn_sel(2) this]] show thesis
    by (rule that) (simp_all add: after_handler_def)
qed

lemma demo_drained:
  obtains s where "demo_reach [72, 105] s" "dn_got (cn_net s) 0 = [72, 105]"
    "dn_sent (cn_net s) 0 = [72, 105]" "cn_end s = [RqStop]"
proof -
  obtain s where s: "demo_reach [72, 105] s" "cn_running s" "dn_got (cn_net s) 0 = [72, 105]"
    "SendEof \<in> snd ` set (cn_delayed s)" by (rule demo_read_all)
  note inv = echo_reachable_inv [OF s(1) inbox_stream exact_rt_ok demo_init]
  from echo_drain [OF inbox_stream inbox_accepts exact_rt_ok inv s(2)] s(3,4) obtain s' where
    "echo_reachable exact_rt inbox_ops (demo_tx (ms_source demo_source))
       (demo_rx (ms_source demo_source)) (inbox_ended (ms_source demo_source)) s s'"
    "dn_sent (cn_net s') 0 = [72, 105]" "dn_got (cn_net s') 0 = [72, 105]" "cn_end s' = [RqStop]"
    by auto
  with echo_reachable_trans [OF _ s(1)] show thesis by (intro that)
qed

end
