(* ===== verification/Echo_Properties.thy ===== *)
theory Echo_Properties
  imports Echo_Demo
begin

text \<open>
  The properties of a connection of the echo server, with witnesses on a network that accepts every
  write and hands over what is in its inbox.
\<close>

section \<open>The failure of an actor by a special character\<close>

definition abort_ok :: "echo_request list \<Rightarrow> bool" where
  "abort_ok rq \<longleftrightarrow> (RqFail AbortError \<in> set rq \<longleftrightarrow> PERCENT \<in> set (concat (data_calls (rq_calls rq)))) \<and>
     (\<forall>e. RqFail e \<in> set rq \<longrightarrow> e = AbortError \<or> (\<exists>x. e = ReadFailure x \<or> e = WriteFailure x))"

lemma echoer_flush_requests:
  assumes "echoer_flush T a rq w = Some (Ret (a', rq', w'))"
  obtains new where "rq' = rq @ new @ (if tb_out_eof (ec_tcp a') \<and> tb_out (ec_tcp a') = [] then [RqStop] else [])"
    "new = [] \<or> (\<exists>e. new = [RqFail (WriteFailure e)])"
proof -
  from assms obtain r b where b: "tb_flush T (ec_tcp a) w = Some (Ret (r, b, w'))" "a' = a\<lparr>ec_tcp := b\<rparr>"
    and rq':
    "rq' = (let rq1 = (case r of Inl e \<Rightarrow> rq @ [RqFail (WriteFailure e)] | Inr _ \<Rightarrow> rq)
            in if tb_out_eof b \<and> tb_out b = [] then rq1 @ [RqStop] else rq1)"
    by (auto simp only: echoer_flush_def ebind_eq_Ret Let_def split_paired_Ex prod.case
        option.inject outcome.inject prod.inject)
  from b(2) have "ec_tcp a' = b" by simp
  with rq' show thesis
    by (intro that [of "case r of Inl e \<Rightarrow> [RqFail (WriteFailure e)] | Inr _ \<Rightarrow> []"])
      (auto simp: Let_def split: sum.splits)
qed

lemma echoer_flush_abort:
  assumes "echoer_flush T a rq w = Some (Ret (a', rq', w'))"
  shows "abort_ok rq' = abort_ok rq"
  by (rule echoer_flush_requests [OF assms]) (auto simp: abort_ok_def)

lemma check_special_chars_abort:
  assumes "check_special_chars T data a rq w = Some (Ret (a', rq', w'))" "abort_ok rq"
  shows "abort_ok (rq' @ [RqAfter t (SendData data)])"
proof -
  from assms(1) obtain a1 rq1 w1 where
    "(if BANG \<in> set data then echoer_flush T (a\<lparr>ec_tcp := (ec_tcp a)\<lparr>tb_out_eof := True\<rparr>\<rparr>) rq w
      else Some (Ret (a, rq, w))) = Some (Ret (a1, rq1, w1))"
    "rq' = (if PERCENT \<in> set data then rq1 @ [RqFail AbortError] else rq1)"
    by (auto simp: check_special_chars_def ebind_eq_Ret)
  moreover from this have "abort_ok rq1"
    using assms(2) by (auto dest: echoer_flush_abort split: if_splits)
  ultimately show ?thesis by (auto simp: abort_ok_def)
qed

lemma echoer_read_loop_abort:
  assumes "echoer_read_loop rt T a rq w = Some (Ret (a', rq', w'))" "abort_ok rq"
  shows "abort_ok rq'"
proof -
  have "abort_ok rq \<longrightarrow> (\<forall>y. Ret (a', rq', w') = Ret y \<longrightarrow> abort_ok (fst (snd y)))"
  proof (rule echoer_read_loop.raw_induct [OF _ assms(1), where P = "\<lambda>rt T a rq w res.
      abort_ok rq \<longrightarrow> (\<forall>y. res = Ret y \<longrightarrow> abort_ok (fst (snd y)))"], intro impI, goal_cases)
    case (1 rec rt T a rq w res)
    show ?case
    proof (intro allI impI)
      fix y
      assume y: "res = Ret y"
      with 1(2) obtain st tcp w1 where read: "tb_read rt T 8192 (ec_tcp a) w = Some (Ret (st, tcp, w1))"
        by (auto split: option.splits outcome.splits)
      let ?d = "slice (tb_rd tcp) (tb_wr tcp) (tb_inp tcp)"
      show "abort_ok (fst (snd y))"
      proof (cases "st = NewData")
        case True
        with 1(2) read y obtain a2 rq2 w2 where
          "check_special_chars T ?d (a\<lparr>ec_tcp := tcp\<lparr>tb_rd := tb_wr tcp\<rparr>\<rparr>) rq w1 = Some (Ret (a2, rq2, w2))"
          "rec rt T a2 (rq2 @ [RqAfter (secs 1) (SendData ?d)]) w2 = Some res"
          by (auto simp: Let_def split: option.splits outcome.splits if_splits)
        from 1(1) [OF this(2)] check_special_chars_abort [OF this(1) 1(3)] y show ?thesis by simp
      next
        case False
        with 1(2,3) read y show ?thesis by (auto simp: abort_ok_def split: read_status.splits)
      qed
    qed
  qed
  with assms(2) show ?thesis by simp
qed

lemma echoer_ready_requests:
  assumes "echoer_ready rt T ready a [] w = Some (Ret (a', rq, w'))"
  shows "abort_ok rq"
proof -
  have start: "abort_ok []" by (simp add: abort_ok_def)
  from assms obtain a1 rq1 w1 where
    "(if is_readable ready then echoer_read_loop rt T a [] w else Some (Ret (a, [], w))) =
      Some (Ret (a1, rq1, w1))"
    "(if is_writable ready then echoer_flush T a1 rq1 w1 else Some (Ret (a1, rq1, w1))) =
      Some (Ret (a', rq, w'))"
    by (auto simp: echoer_ready_def ebind_eq_Ret)
  moreover from this(1) have "abort_ok rq1"
    using start echoer_read_loop_abort by (auto split: if_splits)
  ultimately show ?thesis by (auto dest: echoer_flush_abort split: if_splits)
qed

lemma echoer_ready_abort:
  assumes "echoer_ready rt T ready a [] w = Some (Ret (a', rq, w'))"
  shows "RqFail AbortError \<in> set rq \<longleftrightarrow> PERCENT \<in> set (concat (data_calls (rq_calls rq)))"
  using echoer_ready_requests [OF assms] by (simp add: abort_ok_def)

text \<open>An event that is also writable ends with a flush, and so with the request to stop when the
  output is complete.\<close>

lemma echoer_ready_stops_last:
  assumes "echoer_ready rt T ready a [] w = Some (Ret (a', rq, w'))" "is_writable ready"
    and "tb_out_eof (ec_tcp a')" "tb_out (ec_tcp a') = []"
  shows "last rq = RqStop"
proof -
  from assms(1,2) obtain a1 rq1 w1 where "echoer_flush T a1 rq1 w1 = Some (Ret (a', rq, w'))"
    by (auto simp: echoer_ready_def ebind_eq_Ret)
  then show ?thesis by (rule echoer_flush_requests) (use assms(3,4) in simp)
qed

section \<open>Echoing\<close>

text \<open>C3. The echo is faithful: in every reachable state of a connection the chunks received split
  into those given to the output and those that still wait; the bytes sent, followed by the
  output left, are exactly the former in the order received, and each of them was received at
  least one second ago; the latter are exactly the calls of \<open>send_data\<close> that are delayed, each to one
  second after its chunk was received, and followed by nothing but calls of \<open>send_eof\<close>. So nothing
  received is lost, doubled or overtaken. This holds whatever the stream does, and also after the
  actor has ended.\<close>

theorem echo_in_order:
  assumes "echo_stream T tx rx ended (ms_source ms)" "vec_grow_ok rt"
    and "echo_init (tx (ms_source ms)) (rx (ms_source ms)) ms s0"
    and "echo_reachable rt T (tx (ms_source ms)) (rx (ms_source ms)) ended s0 s"
  shows "\<exists>old young eofs. cn_received s = old @ young
    \<and> rx (ms_source ms) (cn_net s) = all_bytes (old @ young)
    \<and> tx (ms_source ms) (cn_net s) @ tb_out (ec_tcp (cn_actor s)) = all_bytes old
    \<and> (\<forall>x\<in>set old. fst x + secs 1 \<le> cn_now s)
    \<and> cn_delayed s = map (\<lambda>(t, d). (t + secs 1, SendData d)) young @ eofs
    \<and> snd ` set eofs \<subseteq> {SendEof}"
proof -
  from echo_reachable_inv [OF assms(4,1,2,3)] obtain old young eofs where
    "echo_split (tx (ms_source ms)) ended s old young eofs"
    "rx (ms_source ms) (cn_net s) = all_bytes (cn_received s)"
    by (auto simp: echo_inv_def echo_core_def)
  then show ?thesis unfolding echo_split_def due_calls_def
    by (intro exI [of _ old] exI [of _ young] exI [of _ eofs]) simp
qed

theorem echo_in_order_witness:
  "\<exists>s old young eofs. demo_reach [72, 105] s \<and> cn_received s = old @ young \<and>
     all_bytes (old @ young) = [72, 105] \<and> dn_sent (cn_net s) 0 @ tb_out (ec_tcp (cn_actor s)) = all_bytes old \<and>
     SendEof \<in> snd ` set (cn_delayed s) \<and>
     cn_delayed s = map (\<lambda>(t, d). (t + secs 1, SendData d)) young @ eofs"
proof -
  obtain s where s: "demo_reach [72, 105] s" "cn_running s" "dn_got (cn_net s) 0 = [72, 105]"
    "SendEof \<in> snd ` set (cn_delayed s)" by (rule demo_read_all)
  from echo_in_order [OF inbox_stream exact_rt_ok demo_init s(1)] obtain old young eofs where
    "cn_received s = old @ young" "dn_got (cn_net s) 0 = all_bytes (old @ young)"
    "dn_sent (cn_net s) 0 @ tb_out (ec_tcp (cn_actor s)) = all_bytes old"
    "cn_delayed s = map (\<lambda>(t, d). (t + secs 1, SendData d)) young @ eofs" by auto
  with s show ?thesis
    by (intro exI [of _ s] exI [of _ old] exI [of _ young] exI [of _ eofs]) auto
qed

text \<open>C14. The echo is complete: an actor that asked to be stopped without having received a \<open>'!'\<close>
  has sent back everything it received, its output is empty and its peer has closed the stream.\<close>

theorem echo_complete:
  assumes "echo_stream T tx rx ended (ms_source ms)" "vec_grow_ok rt"
    and "echo_init (tx (ms_source ms)) (rx (ms_source ms)) ms s0"
    and "echo_reachable rt T (tx (ms_source ms)) (rx (ms_source ms)) ended s0 s"
    and "RqStop \<in> set (cn_end s)" "BANG \<notin> set (rx (ms_source ms) (cn_net s))"
  shows "tx (ms_source ms) (cn_net s) = rx (ms_source ms) (cn_net s)
    \<and> tb_out (ec_tcp (cn_actor s)) = [] \<and> ended (cn_net s)"
proof -
  note inv = echo_reachable_inv [OF assms(4,1,2,3)]
  with assms(5) have fin: "tb_out (ec_tcp (cn_actor s)) = []" "tb_out_eof (ec_tcp (cn_actor s))"
    by (simp_all add: echo_inv_def)
  have "ended (cn_net s)" using inv fin(2) assms(6)
    by (auto simp: echo_inv_def echo_core_def echo_split_def)
  with echo_all_sent [OF inv fin(1)] fin assms(6) show ?thesis by blast
qed

theorem echo_complete_witness:
  "\<exists>s. demo_reach [72, 105] s \<and> RqStop \<in> set (cn_end s) \<and> dn_sent (cn_net s) 0 = [72, 105] \<and>
     inbox_ended 0 (cn_net s)"
proof -
  obtain s where s: "demo_reach [72, 105] s" "dn_got (cn_net s) 0 = [72, 105]"
    "cn_end s = [RqStop]" by (rule demo_drained)
  then have stop: "RqStop \<in> set (cn_end s)" by simp
  have "BANG \<notin> set (dn_got (cn_net s) (ms_source demo_source))" using s(2) by simp
  from echo_complete [OF inbox_stream exact_rt_ok demo_init s(1) stop this] s stop show ?thesis by auto
qed

text \<open>C21. The echo arrives: take any infinite run of a connection in which Stakker lets time pass and
  runs the calls that are due, on a stream that accepts what it is given, with an actor that never
  fails and never receives a \<open>'!'\<close>. Then whatever has been received at some point has been sent
  back from some later point on; and if the actor had seen the end of the stream, it has also
  stopped by then.\<close>

theorem echo_arrives:
  assumes "echo_stream T tx rx ended (ms_source ms)" "tcp_accepts T (ms_source ms)" "vec_grow_ok rt"
    and "echo_init (tx (ms_source ms)) (rx (ms_source ms)) ms s0"
    and "echo_run rt T (tx (ms_source ms)) (rx (ms_source ms)) ended s0 r" "echo_fair T r"
    and "\<forall>i e. RqFail e \<notin> set (cn_end (r i))"
    and "\<forall>i. BANG \<notin> set (rx (ms_source ms) (cn_net (r i)))"
  shows "\<forall>i. \<exists>j\<ge>i. \<forall>k\<ge>j.
      (\<exists>more. tx (ms_source ms) (cn_net (r k)) = rx (ms_source ms) (cn_net (r i)) @ more)
    \<and> (SendEof \<in> snd ` set (cn_delayed (r i)) \<longrightarrow> RqStop \<in> set (cn_end (r k)))"
  using echo_run_arrives [OF assms(1-6)] assms(7,8) by blast

text \<open>For the witness: such a run, of a connection that sends back a greeting.\<close>

lemma demo_run:
  obtains r s i where "echo_run exact_rt inbox_ops (demo_tx (ms_source demo_source))
      (demo_rx (ms_source demo_source)) (inbox_ended (ms_source demo_source)) (demo_conn [72, 105]) r"
    "echo_fair inbox_ops r" "\<forall>i e. RqFail e \<notin> set (cn_end (r i))"
    "\<forall>i. BANG \<notin> set (dn_got (cn_net (r i)) (ms_source demo_source))"
    "dn_got (cn_net (r i)) 0 = [72, 105]"
proof -
  obtain s where s: "demo_reach [72, 105] s" "dn_got (cn_net s) 0 = [72, 105]" "cn_end s = [RqStop]"
    by (rule demo_drained)
  have init: "cn_running (demo_conn [72, 105])" "cn_end (demo_conn [72, 105]) = []"
    by (simp_all add: demo_conn_def)
  have "\<not> cn_running s" using echo_end_asked [OF s(1) init] s(3) by simp
  then obtain r n where r: "echo_run exact_rt inbox_ops (demo_tx (ms_source demo_source))
      (demo_rx (ms_source demo_source)) (inbox_ended (ms_source demo_source)) (demo_conn [72, 105]) r"
    "echo_fair inbox_ops r" "r n = s" by (rule echo_run_exists [OF s(1)]) (rule that)
  have start: "r 0 = demo_conn [72, 105]" using r(1) by (simp add: echo_run_def)
  have reach: "demo_reach [72, 105] (r i)" for i
    using echo_run_reachable [OF r(1) le0, of i] start by simp
  note inv = echo_reachable_inv [OF reach inbox_stream exact_rt_ok demo_init]
  have same: "cn_end (r i) = [RqStop]" if "\<not> cn_running (r i)" for i
  proof (cases "i \<le> n")
    case True
    from echo_ended [OF echo_run_reachable [OF r(1) True] that] s(3) r(3) show ?thesis by simp
  next
    case False
    then have "n \<le> i" by simp
    from echo_ended [OF echo_run_reachable [OF r(1) this]] \<open>\<not> cn_running s\<close> s(3) r(3) show ?thesis by simp
  qed
  have "RqFail e \<notin> set (cn_end (r i))" for i e
    using same [of i] echo_end_asked [OF reach [of i] init] by (cases "cn_running (r i)") auto
  moreover have "BANG \<notin> set (dn_got (cn_net (r i)) (ms_source demo_source))" for i
  proof (cases "i \<le> n")
    case True
    from echo_received_grows [OF echo_run_reachable [OF r(1) True] inbox_stream exact_rt_ok inv [of i]] r(3)
    obtain m where "cn_received s = cn_received (r i) @ m" by auto
    with echo_inv_received [OF inv [of i]] echo_inv_received [OF inv [of n]] r(3)
    have "dn_got (cn_net s) 0 = dn_got (cn_net (r i)) (ms_source demo_source) @ all_bytes m" by simp
    with s(2) have "set (dn_got (cn_net (r i)) (ms_source demo_source)) \<subseteq> {72, 105}"
      by (metis Un_upper1 list.simps(15) set_append empty_set insert_is_Un)
    then show ?thesis by auto
  next
    case False
    then have "n \<le> i" by simp
    from echo_ended [OF echo_run_reachable [OF r(1) this]] \<open>\<not> cn_running s\<close> s(2) r(3) show ?thesis by simp
  qed
  ultimately show thesis using r s(2) by (intro that [of r n]) simp_all
qed

theorem echo_arrives_witness:
  "\<exists>r (i::nat) k. demo_reach [72, 105] (r i) \<and> dn_got (cn_net (r i)) 0 = [72, 105] \<and> i \<le> k \<and>
     (\<exists>more. dn_sent (cn_net (r k)) 0 = [72, 105] @ more)"
proof -
  obtain r i where r: "echo_run exact_rt inbox_ops (demo_tx (ms_source demo_source))
      (demo_rx (ms_source demo_source)) (inbox_ended (ms_source demo_source)) (demo_conn [72, 105]) r"
    "echo_fair inbox_ops r" "\<forall>i e. RqFail e \<notin> set (cn_end (r i))"
    "\<forall>i. BANG \<notin> set (dn_got (cn_net (r i)) (ms_source demo_source))" "dn_got (cn_net (r i)) 0 = [72, 105]"
    by (rule demo_run)
  have "r 0 = demo_conn [72, 105]" using r(1) by (simp add: echo_run_def)
  with echo_run_reachable [OF r(1) le0, of i] have "demo_reach [72, 105] (r i)" by simp
  moreover from echo_arrives [OF inbox_stream inbox_accepts exact_rt_ok demo_init r(1-4)] r(5)
  obtain j more where "i \<le> j" "dn_sent (cn_net (r j)) 0 = [72, 105] @ more" by force
  ultimately show ?thesis using r(5) by blast
qed

section \<open>Handlers\<close>

text \<open>C31. The handlers return: in every reachable state, if the peer has sent finitely many bytes
  and signals arrive finitely often, every event and every delayed call is handled to its end,
  without a panic.\<close>

theorem echo_handlers_return:
  assumes "echo_stream T tx rx ended (ms_source ms)" "vec_grow_ok rt"
    and "echo_init (tx (ms_source ms)) (rx (ms_source ms)) ms s0"
    and "echo_reachable rt T (tx (ms_source ms)) (rx (ms_source ms)) ended s0 s"
    and "echo_budget T (ms_source ms) m"
  shows "returns (echoer_ready rt T ready (cn_actor s) [] (cn_net s))
    \<and> returns (echoer_call T call (cn_actor s) [] (cn_net s))"
proof -
  have buf: "echo_buf rt ms (ec_tcp (cn_actor s))"
    using echo_reachable_inv [OF assms(4,1,2,3)] by (simp add: echo_inv_def echo_core_def)
  let ?r = "echoer_ready rt T ready (cn_actor s) [] (cn_net s)"
  let ?c = "echoer_call T call (cn_actor s) [] (cn_net s)"
  have "?r \<noteq> None" by (rule echoer_ready_total [OF buf assms(2,1,5)])
  moreover have "?r \<noteq> Some Panic"
    using echoer_ready_post [OF buf assms(2,1)] by (simp add: handled_def)
  moreover have "?c \<noteq> None"
    unfolding echoer_call_flush by (rule echoer_flush_total [OF echo_budgetD(1) [OF assms(5)]])
  moreover have "?c \<noteq> Some Panic"
    using echoer_call_post [OF buf assms(1)] by (simp add: handled_def)
  ultimately show ?thesis by (simp add: exec_returns)
qed

theorem echo_handlers_return_witness:
  "returns (echoer_ready exact_rt inbox_ops (Ready READY_RD) (cn_actor (demo_conn [33, 37])) []
     (cn_net (demo_conn [33, 37])))"
  using echo_handlers_return [OF inbox_stream exact_rt_ok demo_init echo_begin inbox_budget] by blast

text \<open>C30. The input buffer stays bounded: however much passes through a connection, between two
  handlers nothing is unread, the offsets are at most 8192, and the buffer is either still
  unused or the one allocation that the first read asked for, of at least 16384 bytes.\<close>

theorem echo_buffer_bounded:
  assumes "echo_stream T tx rx ended (ms_source ms)" "vec_grow_ok rt"
    and "echo_init (tx (ms_source ms)) (rx (ms_source ms)) ms s0"
    and "echo_reachable rt T (tx (ms_source ms)) (rx (ms_source ms)) ended s0 s"
    and "b = ec_tcp (cn_actor s)"
  shows "tb_rd b = tb_wr b \<and> tb_wr b \<le> 8192 \<and> length (tb_inp b) = tb_inp_cap b
    \<and> (tb_inp_cap b = 0 \<or> tb_inp_cap b = vec_grow rt 0 0 16384 \<and> 16384 \<le> tb_inp_cap b)"
proof -
  have "echo_buf rt ms b"
    using echo_reachable_inv [OF assms(4,1,2,3)] by (simp add: echo_inv_def echo_core_def assms(5))
  with echo_alloc_bounds(1) [OF assms(2)] show ?thesis
    by (auto simp: echo_buf_def echo_space_def echo_alloc_def)
qed

theorem echo_buffer_bounded_witness:
  "\<exists>s. demo_reach [72, 105] s \<and> dn_sent (cn_net s) 0 = [72, 105] \<and>
     tb_inp_cap (ec_tcp (cn_actor s)) \<in> {0, 16384}"
proof -
  obtain s where s: "demo_reach [72, 105] s" "dn_sent (cn_net s) 0 = [72, 105]" by (rule demo_drained)
  from echo_buffer_bounded [OF inbox_stream exact_rt_ok demo_init s(1) refl] s show ?thesis
    by (auto simp: exact_rt_def)
qed

section \<open>Special characters\<close>

text \<open>A \<open>'!'\<close> ends the connection: if an event brings one while no output is left, the actor
  is stopped at the end of that handler, and from then on nothing more is sent, the data that
  still waited for its second included.\<close>

theorem echo_bang_terminates:
  assumes "echo_stream T tx rx ended (ms_source ms)" "vec_grow_ok rt"
    and "echo_init (tx (ms_source ms)) (rx (ms_source ms)) ms s0"
    and "echo_reachable rt T (tx (ms_source ms)) (rx (ms_source ms)) ended s0 s"
    and "echoer_ready rt T ready (cn_actor s) [] (cn_net s) = Some (Ret (a, rq, w))"
    and "rx (ms_source ms) w = rx (ms_source ms) (cn_net s) @ new" "BANG \<in> set new"
    and "tb_out (ec_tcp (cn_actor s)) = []"
    and "echo_reachable rt T (tx (ms_source ms)) (rx (ms_source ms)) ended (after_handler s a rq w) t"
  shows "\<not> cn_running t \<and> tx (ms_source ms) (cn_net t) = tx (ms_source ms) (cn_net s)"
proof -
  have buf: "echo_buf rt ms (ec_tcp (cn_actor s))"
    using echo_reachable_inv [OF assms(4,1,2,3)] by (simp add: echo_inv_def echo_core_def)
  from echoer_ready_post [OF buf assms(2,1)] assms(5) obtain ds e where
    post: "echo_post rt tx rx ended ms (cn_actor s) (cn_net s) a rq w ds e"
    by (fastforce simp: handled_def)
  with assms(6-8) have "RqStop \<in> set rq" "tx (ms_source ms) w = tx (ms_source ms) (cn_net s)"
    by (auto simp: echo_post_def)
  moreover from this have "list_ex ends_actor rq"
    unfolding list_ex_iff by (intro bexI [of _ RqStop]) simp_all
  ultimately show ?thesis using echo_ended [OF assms(9)] by simp
qed

theorem echo_bang_terminates_witness:
  "\<exists>a rq w. echoer_ready exact_rt inbox_ops (Ready READY_RD) (cn_actor (demo_conn [72, 33])) []
       (cn_net (demo_conn [72, 33])) = Some (Ret (a, rq, w)) \<and>
     \<not> cn_running (after_handler (demo_conn [72, 33]) a rq w) \<and> dn_sent w 0 = []"
proof -
  let ?s = "demo_conn [72, 33]"
  obtain a rq w where run: "echoer_ready exact_rt inbox_ops (Ready READY_RD) (cn_actor ?s) [] (cn_net ?s) =
      Some (Ret (a, rq, w))" "dn_got w 0 = [72, 33]"
    by (rule demo_ready_got [of "[72, 33]"]) simp_all
  have "dn_got w (ms_source demo_source) = dn_got (cn_net ?s) (ms_source demo_source) @ [72, 33]" "BANG \<in> set [72, 33 :: u8]"
    "tb_out (ec_tcp (cn_actor ?s)) = []"
    using run(2) by (simp_all add: demo_conn_def echoer_new_def tb_new_def)
  from echo_bang_terminates [OF inbox_stream exact_rt_ok demo_init echo_begin run(1) this echo_begin] run(1)
  show ?thesis by (auto simp: demo_conn_def)
qed

text \<open>
  A request that ends the actor brings the Listener down when it is for \<open>AbortError\<close>.
\<close>

lemma child_terminated_simps:
  "child_terminated Stopped = []"
  "child_terminated (Failed e) = (if e = AbortError then [RqFail ChildAborted] else [])"
  by (simp_all add: child_terminated_def)

lemma child_terminated_cause:
  "child_terminated (end_cause q) = (if q = RqFail AbortError then [RqFail ChildAborted] else [])"
  by (cases q) (simp_all add: child_terminated_def)

text \<open>C32. What a \<open>'%'\<close> does: an event makes the actor ask to fail with \<open>AbortError\<close> exactly when
  there is a \<open>'%'\<close> among the bytes it brings. If there is none, no end that the actor asks for brings
  the Listener down. If there is one, on a connection that has brought no \<open>'!'\<close> and with no failure
  to read or write in the same event, the actor ends and its end, whichever request counts, makes
  the Listener fail. With a \<open>'!'\<close> beside the \<open>'%'\<close> and no output left this is not so: then the actor
  also asks to be stopped, and on an event that is writable as well this is its last request.
  The Listener fails for no cause but \<open>AbortError\<close>.\<close>

theorem echo_percent_aborts:
  assumes "echo_stream T tx rx ended (ms_source ms)" "vec_grow_ok rt"
    and "echo_init (tx (ms_source ms)) (rx (ms_source ms)) ms s0"
    and "echo_reachable rt T (tx (ms_source ms)) (rx (ms_source ms)) ended s0 s"
    and "echoer_ready rt T ready (cn_actor s) [] (cn_net s) = Some (Ret (a, rq, w))"
  shows "(\<exists>new. rx (ms_source ms) w = rx (ms_source ms) (cn_net s) @ new
      \<and> (RqFail AbortError \<in> set rq \<longleftrightarrow> PERCENT \<in> set new)
      \<and> (PERCENT \<notin> set new \<longrightarrow> (\<forall>q\<in>set rq. ends_actor q \<longrightarrow> child_terminated (end_cause q) = []))
      \<and> (PERCENT \<in> set new \<and> BANG \<notin> set (rx (ms_source ms) w)
           \<and> (\<forall>e. RqFail (ReadFailure e) \<notin> set rq \<and> RqFail (WriteFailure e) \<notin> set rq) \<longrightarrow>
          (\<exists>q\<in>set rq. ends_actor q)
          \<and> (\<forall>q\<in>set rq. ends_actor q \<longrightarrow> child_terminated (end_cause q) = [RqFail ChildAborted]))
      \<and> (PERCENT \<in> set new \<and> BANG \<in> set new \<and> tb_out (ec_tcp (cn_actor s)) = [] \<longrightarrow>
          RqStop \<in> set rq \<and> child_terminated (end_cause RqStop) = []
          \<and> (is_writable ready \<longrightarrow> last rq = RqStop)))
    \<and> (child_terminated cause = (if cause = Failed AbortError then [RqFail ChildAborted] else []))"
proof -
  note inv = echo_reachable_inv [OF assms(4,1,2,3)]
  have buf: "echo_buf rt ms (ec_tcp (cn_actor s))" using inv by (simp add: echo_inv_def echo_core_def)
  from echoer_ready_post [OF buf assms(2,1)] assms(5) obtain ds e where
    post: "echo_post rt tx rx ended ms (cn_actor s) (cn_net s) a rq w ds e"
    by (fastforce simp: handled_def)
  let ?new = "concat ds"
  have got: "rx (ms_source ms) w = rx (ms_source ms) (cn_net s) @ ?new" using post by (simp add: echo_post_def)
  have asked: "RqFail AbortError \<in> set rq \<longleftrightarrow> PERCENT \<in> set ?new"
    and fails: "RqFail f \<in> set rq \<Longrightarrow> f = AbortError \<or> (\<exists>x. f = ReadFailure x \<or> f = WriteFailure x)" for f
    using echoer_ready_requests [OF assms(5)] post by (auto simp: abort_ok_def echo_post_def)
  have none: "child_terminated (end_cause q) = []" if "PERCENT \<notin> set ?new" "q \<in> set rq" for q
    using that asked by (auto simp: child_terminated_cause)
  have no_stop: "RqStop \<notin> set rq" if "PERCENT \<in> set ?new" "BANG \<notin> set (rx (ms_source ms) w)"
  proof -
    have "ds \<noteq> []" using that(1) by auto
    then have "\<not> ended (cn_net s)" using post by (auto simp: echo_post_def)
    then have "\<not> tb_out_eof (ec_tcp (cn_actor s))"
      using inv that(2) got by (auto simp: echo_inv_def echo_core_def echo_split_def)
    then show ?thesis using post that(2) got by (auto simp: echo_post_def)
  qed
  have all: "q = RqFail AbortError"
    if "PERCENT \<in> set ?new" "BANG \<notin> set (rx (ms_source ms) w)" "q \<in> set rq" "ends_actor q"
      "\<forall>e. RqFail (ReadFailure e) \<notin> set rq \<and> RqFail (WriteFailure e) \<notin> set rq" for q
    using that no_stop fails by (cases q) auto
  have both: "RqStop \<in> set rq \<and> (is_writable ready \<longrightarrow> last rq = RqStop)"
    if "BANG \<in> set ?new" "tb_out (ec_tcp (cn_actor s)) = []"
    using echoer_ready_stops_last [OF assms(5)] post that by (auto simp: echo_post_def)
  have "\<exists>q\<in>set rq. ends_actor q" if "PERCENT \<in> set ?new"
    using that asked by (intro bexI [of _ "RqFail AbortError"]) simp_all
  moreover have "child_terminated cause = (if cause = Failed AbortError then [RqFail ChildAborted] else [])"
    by (cases cause) (simp_all add: child_terminated_def)
  ultimately show ?thesis using got asked none all both
    by (intro conjI exI [of _ ?new]) (simp_all add: child_terminated_cause child_terminated_simps)
qed

theorem echo_percent_aborts_witness:
  "\<exists>a rq w. echoer_ready exact_rt inbox_ops (Ready READY_RD) (cn_actor (demo_conn [37])) []
       (cn_net (demo_conn [37])) = Some (Ret (a, rq, w)) \<and> RqFail AbortError \<in> set rq \<and>
     child_terminated (Failed AbortError) = [RqFail ChildAborted]"
proof -
  let ?s = "demo_conn [37]"
  obtain a rq w where run: "echoer_ready exact_rt inbox_ops (Ready READY_RD) (cn_actor ?s) [] (cn_net ?s) =
      Some (Ret (a, rq, w))" "dn_got w 0 = [37]"
    by (rule demo_ready_got [of "[37]"]) simp_all
  from echo_percent_aborts [OF inbox_stream exact_rt_ok demo_init echo_begin run(1),
      of "Failed AbortError"] run
  show ?thesis by (auto simp: demo_conn_def)
qed

end
