(* ===== verification/Echo_Listener.thy ===== *)
theory Echo_Listener
  imports Echo_Connection Mio_Properties
begin

text \<open>
  The properties of \<open>Listener\<close> and of the creation of both actors: the accept loop against a
  reference, and what registers with the poller when an actor starts.
\<close>

section \<open>The accept loop\<close>

text \<open>
  The reference: the sequence of calls of \<open>accept\<close> from a world, as the streams it gives, the
  error that ends it and the world then; an interrupted call is repeated.
\<close>

inductive accept_run ::
  "('w \<Rightarrow> ('s \<times> 'a) io \<times> 'w) \<Rightarrow> 'w \<Rightarrow> 's list \<Rightarrow> io_error \<Rightarrow> 'w \<Rightarrow> bool"
  for f where
  accept_end: "f w = (Inl e, w') \<Longrightarrow> err_kind e \<noteq> Interrupted \<Longrightarrow> accept_run f w [] e w'"
| accept_again: "f w = (Inl e0, w1) \<Longrightarrow> err_kind e0 = Interrupted \<Longrightarrow> accept_run f w1 xs e w' \<Longrightarrow>
     accept_run f w xs e w'"
| accept_stream: "f w = (Inr (x, addr), w1) \<Longrightarrow> accept_run f w1 xs e w' \<Longrightarrow>
     accept_run f w (x # xs) e w'"

definition accept_requests :: "io_error \<Rightarrow> echo_request list" where
  "accept_requests e = (if err_kind e = WouldBlock then [] else [RqFail (AcceptFailed e)])"

lemma adopt_child_listener [simp]:
  "li_listener (fst (adopt_child A now s x)) = li_listener (fst x)"
  by (cases x) (auto simp: adopt_child_def listener_activity_def split: prod.splits)

lemma listener_connect_complete:
  assumes "accept_run f w xs e w'" "f = lo_accept L (ms_source (li_listener (fst x)))"
  shows "listener_connect L A now x w = Some (fold (adopt_child A now) xs x, accept_requests e, w')"
  using assms
proof (induction arbitrary: x rule: accept_run.induct)
  case (accept_end w e w')
  then show ?case by (subst listener_connect.simps) (simp add: accept_requests_def)
next
  case (accept_again w e0 w1 xs e w')
  then show ?case by (subst listener_connect.simps) simp
next
  case (accept_stream w s addr w1 xs e w')
  then show ?case by (subst listener_connect.simps) simp
qed

lemma listener_connect_sound:
  assumes "listener_connect L A now x w = Some res"
  shows "\<exists>xs e w'. accept_run (lo_accept L (ms_source (li_listener (fst x)))) w xs e w' \<and>
    res = (fold (adopt_child A now) xs x, accept_requests e, w')"
proof (rule listener_connect.raw_induct [where xa = "((((L, A), now), x), w)"
      and P = "\<lambda>L A now x w res.
        \<exists>xs e w'. accept_run (lo_accept L (ms_source (li_listener (fst x)))) w xs e w' \<and>
          res = (fold (adopt_child A now) xs x, accept_requests e, w')",
      unfolded prod.case, OF _ assms], goal_cases)
  case (1 rec L A now x w res)
  let ?f = "lo_accept L (ms_source (li_listener (fst x)))"
  obtain r w1 where call: "?f w = (r, w1)" by fastforce
  show ?case
  proof (cases r)
    case (Inr sa)
    obtain s a where sa: "sa = (s, a)" by (cases sa)
    with 1(2) call Inr have "rec L A now (adopt_child A now s x) w1 = Some res" by simp
    from 1(1) [OF this] obtain xs e w' where "accept_run ?f w1 xs e w'"
      "res = (fold (adopt_child A now) xs (adopt_child A now s x), accept_requests e, w')" by auto
    with accept_stream [of ?f w s a w1] call Inr sa show ?thesis
      by (intro exI [of _ "s # xs"] exI [of _ e] exI [of _ w']) simp
  next
    case (Inl e0)
    show ?thesis
    proof (cases "err_kind e0 = Interrupted")
      case True
      with 1(2) call Inl have "rec L A now x w1 = Some res" by simp
      from 1(1) [OF this] accept_again [of ?f w e0 w1] call Inl True show ?thesis by blast
    next
      case False
      with 1(2) call Inl have "res = (x, accept_requests e0, w1)"
        by (auto simp: accept_requests_def split: if_splits)
      with accept_end [of ?f w e0 w1] call Inl False show ?thesis
        by (intro exI [of _ "[]"] exI [of _ e0] exI [of _ w1]) simp
    qed
  qed
qed

lemma listener_connect_total:
  assumes "\<And>w r w'. lo_accept L (ms_source ms) w = (r, w') \<Longrightarrow> interrupted r \<or> (\<exists>x. r = Inr x) \<Longrightarrow> m w' < (m w :: nat)"
    and "li_listener (fst x) = ms"
  shows "listener_connect L A now x w \<noteq> None"
  using assms(2)
proof (induction "m w" arbitrary: x w rule: less_induct)
  case less
  obtain r w1 where call: "lo_accept L (ms_source ms) w = (r, w1)" by fastforce
  show ?case
  proof (cases r)
    case (Inr sa)
    obtain s a where sa: "sa = (s, a)" by (cases sa)
    have "m w1 < m w" using assms(1) [OF call] Inr by blast
    then have "listener_connect L A now (adopt_child A now s x) w1 \<noteq> None"
      by (rule less(1)) (simp add: less(2))
    with call Inr sa less(2) show ?thesis by (subst listener_connect.simps) simp
  next
    case (Inl e)
    have "listener_connect L A now x w1 \<noteq> None" if "err_kind e = Interrupted"
    proof -
      have "m w1 < m w" using assms(1) [OF call] Inl that by simp
      then show ?thesis by (rule less(1)) (rule less(2))
    qed
    with call Inl less(2) show ?thesis by (subst listener_connect.simps) simp
  qed
qed

section \<open>Starting\<close>

lemma echo_add_cases:
  assumes "mio_poll_add S D src ready pri fwd (c, w) = Some (r, c', w')" "slab_ok S"
  obtains (err) e where "r = Inl e" "err_kind e \<noteq> Interrupted"
  | (ok) token where "r = Inr \<lparr>ms_token = token, ms_source = src\<rparr>"
      "slab_get S (token_map c) token = None"
      "slab_get S (token_map c') =
         (slab_get S (token_map c))(token \<mapsto> \<lparr>e_pri = min pri MAX_PRI, e_fwd = fwd\<rparr>)"
proof -
  from assms(1) obtain rt where add: "control_add S D src ready pri fwd (c, w) = Some (rt, c', w')"
    and r: "r = (case rt of Inl e \<Rightarrow> Inl e | Inr token \<Rightarrow> Inr \<lparr>ms_token = token, ms_source = src\<rparr>)"
    by (auto simp: mio_poll_add_def split: option.splits sum.splits)
  from add obtain token r0 where enter: "control_enter S pri fwd c = (token, c')"
    "retry (so_register D src token ready) w = Some (r0, w')"
    "rt = (case r0 of Inl e \<Rightarrow> Inl e | Inr _ \<Rightarrow> Inr token)"
    by (rule control_add_cases)
  show thesis
  proof (cases r0)
    case (Inl e)
    with enter(2) r enter(3) show thesis by (intro err [of e]) auto
  next
    case (Inr u)
    with r enter(3) control_enter_table [OF assms(2) enter(1)] show thesis by (intro ok) auto
  qed
qed

section \<open>Properties\<close>

text \<open>C29. The accept loop does what its reference says: it returns exactly when the calls of
  \<open>accept\<close> come to an answer other than a stream or an interruption, and then it has given one
  child to the slab and pushed the inactivity timer back for each stream accepted, in order, and
  has asked to fail exactly when that answer was not \<open>WouldBlock\<close>.\<close>

theorem listener_connect_spec:
  "listener_connect L A now x w = Some res \<longleftrightarrow>
     (\<exists>xs e w'. accept_run (lo_accept L (ms_source (li_listener (fst x)))) w xs e w'
       \<and> res = (fold (adopt_child A now) xs x,
           if err_kind e = WouldBlock then [] else [RqFail (AcceptFailed e)], w'))"
proof
  assume "listener_connect L A now x w = Some res"
  from listener_connect_sound [OF this] show "\<exists>xs e w'.
      accept_run (lo_accept L (ms_source (li_listener (fst x)))) w xs e w'
       \<and> res = (fold (adopt_child A now) xs x,
           if err_kind e = WouldBlock then [] else [RqFail (AcceptFailed e)], w')"
    by (simp add: accept_requests_def)
next
  assume "\<exists>xs e w'. accept_run (lo_accept L (ms_source (li_listener (fst x)))) w xs e w'
       \<and> res = (fold (adopt_child A now) xs x,
           if err_kind e = WouldBlock then [] else [RqFail (AcceptFailed e)], w')"
  then show "listener_connect L A now x w = Some res"
    using listener_connect_complete [OF _ refl, of L x w] by (auto simp: accept_requests_def)
qed

text \<open>A listening socket whose world is the list of the answers to come, and a Stakker that records
  the children as the streams they get and the timer as its latest time.\<close>

definition queue_listen_ops :: "(nat, nat, unit, (nat \<times> unit) io list) listen_ops" where
  "queue_listen_ops = \<lparr>lo_bind = (\<lambda>port w. (Inr 0, w)),
     lo_accept = (\<lambda>l w. case w of [] \<Rightarrow> (Inl (io_err WouldBlock), []) | r # rs \<Rightarrow> (r, rs)),
     lo_readable = 1, lo_writable = 2\<rparr>"

definition demo_actor_ops :: "(nat, nat list, nat option, unit) actor_ops" where
  "demo_actor_ops = \<lparr>ao_slab_new = [], ao_key_default = None,
     ao_actor_in_slab = (\<lambda>s (ch, st). (ch @ [s], st)),
     ao_timer_max = (\<lambda>t (key, st). (Some (case key of None \<Rightarrow> t | Some t0 \<Rightarrow> max t0 t), st))\<rparr>"

definition demo_listener :: "(nat, nat list, nat option) listener" where
  "demo_listener = \<lparr>li_children = [], li_listener = \<lparr>ms_token = 1, ms_source = 0\<rparr>, li_inactivity = None\<rparr>"

theorem listener_connect_spec_witness:
  "listener_connect queue_listen_ops demo_actor_ops 5 (demo_listener, ())
      [Inr (7, ()), Inl (io_err Interrupted), Inr (8, ()), Inl (io_err Other)] =
    Some ((demo_listener\<lparr>li_children := [7, 8], li_inactivity := Some (5 + secs 60)\<rparr>, ()),
      [RqFail (AcceptFailed (io_err Other))], [])"
proof -
  let ?f = "lo_accept queue_listen_ops (ms_source (li_listener (fst (demo_listener, ()))))"
  have "accept_run ?f [Inr (7, ()), Inl (io_err Interrupted), Inr (8, ()), Inl (io_err Other)]
      [7, 8] (io_err Other) []"
    by (rule accept_stream accept_again accept_end, simp add: queue_listen_ops_def, (simp; fail)?)+
  moreover have "fold (adopt_child demo_actor_ops 5) [7, 8] (demo_listener, ()) =
      (demo_listener\<lparr>li_children := [7, 8], li_inactivity := Some (5 + secs 60)\<rparr>, ())"
    by (simp add: adopt_child_def listener_activity_def demo_actor_ops_def demo_listener_def)
  ultimately show ?thesis
    by (subst listener_connect_spec) (intro exI conjI, assumption, simp)
qed

text \<open>The accept loop returns: if the backlog is finite and signals arrive finitely often, that
  is, if each accepted stream and each interruption uses up one of \<open>m w\<close>, \<open>connect\<close> returns.\<close>

theorem listener_connect_returns:
  assumes "\<And>w r w'. lo_accept L (ms_source (li_listener (fst x))) w = (r, w') \<Longrightarrow>
      interrupted r \<or> (\<exists>y. r = Inr y) \<Longrightarrow> m w' < (m w :: nat)"
  shows "\<exists>x' rq w'. listener_connect L A now x w = Some (x', rq, w')"
proof -
  have "listener_connect L A now x w \<noteq> None" by (rule listener_connect_total [OF assms refl])
  then show ?thesis by (cases "listener_connect L A now x w") auto
qed

theorem listener_connect_returns_witness:
  "\<exists>x' rq w'. listener_connect queue_listen_ops demo_actor_ops 5 (demo_listener, ())
      [Inr (7, ()), Inl (io_err Interrupted), Inr (8, ())] = Some (x', rq, w')"
  by (rule listener_connect_returns [where m = length])
     (auto simp: queue_listen_ops_def split: list.splits)

text \<open>\<open>Echoer::init\<close> either gives the actor that the properties of a connection start from, on
  the stream it was given, which is now registered under a fresh token with priority 10 and the
  actor's own handler, or it gives no actor and asks to fail with the error of the
  registration, which is not an interruption.\<close>

theorem echoer_init_spec:
  assumes "slab_ok S" "echoer_init L S D fwd stream (c, w) = Some (res, rq, c', w')"
  shows "(\<exists>token. res = Some (echoer_new \<lparr>ms_token = token, ms_source = stream\<rparr>) \<and> rq = []
      \<and> slab_get S (token_map c) token = None
      \<and> slab_get S (token_map c') = (slab_get S (token_map c))(token \<mapsto> \<lparr>e_pri = 10, e_fwd = fwd\<rparr>))
    \<or> (\<exists>e. res = None \<and> rq = [RqFail (StreamSetupFailed e)] \<and> err_kind e \<noteq> Interrupted)"
proof -
  from assms(2) obtain r c1 w1 where
    add: "mio_poll_add S D stream (lo_readable L OR lo_writable L) 10 fwd (c, w) = Some (r, c1, w1)"
    by (auto simp: echoer_init_def echoer_setup_def split: option.splits)
  show ?thesis
  proof (rule echo_add_cases [OF add assms(1)])
    fix e
    assume "r = Inl e" "err_kind e \<noteq> Interrupted"
    with add assms(2) show ?thesis by (auto simp: echoer_init_def echoer_setup_def)
  next
    fix token
    assume "r = Inr \<lparr>ms_token = token, ms_source = stream\<rparr>"
      "slab_get S (token_map c) token = None"
      "slab_get S (token_map c1) =
         (slab_get S (token_map c))(token \<mapsto> \<lparr>e_pri = min 10 MAX_PRI, e_fwd = fwd\<rparr>)"
    with add assms(2) show ?thesis
      by (auto simp: echoer_init_def echoer_setup_def tb_init_def tb_new_def echoer_new_def MAX_PRI_def)
  qed
qed

definition calm_source_ops :: "(nat, (nat \<times> unit) io list) source_ops" where
  "calm_source_ops =
     \<lparr>so_register = (\<lambda>s t i w. (Inr (), w)), so_reregister = (\<lambda>s t i w. (Inr (), w)),
      so_deregister = (\<lambda>s w. (Inr (), w))\<rparr>"

lemma calm_register: "retry (so_register calm_source_ops s t i) w = Some (Inr (), w)"
  by (simp add: calm_source_ops_def retry_unfold)

theorem echoer_init_spec_witness:
  "\<exists>res rq c' token. echoer_init queue_listen_ops slots_ops calm_source_ops ''ready'' 9
       (demo_control, []) = Some (res, rq, c', []) \<and>
     res = Some (echoer_new \<lparr>ms_token = token, ms_source = 9\<rparr>) \<and> rq = [] \<and>
     slots_get (token_map c') token = Some \<lparr>e_pri = 10, e_fwd = ''ready''\<rparr>"
proof -
  obtain token c1 where "control_enter slots_ops 10 ''ready'' demo_control = (token, c1)" by fastforce
  then obtain a where run: "echoer_init queue_listen_ops slots_ops calm_source_ops ''ready'' 9
      (demo_control, []) = Some (Some a, [], c1, [])"
    by (simp add: echoer_init_def echoer_setup_def mio_poll_add_def control_add_def calm_register
        tb_init_def tb_new_def)
  from echoer_init_spec [OF slots_ops_ok run] run show ?thesis by auto
qed

end
