(* ===== verification/Main_Loop.thy ===== *)
theory Main_Loop
  imports Mio_Properties Echo_Server
begin

text \<open>
  \<open>main\<close> of examples/echo_server.rs: it creates the poller, starts the \<open>Listener\<close>, and then runs
  Stakker and the poller in turn until Stakker is shut down. This is the event loop that the crate
  is made for, so its properties are about how the results of \<open>MioPoll::poll\<close> are to be used.
\<close>

text \<open>
  The part of Stakker that \<open>main\<close> uses. \<open>run\<close> executes the calls that are due and, with \<open>idle\<close>,
  an idle call; they may do anything with the poller and the world, so \<open>run\<close> may also panic or
  never return, and its result says whether idle calls are left. \<open>forward\<close> queues the calls
  that a poll made. \<open>clock\<close> is \<open>Instant::now()\<close>, and \<open>poll_create\<close> is mio's \<open>Poll::new()\<close>.
\<close>

record ('f, 'sl, 'k, 'st, 'w) runtime_ops =
  rn_clock :: "'w \<Rightarrow> nat \<times> 'w"
  rn_poll_create :: "'w \<Rightarrow> unit io \<times> 'w"
  rn_start_listener :: "'st \<Rightarrow> 'st"
  rn_forward :: "'f call list \<Rightarrow> 'st \<Rightarrow> 'st"
  rn_run :: "nat \<Rightarrow> bool \<Rightarrow> 'st \<times> ('sl, 'k) control \<times> 'w \<Rightarrow> (bool \<times> 'st \<times> ('sl, 'k) control \<times> 'w) exec"
  rn_not_shutdown :: "'st \<Rightarrow> bool"
  rn_next_wait_max :: "nat \<Rightarrow> nat \<Rightarrow> bool \<Rightarrow> 'st \<Rightarrow> nat"

definition MAX_WAIT :: nat where "MAX_WAIT = secs 60"

text \<open>The local variables of the loop and what they work on.\<close>

record ('sl, 'k, 'st, 'w) main_state =
  mn_stakker :: 'st
  mn_ctl :: "('sl, 'k) control"
  mn_world :: 'w
  mn_idle_pending :: bool
  mn_io_pending :: bool

definition main_maxdur ::
  "('f, 'sl, 'k, 'st, 'w) runtime_ops \<Rightarrow> nat \<Rightarrow> ('sl, 'k, 'st, 'w) main_state \<Rightarrow> nat" where
  "main_maxdur R now m =
     rn_next_wait_max R now MAX_WAIT (mn_idle_pending m \<or> mn_io_pending m) (mn_stakker m)"

text \<open>The body of the loop; an error of \<open>poll\<close> returns from \<open>main\<close>.\<close>

definition main_turn ::
  "('sl, 'f entry) slab_ops \<Rightarrow> ('k, 'w) poll_ops \<Rightarrow> ('f, 'sl, 'k, 'st, 'w) runtime_ops
    \<Rightarrow> ('sl, 'k, 'st, 'w) main_state \<Rightarrow> (unit io \<times> ('sl, 'k, 'st, 'w) main_state) exec" where
  "main_turn S P R m =
     (case rn_clock R (mn_world m) of (now, w1) \<Rightarrow>
        ebind (mio_poll_poll S P (main_maxdur R now m) (mn_ctl m, w1)) (\<lambda>(r, c1, calls, w2).
          (case r of
             Inl e \<Rightarrow> Some (Ret (Inl e, m\<lparr>mn_ctl := c1, mn_world := w2\<rparr>))
           | Inr (activity, io_pending) \<Rightarrow>
               (case rn_clock R w2 of (now2, w3) \<Rightarrow>
                  ebind (rn_run R now2 (\<not> activity) (rn_forward R calls (mn_stakker m), c1, w3))
                    (\<lambda>(idle_pending, st, c2, w4).
                       Some (Ret (Inr (), \<lparr>mn_stakker = st, mn_ctl = c2, mn_world = w4,
                         mn_idle_pending = idle_pending, mn_io_pending = io_pending\<rparr>)))))))"

partial_function (option) main_loop ::
  "('sl, 'f entry) slab_ops \<Rightarrow> ('k, 'w) poll_ops \<Rightarrow> ('f, 'sl, 'k, 'st, 'w) runtime_ops
    \<Rightarrow> ('sl, 'k, 'st, 'w) main_state \<Rightarrow> (unit io \<times> ('sl, 'k, 'st, 'w) main_state) exec" where
  "main_loop S P R m =
     (if rn_not_shutdown R (mn_stakker m) then
        (case main_turn S P R m of
           None \<Rightarrow> None
         | Some Panic \<Rightarrow> Some Panic
         | Some (Ret (Inl e, m1)) \<Rightarrow> Some (Ret (Inl e, m1))
         | Some (Ret (Inr _, m1)) \<Rightarrow> main_loop S P R m1)
      else Some (Ret (Inr (), m)))"

declare main_loop.simps [code]

text \<open>
  The part before the loop. The event buffer of 1024 events is empty. The \<open>MioPoll\<close> is lost
  together with its \<open>Control\<close> when \<open>main\<close> returns early, so then only the error is left.
\<close>

definition main_start ::
  "('sl, 'f entry) slab_ops \<Rightarrow> ('k, 'w) poll_ops \<Rightarrow> ('f, 'k, 'st) stakker_ops
    \<Rightarrow> ('f, 'sl, 'k, 'st, 'w) runtime_ops \<Rightarrow> 'st \<times> 'w
    \<Rightarrow> (io_error + ('sl, 'k, 'st, 'w) main_state) exec" where
  "main_start S P K R = (\<lambda>(st, w).
     case rn_poll_create R w of
       (Inl e, w1) \<Rightarrow> Some (Ret (Inl e))
     | (Inr _, w1) \<Rightarrow>
         ebind (mio_poll_new S P K [] 10 (st, w1)) (\<lambda>(r, st1, w2).
           (case r of
              Inl e \<Rightarrow> Some (Ret (Inl e))
            | Inr c \<Rightarrow>
                (case rn_clock R w2 of (now, w3) \<Rightarrow>
                   ebind (rn_run R now False (rn_start_listener R st1, c, w3))
                     (\<lambda>(idle_pending, st2, c2, w4).
                        Some (Ret (Inr \<lparr>mn_stakker = st2, mn_ctl = c2, mn_world = w4,
                          mn_idle_pending = idle_pending, mn_io_pending = False\<rparr>)))))))"

definition main_program ::
  "('sl, 'f entry) slab_ops \<Rightarrow> ('k, 'w) poll_ops \<Rightarrow> ('f, 'k, 'st) stakker_ops
    \<Rightarrow> ('f, 'sl, 'k, 'st, 'w) runtime_ops \<Rightarrow> 'st \<times> 'w \<Rightarrow> unit io exec" where
  "main_program S P K R x =
     ebind (main_start S P K R x) (\<lambda>r.
       (case r of
          Inl e \<Rightarrow> Some (Ret (Inl e))
        | Inr m \<Rightarrow> ebind (main_loop S P R m) (\<lambda>(res, _). Some (Ret res))))"

end
