(* ===== verification/Main_Properties.thy ===== *)
theory Main_Properties
  imports Main_Loop
begin

text \<open>
  The properties of the event loop: with handlers that use the poller only through its operations,
  the poll in the loop never panics, its flag \<open>io_pending\<close> is kept exact until the next poll, and so
  the loop never sleeps while events are queued.
\<close>

section \<open>What handlers may do to the poller\<close>

text \<open>The operations that are open to the code that \<open>run\<close> executes: all but \<open>poll\<close> itself.\<close>

inductive handler_step ::
  "('sl, 'f entry) slab_ops \<Rightarrow> ('s, 'w) source_ops
    \<Rightarrow> ('sl, 'k, 's, 'w) mio_system \<Rightarrow> ('sl, 'k, 's, 'w) mio_system \<Rightarrow> bool"
  for S D where
  handler_add: "mio_poll_add S D src ready pri fwd (sys_ctl s, sys_world s) = Some (Inr ms, c', w') \<Longrightarrow>
     handler_step S D s (s\<lparr>sys_ctl := c', sys_live := ms # sys_live s, sys_world := w'\<rparr>)"
| handler_add_err: "mio_poll_add S D src ready pri fwd (sys_ctl s, sys_world s) = Some (Inl e, c', w') \<Longrightarrow>
     handler_step S D s (s\<lparr>sys_ctl := c', sys_world := w'\<rparr>)"
| handler_drop: "sys_live s = xs @ ms # ys \<Longrightarrow>
     mio_source_drop S D ms (sys_ctl s, sys_world s) = Some (c', w') \<Longrightarrow>
     handler_step S D s (s\<lparr>sys_ctl := c', sys_live := xs @ ys, sys_world := w'\<rparr>)"
| handler_wake_fwd: "mio_poll_set_wake_fwd S fwd (sys_ctl s) = Ret c' \<Longrightarrow>
     handler_step S D s (s\<lparr>sys_ctl := c'\<rparr>)"
| handler_world: "handler_step S D s (s\<lparr>sys_world := w'\<rparr>)"

lemma handler_step_mio: "handler_step S D s t \<Longrightarrow> mio_step S D P s t"
  by (induction rule: handler_step.induct) (rule mio_step.intros; assumption)+

lemma add_keeps_queued:
  assumes "mio_poll_add S D src ready pri fwd (c, w) = Some (r, c', w')"
  shows "n_queued c' = n_queued c"
proof -
  obtain rt where "control_add S D src ready pri fwd (c, w) = Some (rt, c', w')"
    using assms by (auto simp: mio_poll_add_def split: option.splits sum.splits)
  then show ?thesis by (rule control_add_cases) (simp add: control_enter_fields)
qed

lemma drop_keeps_queued:
  "mio_source_drop S D ms (c, w) = Some (c', w') \<Longrightarrow> n_queued c' = n_queued c"
  by (auto simp: mio_source_drop_def control_del_def split: option.splits sum.splits if_splits)

lemma handler_step_queued:
  "handler_step S D s t \<Longrightarrow> n_queued (sys_ctl t) = n_queued (sys_ctl s)"
  by (induction rule: handler_step.induct)
     (auto simp: add_keeps_queued drop_keeps_queued mio_poll_set_wake_fwd_def
        control_set_wake_fwd_def split: option.splits)

lemma handler_steps_reach:
  assumes "(handler_step S D)\<^sup>*\<^sup>* s t" "mio_reachable S D P K s"
  shows "mio_reachable S D P K t \<and> n_queued (sys_ctl t) = n_queued (sys_ctl s)"
  using assms
  by (induction rule: rtranclp_induct)
     (auto intro: reach_step handler_step_mio simp: handler_step_queued)

text \<open>
  The contract of Stakker: \<open>run\<close> uses the poller through its operations, on the sources that the
  actors own (\<open>owned\<close>); queueing calls and creating an actor, whose \<open>init\<close> is deferred, do not
  change what is owned. And \<open>next_wait_max\<close> answers zero when work is pending.
\<close>

definition run_ok ::
  "('sl, 'f entry) slab_ops \<Rightarrow> ('s, 'w) source_ops \<Rightarrow> ('f, 'sl, 'k, 'st, 'w) runtime_ops
    \<Rightarrow> ('st \<Rightarrow> 's mio_source list) \<Rightarrow> bool" where
  "run_ok S D R owned \<longleftrightarrow>
     (\<forall>now idle st c w i st' c' w'. rn_run R now idle (st, c, w) = Some (Ret (i, st', c', w')) \<longrightarrow>
        (handler_step S D)\<^sup>*\<^sup>* \<lparr>sys_ctl = c, sys_live = owned st, sys_world = w\<rparr>
          \<lparr>sys_ctl = c', sys_live = owned st', sys_world = w'\<rparr>) \<and>
     (\<forall>calls st. owned (rn_forward R calls st) = owned st) \<and>
     (\<forall>st. owned (rn_start_listener R st) = owned st)"

definition wait_ok :: "('f, 'sl, 'k, 'st, 'w) runtime_ops \<Rightarrow> bool" where
  "wait_ok R \<longleftrightarrow> (\<forall>now mx st. rn_next_wait_max R now mx True st = 0) \<and>
     (\<forall>now mx p st. rn_next_wait_max R now mx p st \<le> mx)"

text \<open>A new Stakker owns no source.\<close>

definition owns_nothing ::
  "('f, 'k, 'st) stakker_ops \<Rightarrow> ('st \<Rightarrow> 's mio_source list) \<Rightarrow> 'st \<Rightarrow> bool" where
  "owns_nothing K owned st \<longleftrightarrow> (\<forall>k. owned (sk_set_poll_waker K k (sk_anymap_set_miopoll K st)) = [])"

section \<open>The states of the loop\<close>

inductive main_reachable ::
  "('sl, 'f entry) slab_ops \<Rightarrow> ('k, 'w) poll_ops \<Rightarrow> ('f, 'k, 'st) stakker_ops
    \<Rightarrow> ('f, 'sl, 'k, 'st, 'w) runtime_ops \<Rightarrow> 'st \<times> 'w \<Rightarrow> ('sl, 'k, 'st, 'w) main_state \<Rightarrow> bool"
  for S P K R x where
  main_enter: "main_start S P K R x = Some (Ret (Inr m)) \<Longrightarrow> main_reachable S P K R x m"
| main_again: "main_reachable S P K R x m \<Longrightarrow> rn_not_shutdown R (mn_stakker m) \<Longrightarrow>
     main_turn S P R m = Some (Ret (Inr (), m')) \<Longrightarrow> main_reachable S P K R x m'"

definition main_inv ::
  "('sl, 'f entry) slab_ops \<Rightarrow> ('s, 'w) source_ops \<Rightarrow> ('k, 'w) poll_ops \<Rightarrow> ('f, 'k, 'st) stakker_ops
    \<Rightarrow> ('st \<Rightarrow> 's mio_source list) \<Rightarrow> ('sl, 'k, 'st, 'w) main_state \<Rightarrow> bool" where
  "main_inv S D P K owned m \<longleftrightarrow>
     mio_reachable S D P K
       \<lparr>sys_ctl = mn_ctl m, sys_live = owned (mn_stakker m), sys_world = mn_world m\<rparr> \<and>
     (mn_io_pending m \<longleftrightarrow> 0 < n_queued (mn_ctl m))"

text \<open>One run of Stakker from a reachable system.\<close>

lemma run_reach:
  assumes "run_ok S D R owned" "rn_run R now idle (st, c, w) = Some (Ret (i, st', c', w'))"
    and "mio_reachable S D P K \<lparr>sys_ctl = c, sys_live = owned st, sys_world = w0\<rparr>"
  shows "mio_reachable S D P K \<lparr>sys_ctl = c', sys_live = owned st', sys_world = w'\<rparr>"
    "n_queued c' = n_queued c"
proof -
  have "mio_reachable S D P K \<lparr>sys_ctl = c, sys_live = owned st, sys_world = w\<rparr>"
    using reach_step [OF assms(3) step_world [of S D P _ w]] by simp
  moreover have "(handler_step S D)\<^sup>*\<^sup>* \<lparr>sys_ctl = c, sys_live = owned st, sys_world = w\<rparr>
      \<lparr>sys_ctl = c', sys_live = owned st', sys_world = w'\<rparr>"
    using assms(1,2) unfolding run_ok_def by blast
  ultimately show "mio_reachable S D P K \<lparr>sys_ctl = c', sys_live = owned st', sys_world = w'\<rparr>"
    "n_queued c' = n_queued c"
    using handler_steps_reach by fastforce+
qed

lemma poll_io_pending:
  assumes "mio_poll_poll S P d (c, w) = Some (Ret (Inr (activity, io), c', calls, w'))"
  shows "io \<longleftrightarrow> 0 < n_queued c'"
  using assms
  by (auto simp: mio_poll_poll_def control_poll_def control_dispatch_def obind_eq_Ret Let_def
      split: option.splits sum.splits prod.splits)

lemma main_start_inv:
  assumes S: "slab_ok S" and R: "run_ok S D R owned" and own: "owns_nothing K owned st"
    and run: "main_start S P K R (st, w) = Some (Ret (Inr m))"
  shows "main_inv S D P K owned m"
proof -
  from run obtain w1 where w1: "rn_poll_create R w = (Inr (), w1)"
    by (auto simp: main_start_def split: prod.splits sum.splits)
  from run w1 obtain r st1 w2 where new: "mio_poll_new S P K [] 10 (st, w1) = Some (Ret (r, st1, w2))"
    and rest: "(case r of Inl e \<Rightarrow> Some (Ret (Inl e)) | Inr c \<Rightarrow>
      (case rn_clock R w2 of (now, w3) \<Rightarrow>
         ebind (rn_run R now False (rn_start_listener R st1, c, w3)) (\<lambda>(i, st2, c2, w4).
           Some (Ret (Inr \<lparr>mn_stakker = st2, mn_ctl = c2, mn_world = w4, mn_idle_pending = i,
             mn_io_pending = False\<rparr>))))) = Some (Ret (Inr m))"
    by (auto simp add: main_start_def ebind_eq_Ret)
  from rest obtain c where c: "r = Inr c" by (cases r) auto
  obtain now w3 where clock: "rn_clock R w2 = (now, w3)" by fastforce
  from rest obtain i st2 c2 w4 where
    r: "rn_run R now False (rn_start_listener R st1, c, w3) = Some (Ret (i, st2, c2, w4))"
    and m: "m = \<lparr>mn_stakker = st2, mn_ctl = c2, mn_world = w4, mn_idle_pending = i, mn_io_pending = False\<rparr>"
    by (auto simp add: c clock ebind_eq_Ret)
  note new = new [unfolded c]
  obtain kr where wk: "retry (po_waker_new P WAKER_TOKEN) w1 = Some kr"
    using new by (auto simp: mio_poll_new_def Let_def split: prod.splits if_splits option.splits)
  obtain kw w2' where kr: "kr = (kw, w2')" by (cases kr)
  obtain k where k: "kw = Inr k"
  proof (cases kw)
    case (Inl e)
    with mio_poll_new_Err [OF S, of P w1 e w2' K "[]" 10 st] wk kr new show thesis by simp
  qed (rule that)
  obtain c' where "mio_poll_new S P K [] 10 (st, w1) =
      Some (Ret (Inr c', sk_set_poll_waker K k (sk_anymap_set_miopoll K st), w2'))" "n_queued c' = 0"
    by (rule mio_poll_new_Ret [OF S wk [unfolded kr k], of K "[]" 10 st]) blast
  with new have "n_queued c = 0 \<and> st1 = sk_set_poll_waker K k (sk_anymap_set_miopoll K st)" by simp
  with own have c0: "n_queued c = 0" "owned st1 = []" by (auto simp: owns_nothing_def)
  have "mio_reachable S D P K \<lparr>sys_ctl = c, sys_live = owned (rn_start_listener R st1), sys_world = w2\<rparr>"
    using reach_new [OF new] c0(2) R by (simp add: run_ok_def)
  from run_reach [OF R r this] c0(1) show ?thesis by (simp add: main_inv_def m)
qed

lemma main_turn_inv:
  assumes R: "run_ok S D R owned" and inv: "main_inv S D P K owned m"
    and run: "main_turn S P R m = Some (Ret (Inr (), m'))"
  shows "main_inv S D P K owned m'"
proof -
  let ?sys = "\<lparr>sys_ctl = mn_ctl m, sys_live = owned (mn_stakker m), sys_world = mn_world m\<rparr>"
  obtain now w1 where w1: "rn_clock R (mn_world m) = (now, w1)" by fastforce
  let ?d = "main_maxdur R now m"
  from run w1 obtain res c1 calls w2 where
    p: "mio_poll_poll S P ?d (mn_ctl m, w1) = Some (Ret (res, c1, calls, w2))"
    and rest: "(case res of Inl e \<Rightarrow> Some (Ret (Inl e, m\<lparr>mn_ctl := c1, mn_world := w2\<rparr>))
      | Inr (activity, io) \<Rightarrow> (case rn_clock R w2 of (now2, w3) \<Rightarrow>
          ebind (rn_run R now2 (\<not> activity) (rn_forward R calls (mn_stakker m), c1, w3)) (\<lambda>(i, st, c2, w4).
            Some (Ret (Inr (), \<lparr>mn_stakker = st, mn_ctl = c2, mn_world = w4,
              mn_idle_pending = i, mn_io_pending = io\<rparr>))))) = Some (Ret (Inr (), m'))"
    by (auto simp add: main_turn_def ebind_eq_Ret)
  from rest obtain a io where res: "res = Inr (a, io)" by (cases res) auto
  obtain now2 w3 where clock: "rn_clock R w2 = (now2, w3)" by fastforce
  from rest obtain i st c2 w4 where
    r: "rn_run R now2 (\<not> a) (rn_forward R calls (mn_stakker m), c1, w3) = Some (Ret (i, st, c2, w4))"
    and m': "m' = \<lparr>mn_stakker = st, mn_ctl = c2, mn_world = w4, mn_idle_pending = i, mn_io_pending = io\<rparr>"
    by (auto simp add: res clock ebind_eq_Ret)
  note p = p [unfolded res]
  have "mio_reachable S D P K ?sys" using inv by (simp add: main_inv_def)
  from reach_step [OF this step_world [of S D P _ w1]]
  have "mio_reachable S D P K (?sys\<lparr>sys_world := w1\<rparr>)" .
  from reach_step [OF this step_poll [of S P ?d _ "Inr (a, io)" c1 calls w2]] p
  have "mio_reachable S D P K \<lparr>sys_ctl = c1, sys_live = owned (mn_stakker m), sys_world = w2\<rparr>" by simp
  then have "mio_reachable S D P K
      \<lparr>sys_ctl = c1, sys_live = owned (rn_forward R calls (mn_stakker m)), sys_world = w2\<rparr>"
    using R by (simp add: run_ok_def)
  from run_reach [OF R r this] poll_io_pending [OF p] show ?thesis by (simp add: main_inv_def m')
qed

lemma main_reachable_inv:
  assumes "main_reachable S P K R (st, w) m" "slab_ok S" "run_ok S D R owned" "owns_nothing K owned st"
  shows "main_inv S D P K owned m"
  using assms(1)
proof induction
  case (main_enter m)
  then show ?case by (rule main_start_inv [OF assms(2-4)])
next
  case (main_again m m')
  show ?case by (rule main_turn_inv [OF assms(3) main_again.IH main_again.hyps(3)])
qed

section \<open>How the loop ends\<close>

lemma main_turn_error:
  assumes "main_turn S P R m = Some (Ret (Inl e, m'))"
  shows "err_kind e \<noteq> Interrupted"
proof -
  obtain now w1 where w1: "rn_clock R (mn_world m) = (now, w1)" by fastforce
  with assms obtain res c1 calls w2 where
    p: "mio_poll_poll S P (main_maxdur R now m) (mn_ctl m, w1) = Some (Ret (res, c1, calls, w2))"
    and rest: "(case res of Inl e \<Rightarrow> Some (Ret (Inl e, m\<lparr>mn_ctl := c1, mn_world := w2\<rparr>))
      | Inr (activity, io) \<Rightarrow> (case rn_clock R w2 of (now2, w3) \<Rightarrow>
          ebind (rn_run R now2 (\<not> activity) (rn_forward R calls (mn_stakker m), c1, w3)) (\<lambda>(i, st, c2, w4).
            Some (Ret (Inr (), \<lparr>mn_stakker = st, mn_ctl = c2, mn_world = w4,
              mn_idle_pending = i, mn_io_pending = io\<rparr>))))) = Some (Ret (Inl e, m'))"
    by (auto simp add: main_turn_def ebind_eq_Ret)
  have "res = Inl e" using rest by (cases res) (auto simp: ebind_eq_Ret split: prod.splits)
  with p show ?thesis
    by (auto simp: mio_poll_poll_def control_poll_def obind_eq_Ret split: option.splits sum.splits)
qed

lemma mio_poll_new_error:
  assumes "mio_poll_new S P K evs pri (st, w) = Some (Ret (Inl e, st', w'))"
  shows "err_kind e \<noteq> Interrupted"
  using assms
  by (auto simp: mio_poll_new_def Let_def obind_eq_Ret split: prod.splits if_splits option.splits sum.splits)

lemma main_loop_result:
  assumes "main_loop S P R m = Some (Ret (res, m'))" "main_reachable S P K R x m"
  shows "case res of Inl e \<Rightarrow> err_kind e \<noteq> Interrupted
    | Inr _ \<Rightarrow> main_reachable S P K R x m' \<and> \<not> rn_not_shutdown R (mn_stakker m')"
proof -
  have "main_reachable S P K R x m \<longrightarrow> (\<forall>y. Ret (res, m') = Ret y \<longrightarrow>
      (case fst y of Inl e \<Rightarrow> err_kind e \<noteq> Interrupted
       | Inr _ \<Rightarrow> main_reachable S P K R x (snd y) \<and> \<not> rn_not_shutdown R (mn_stakker (snd y))))"
  proof (rule main_loop.raw_induct [where Pa = "\<lambda>(((S, P), R), m) res.
      main_reachable S P K R x m \<longrightarrow> (\<forall>y. res = Ret y \<longrightarrow>
      (case fst y of Inl e \<Rightarrow> err_kind e \<noteq> Interrupted
       | Inr _ \<Rightarrow> main_reachable S P K R x (snd y) \<and> \<not> rn_not_shutdown R (mn_stakker (snd y))))",
        unfolded prod.case, OF _ assms(1)], intro impI allI, goal_cases)
    case (1 rec S P R m res y)
    show ?case
    proof (cases "rn_not_shutdown R (mn_stakker m)")
      case False
      with 1(2-4) show ?thesis by auto
    next
      case True
      with 1(2,4) obtain r m1 where turn: "main_turn S P R m = Some (Ret (r, m1))"
        by (auto split: option.splits outcome.splits)
      show ?thesis
      proof (cases r)
        case (Inl e)
        with turn True 1(2,4) main_turn_error show ?thesis by fastforce
      next
        case (Inr u)
        with turn have "main_reachable S P K R x m1" using main_again [OF 1(3) True] by simp
        moreover have "rec S P R m1 = Some res" using turn True 1(2) Inr by simp
        ultimately show ?thesis using 1(1,4) by blast
      qed
    qed
  qed
  with assms(2) show ?thesis by (cases res) auto
qed

section \<open>An instance\<close>

text \<open>
  A Stakker whose state is the list of the sources it owns: its first run adds one, at priority 3;
  then it does nothing, for ever. The world is a script of answers of mio. The events of the first
  poll are for the waker, at priority 10, and for the new source, which has to wait.
\<close>

definition idle_stakker_ops :: "(string, nat, nat mio_source list) stakker_ops" where
  "idle_stakker_ops = \<lparr>sk_fwd_nop = ''nop'', sk_poll_wake_fwd = (\<lambda>st. ''wake''),
     sk_anymap_set_miopoll = (\<lambda>st. st), sk_set_poll_waker = (\<lambda>k st. st)\<rparr>"

type_synonym demo_ctl = "(string entry option list, nat) control"

definition idle_run ::
  "nat \<Rightarrow> bool \<Rightarrow> nat mio_source list \<times> demo_ctl \<times> script
    \<Rightarrow> (bool \<times> nat mio_source list \<times> demo_ctl \<times> script) exec" where
  "idle_run now idle = (\<lambda>(st, c, w).
     if st = [] then
       (case mio_poll_add slots_ops script_source_ops 5 1 3 ''lo'' (c, w) of
          None \<Rightarrow> None
        | Some (Inl e, c', w') \<Rightarrow> Some (Ret (False, st, c', w'))
        | Some (Inr ms, c', w') \<Rightarrow> Some (Ret (False, ms # st, c', w')))
     else Some (Ret (False, st, c, w)))"

definition idle_runtime_ops ::
  "(string, string entry option list, nat, nat mio_source list, script) runtime_ops" where
  "idle_runtime_ops = \<lparr>rn_clock = (\<lambda>w. (0, w)), rn_poll_create = (\<lambda>w. (Inr (), w)),
     rn_start_listener = (\<lambda>st. st), rn_forward = (\<lambda>calls st. st), rn_run = idle_run,
     rn_not_shutdown = (\<lambda>st. True),
     rn_next_wait_max = (\<lambda>now mx pending st. if pending then 0 else mx)\<rparr>"

lemma idle_run_ok: "run_ok slots_ops script_source_ops idle_runtime_ops (\<lambda>st. st)"
proof -
  have "(handler_step slots_ops script_source_ops)\<^sup>*\<^sup>*
      \<lparr>sys_ctl = c, sys_live = st, sys_world = w\<rparr> \<lparr>sys_ctl = c', sys_live = st', sys_world = w'\<rparr>"
    if run: "idle_run now idle (st, c, w) = Some (Ret (i, st', c', w'))" for now idle st c w i st' c' w'
  proof (cases "st = []")
    case False
    with run show ?thesis by (simp add: idle_run_def)
  next
    case True
    with run obtain r where add: "mio_poll_add slots_ops script_source_ops 5 1 3 ''lo'' (c, w) = Some (r, c', w')"
      and st': "st' = (case r of Inl e \<Rightarrow> [] | Inr ms \<Rightarrow> [ms])"
      by (auto simp: idle_run_def split: option.splits sum.splits)
    let ?s = "\<lparr>sys_ctl = c, sys_live = [], sys_world = w\<rparr> :: (string entry option list, nat, nat, script) mio_system"
    have "handler_step slots_ops script_source_ops ?s \<lparr>sys_ctl = c', sys_live = st', sys_world = w'\<rparr>"
    proof (cases r)
      case (Inl e)
      with handler_add_err [of slots_ops script_source_ops 5 1 3 "''lo''" ?s] add st' show ?thesis by simp
    next
      case (Inr ms)
      with handler_add [of slots_ops script_source_ops 5 1 3 "''lo''" ?s] add st' show ?thesis by simp
    qed
    with True show ?thesis by simp
  qed
  then show ?thesis unfolding run_ok_def idle_runtime_ops_def by simp
qed

lemma idle_wait_ok: "wait_ok idle_runtime_ops"
  by (simp add: wait_ok_def idle_runtime_ops_def)

lemma idle_owns_nothing: "owns_nothing idle_stakker_ops (\<lambda>st. st) []"
  by (simp add: owns_nothing_def idle_stakker_ops_def)

definition two_events :: script where
  "two_events = [(Inr (), [demo_event 0, demo_event 1])]"

lemma idle_reachable:
  obtains m where "main_reachable slots_ops script_poll_ops idle_stakker_ops idle_runtime_ops ([], two_events) m"
    "n_queued (mn_ctl m) = 1"
proof -
  let ?c = "\<lambda>p. \<lparr>token_map = [Some \<lparr>e_pri = 10, e_fwd = ''wake''\<rparr>, Some \<lparr>e_pri = 3, e_fwd = ''lo''\<rparr>],
      queues = replicate 10 [], n_queued = 0, max_pri = 10, priorities = p,
      events = [], errors = [], waker = 7\<rparr> :: demo_ctl"
  let ?m = "\<lambda>p. \<lparr>mn_stakker = [\<lparr>ms_token = 1, ms_source = 5\<rparr>], mn_ctl = ?c p, mn_world = two_events,
      mn_idle_pending = False, mn_io_pending = False\<rparr>"
  let ?turn = "\<lambda>p. main_turn slots_ops script_poll_ops idle_runtime_ops (?m p)"
  let ?start = "main_start slots_ops script_poll_ops idle_stakker_ops idle_runtime_ops ([], two_events)"
  have "map_option (map_outcome (map_sum (\<lambda>e. e) (\<lambda>m. m\<lparr>mn_ctl := (mn_ctl m)\<lparr>priorities := 0\<rparr>\<rparr>))) ?start =
      Some (Ret (Inr (?m 0)))"
    by code_simp
  from map_exec_RetD [OF this] obtain r where r: "?start = Some (Ret r)"
    "map_sum (\<lambda>e. e) (\<lambda>m. m\<lparr>mn_ctl := (mn_ctl m)\<lparr>priorities := 0\<rparr>\<rparr>) r = Inr (?m 0)" by blast
  then obtain m0 where m0: "r = Inr m0" "m0\<lparr>mn_ctl := (mn_ctl m0)\<lparr>priorities := 0\<rparr>\<rparr> = ?m 0"
    by (cases r) auto
  then obtain p where m: "m0 = ?m p" by (cases m0; cases "mn_ctl m0") auto
  note start = r(1) [unfolded m0(1) m]
  let ?d = "main_maxdur idle_runtime_ops 0 (?m p)"
  have "map_option (map_outcome (\<lambda>(r, c, calls, w). (r, n_queued c)))
      (mio_poll_poll slots_ops script_poll_ops d (?c p, two_events)) = Some (Ret (Inr (True, True), 1))" for d
    by code_simp
  from map_exec_RetD [OF this [of ?d]] obtain c calls w where
    poll: "mio_poll_poll slots_ops script_poll_ops ?d (?c p, two_events) = Some (Ret (Inr (True, True), c, calls, w))"
      "n_queued c = 1"
    by auto
  then obtain m where turn: "?turn p = Some (Ret (Inr (), m))" "n_queued (mn_ctl m) = 1"
    by (simp add: main_turn_def idle_runtime_ops_def idle_run_def)
  have "rn_not_shutdown idle_runtime_ops (mn_stakker (?m p))" by (simp add: idle_runtime_ops_def)
  from main_again [OF main_enter [OF start] this turn(1)] turn(2) show thesis by (rule that)
qed

section \<open>Properties\<close>

text \<open>C13. The loop never sleeps on queued events: before every poll of the event loop the variable
  \<open>io_pending\<close> says exactly whether the poller has events queued, and if it has, the poll is given
  no time to wait; it never waits for more than a minute. A panic in the loop is a panic of a
  handler: the poll itself has none.\<close>

theorem main_never_sleeps_on_events:
  assumes "slab_ok S" "run_ok S D R owned" "wait_ok R" "owns_nothing K owned st"
    and "main_reachable S P K R (st, w) m"
  shows "(mn_io_pending m \<longleftrightarrow> 0 < n_queued (mn_ctl m))
    \<and> (0 < n_queued (mn_ctl m) \<longrightarrow> main_maxdur R now m = 0)
    \<and> main_maxdur R now m \<le> secs 60
    \<and> (main_turn S P R m = Some Panic \<longrightarrow> (\<exists>t idle x. rn_run R t idle x = Some Panic))"
proof (intro conjI impI)
  note inv = main_reachable_inv [OF assms(5,1,2,4), unfolded main_inv_def]
  show io: "mn_io_pending m \<longleftrightarrow> 0 < n_queued (mn_ctl m)" using inv by blast
  show "main_maxdur R now m = 0" if "0 < n_queued (mn_ctl m)"
    using assms(3) io that by (simp add: main_maxdur_def wait_ok_def)
  show "main_maxdur R now m \<le> secs 60"
    using assms(3) unfolding main_maxdur_def wait_ok_def MAX_WAIT_def by blast
  assume panic: "main_turn S P R m = Some Panic"
  obtain t w1 where w1: "rn_clock R (mn_world m) = (t, w1)" by fastforce
  have "control_inv S (mn_ctl m)"
    using mio_reachable_inv [OF _ assms(1)] inv by (fastforce simp: mio_inv_def)
  from control_poll_no_panic [OF this, folded mio_poll_poll_def]
  have "mio_poll_poll S P (main_maxdur R t m) (mn_ctl m, w1) \<noteq> Some Panic" .
  with panic w1 obtain res c1 calls w2 where
    "mio_poll_poll S P (main_maxdur R t m) (mn_ctl m, w1) = Some (Ret (res, c1, calls, w2))"
    and rest: "(case res of Inl e \<Rightarrow> Some (Ret (Inl e, m\<lparr>mn_ctl := c1, mn_world := w2\<rparr>))
      | Inr (activity, io) \<Rightarrow> (case rn_clock R w2 of (now2, w3) \<Rightarrow>
          ebind (rn_run R now2 (\<not> activity) (rn_forward R calls (mn_stakker m), c1, w3)) (\<lambda>(i, st, c2, w4).
            Some (Ret (Inr (), \<lparr>mn_stakker = st, mn_ctl = c2, mn_world = w4,
              mn_idle_pending = i, mn_io_pending = io\<rparr>))))) = Some Panic"
    by (auto simp add: main_turn_def ebind_eq_Panic)
  then obtain a io where "res = Inr (a, io)" by (cases res) auto
  moreover obtain now2 w3 where "rn_clock R w2 = (now2, w3)" by fastforce
  ultimately have "rn_run R now2 (\<not> a) (rn_forward R calls (mn_stakker m), c1, w3) = Some Panic"
    using rest by (auto simp: ebind_eq_Panic)
  then show "\<exists>t idle x. rn_run R t idle x = Some Panic" by blast
qed

theorem main_never_sleeps_on_events_witness:
  "\<exists>m. main_reachable slots_ops script_poll_ops idle_stakker_ops idle_runtime_ops ([], two_events) m \<and>
     n_queued (mn_ctl m) = 1 \<and> main_maxdur idle_runtime_ops 0 m = 0"
proof -
  obtain m where m: "main_reachable slots_ops script_poll_ops idle_stakker_ops idle_runtime_ops
      ([], two_events) m" "n_queued (mn_ctl m) = 1" by (rule idle_reachable)
  from main_never_sleeps_on_events [OF slots_ops_ok idle_run_ok idle_wait_ok idle_owns_nothing m(1)] m
  show ?thesis by auto
qed

text \<open>How \<open>main\<close> returns: with \<open>Ok\<close> only from a state of the loop in which Stakker has been
  shut down, and with an error only from the creation of the poller, or, never an interruption,
  from \<open>MioPoll::new\<close> or a poll.\<close>

theorem main_result:
  assumes "main_program S P K R (st, w) = Some (Ret res)"
  shows "case res of
      Inl e \<Rightarrow> fst (rn_poll_create R w) = Inl e \<or> err_kind e \<noteq> Interrupted
    | Inr _ \<Rightarrow> \<exists>m. main_reachable S P K R (st, w) m \<and> \<not> rn_not_shutdown R (mn_stakker m)"
proof -
  from assms obtain r where r: "main_start S P K R (st, w) = Some (Ret r)"
    "(case r of Inl e \<Rightarrow> Some (Ret (Inl e))
      | Inr m \<Rightarrow> ebind (main_loop S P R m) (\<lambda>(res, _). Some (Ret res))) = Some (Ret res)"
    unfolding main_program_def ebind_eq_Ret by blast
  show ?thesis
  proof (cases r)
    case (Inr m)
    with r(2) obtain m' where "main_loop S P R m = Some (Ret (res, m'))"
      by (auto simp: ebind_eq_Ret)
    from main_loop_result [OF this main_enter] r(1) Inr show ?thesis by (fastforce split: sum.splits)
  next
    case (Inl e)
    obtain q w1 where q: "rn_poll_create R w = (q, w1)" by fastforce
    show ?thesis
    proof (cases q)
      case (Inl e')
      with q r \<open>r = Inl e\<close> show ?thesis by (auto simp: main_start_def)
    next
      case (Inr u)
      with q r(1) \<open>r = Inl e\<close> obtain x st1 w2 where
        new: "mio_poll_new S P K [] 10 (st, w1) = Some (Ret (x, st1, w2))"
        and rest: "(case x of Inl e \<Rightarrow> Some (Ret (Inl e)) | Inr c \<Rightarrow>
          (case rn_clock R w2 of (now, w3) \<Rightarrow>
             ebind (rn_run R now False (rn_start_listener R st1, c, w3)) (\<lambda>(i, st2, c2, w4).
               Some (Ret (Inr \<lparr>mn_stakker = st2, mn_ctl = c2, mn_world = w4, mn_idle_pending = i,
                 mn_io_pending = False\<rparr>))))) = Some (Ret (Inl e))"
        by (auto simp add: main_start_def ebind_eq_Ret)
      have "x = Inl e" using rest by (cases x) (auto simp: ebind_eq_Ret split: prod.splits)
      with new r(2) \<open>r = Inl e\<close> mio_poll_new_error show ?thesis by fastforce
    qed
  qed
qed

theorem main_result_witness:
  "\<exists>m. main_reachable slots_ops script_poll_ops idle_stakker_ops
     (idle_runtime_ops\<lparr>rn_not_shutdown := (\<lambda>st. st = [])\<rparr>) ([], two_events) m \<and> mn_stakker m \<noteq> []"
proof -
  let ?R = "idle_runtime_ops\<lparr>rn_not_shutdown := (\<lambda>st. st = [])\<rparr>"
  have "main_program slots_ops script_poll_ops idle_stakker_ops ?R ([], two_events) = Some (Ret (Inr ()))"
    by code_simp
  from main_result [OF this] show ?thesis by simp
qed

end
