(* ===== verification/Echo_System.thy ===== *)
theory Echo_System
  imports Echo_Listener Echo_Properties Main_Properties
begin

text \<open>
  The echo server of examples/echo_server.rs as a whole: the \<open>Listener\<close>, any number of \<open>Echoer\<close>
  children, the poller they share, and what Stakker keeps for them: the calls that polls made, the
  children that wait for their \<open>init\<close>, the delayed calls of each child and the notices of ended
  children. The handlers are those of \<open>Echo_Server\<close>; this theory puts them together.

  A child is known by its number; children are numbered in the order in which their connections
  are accepted.
\<close>

section \<open>The parts\<close>

text \<open>The forwards that the program registers with the poller.\<close>

datatype server_fwd = FwdNop | FwdPollWake | FwdConnect | FwdReady nat

definition server_stakker_ops :: "(server_fwd, 'k, unit) stakker_ops" where
  "server_stakker_ops = \<lparr>sk_fwd_nop = FwdNop, sk_poll_wake_fwd = (\<lambda>st. FwdPollWake),
     sk_anymap_set_miopoll = (\<lambda>st. st), sk_set_poll_waker = (\<lambda>k st. st)\<rparr>"

text \<open>
  \<open>actor_in_slab!\<close> numbers the child and defers its \<open>init\<close>; the key of \<open>timer_max!\<close> stands for the
  time of its timer, which only moves forward.
\<close>

record 's spawning =
  sp_next :: nat
  sp_inits :: "(nat \<times> 's) list"

definition server_actor_ops :: "('s, nat list, nat, 's spawning) actor_ops" where
  "server_actor_ops = \<lparr>ao_slab_new = [], ao_key_default = 0,
     ao_actor_in_slab = (\<lambda>x (ch, sp). (ch @ [sp_next sp],
        sp\<lparr>sp_next := Suc (sp_next sp), sp_inits := sp_inits sp @ [(sp_next sp, x)]\<rparr>)),
     ao_timer_max = (\<lambda>t (key, sp). (max key t, sp))\<rparr>"

text \<open>
  What is observed of the network: for each stream the bytes sent and got on it and whether its
  end has been seen, and the streams accepted so far.
\<close>

record ('s, 'w) net_view =
  nv_sent :: "'s \<Rightarrow> 'w \<Rightarrow> bytes"
  nv_got :: "'s \<Rightarrow> 'w \<Rightarrow> bytes"
  nv_ended :: "'s \<Rightarrow> 'w \<Rightarrow> bool"
  nv_accepted :: "'w \<Rightarrow> 's list"

record ('s, 'a, 'sl, 'k, 'w) server_env =
  sv_rt :: rust_rt
  sv_tcp :: "('s, 'w) tcp_ops"
  sv_listen :: "('s, 's, 'a, 'w) listen_ops"
  sv_source :: "('s, 'w) source_ops"
  sv_slab :: "('sl, server_fwd entry) slab_ops"
  sv_poll :: "('k, 'w) poll_ops"
  sv_view :: "('s, 'w) net_view"

record 's child =
  ch_actor :: "'s echoer"
  ch_delayed :: "(nat \<times> echo_call) list"
  ch_received :: "(nat \<times> bytes) list"

text \<open>
  The state of the server. \<open>es_calls\<close> are the calls of forwards that wait in Stakker's queue,
  \<open>es_notes\<close> the ends of children that the Listener has not heard of, \<open>es_active\<close> the time of the
  last accept, and \<open>es_down\<close> the failure of the Listener, which shuts the server down.
\<close>

record ('s, 'sl, 'k, 'w) echo_server =
  es_ctl :: "('sl, 'k) control"
  es_world :: 'w
  es_now :: nat
  es_calls :: "server_fwd call list"
  es_listener :: "('s, nat list, nat) listener"
  es_spawn :: "'s spawning"
  es_conns :: "nat \<rightharpoonup> 's child"
  es_notes :: "stop_cause list"
  es_active :: nat
  es_down :: "actor_failure option"

section \<open>The steps\<close>

text \<open>A child with the time and the world it shares with the others, as a connection.\<close>

definition child_view :: "nat \<Rightarrow> 'w \<Rightarrow> 's child \<Rightarrow> ('s, 'w) echo_conn" where
  "child_view now w c = \<lparr>cn_actor = ch_actor c, cn_running = True, cn_end = [], cn_now = now,
     cn_delayed = ch_delayed c, cn_received = ch_received c, cn_net = w\<rparr>"

definition child_of :: "('s, 'w) echo_conn \<Rightarrow> 's child" where
  "child_of t = \<lparr>ch_actor = cn_actor t, ch_delayed = cn_delayed t, ch_received = cn_received t\<rparr>"

definition new_child :: "'s echoer \<Rightarrow> 's child" where
  "new_child a = \<lparr>ch_actor = a, ch_delayed = [], ch_received = []\<rparr>"

text \<open>
  After a handler of child \<open>i\<close>, with \<open>t\<close> its connection then: it goes on; or it ends, its state is
  dropped, and with it the \<open>MioSource\<close> in its \<open>TcpStreamBuf\<close>. If the handler asked for its end
  more than once, which of the causes counts is left open.
\<close>

inductive child_done ::
  "('s, 'a, 'sl, 'k, 'w) server_env \<Rightarrow> nat \<Rightarrow> ('s, 'w) echo_conn
    \<Rightarrow> ('s, 'sl, 'k, 'w) echo_server \<Rightarrow> ('s, 'sl, 'k, 'w) echo_server \<Rightarrow> bool"
  for E i t s where
  child_goes_on: "cn_running t \<Longrightarrow>
     child_done E i t s (s\<lparr>es_conns := (es_conns s)(i \<mapsto> child_of t), es_world := cn_net t\<rparr>)"
| child_ends: "\<not> cn_running t \<Longrightarrow> q \<in> set (cn_end t) \<Longrightarrow>
     drop_slot (sv_slab E) (sv_source E) (tb_stream (ec_tcp (cn_actor t))) (es_ctl s, cn_net t) = Some (c', w') \<Longrightarrow>
     child_done E i t s (s\<lparr>es_conns := (es_conns s)(i := None), es_ctl := c', es_world := w',
       es_listener := (es_listener s)\<lparr>li_children := filter (\<lambda>j. j \<noteq> i) (li_children (es_listener s))\<rparr>,
       es_notes := es_notes s @ [end_cause q]\<rparr>)"

text \<open>Anything in the network that leaves the records of the streams in \<open>X\<close> alone.\<close>

definition undisturbed :: "('s, 'w) net_view \<Rightarrow> 's set \<Rightarrow> 'w \<Rightarrow> 'w \<Rightarrow> bool" where
  "undisturbed V X w w' \<longleftrightarrow> (\<forall>x\<in>X. nv_sent V x w' = nv_sent V x w \<and>
     nv_got V x w' = nv_got V x w \<and> (nv_ended V x w \<longrightarrow> nv_ended V x w'))"

definition steady :: "('s, 'w) net_view \<Rightarrow> 's set \<Rightarrow> 'w \<Rightarrow> 'w \<Rightarrow> bool" where
  "steady V X w w' \<longleftrightarrow> undisturbed V X w w' \<and> nv_accepted V w' = nv_accepted V w"

inductive server_step ::
  "('s, 'a, 'sl, 'k, 'w) server_env
    \<Rightarrow> ('s, 'sl, 'k, 'w) echo_server \<Rightarrow> ('s, 'sl, 'k, 'w) echo_server \<Rightarrow> bool"
  for E where
  srv_poll: "es_down s = None \<Longrightarrow>
     mio_poll_poll (sv_slab E) (sv_poll E) d (es_ctl s, es_world s) = Some (Ret (Inr flags, c', calls, w')) \<Longrightarrow>
     server_step E s (s\<lparr>es_ctl := c', es_world := w', es_calls := es_calls s @ calls\<rparr>)"
| srv_ready: "es_down s = None \<Longrightarrow> es_calls s = (FwdReady i, ready) # rest \<Longrightarrow> es_conns s i = Some c \<Longrightarrow>
     echoer_ready (sv_rt E) (sv_tcp E) ready (ch_actor c) [] (es_world s) = Some (Ret (a, rq, w)) \<Longrightarrow>
     child_done E i (after_handler (child_view (es_now s) (es_world s) c) a rq w) (s\<lparr>es_calls := rest\<rparr>) t \<Longrightarrow>
     server_step E s t"
| srv_skip: "es_down s = None \<Longrightarrow> es_calls s = (f, ready) # rest \<Longrightarrow>
     f \<in> {FwdNop, FwdPollWake} \<or> f = FwdReady i \<and> es_conns s i = None \<Longrightarrow>
     server_step E s (s\<lparr>es_calls := rest\<rparr>)"
| srv_fire: "es_down s = None \<Longrightarrow> es_conns s i = Some c \<Longrightarrow> ch_delayed c = (due, call) # rest \<Longrightarrow>
     due \<le> es_now s \<Longrightarrow>
     echoer_call (sv_tcp E) call (ch_actor c) [] (es_world s) = Some (Ret (a, rq, w)) \<Longrightarrow>
     child_done E i (after_handler (child_view (es_now s) (es_world s) (c\<lparr>ch_delayed := rest\<rparr>)) a rq w) s t \<Longrightarrow>
     server_step E s t"
| srv_connect: "es_down s = None \<Longrightarrow> es_calls s = (FwdConnect, ready) # rest \<Longrightarrow>
     listener_connect (sv_listen E) server_actor_ops (es_now s) (es_listener s, es_spawn s) (es_world s) =
       Some ((li, sp), rq, w) \<Longrightarrow>
     server_step E s (s\<lparr>es_calls := rest, es_listener := li, es_spawn := sp, es_world := w,
       es_active := (if sp_next sp = sp_next (es_spawn s) then es_active s else es_now s),
       es_down := (case rq of RqFail e # _ \<Rightarrow> Some e | _ \<Rightarrow> None)\<rparr>)"
| srv_init: "es_down s = None \<Longrightarrow> sp_inits (es_spawn s) = (i, x) # rest \<Longrightarrow>
     echoer_init (sv_listen E) (sv_slab E) (sv_source E) (FwdReady i) x (es_ctl s, es_world s) =
       Some (Some a, rq, c', w') \<Longrightarrow>
     server_step E s (s\<lparr>es_spawn := (es_spawn s)\<lparr>sp_inits := rest\<rparr>, es_ctl := c', es_world := w',
       es_conns := (es_conns s)(i \<mapsto> new_child a)\<rparr>)"
| srv_init_fails: "es_down s = None \<Longrightarrow> sp_inits (es_spawn s) = (i, x) # rest \<Longrightarrow>
     echoer_init (sv_listen E) (sv_slab E) (sv_source E) (FwdReady i) x (es_ctl s, es_world s) =
       Some (None, rq, c', w') \<Longrightarrow> q \<in> set rq \<Longrightarrow>
     server_step E s (s\<lparr>es_spawn := (es_spawn s)\<lparr>sp_inits := rest\<rparr>, es_ctl := c', es_world := w',
       es_listener := (es_listener s)\<lparr>li_children := filter (\<lambda>j. j \<noteq> i) (li_children (es_listener s))\<rparr>,
       es_notes := es_notes s @ [end_cause q]\<rparr>)"
| srv_note: "es_down s = None \<Longrightarrow> es_notes s = cause # rest \<Longrightarrow>
     server_step E s (s\<lparr>es_notes := rest,
       es_down := (case child_terminated cause of RqFail e # _ \<Rightarrow> Some e | _ \<Rightarrow> None)\<rparr>)"
| srv_expire: "es_down s = None \<Longrightarrow> li_inactivity (es_listener s) \<le> es_now s \<Longrightarrow>
     server_step E s (s\<lparr>es_down := (case inactivity_expired of RqFail e # _ \<Rightarrow> Some e | _ \<Rightarrow> None)\<rparr>)"
| srv_time: "es_now s \<le> t \<Longrightarrow> server_step E s (s\<lparr>es_now := t\<rparr>)"
| srv_net: "steady (sv_view E) UNIV (es_world s) w \<Longrightarrow> server_step E s (s\<lparr>es_world := w\<rparr>)"

inductive_cases server_stepE: "server_step E s t"

text \<open>The server as \<open>main\<close> starts it: \<open>MioPoll::new\<close>, then \<open>Listener::init\<close>.\<close>

inductive server_reachable ::
  "('s, 'a, 'sl, 'k, 'w) server_env \<Rightarrow> ('s, 'sl, 'k, 'w) echo_server \<Rightarrow> bool"
  for E where
  server_start: "mio_poll_new (sv_slab E) (sv_poll E) server_stakker_ops [] 10 ((), w0) =
       Some (Ret (Inr c, (), w1)) \<Longrightarrow>
     listener_init (sv_listen E) server_actor_ops (sv_slab E) (sv_source E) FwdConnect now
       \<lparr>sp_next = 0, sp_inits = []\<rparr> (c, w1) = Some (Some li, [], sp, c', w') \<Longrightarrow>
     nv_accepted (sv_view E) w' = [] \<Longrightarrow>
     server_reachable E \<lparr>es_ctl = c', es_world = w', es_now = now, es_calls = [], es_listener = li,
       es_spawn = sp, es_conns = Map.empty, es_notes = [], es_active = now, es_down = None\<rparr>"
| server_next: "server_reachable E s \<Longrightarrow> server_step E s t \<Longrightarrow> server_reachable E t"

text \<open>
  How the program ends: \<open>main\<close> returns an error, or Stakker is shut down because the Listener has failed.
\<close>

datatype server_end = ReturnsError io_error | ShutDown actor_failure

text \<open>
  Every way in which \<open>main\<close> comes to its end, with the state of the server then, if it was running:
  \<open>Poll::new()\<close> (\<open>create\<close>) or \<open>MioPoll::new\<close> fails; the Listener fails in its \<open>init\<close>; a poll in the
  loop returns an error; or the Listener fails later.
\<close>

inductive server_ends ::
  "('w \<Rightarrow> unit io \<times> 'w) \<Rightarrow> ('s, 'a, 'sl, 'k, 'w) server_env
    \<Rightarrow> ('s, 'sl, 'k, 'w) echo_server option \<Rightarrow> server_end \<Rightarrow> bool"
  for create E where
  end_create: "create w = (Inl e, w0) \<Longrightarrow> server_ends create E None (ReturnsError e)"
| end_new: "create w = (Inr (), w0) \<Longrightarrow>
     mio_poll_new (sv_slab E) (sv_poll E) server_stakker_ops [] 10 ((), w0) = Some (Ret (Inl e, (), w1)) \<Longrightarrow>
     server_ends create E None (ReturnsError e)"
| end_init: "mio_poll_new (sv_slab E) (sv_poll E) server_stakker_ops [] 10 ((), w0) =
       Some (Ret (Inr c, (), w1)) \<Longrightarrow>
     listener_init (sv_listen E) server_actor_ops (sv_slab E) (sv_source E) FwdConnect now
       \<lparr>sp_next = 0, sp_inits = []\<rparr> (c, w1) = Some (None, rq, sp, c', w') \<Longrightarrow>
     RqFail f \<in> set rq \<Longrightarrow> server_ends create E None (ShutDown f)"
| end_poll: "server_reachable E s \<Longrightarrow> es_down s = None \<Longrightarrow>
     mio_poll_poll (sv_slab E) (sv_poll E) d (es_ctl s, es_world s) = Some (Ret (Inl e, c', calls, w')) \<Longrightarrow>
     server_ends create E (Some s) (ReturnsError e)"
| end_down: "server_reachable E s \<Longrightarrow> es_down s = Some f \<Longrightarrow> server_ends create E (Some s) (ShutDown f)"

section \<open>What is assumed of the network\<close>

text \<open>
  Each stream behaves as in \<open>Echo_Actor\<close>; a call on one stream leaves the others alone; polling,
  registering and accepting move no bytes; and an accepted stream is a new one.
\<close>

definition calls_apart :: "('s, 'a, 'sl, 'k, 'w) server_env \<Rightarrow> bool" where
  "calls_apart E \<longleftrightarrow> (\<forall>x w0.
     sender_keeps (sv_tcp E) x (steady (sv_view E) (- {x}) w0) \<and>
     receiver_keeps (sv_tcp E) x (steady (sv_view E) (- {x}) w0)) \<and>
     (\<forall>x k r w. steady (sv_view E) UNIV w (snd (so_register (sv_source E) x k r w))) \<and>
     (\<forall>x w. steady (sv_view E) UNIV w (snd (so_deregister (sv_source E) x w))) \<and>
     (\<forall>d evs w. steady (sv_view E) UNIV w (snd (snd (po_poll (sv_poll E) d (evs, w)))))"

definition accepts_fresh :: "('s, 'a, 'sl, 'k, 'w) server_env \<Rightarrow> bool" where
  "accepts_fresh E \<longleftrightarrow> (\<forall>l w r w'. lo_accept (sv_listen E) l w = (r, w') \<longrightarrow>
     undisturbed (sv_view E) UNIV w w' \<and>
     (case r of
        Inl e \<Rightarrow> nv_accepted (sv_view E) w' = nv_accepted (sv_view E) w
      | Inr (x, a) \<Rightarrow> nv_accepted (sv_view E) w' = nv_accepted (sv_view E) w @ [x] \<and>
          x \<notin> set (nv_accepted (sv_view E) w) \<and> nv_sent (sv_view E) x w = [] \<and>
          nv_got (sv_view E) x w = []))"

definition server_env_ok :: "('s, 'a, 'sl, 'k, 'w) server_env \<Rightarrow> bool" where
  "server_env_ok E \<longleftrightarrow> slab_ok (sv_slab E) \<and> vec_grow_ok (sv_rt E) \<and>
     (\<forall>x. echo_stream (sv_tcp E) (nv_sent (sv_view E)) (nv_got (sv_view E)) (nv_ended (sv_view E) x) x) \<and>
     calls_apart E \<and> accepts_fresh E"

lemma server_env_okD:
  assumes "server_env_ok E"
  shows "slab_ok (sv_slab E)" "vec_grow_ok (sv_rt E)"
    "echo_stream (sv_tcp E) (nv_sent (sv_view E)) (nv_got (sv_view E)) (nv_ended (sv_view E) x) x"
    "sender_keeps (sv_tcp E) x (steady (sv_view E) (- {x}) w0)"
    "receiver_keeps (sv_tcp E) x (steady (sv_view E) (- {x}) w0)"
    "steady (sv_view E) UNIV w (snd (so_register (sv_source E) x k r w))"
    "steady (sv_view E) UNIV w (snd (so_deregister (sv_source E) x w))"
    "steady (sv_view E) UNIV w (snd (snd (po_poll (sv_poll E) d (evs, w))))"
    "accepts_fresh E"
  using assms unfolding server_env_ok_def calls_apart_def by blast+

lemma undisturbed_refl [simp]: "undisturbed V X w w"
  by (simp add: undisturbed_def)

lemma undisturbed_trans: "undisturbed V X w1 w2 \<Longrightarrow> undisturbed V X w2 w3 \<Longrightarrow> undisturbed V X w1 w3"
  by (simp add: undisturbed_def)

lemma undisturbed_mono: "undisturbed V X w w' \<Longrightarrow> Y \<subseteq> X \<Longrightarrow> undisturbed V Y w w'"
  by (auto simp: undisturbed_def)

lemma steady_refl [simp]: "steady V X w w"
  by (simp add: steady_def)

lemma steady_trans: "steady V X w1 w2 \<Longrightarrow> steady V X w2 w3 \<Longrightarrow> steady V X w1 w3"
  by (auto simp: steady_def intro: undisturbed_trans)

lemma steady_mono: "steady V X w w' \<Longrightarrow> Y \<subseteq> X \<Longrightarrow> steady V Y w w'"
  by (auto simp: steady_def intro: undisturbed_mono)

end
