(* ===== verification/Echo_Poller.thy ===== *)
theory Echo_Poller
  imports Echo_System
begin

text \<open>
  The poller of the echo server: every source has the highest priority, so nothing ever waits in a
  queue, and the forwards in the token table lead to the owners of the tokens.
\<close>

section \<open>One priority\<close>

definition one_pri :: "('sl, 'f entry) slab_ops \<Rightarrow> ('sl, 'k) control \<Rightarrow> bool" where
  "one_pri S c \<longleftrightarrow> max_pri c = MAX_PRI \<and> n_queued c = 0 \<and>
     (\<forall>k en. slab_get S (token_map c) k = Some en \<longrightarrow> e_pri en = MAX_PRI)"

text \<open>The calls for events, one for each that has a registered token.\<close>

definition event_calls :: "('sl, 'f entry) slab_ops \<Rightarrow> 'sl \<Rightarrow> event list \<Rightarrow> 'f call list" where
  "event_calls S tm evs =
     live_calls S tm (map (\<lambda>ev. \<lparr>q_token = ev_token ev, q_ready = ready_new ev\<rparr>) evs)"

lemma event_calls_simps [simp]:
  "event_calls S tm [] = []"
  "event_calls S tm (ev # evs) = (case slab_get S tm (ev_token ev) of None \<Rightarrow> []
     | Some en \<Rightarrow> [(e_fwd en, ready_new ev)]) @ event_calls S tm evs"
  by (simp_all add: event_calls_def split: option.splits)

lemma event_calls_iff:
  "x \<in> set (event_calls S tm evs) \<longleftrightarrow>
     (\<exists>ev\<in>set evs. \<exists>en. slab_get S tm (ev_token ev) = Some en \<and> x = (e_fwd en, ready_new ev))"
proof (induction evs)
  case (Cons ev evs)
  then show ?case by (cases "slab_get S tm (ev_token ev)") auto
qed simp

lemma poll_events_direct:
  assumes "one_pri S c"
  shows "poll_events S evs done c calls =
    Ret (done \<or> event_calls S (token_map c) evs \<noteq> [], c, calls @ event_calls S (token_map c) evs)"
  using assms
  by (induction evs arbitrary: "done" calls) (auto simp: one_pri_def Let_def split: option.splits)

lemma one_pri_poll:
  assumes "one_pri S c" "mio_poll_poll S P d (c, w) = Some (Ret (Inr flags, c', calls, w'))"
  obtains u evs where "retry (po_poll P d) (events c, w) = Some (Inr u, evs, w')"
    "calls = event_calls S (token_map c) evs" "flags = (calls \<noteq> [], False)" "c' = c\<lparr>events := []\<rparr>"
proof -
  from assms(2) obtain u evs where r: "retry (po_poll P d) (events c, w) = Some (Inr u, evs, w')"
    and d: "control_dispatch S (c\<lparr>events := evs\<rparr>) = Ret (flags, c', calls)"
    by (auto simp: mio_poll_poll_def control_poll_def obind_eq_Ret split: option.splits sum.splits)
  have "one_pri S (c\<lparr>events := evs\<rparr>)" using assms(1) by (simp add: one_pri_def)
  from poll_events_direct [OF this, of evs False "[]"] d assms(1) show thesis
    by (intro that [OF r]) (auto simp: control_dispatch_def one_pri_def Let_def)
qed

lemma add_table:
  assumes "mio_poll_add S D src ready pri fwd (c, w) = Some (r, c', w')" "slab_ok S"
  obtains token where "slab_get S (token_map c) token = None"
    "slab_get S (token_map c') =
       (slab_get S (token_map c))(token \<mapsto> \<lparr>e_pri = min pri MAX_PRI, e_fwd = fwd\<rparr>)"
    "max_pri c' = max (max_pri c) (min pri MAX_PRI)" "n_queued c' = n_queued c"
    "\<And>ms. r = Inr ms \<Longrightarrow> ms = \<lparr>ms_token = token, ms_source = src\<rparr>"
    "\<exists>r0. retry (so_register D src token ready) w = Some (r0, w')"
proof -
  from assms(1) obtain token r0 where a: "control_enter S pri fwd c = (token, c')"
    "retry (so_register D src token ready) w = Some (r0, w')"
    "r = (case r0 of Inl e \<Rightarrow> Inl e | Inr _ \<Rightarrow> Inr \<lparr>ms_token = token, ms_source = src\<rparr>)"
    by (rule mio_poll_add_cases)
  show thesis
    by (rule that [of token])
      (use control_enter_table [OF assms(2) a(1)] control_enter_fields [OF a(1)] a(2,3) in
        \<open>auto split: sum.splits\<close>)
qed

lemma one_pri_add:
  assumes "mio_poll_add S D src ready 10 fwd (c, w) = Some (r, c', w')" "slab_ok S" "one_pri S c"
  shows "one_pri S c'"
  by (rule add_table [OF assms(1,2)]) (use assms(3) in \<open>auto simp: one_pri_def MAX_PRI_def\<close>)

section \<open>The tokens and their owners\<close>

abbreviation ready_entry :: "nat \<Rightarrow> server_fwd entry" where
  "ready_entry i \<equiv> \<lparr>e_pri = MAX_PRI, e_fwd = FwdReady i\<rparr>"

text \<open>
  The live sources are that of the Listener and those of the children, \<open>M\<close>; each has its token with
  the forward to its owner, and no other token leads to a child. \<open>I\<close> are the children whose
  \<open>init\<close> has run.
\<close>

definition poller_ok ::
  "('s, 'a, 'sl, 'k, 'w) server_env \<Rightarrow> ('sl, 'k) control \<Rightarrow> 'w \<Rightarrow> 's mio_source
    \<Rightarrow> (nat \<rightharpoonup> 's mio_source) \<Rightarrow> nat set \<Rightarrow> bool" where
  "poller_ok E c w li M I \<longleftrightarrow>
     (\<exists>live. mio_reachable (sv_slab E) (sv_source E) (sv_poll E) server_stakker_ops
        \<lparr>sys_ctl = c, sys_live = live, sys_world = w\<rparr> \<and> set live = insert li (ran M)) \<and>
     one_pri (sv_slab E) c \<and>
     slab_get (sv_slab E) (token_map c) (ms_token li) = Some \<lparr>e_pri = MAX_PRI, e_fwd = FwdConnect\<rparr> \<and>
     (\<forall>i ms. M i = Some ms \<longrightarrow> slab_get (sv_slab E) (token_map c) (ms_token ms) = Some (ready_entry i)) \<and>
     (\<forall>k en i. slab_get (sv_slab E) (token_map c) k = Some en \<and> e_fwd en = FwdReady i \<longrightarrow>
        i \<in> I \<and> (\<forall>ms. M i = Some ms \<longrightarrow> k = ms_token ms))"

lemma poller_okD:
  assumes "poller_ok E c w li M I"
  shows "one_pri (sv_slab E) c"
    "slab_get (sv_slab E) (token_map c) (ms_token li) = Some \<lparr>e_pri = MAX_PRI, e_fwd = FwdConnect\<rparr>"
    "M i = Some ms \<Longrightarrow> slab_get (sv_slab E) (token_map c) (ms_token ms) = Some (ready_entry i)"
    "slab_get (sv_slab E) (token_map c) k = Some en \<Longrightarrow> e_fwd en = FwdReady i \<Longrightarrow> i \<in> I"
    "slab_get (sv_slab E) (token_map c) k = Some en \<Longrightarrow> e_fwd en = FwdReady i \<Longrightarrow> M i = Some ms \<Longrightarrow>
       k = ms_token ms"
  using assms unfolding poller_ok_def by blast+

lemma poller_live:
  assumes "poller_ok E c w li M I"
  obtains live where "mio_reachable (sv_slab E) (sv_source E) (sv_poll E) server_stakker_ops
      \<lparr>sys_ctl = c, sys_live = live, sys_world = w\<rparr>" "set live = insert li (ran M)"
  using assms unfolding poller_ok_def by blast

lemma poller_world:
  assumes "poller_ok E c w li M I"
  shows "poller_ok E c w' li M I"
proof -
  obtain live where l: "mio_reachable (sv_slab E) (sv_source E) (sv_poll E) server_stakker_ops
      \<lparr>sys_ctl = c, sys_live = live, sys_world = w\<rparr>" "set live = insert li (ran M)"
    by (rule poller_live [OF assms])
  from reach_step [OF l(1) step_world [of _ _ _ _ w']] l(2) assms show ?thesis
    by (auto simp: poller_ok_def)
qed

lemma poller_poll:
  assumes "poller_ok E c w li M I"
    and poll: "mio_poll_poll (sv_slab E) (sv_poll E) d (c, w) = Some (Ret (Inr flags, c', calls, w'))"
  shows "poller_ok E c' w' li M I"
proof -
  obtain live where l: "mio_reachable (sv_slab E) (sv_source E) (sv_poll E) server_stakker_ops
      \<lparr>sys_ctl = c, sys_live = live, sys_world = w\<rparr>" "set live = insert li (ran M)"
    by (rule poller_live [OF assms(1)])
  have "c' = c\<lparr>events := []\<rparr>" by (rule one_pri_poll [OF poller_okD(1) [OF assms(1)] poll])
  with reach_step [OF l(1) step_poll [of _ _ d _ "Inr flags" c' calls w']] poll l(2) assms(1)
  show ?thesis by (auto simp: poller_ok_def one_pri_def)
qed

lemma poller_add:
  assumes "poller_ok E c w li M I" "slab_ok (sv_slab E)" "M i = None" "i \<notin> I"
    and add: "mio_poll_add (sv_slab E) (sv_source E) x ready 10 (FwdReady i) (c, w) = Some (r, c', w')"
  shows "poller_ok E c' w' li (case r of Inl e \<Rightarrow> M | Inr ms \<Rightarrow> M(i \<mapsto> ms)) (insert i I)"
proof -
  obtain live where l: "mio_reachable (sv_slab E) (sv_source E) (sv_poll E) server_stakker_ops
      \<lparr>sys_ctl = c, sys_live = live, sys_world = w\<rparr>" "set live = insert li (ran M)"
    by (rule poller_live [OF assms(1)])
  obtain token where t: "slab_get (sv_slab E) (token_map c) token = None"
    "slab_get (sv_slab E) (token_map c') =
       (slab_get (sv_slab E) (token_map c))(token \<mapsto> ready_entry i)"
    "\<And>ms. r = Inr ms \<Longrightarrow> ms = \<lparr>ms_token = token, ms_source = x\<rparr>"
    by (rule add_table [OF add assms(2)]) (simp add: MAX_PRI_def)
  let ?M = "case r of Inl e \<Rightarrow> M | Inr ms \<Rightarrow> M(i \<mapsto> ms)"
  let ?live = "case r of Inl e \<Rightarrow> live | Inr ms \<Rightarrow> ms # live"
  have reach: "mio_reachable (sv_slab E) (sv_source E) (sv_poll E) server_stakker_ops
      \<lparr>sys_ctl = c', sys_live = ?live, sys_world = w'\<rparr>"
    using reach_step [OF l(1) step_add [of _ _ x ready 10 "FwdReady i"]]
      reach_step [OF l(1) step_add_err [of _ _ x ready 10 "FwdReady i"]] add
    by (cases r) fastforce+
  have live: "set ?live = insert li (ran ?M)"
    using l(2) assms(3) by (auto split: sum.splits)
  have tk: "slab_get (sv_slab E) (token_map c') (ms_token ms) = Some (ready_entry j)"
    if "?M j = Some ms" for j ms
    using that t poller_okD(3) [OF assms(1)] by (auto split: sum.splits if_splits)
  have to: "j \<in> insert i I \<and> (\<forall>ms. ?M j = Some ms \<longrightarrow> k = ms_token ms)"
    if "slab_get (sv_slab E) (token_map c') k = Some en" "e_fwd en = FwdReady j" for j k en
    using that t assms(3,4) poller_okD(4,5) [OF assms(1)] by (auto split: sum.splits if_splits)
  have "slab_get (sv_slab E) (token_map c') (ms_token li) = Some \<lparr>e_pri = MAX_PRI, e_fwd = FwdConnect\<rparr>"
    using t(1,2) poller_okD(2) [OF assms(1)] by (auto split: if_splits)
  with reach live tk to one_pri_add [OF add assms(2) poller_okD(1) [OF assms(1)]] show ?thesis
    unfolding poller_ok_def by blast
qed

lemma poller_drop:
  assumes ok: "poller_ok E c w li M I" "slab_ok (sv_slab E)" "M i = Some ms"
    and drop: "mio_source_drop (sv_slab E) (sv_source E) ms (c, w) = Some (c', w')"
  shows "poller_ok E c' w' li (M(i := None)) I"
    "slab_get (sv_slab E) (token_map c') = (slab_get (sv_slab E) (token_map c))(ms_token ms := None)"
proof -
  obtain live where l: "mio_reachable (sv_slab E) (sv_source E) (sv_poll E) server_stakker_ops
      \<lparr>sys_ctl = c, sys_live = live, sys_world = w\<rparr>" "set live = insert li (ran M)"
    by (rule poller_live [OF ok(1)])
  have "ms \<in> set live" using l(2) ok(3) by (auto intro: ranI)
  then obtain xs ys where xs: "live = xs @ ms # ys" by (auto simp: in_set_conv_decomp)
  from mio_reachable_inv [OF l(1) ok(2)] have inv: "control_inv (sv_slab E) c"
    "tokens_owned (sv_slab E) c (map ms_token live)" by (simp_all add: mio_inv_def)
  from inv(2) have dist: "distinct live" "ms \<notin> set (xs @ ys)" unfolding tokens_owned_def xs
    by (auto simp: distinct_map)
  show tm: "slab_get (sv_slab E) (token_map c') = (slab_get (sv_slab E) (token_map c))(ms_token ms := None)"
    by (rule mio_source_drop_owned [OF ok(2) inv(1) _ drop, of "map ms_token xs" "map ms_token ys"])
      (use inv(2) xs in auto)
  have one: "one_pri (sv_slab E) c'"
  proof -
    obtain r c1 where "control_del (sv_slab E) (sv_source E) (ms_token ms) (ms_source ms) (c, w) = Some (r, c1, w')"
      "c' = (case r of Inl e \<Rightarrow> c1\<lparr>errors := errors c1 @ [e]\<rparr> | Inr _ \<Rightarrow> c1)"
      by (rule mio_source_drop_cases [OF drop])
    then have "max_pri c' = max_pri c \<and> n_queued c' = n_queued c"
      by (auto simp: control_del_def split: option.splits if_splits sum.splits)
    with tm poller_okD(1) [OF ok(1)] show ?thesis by (auto simp: one_pri_def)
  qed
  have other: "ms_token ms' \<noteq> ms_token ms" if "M j = Some ms'" "j \<noteq> i" for j ms'
    using poller_okD(3) [OF ok(1) that(1)] poller_okD(3) [OF ok(1,3)] that(2) by auto
  have li: "ms_token li \<noteq> ms_token ms"
    using poller_okD(2) [OF ok(1)] poller_okD(3) [OF ok(1,3)] by auto
  have "set (xs @ ys) = insert li (ran (M(i := None)))"
  proof -
    have "set (xs @ ys) = set live - {ms}" using dist xs by auto
    also have "\<dots> = insert li (ran (M(i := None)))"
    proof -
      have "ran (M(i := None)) = ran M - {ms}"
      proof (rule set_eqI, rule iffI)
        fix x
        assume "x \<in> ran (M(i := None))"
        then show "x \<in> ran M - {ms}" using other by (auto simp: ran_def split: if_splits)
      next
        fix x
        assume "x \<in> ran M - {ms}"
        then obtain j where "M j = Some x" "x \<noteq> ms" by (auto simp: ran_def)
        with ok(3) have "(M(i := None)) j = Some x" by auto
        then show "x \<in> ran (M(i := None))" by (rule ranI)
      qed
      with l(2) li show ?thesis by auto
    qed
    finally show ?thesis .
  qed
  moreover have "mio_reachable (sv_slab E) (sv_source E) (sv_poll E) server_stakker_ops
      \<lparr>sys_ctl = c', sys_live = xs @ ys, sys_world = w'\<rparr>"
    using reach_step [OF l(1) step_drop [of _ xs ms ys]] xs drop by simp
  ultimately show "poller_ok E c' w' li (M(i := None)) I"
    using one tm li other poller_okD [OF ok(1)] unfolding poller_ok_def
    by (auto simp: fun_upd_def split: if_splits)
qed

text \<open>What the operations do to the world.\<close>

lemma add_steady:
  assumes "mio_poll_add (sv_slab E) (sv_source E) x ready pri fwd (c, w) = Some (r, c', w')"
    and "server_env_ok E"
  shows "steady (sv_view E) UNIV w w'"
proof -
  from add_table [OF assms(1) server_env_okD(1) [OF assms(2)]] obtain token r0 where
    "retry (so_register (sv_source E) x token ready) w = Some (r0, w')" by metis
  then show ?thesis
    by (rule retry_keeps) (auto intro: steady_trans server_env_okD [OF assms(2)])
qed

lemma drop_steady:
  assumes "mio_source_drop (sv_slab E) (sv_source E) ms (c, w) = Some (c', w')" "server_env_ok E"
  shows "steady (sv_view E) UNIV w w'"
proof -
  obtain r c1 where "control_del (sv_slab E) (sv_source E) (ms_token ms) (ms_source ms) (c, w) = Some (r, c1, w')"
    by (rule mio_source_drop_cases [OF assms(1)])
  then obtain r0 where "retry (so_deregister (sv_source E) (ms_source ms)) w = Some (r0, w')"
    by (rule control_del_cases)
  then show ?thesis
    by (rule retry_keeps) (auto intro: steady_trans server_env_okD [OF assms(2)])
qed

lemma poll_steady:
  assumes "mio_poll_poll (sv_slab E) (sv_poll E) d (c, w) = Some (Ret (Inr flags, c', calls, w'))"
    and "server_env_ok E"
  shows "steady (sv_view E) UNIV w w'"
proof -
  from assms(1) obtain u evs where "retry (po_poll (sv_poll E) d) (events c, w) = Some (Inr u, evs, w')"
    by (auto simp: mio_poll_poll_def control_poll_def obind_eq_Ret split: option.splits sum.splits)
  then have "steady (sv_view E) UNIV w (snd (evs, w'))"
    by (rule retry_keeps) (auto intro: steady_trans server_env_okD [OF assms(2)])
  then show ?thesis by simp
qed

end
