(* ===== verification/Echo_System_Inv.thy ===== *)
theory Echo_System_Inv
  imports Echo_Poller
begin

text \<open>
  The invariant of the echo server: every child is where a connection of its own would be
  (\<open>Echo_Connection\<close>), the poller leads to the owners of the tokens (\<open>Echo_Poller\<close>), and the
  Listener has heard of an abort only if one was asked for.
\<close>

section \<open>The connections\<close>

abbreviation env_reachable ::
  "('s, 'a, 'sl, 'k, 'w) server_env \<Rightarrow> 's \<Rightarrow> ('s, 'w) echo_conn \<Rightarrow> ('s, 'w) echo_conn \<Rightarrow> bool" where
  "env_reachable E x \<equiv> echo_reachable (sv_rt E) (sv_tcp E) (nv_sent (sv_view E) x)
     (nv_got (sv_view E) x) (nv_ended (sv_view E) x)"

abbreviation env_init ::
  "('s, 'a, 'sl, 'k, 'w) server_env \<Rightarrow> 's mio_source \<Rightarrow> ('s, 'w) echo_conn \<Rightarrow> bool" where
  "env_init E ms \<equiv> echo_init (nv_sent (sv_view E) (ms_source ms)) (nv_got (sv_view E) (ms_source ms)) ms"

abbreviation accepted :: "('s, 'a, 'sl, 'k, 'w) server_env \<Rightarrow> 'w \<Rightarrow> 's list" where
  "accepted E \<equiv> nv_accepted (sv_view E)"

text \<open>Child \<open>i\<close> serves the \<open>i\<close>-th accepted stream, as a connection of its own does.\<close>

definition child_run ::
  "('s, 'a, 'sl, 'k, 'w) server_env \<Rightarrow> nat \<Rightarrow> 's mio_source \<Rightarrow> 'w \<Rightarrow> ('s, 'w) echo_conn \<Rightarrow> bool" where
  "child_run E i ms w t \<longleftrightarrow> i < length (accepted E w) \<and> ms_source ms = accepted E w ! i \<and>
     (\<exists>s0. env_init E ms s0 \<and> env_reachable E (ms_source ms) s0 t)"

definition child_ok ::
  "('s, 'a, 'sl, 'k, 'w) server_env \<Rightarrow> nat \<Rightarrow> 'w \<Rightarrow> nat \<Rightarrow> 's child \<Rightarrow> bool" where
  "child_ok E now w i c \<longleftrightarrow> (\<exists>ms. tb_stream (ec_tcp (ch_actor c)) = Some ms \<and>
     child_run E i ms w (child_view now w c))"

lemma child_run_buf:
  assumes "child_run E i ms w t" "server_env_ok E"
  shows "echo_buf (sv_rt E) ms (ec_tcp (cn_actor t))" "tb_stream (ec_tcp (cn_actor t)) = Some ms"
proof -
  from assms(1) obtain s0 where "env_init E ms s0" "env_reachable E (ms_source ms) s0 t"
    by (auto simp: child_run_def)
  from echo_reachable_inv [OF this(2) server_env_okD(3,2) [OF assms(2)] this(1)]
  show "echo_buf (sv_rt E) ms (ec_tcp (cn_actor t))" by (simp add: echo_inv_def echo_core_def)
  then show "tb_stream (ec_tcp (cn_actor t)) = Some ms" by (simp add: echo_buf_def)
qed

lemma child_run_step:
  assumes "child_run E i ms w t" "echo_step (sv_rt E) (sv_tcp E) (nv_sent (sv_view E) (ms_source ms))
      (nv_got (sv_view E) (ms_source ms)) (nv_ended (sv_view E) (ms_source ms)) t t'"
    and "accepted E w' = accepted E w @ xs"
  shows "child_run E i ms w' t'"
proof -
  from assms(1) obtain s0 where s0: "env_init E ms s0" "env_reachable E (ms_source ms) s0 t"
    by (auto simp: child_run_def)
  from echo_next [OF s0(2) assms(2)] s0(1) show ?thesis
    using assms(1,3) unfolding child_run_def by (auto simp: nth_append)
qed

lemma child_okE:
  assumes "child_ok E now w i c" "server_env_ok E"
  obtains ms where "tb_stream (ec_tcp (ch_actor c)) = Some ms" "child_run E i ms w (child_view now w c)"
    "echo_buf (sv_rt E) ms (ec_tcp (ch_actor c))" "ms_source ms = accepted E w ! i" "i < length (accepted E w)"
proof -
  from assms(1) obtain ms where ms: "tb_stream (ec_tcp (ch_actor c)) = Some ms"
    "child_run E i ms w (child_view now w c)"
    by (auto simp: child_ok_def)
  have "echo_buf (sv_rt E) ms (ec_tcp (ch_actor c))"
    using child_run_buf(1) [OF ms(2) assms(2)] by (simp add: child_view_def)
  with ms that show thesis unfolding child_run_def by blast
qed

text \<open>A child does not notice what does not concern its stream.\<close>

lemma child_ok_later:
  assumes "child_ok E now w i c" "server_env_ok E" "undisturbed (sv_view E) {accepted E w ! i} w w'"
    and "accepted E w' = accepted E w @ xs" "now \<le> now'"
  shows "child_ok E now' w' i c"
proof -
  obtain ms where ms: "tb_stream (ec_tcp (ch_actor c)) = Some ms" "child_run E i ms w (child_view now w c)"
    "ms_source ms = accepted E w ! i"
    by (rule child_okE [OF assms(1,2)])
  let ?x = "ms_source ms"
  let ?step = "echo_step (sv_rt E) (sv_tcp E) (nv_sent (sv_view E) ?x) (nv_got (sv_view E) ?x)
    (nv_ended (sv_view E) ?x)"
  have "?step (child_view now w c) (child_view now w c\<lparr>cn_net := w'\<rparr>)"
    by (rule step_net) (use assms(3) ms(3) in \<open>simp_all add: undisturbed_def child_view_def\<close>)
  from child_run_step [OF ms(2) this assms(4)]
  have "child_run E i ms w' (child_view now w' c)" by (simp add: child_view_def)
  moreover have "?step (child_view now w' c) (child_view now w' c\<lparr>cn_now := now'\<rparr>)"
    by (rule step_time) (use assms(5) in \<open>simp add: child_view_def\<close>)
  ultimately have "child_run E i ms w' (child_view now w' c\<lparr>cn_now := now'\<rparr>)"
    by (rule child_run_step [where xs = "[]"]) simp
  with ms(1) show ?thesis by (auto simp: child_ok_def child_view_def)
qed

definition pending_ok :: "('s, 'a, 'sl, 'k, 'w) server_env \<Rightarrow> 'w \<Rightarrow> nat \<times> 's \<Rightarrow> bool" where
  "pending_ok E w p \<longleftrightarrow> fst p < length (accepted E w) \<and> snd p = accepted E w ! fst p \<and>
     nv_sent (sv_view E) (snd p) w = [] \<and> nv_got (sv_view E) (snd p) w = []"

lemma pending_ok_later:
  "pending_ok E w p \<Longrightarrow> undisturbed (sv_view E) {snd p} w w' \<Longrightarrow> accepted E w' = accepted E w @ xs \<Longrightarrow>
     pending_ok E w' p"
  unfolding pending_ok_def undisturbed_def by (auto simp: nth_append)

definition conns_ok ::
  "('s, 'a, 'sl, 'k, 'w) server_env \<Rightarrow> nat \<Rightarrow> 'w \<Rightarrow> 's spawning \<Rightarrow> (nat \<rightharpoonup> 's child) \<Rightarrow> bool" where
  "conns_ok E now w sp cs \<longleftrightarrow> sp_next sp = length (accepted E w) \<and> distinct (accepted E w) \<and>
     distinct (map fst (sp_inits sp)) \<and>
     (\<forall>p\<in>set (sp_inits sp). pending_ok E w p \<and> cs (fst p) = None) \<and>
     (\<forall>i c. cs i = Some c \<longrightarrow> child_ok E now w i c)"

lemma conns_okD:
  assumes "conns_ok E now w sp cs"
  shows "sp_next sp = length (accepted E w)" "distinct (accepted E w)" "distinct (map fst (sp_inits sp))"
    "p \<in> set (sp_inits sp) \<Longrightarrow> pending_ok E w p" "p \<in> set (sp_inits sp) \<Longrightarrow> cs (fst p) = None"
    "cs i = Some c \<Longrightarrow> child_ok E now w i c"
  using assms unfolding conns_ok_def by blast+

lemma conns_steady:
  assumes "conns_ok E now w sp cs" "server_env_ok E" "steady (sv_view E) UNIV w w'" "now \<le> now'"
  shows "conns_ok E now' w' sp cs"
proof -
  have u: "undisturbed (sv_view E) X w w'" for X
    using assms(3) by (auto simp: steady_def intro: undisturbed_mono)
  have acc: "accepted E w' = accepted E w @ []" using assms(3) by (simp add: steady_def)
  show ?thesis
    using assms(1) child_ok_later [OF _ assms(2) u acc assms(4)] pending_ok_later [OF _ u acc] acc
    by (simp add: conns_ok_def)
qed

text \<open>A handler of child \<open>i\<close> that leaves the other streams alone.\<close>

lemma conns_handler:
  assumes ok: "conns_ok E now w sp cs" "server_env_ok E" and "cs i \<noteq> None"
    and st: "steady (sv_view E) (- {accepted E w ! i}) w w'"
    and new: "\<And>c. c' = Some c \<Longrightarrow> child_ok E now w' i c"
  shows "conns_ok E now w' sp (cs(i := c'))"
proof -
  have acc: "accepted E w' = accepted E w" using st by (simp add: steady_def)
  then have acc': "accepted E w' = accepted E w @ []" by simp
  obtain ci where ci: "cs i = Some ci" using assms(3) by blast
  have i: "i < length (accepted E w)"
    by (rule child_okE [OF conns_okD(6) [OF ok(1) ci] ok(2)])
  have other: "undisturbed (sv_view E) {accepted E w ! j} w w'" if "j \<noteq> i" "j < length (accepted E w)" for j
  proof -
    have "accepted E w ! j \<noteq> accepted E w ! i"
      using conns_okD(2) [OF ok(1)] that i by (simp add: nth_eq_iff_index_eq)
    with st show ?thesis by (auto simp: steady_def intro: undisturbed_mono)
  qed
  have "child_ok E now w' j c" if "(cs(i := c')) j = Some c" for j c
  proof (cases "j = i")
    case True
    with that new show ?thesis by simp
  next
    case False
    with that have cj: "child_ok E now w j c" using conns_okD(6) [OF ok(1)] by simp
    then have "j < length (accepted E w)" by (rule child_okE [OF _ ok(2)])
    from child_ok_later [OF cj ok(2) other [OF False this] acc' order_refl] show ?thesis .
  qed
  moreover have "pending_ok E w' p \<and> (cs(i := c')) (fst p) = None" if "p \<in> set (sp_inits sp)" for p
  proof -
    from conns_okD(4,5) [OF ok(1) that] ci have p: "pending_ok E w p" "fst p \<noteq> i" "cs (fst p) = None" by auto
    from other [OF p(2)] p(1) have "undisturbed (sv_view E) {snd p} w w'" by (simp add: pending_ok_def)
    from pending_ok_later [OF p(1) this acc'] p(2,3) show ?thesis by simp
  qed
  ultimately show ?thesis using ok(1) acc by (simp add: conns_ok_def)
qed

lemma conns_init:
  assumes ok: "conns_ok E now w sp cs" "server_env_ok E" and "sp_inits sp = (i, x) # rest"
    and st: "steady (sv_view E) UNIV w w'" and new: "\<And>c. c' = Some c \<Longrightarrow> child_ok E now w' i c"
  shows "conns_ok E now w' (sp\<lparr>sp_inits := rest\<rparr>) (cs(i := c'))"
  using conns_steady [OF ok st order_refl] assms(3) new by (auto simp: conns_ok_def)

lemma conns_connect:
  assumes ok: "conns_ok E now w sp cs" "server_env_ok E"
    and acc: "accepted E w' = accepted E w @ xs" "distinct (accepted E w')"
    and u: "undisturbed (sv_view E) UNIV w w'"
    and new: "\<And>x. x \<in> set xs \<Longrightarrow> nv_sent (sv_view E) x w' = [] \<and> nv_got (sv_view E) x w' = []"
    and sp: "sp_next sp' = sp_next sp + length xs"
      "sp_inits sp' = sp_inits sp @ zip [sp_next sp..<sp_next sp + length xs] xs"
  shows "conns_ok E now w' sp' cs"
proof -
  note n = conns_okD(1) [OF ok(1)]
  have u': "undisturbed (sv_view E) X w w'" for X using u by (auto intro: undisturbed_mono)
  have child: "child_ok E now w' i c" if "cs i = Some c" for i c
    by (rule child_ok_later [OF conns_okD(6) [OF ok(1) that] ok(2) u' acc(1) order_refl])
  have none: "cs i = None" if "sp_next sp \<le> i" for i
  proof (cases "cs i")
    case (Some c)
    have "i < length (accepted E w)" by (rule child_okE [OF conns_okD(6) [OF ok(1) Some] ok(2)])
    with that n show ?thesis by simp
  qed
  have "pending_ok E w' p \<and> cs (fst p) = None" if "p \<in> set (sp_inits sp')" for p
  proof (cases "p \<in> set (sp_inits sp)")
    case True
    from pending_ok_later [OF conns_okD(4) [OF ok(1) this] u' acc(1)] conns_okD(5) [OF ok(1) this]
    show ?thesis by simp
  next
    case False
    with that sp(2) obtain k where k: "k < length xs" "p = (sp_next sp + k, xs ! k)"
      by (auto simp: set_zip)
    with new acc(1) n none show ?thesis by (simp add: pending_ok_def nth_append)
  qed
  moreover have "distinct (map fst (sp_inits sp'))"
  proof -
    have "fst p < sp_next sp" if "p \<in> set (sp_inits sp)" for p
      using conns_okD(4) [OF ok(1) that] n by (simp add: pending_ok_def)
    then show ?thesis using conns_okD(3) [OF ok(1)] sp(2) by (fastforce simp: map_fst_zip)
  qed
  ultimately show ?thesis using child acc n sp(1) by (simp add: conns_ok_def)
qed

section \<open>A handler of a child\<close>

text \<open>What both kinds of handler do: the connection makes a step, in which it may have got bytes,
  and the other streams are left alone.\<close>

definition child_stepped ::
  "('s, 'a, 'sl, 'k, 'w) server_env \<Rightarrow> nat \<Rightarrow> 's mio_source \<Rightarrow> 'w \<Rightarrow> ('s, 'w) echo_conn \<Rightarrow> bool" where
  "child_stepped E i ms w t \<longleftrightarrow> child_run E i ms (cn_net t) t \<and>
     steady (sv_view E) (- {accepted E w ! i}) w (cn_net t) \<and>
     (cn_running t \<longrightarrow> cn_end t = []) \<and>
     set (nv_got (sv_view E) (ms_source ms) w) \<subseteq> set (nv_got (sv_view E) (ms_source ms) (cn_net t)) \<and>
     (RqFail AbortError \<in> set (cn_end t) \<longrightarrow> PERCENT \<in> set (nv_got (sv_view E) (ms_source ms) (cn_net t)))"

lemma after_handler_no_end: "cn_running (after_handler s a rq w) \<Longrightarrow> cn_end (after_handler s a rq w) = []"
  by (auto simp: after_handler_def list_ex_iff filter_empty_conv)

lemma ready_stepped:
  assumes ok: "server_env_ok E" and c: "child_ok E now w i c"
    and run: "echoer_ready (sv_rt E) (sv_tcp E) ready (ch_actor c) [] w = Some (Ret (a, rq, w'))"
  obtains ms where "tb_stream (ec_tcp (ch_actor c)) = Some ms"
    "child_stepped E i ms w (after_handler (child_view now w c) a rq w')"
proof -
  obtain ms where ms: "tb_stream (ec_tcp (ch_actor c)) = Some ms" "child_run E i ms w (child_view now w c)"
    "echo_buf (sv_rt E) ms (ec_tcp (ch_actor c))" "ms_source ms = accepted E w ! i"
    by (rule child_okE [OF c ok])
  let ?x = "ms_source ms" and ?t = "after_handler (child_view now w c) a rq w'"
  note T = server_env_okD(3) [OF ok, of ?x]
  have st: "steady (sv_view E) (- {?x}) w w'"
    by (rule echoer_ready_keeps [OF run ms(3) server_env_okD(2) [OF ok] T server_env_okD(4,5) [OF ok]]) simp
  then have acc: "accepted E w' = accepted E w @ []" by (simp add: steady_def)
  have "echo_step (sv_rt E) (sv_tcp E) (nv_sent (sv_view E) ?x) (nv_got (sv_view E) ?x)
      (nv_ended (sv_view E) ?x) (child_view now w c) ?t"
    by (rule step_ready) (use run in \<open>simp_all add: child_view_def\<close>)
  from child_run_step [OF ms(2) this acc] have "child_run E i ms w' ?t" .
  moreover from echoer_ready_post [OF ms(3) server_env_okD(2) [OF ok] T, of w "[]" ready] run obtain ds e where
    "echo_post (sv_rt E) (nv_sent (sv_view E)) (nv_got (sv_view E)) (nv_ended (sv_view E) ?x) ms
       (ch_actor c) w a rq w' ds e"
    by (auto simp: handled_def)
  then have "rq_calls rq = echo_calls ds e" "nv_got (sv_view E) ?x w' = nv_got (sv_view E) ?x w @ concat ds"
    by (simp_all add: echo_post_def)
  moreover from this have "PERCENT \<in> set (nv_got (sv_view E) ?x w')" if "RqFail AbortError \<in> set rq"
    using that echoer_ready_abort [OF run] by simp
  ultimately have "child_stepped E i ms w ?t"
    using st ms(4) by (simp add: child_stepped_def after_handler_no_end) (auto simp: after_handler_end)
  with ms(1) show thesis by (rule that)
qed

lemma call_stepped:
  assumes ok: "server_env_ok E" and c: "child_ok E now w i c"
    and head: "ch_delayed c = (due, call) # rest" "due \<le> now"
    and run: "echoer_call (sv_tcp E) call (ch_actor c) [] w = Some (Ret (a, rq, w'))"
  obtains ms where "tb_stream (ec_tcp (ch_actor c)) = Some ms"
    "child_stepped E i ms w (after_handler (child_view now w (c\<lparr>ch_delayed := rest\<rparr>)) a rq w')"
proof -
  obtain ms where ms: "tb_stream (ec_tcp (ch_actor c)) = Some ms" "child_run E i ms w (child_view now w c)"
    "echo_buf (sv_rt E) ms (ec_tcp (ch_actor c))" "ms_source ms = accepted E w ! i"
    by (rule child_okE [OF c ok])
  let ?x = "ms_source ms" and ?t = "after_handler (child_view now w (c\<lparr>ch_delayed := rest\<rparr>)) a rq w'"
  have st: "steady (sv_view E) (- {?x}) w w'"
    by (rule echoer_call_keeps [OF run ms(3) server_env_okD(4) [OF ok]]) simp
  then have acc: "accepted E w' = accepted E w @ []" by (simp add: steady_def)
  have t: "?t = after_handler (child_view now w c\<lparr>cn_delayed := rest\<rparr>) a rq w'" by (simp add: child_view_def)
  have "echo_step (sv_rt E) (sv_tcp E) (nv_sent (sv_view E) ?x) (nv_got (sv_view E) ?x)
      (nv_ended (sv_view E) ?x) (child_view now w c) ?t"
    unfolding t by (rule step_fire [of _ due call]) (use run head in \<open>simp_all add: child_view_def\<close>)
  from child_run_step [OF ms(2) this acc] have "child_run E i ms w' ?t" .
  moreover have post: "rq_calls rq = []" "nv_got (sv_view E) ?x w' = nv_got (sv_view E) ?x w"
    using echoer_call_post [OF ms(3) server_env_okD(3) [OF ok], of call w "[]"] run
    by (auto simp: handled_def echo_post_def)
  moreover have "RqFail AbortError \<notin> set rq"
  proof -
    have "abort_ok rq = abort_ok []"
      using run unfolding echoer_call_flush by (rule echoer_flush_abort)
    with post(1) show ?thesis by (simp add: abort_ok_def)
  qed
  ultimately have "child_stepped E i ms w ?t"
    using st ms(4) by (simp add: child_stepped_def after_handler_no_end) (auto simp: after_handler_end)
  with ms(1) show thesis by (rule that)
qed

end
