(* ===== verification/Echo_System_Reach.thy ===== *)
theory Echo_System_Reach
  imports Echo_System_Inv
begin

text \<open>Every reachable state of the echo server satisfies the invariant.\<close>

section \<open>The invariant\<close>

definition sources_of :: "(nat \<rightharpoonup> 's child) \<Rightarrow> nat \<rightharpoonup> 's mio_source" where
  "sources_of cs = (\<lambda>i. Option.bind (cs i) (\<lambda>c. tb_stream (ec_tcp (ch_actor c))))"

lemma sources_of_upd [simp]:
  "sources_of (cs(i := c')) = (sources_of cs)(i := Option.bind c' (\<lambda>c. tb_stream (ec_tcp (ch_actor c))))"
  by (simp add: sources_of_def fun_eq_iff)

abbreviation es_sources :: "('s, 'sl, 'k, 'w) echo_server \<Rightarrow> nat \<rightharpoonup> 's mio_source" where
  "es_sources s \<equiv> sources_of (es_conns s)"

definition started :: "'s spawning \<Rightarrow> nat set" where
  "started sp = {i. i < sp_next sp} - fst ` set (sp_inits sp)"

text \<open>Somebody has sent a \<open>'%'\<close>.\<close>

definition aborted :: "('s, 'a, 'sl, 'k, 'w) server_env \<Rightarrow> 'w \<Rightarrow> bool" where
  "aborted E w \<longleftrightarrow> (\<exists>x\<in>set (accepted E w). PERCENT \<in> set (nv_got (sv_view E) x w))"

definition down_ok ::
  "('s, 'a, 'sl, 'k, 'w) server_env \<Rightarrow> ('s, 'sl, 'k, 'w) echo_server \<Rightarrow> actor_failure \<Rightarrow> bool" where
  "down_ok E s f \<longleftrightarrow> f = ChildAborted \<and> aborted E (es_world s) \<or>
     f = ConnectionTimeout \<and> es_active s + secs 60 \<le> es_now s \<or>
     (\<exists>e. f = AcceptFailed e \<and> err_kind e \<noteq> WouldBlock \<and> err_kind e \<noteq> Interrupted)"

definition listener_ok ::
  "('s, 'a, 'sl, 'k, 'w) server_env \<Rightarrow> ('s, 'sl, 'k, 'w) echo_server \<Rightarrow> bool" where
  "listener_ok E s \<longleftrightarrow>
     li_inactivity (es_listener s) = es_active s + secs 60 \<and> es_active s \<le> es_now s \<and>
     set (li_children (es_listener s)) = dom (es_conns s) \<union> fst ` set (sp_inits (es_spawn s)) \<and>
     (Failed AbortError \<in> set (es_notes s) \<longrightarrow> aborted E (es_world s)) \<and>
     (\<forall>f. es_down s = Some f \<longrightarrow> down_ok E s f)"

definition server_inv ::
  "('s, 'a, 'sl, 'k, 'w) server_env \<Rightarrow> ('s, 'sl, 'k, 'w) echo_server \<Rightarrow> bool" where
  "server_inv E s \<longleftrightarrow>
     poller_ok E (es_ctl s) (es_world s) (li_listener (es_listener s)) (es_sources s) (started (es_spawn s)) \<and>
     conns_ok E (es_now s) (es_world s) (es_spawn s) (es_conns s) \<and> listener_ok E s"

lemma server_invD:
  assumes "server_inv E s"
  shows "poller_ok E (es_ctl s) (es_world s) (li_listener (es_listener s)) (es_sources s) (started (es_spawn s))"
    "conns_ok E (es_now s) (es_world s) (es_spawn s) (es_conns s)" "listener_ok E s"
  using assms by (simp_all add: server_inv_def)

lemma aborted_later:
  assumes "aborted E w" "undisturbed (sv_view E) UNIV w w'" "accepted E w' = accepted E w @ xs"
  shows "aborted E w'"
  using assms by (auto simp: aborted_def undisturbed_def)

lemma aborted_stepped:
  assumes "aborted E w" "child_stepped E i ms w t"
  shows "aborted E (cn_net t)"
proof -
  from assms(1) obtain x where x: "x \<in> set (accepted E w)" "PERCENT \<in> set (nv_got (sv_view E) x w)"
    by (auto simp: aborted_def)
  have acc: "accepted E (cn_net t) = accepted E w"
    using assms(2) by (simp add: child_stepped_def steady_def)
  have "PERCENT \<in> set (nv_got (sv_view E) x (cn_net t))"
  proof (cases "x = accepted E w ! i")
    case True
    with assms(2) x acc show ?thesis by (auto simp: child_stepped_def child_run_def)
  next
    case False
    with assms(2) x show ?thesis by (auto simp: child_stepped_def steady_def undisturbed_def)
  qed
  with x(1) acc show ?thesis by (auto simp: aborted_def)
qed

section \<open>A handler of a child\<close>

lemma child_view_of:
  "cn_running t \<Longrightarrow> cn_end t = [] \<Longrightarrow> child_view (cn_now t) (cn_net t) (child_of t) = t"
  by (cases t) (simp add: child_view_def child_of_def)

lemma child_done_inv:
  assumes inv: "server_inv E s" and ok: "server_env_ok E"
    and c: "es_conns s i = Some c" "tb_stream (ec_tcp (ch_actor c)) = Some ms"
    and t: "child_stepped E i ms (es_world s) t" "cn_now t = es_now s"
    and dn: "child_done E i t s s'" and up: "es_down s = None"
  shows "server_inv E s'"
proof -
  note I = server_invD [OF inv]
  from t(1) have st: "steady (sv_view E) (- {accepted E (es_world s) ! i}) (es_world s) (cn_net t)"
    and run: "child_run E i ms (cn_net t) t" by (simp_all add: child_stepped_def)
  have src: "es_sources s i = Some ms" using c by (simp add: sources_of_def)
  have strm: "tb_stream (ec_tcp (cn_actor t)) = Some ms" by (rule child_run_buf(2) [OF run ok])
  have some: "es_conns s i \<noteq> None" using c(1) by simp
  from dn show ?thesis
  proof cases
    case child_goes_on
    have "child_view (es_now s) (cn_net t) (child_of t) = t"
      using child_view_of [of t] child_goes_on(2) t by (simp add: child_stepped_def)
    with run strm have "child_ok E (es_now s) (cn_net t) i (child_of t)"
      by (auto simp: child_ok_def child_of_def)
    then have "conns_ok E (es_now s) (cn_net t) (es_spawn s) ((es_conns s)(i \<mapsto> child_of t))"
      by (intro conns_handler [OF I(2) ok some st]) simp
    moreover have "(es_sources s)(i \<mapsto> ms) = es_sources s" using src by auto
    then have "es_sources s' = es_sources s"
      using child_goes_on(1) strm by (simp add: child_of_def)
    moreover have "listener_ok E s'"
      using I(3) c(1) up child_goes_on(1) aborted_stepped [OF _ t(1)] by (auto simp: listener_ok_def)
    ultimately show ?thesis
      using poller_world [OF I(1)] child_goes_on(1) by (simp add: server_inv_def)
  next
    case (child_ends q c' w')
    from child_ends(4) strm have drop:
      "mio_source_drop (sv_slab E) (sv_source E) ms (es_ctl s, cn_net t) = Some (c', w')" by simp
    have conns: "conns_ok E (es_now s) w' (es_spawn s) ((es_conns s)(i := None))"
      by (rule conns_steady [OF conns_handler [OF I(2) ok some st] ok drop_steady [OF drop ok] order_refl]) simp
    have ab: "aborted E w'" if "aborted E (cn_net t)"
      using that drop_steady [OF drop ok] aborted_later [of E "cn_net t" w' "[]"] by (simp add: steady_def)
    have "aborted E (cn_net t)" if "end_cause q = Failed AbortError"
    proof -
      from that have "q = RqFail AbortError" by (cases q) auto
      with t(1) child_ends(3) have "PERCENT \<in> set (nv_got (sv_view E) (ms_source ms) (cn_net t))"
        by (simp add: child_stepped_def)
      moreover have "ms_source ms \<in> set (accepted E (cn_net t))"
        using run by (simp add: child_run_def)
      ultimately show ?thesis unfolding aborted_def by blast
    qed
    with ab aborted_stepped [OF _ t(1)] I(3) up have "listener_ok E s'"
      using conns_okD(5) [OF I(2)] c(1) by (auto simp: listener_ok_def child_ends(1))
    moreover have "poller_ok E c' w' (li_listener (es_listener s)) ((es_sources s)(i := None)) (started (es_spawn s))"
      by (rule poller_drop [OF poller_world [OF I(1)] server_env_okD(1) [OF ok] src drop])
    ultimately show ?thesis using conns by (simp add: server_inv_def child_ends(1))
  qed
qed

section \<open>Accepting\<close>

lemma adopt_one:
  "adopt_child server_actor_ops now x (li, sp) =
     (li\<lparr>li_children := li_children li @ [sp_next sp], li_inactivity := max (li_inactivity li) (now + secs 60)\<rparr>,
      sp\<lparr>sp_next := Suc (sp_next sp), sp_inits := sp_inits sp @ [(sp_next sp, x)]\<rparr>)"
  by (simp add: adopt_child_def listener_activity_def server_actor_ops_def)

lemma fold_adopt:
  "fold (adopt_child server_actor_ops now) xs (li, sp) =
     (li\<lparr>li_children := li_children li @ [sp_next sp..<sp_next sp + length xs],
         li_inactivity := (if xs = [] then li_inactivity li else max (li_inactivity li) (now + secs 60))\<rparr>,
      sp\<lparr>sp_next := sp_next sp + length xs,
         sp_inits := sp_inits sp @ zip [sp_next sp..<sp_next sp + length xs] xs\<rparr>)"
proof (induction xs arbitrary: li sp)
  case (Cons x xs)
  have "[sp_next sp..<sp_next sp + length (x # xs)] = sp_next sp # [Suc (sp_next sp)..<Suc (sp_next sp) + length xs]"
    by (simp add: upt_conv_Cons del: upt_Suc)
  then show ?case
    by (simp add: Cons.IH adopt_one del: upt_Suc)
qed simp

lemma accept_run_fresh:
  assumes "accept_run f w xs e w'" "f = lo_accept (sv_listen E) l" "accepts_fresh E"
  shows "undisturbed (sv_view E) UNIV w w' \<and> accepted E w' = accepted E w @ xs \<and>
    (distinct (accepted E w) \<longrightarrow> distinct (accepted E w')) \<and>
    (\<forall>x\<in>set xs. nv_sent (sv_view E) x w' = [] \<and> nv_got (sv_view E) x w' = []) \<and> err_kind e \<noteq> Interrupted"
  using assms(1,2)
proof (induction rule: accept_run.induct)
  case (accept_end w e w')
  then show ?case using assms(3) by (fastforce simp: accepts_fresh_def)
next
  case (accept_again w e0 w1 xs e w')
  from accept_again.hyps(1) accept_again.prems assms(3) have
    "undisturbed (sv_view E) UNIV w w1" "accepted E w1 = accepted E w"
    by (fastforce simp: accepts_fresh_def)+
  with accept_again.IH [OF accept_again.prems] show ?case by (auto intro: undisturbed_trans)
next
  case (accept_stream w x addr w1 xs e w')
  from accept_stream.hyps(1) accept_stream.prems assms(3) have
    *: "undisturbed (sv_view E) UNIV w w1" "accepted E w1 = accepted E w @ [x]"
    "x \<notin> set (accepted E w)" "nv_sent (sv_view E) x w = []" "nv_got (sv_view E) x w = []"
    by (fastforce simp: accepts_fresh_def)+
  note IH = accept_stream.IH [OF accept_stream.prems]
  then have "undisturbed (sv_view E) UNIV w w'" using *(1) by (blast intro: undisturbed_trans)
  with * IH show ?case by (auto simp: undisturbed_def)
qed

lemma connect_inv:
  assumes inv: "server_inv E s" and ok: "server_env_ok E" and up: "es_down s = None"
    and run: "listener_connect (sv_listen E) server_actor_ops (es_now s) (es_listener s, es_spawn s) (es_world s) =
      Some ((li, sp), rq, w)"
  shows "server_inv E (s\<lparr>es_calls := rest, es_listener := li, es_spawn := sp, es_world := w,
    es_active := (if sp_next sp = sp_next (es_spawn s) then es_active s else es_now s),
    es_down := (case rq of RqFail e # _ \<Rightarrow> Some e | _ \<Rightarrow> None)\<rparr>)" (is "server_inv E ?s")
proof -
  note I = server_invD [OF inv]
  from listener_connect_sound [OF run] obtain xs e where
    acc: "accept_run (lo_accept (sv_listen E) (ms_source (li_listener (es_listener s)))) (es_world s) xs e w"
    and res: "fold (adopt_child server_actor_ops (es_now s)) xs (es_listener s, es_spawn s) = (li, sp)"
    and rq: "rq = accept_requests e"
    by auto
  note F = accept_run_fresh [OF acc refl server_env_okD(9) [OF ok]]
  let ?n = "sp_next (es_spawn s)"
  from res have li: "li_children li = li_children (es_listener s) @ [?n..<?n + length xs]"
    "li_inactivity li = (if xs = [] then li_inactivity (es_listener s)
       else max (li_inactivity (es_listener s)) (es_now s + secs 60))"
    "li_listener li = li_listener (es_listener s)"
    and sp: "sp_next sp = ?n + length xs" "sp_inits sp = sp_inits (es_spawn s) @ zip [?n..<?n + length xs] xs"
    unfolding fold_adopt by auto
  have conns: "conns_ok E (es_now s) w sp (es_conns s)"
    by (rule conns_connect [OF I(2) ok _ _ _ _ sp]) (use F conns_okD(2) [OF I(2)] in blast)+
  have fst: "fst ` set (zip [?n..<?n + length xs] xs) = {?n..<?n + length xs}"
    by (metis atLeastLessThan_upt length_upt diff_add_inverse map_fst_zip set_map)
  have "started sp = started (es_spawn s)"
  proof -
    have "i < ?n" if "i \<in> fst ` set (sp_inits (es_spawn s))" for i
      using that conns_okD(1,4) [OF I(2)] by (auto simp: pending_ok_def)
    then show ?thesis using fst by (auto simp: started_def sp image_Un)
  qed
  then have poller: "poller_ok E (es_ctl s) w (li_listener li) (es_sources s) (started sp)"
    using poller_world [OF I(1)] li(3) by simp
  have ab: "aborted E w" if "aborted E (es_world s)"
    by (rule aborted_later [OF that]) (use F in blast)+
  have "set (li_children li) = dom (es_conns s) \<union> fst ` set (sp_inits sp)"
    using I(3) li(1) sp(2) fst by (auto simp: listener_ok_def image_Un)
  moreover have "down_ok E ?s f" if "(case rq of RqFail e # _ \<Rightarrow> Some e | _ \<Rightarrow> None) = Some f" for f
    using that rq F by (auto simp: accept_requests_def down_ok_def split: if_splits)
  ultimately have "listener_ok E ?s"
    using I(3) li(2) sp(1) ab by (auto simp: listener_ok_def max_def)
  with poller conns show ?thesis by (simp add: server_inv_def)
qed

section \<open>Starting a child\<close>

lemma started_init:
  assumes "conns_ok E now w sp cs" "sp_inits sp = (i, x) # rest"
  shows "started (sp\<lparr>sp_inits := rest\<rparr>) = insert i (started sp)" "i \<notin> started sp"
proof -
  have "pending_ok E w (i, x)" by (rule conns_okD(4) [OF assms(1)]) (simp add: assms(2))
  then show "started (sp\<lparr>sp_inits := rest\<rparr>) = insert i (started sp)" "i \<notin> started sp"
    using conns_okD(1,3) [OF assms(1)] assms(2) by (auto simp: started_def pending_ok_def)
qed

lemma init_cases:
  assumes run: "echoer_init (sv_listen E) (sv_slab E) (sv_source E) fwd x (c, w) = Some (res, rq, c', w')"
  obtains r where "mio_poll_add (sv_slab E) (sv_source E) x
      (lo_readable (sv_listen E) OR lo_writable (sv_listen E)) 10 fwd (c, w) = Some (r, c', w')"
    "case r of Inl e \<Rightarrow> res = None \<and> rq = [RqFail (StreamSetupFailed e)]
      | Inr ms \<Rightarrow> res = Some (echoer_new ms) \<and> rq = []"
proof -
  from run obtain r c1 w1 where add: "mio_poll_add (sv_slab E) (sv_source E) x
      (lo_readable (sv_listen E) OR lo_writable (sv_listen E)) 10 fwd (c, w) = Some (r, c1, w1)"
    by (auto simp: echoer_init_def echoer_setup_def split: option.splits)
  with run have "c1 = c' \<and> w1 = w' \<and> (case r of Inl e \<Rightarrow> res = None \<and> rq = [RqFail (StreamSetupFailed e)]
      | Inr ms \<Rightarrow> res = Some (echoer_new ms) \<and> rq = [])"
    by (cases r) (auto simp: echoer_init_def echoer_setup_def tb_init_def tb_new_def echoer_new_def)
  with add show thesis by (intro that [of r]) auto
qed

lemma init_inv:
  assumes inv: "server_inv E s" and ok: "server_env_ok E" and up: "es_down s = None"
    and inits: "sp_inits (es_spawn s) = (i, x) # rest"
    and run: "echoer_init (sv_listen E) (sv_slab E) (sv_source E) (FwdReady i) x (es_ctl s, es_world s) =
       Some (res, rq, c', w')"
  shows "case res of
      Some a \<Rightarrow> server_inv E (s\<lparr>es_spawn := (es_spawn s)\<lparr>sp_inits := rest\<rparr>, es_ctl := c', es_world := w',
         es_conns := (es_conns s)(i \<mapsto> new_child a)\<rparr>)
    | None \<Rightarrow> q \<in> set rq \<longrightarrow>
        server_inv E (s\<lparr>es_spawn := (es_spawn s)\<lparr>sp_inits := rest\<rparr>, es_ctl := c', es_world := w',
         es_listener := (es_listener s)\<lparr>li_children := filter (\<lambda>j. j \<noteq> i) (li_children (es_listener s))\<rparr>,
         es_notes := es_notes s @ [end_cause q]\<rparr>)"
proof -
  note I = server_invD [OF inv]
  obtain r where add: "mio_poll_add (sv_slab E) (sv_source E) x
      (lo_readable (sv_listen E) OR lo_writable (sv_listen E)) 10 (FwdReady i) (es_ctl s, es_world s) = Some (r, c', w')"
    and r: "case r of Inl e \<Rightarrow> res = None \<and> rq = [RqFail (StreamSetupFailed e)]
      | Inr ms \<Rightarrow> res = Some (echoer_new ms) \<and> rq = []"
    by (rule init_cases [OF run])
  have pend: "pending_ok E (es_world s) (i, x)" "es_conns s i = None"
    using conns_okD(4,5) [OF I(2), of "(i, x)"] inits by simp_all
  have st: "steady (sv_view E) UNIV (es_world s) w'" by (rule add_steady [OF add ok])
  note started = started_init [OF I(2) inits]
  have "es_sources s i = None" using pend(2) by (simp add: sources_of_def)
  note poller = poller_add [OF I(1) server_env_okD(1) [OF ok] this started(2) add, folded started(1)]
  have ab: "aborted E (es_world s) \<Longrightarrow> aborted E w'"
    using aborted_later [of E "es_world s" w' "[]"] st by (simp add: steady_def)
  have dist: "i \<notin> fst ` set rest" using conns_okD(3) [OF I(2)] inits by simp
  show ?thesis
  proof (cases r)
    case (Inl e)
    with r have res: "res = None" "rq = [RqFail (StreamSetupFailed e)]" by simp_all
    have "(es_conns s)(i := None) = es_conns s" using pend(2) by auto
    with conns_init [OF I(2) ok inits st, of None] have
      conns: "conns_ok E (es_now s) w' (es_spawn s\<lparr>sp_inits := rest\<rparr>) (es_conns s)" by simp
    show ?thesis
      using poller conns I(3) up ab dist pend(2)
      by (auto simp: res Inl server_inv_def listener_ok_def inits)
  next
    case (Inr ms)
    with r have res: "res = Some (echoer_new ms)" by simp
    have ms: "ms_source ms = x"
      by (rule add_table [OF add server_env_okD(1) [OF ok]]) (use Inr in auto)
    have x: "i < length (accepted E w')" "x = accepted E w' ! i"
      using pend(1) st by (simp_all add: pending_ok_def steady_def)
    have "nv_sent (sv_view E) x (es_world s) = [] \<and> nv_got (sv_view E) x (es_world s) = []"
      using pend(1) unfolding pending_ok_def snd_conv by blast
    then have "nv_sent (sv_view E) x w' = [] \<and> nv_got (sv_view E) x w' = []"
      using st by (simp add: steady_def undisturbed_def)
    then have "env_init E ms (child_view (es_now s) w' (new_child (echoer_new ms)))"
      by (simp add: echo_init_def child_view_def new_child_def ms)
    then have "child_run E i ms w' (child_view (es_now s) w' (new_child (echoer_new ms)))"
      using x ms by (auto simp: child_run_def intro: echo_begin)
    then have "child_ok E (es_now s) w' i (new_child (echoer_new ms))"
      by (auto simp: child_ok_def new_child_def echoer_new_def)
    with conns_init [OF I(2) ok inits st, of "Some (new_child (echoer_new ms))"] have
      conns: "conns_ok E (es_now s) w' (es_spawn s\<lparr>sp_inits := rest\<rparr>)
        ((es_conns s)(i \<mapsto> new_child (echoer_new ms)))" by simp
    have "tb_stream (ec_tcp (ch_actor (new_child (echoer_new ms)))) = Some ms"
      by (simp add: new_child_def echoer_new_def)
    with poller conns I(3) up ab dist show ?thesis
      by (auto simp: res Inr server_inv_def listener_ok_def inits)
  qed
qed

section \<open>All steps\<close>

lemma server_inv_steady:
  assumes inv: "server_inv E s" and ok: "server_env_ok E" and st: "steady (sv_view E) UNIV (es_world s) w'"
    and t: "es_now s \<le> t" and "poller_ok E c' w' (li_listener (es_listener s)) (es_sources s) (started (es_spawn s))"
  shows "server_inv E (s\<lparr>es_ctl := c', es_world := w', es_now := t, es_calls := calls\<rparr>)"
proof -
  note I = server_invD [OF inv]
  have "aborted E (es_world s) \<Longrightarrow> aborted E w'"
    using aborted_later [of E "es_world s" w' "[]"] st by (simp add: steady_def)
  then show ?thesis
    using I(3) t assms(5) conns_steady [OF I(2) ok st t]
    by (auto simp: server_inv_def listener_ok_def down_ok_def)
qed

lemma server_step_inv:
  assumes "server_step E s t" "server_env_ok E" "server_inv E s"
  shows "server_inv E t"
  using assms(1)
proof cases
  case (srv_poll d flags c' calls w')
  from server_inv_steady [OF assms(3,2) poll_steady [OF srv_poll(3) assms(2)] order_refl
      poller_poll [OF server_invD(1) [OF assms(3)] srv_poll(3)]]
  show ?thesis by (simp add: srv_poll(1))
next
  case (srv_ready i ready rest c a rq w)
  note I = server_invD [OF assms(3)]
  let ?t = "after_handler (child_view (es_now s) (es_world s) c) a rq w"
  obtain ms where ms: "tb_stream (ec_tcp (ch_actor c)) = Some ms" "child_stepped E i ms (es_world s) ?t"
    by (rule ready_stepped [OF assms(2) conns_okD(6) [OF I(2) srv_ready(3)] srv_ready(4)])
  have "server_inv E (s\<lparr>es_calls := rest\<rparr>)"
    using server_inv_steady [OF assms(3,2) steady_refl order_refl I(1)] by simp
  from child_done_inv [OF this assms(2) _ ms(1) _ _ srv_ready(5)] srv_ready(1,3) ms(2) show ?thesis
    by (simp add: child_view_def)
next
  case (srv_skip f ready rest i)
  from server_inv_steady [OF assms(3,2) steady_refl order_refl server_invD(1) [OF assms(3)]]
  show ?thesis by (simp add: srv_skip(1))
next
  case (srv_fire i c due call rest a rq w)
  note I = server_invD [OF assms(3)]
  let ?t = "after_handler (child_view (es_now s) (es_world s) (c\<lparr>ch_delayed := rest\<rparr>)) a rq w"
  obtain ms where ms: "tb_stream (ec_tcp (ch_actor c)) = Some ms" "child_stepped E i ms (es_world s) ?t"
    by (rule call_stepped [OF assms(2) conns_okD(6) [OF I(2) srv_fire(2)] srv_fire(3-5)])
  from child_done_inv [OF assms(3,2) srv_fire(2) ms _ srv_fire(6,1)] show ?thesis
    by (simp add: child_view_def)
next
  case (srv_connect ready rest li sp rq w)
  from connect_inv [OF assms(3,2) srv_connect(2,4)] show ?thesis by (simp add: srv_connect(1))
next
  case (srv_init i x rest a rq c' w')
  from init_inv [OF assms(3,2) srv_init(2-4)] show ?thesis by (simp add: srv_init(1))
next
  case (srv_init_fails i x rest rq c' w' q)
  from init_inv [OF assms(3,2) srv_init_fails(2-4), of q] srv_init_fails(5) show ?thesis
    by (simp add: srv_init_fails(1))
next
  case (srv_note cause rest)
  have "(case child_terminated cause of RqFail e # _ \<Rightarrow> Some e | _ \<Rightarrow> None) =
      (if cause = Failed AbortError then Some ChildAborted else None)"
    by (auto simp: child_terminated_def split: stop_cause.splits)
  with server_invD [OF assms(3)] srv_note(1,3) show ?thesis
    by (auto simp: server_inv_def listener_ok_def down_ok_def)
next
  case srv_expire
  with server_invD [OF assms(3)] show ?thesis
    by (auto simp: server_inv_def listener_ok_def down_ok_def inactivity_expired_def)
next
  case (srv_time t)
  from server_inv_steady [OF assms(3,2) steady_refl srv_time(2) server_invD(1) [OF assms(3)], of "es_calls s"]
  show ?thesis by (simp add: srv_time(1))
next
  case (srv_net w)
  from server_inv_steady [OF assms(3,2) srv_net(2) order_refl poller_world [OF server_invD(1) [OF assms(3)]], of "es_calls s"]
  show ?thesis by (simp add: srv_net(1))
qed

section \<open>The start\<close>

lemma listener_init_cases:
  assumes "listener_init L A S D fwd now st (c, w) = Some (Some li, rq, st', c', w')"
  obtains l w1 source key where "lo_bind L PORT w = (Inr l, w1)"
    "mio_poll_add S D l (lo_readable L) 10 fwd (c, w1) = Some (Inr source, c', w')"
    "ao_timer_max A (now + secs 60) (ao_key_default A, st) = (key, st')"
    "li = \<lparr>li_children = ao_slab_new A, li_listener = source, li_inactivity = key\<rparr>" "rq = []"
proof -
  from assms have su: "listener_setup L A S D fwd now st (c, w) = Some (Inr li, st', c', w')" and rq: "rq = []"
    by (auto simp: listener_init_def split: option.splits sum.splits)
  obtain r w1 where bind: "lo_bind L PORT w = (r, w1)" by fastforce
  with su obtain l where l: "r = Inr l" by (cases r) (auto simp: listener_setup_def)
  with su bind obtain source where "mio_poll_add S D l (lo_readable L) 10 fwd (c, w1) = Some (Inr source, c', w')"
    and act: "listener_activity A now (\<lparr>li_children = ao_slab_new A, li_listener = source,
        li_inactivity = ao_key_default A\<rparr>, st) = (li, st')"
    by (auto simp: listener_setup_def split: option.splits sum.splits prod.splits)
  moreover from act obtain key where "ao_timer_max A (now + secs 60) (ao_key_default A, st) = (key, st')"
    "li = \<lparr>li_children = ao_slab_new A, li_listener = source, li_inactivity = key\<rparr>"
    by (auto simp: listener_activity_def split: prod.splits)
  ultimately show thesis using that bind l rq by blast
qed

lemma mio_poll_new_cases:
  assumes "slab_ok S" "mio_poll_new S P K evs pri (st, w) = Some (Ret (Inr c, st', w'))"
  shows "max_pri c = min pri MAX_PRI \<and> n_queued c = 0 \<and> slab_get S (token_map c) =
    [WAKER_TOKEN \<mapsto> \<lparr>e_pri = min pri MAX_PRI, e_fwd = sk_poll_wake_fwd K st\<rparr>]"
proof -
  obtain x where x: "retry (po_waker_new P WAKER_TOKEN) w = Some x"
    using assms(2) by (auto simp: mio_poll_new_def Let_def split: prod.splits if_splits option.splits)
  obtain k w2 where k: "x = (Inr k, w2)"
  proof (cases x)
    case (Pair r w2)
    show thesis
    proof (cases r)
      case (Inl e)
      with mio_poll_new_Err [OF assms(1), of P w e w2 K evs pri st] x Pair assms(2) show thesis by simp
    qed (use Pair that in simp)
  qed
  show ?thesis
    by (rule mio_poll_new_Ret [OF assms(1) x [unfolded k], of K evs pri st]) (use assms(2) in simp)
qed

lemma server_start_inv:
  assumes ok: "server_env_ok E"
    and new: "mio_poll_new (sv_slab E) (sv_poll E) server_stakker_ops [] 10 ((), w0) = Some (Ret (Inr c, (), w1))"
    and init: "listener_init (sv_listen E) server_actor_ops (sv_slab E) (sv_source E) FwdConnect now
       \<lparr>sp_next = 0, sp_inits = []\<rparr> (c, w1) = Some (Some li, [], sp, c', w')"
    and acc: "accepted E w' = []"
  shows "server_inv E \<lparr>es_ctl = c', es_world = w', es_now = now, es_calls = [], es_listener = li,
     es_spawn = sp, es_conns = Map.empty, es_notes = [], es_active = now, es_down = None\<rparr>"
proof -
  note S = server_env_okD(1) [OF ok]
  obtain l w2 source key where
    add: "mio_poll_add (sv_slab E) (sv_source E) l (lo_readable (sv_listen E)) 10 FwdConnect (c, w2) =
      Some (Inr source, c', w')"
    and act: "ao_timer_max server_actor_ops (now + secs 60)
      (ao_key_default server_actor_ops, \<lparr>sp_next = 0, sp_inits = []\<rparr>) = (key, sp)"
    and li: "li = \<lparr>li_children = [], li_listener = source, li_inactivity = key\<rparr>"
    by (rule listener_init_cases [OF init]) (simp add: server_actor_ops_def)
  have sp: "sp = \<lparr>sp_next = 0, sp_inits = []\<rparr>" "key = now + secs 60"
    using act by (simp_all add: server_actor_ops_def)
  note n = mio_poll_new_cases [OF S new]
  obtain token where t: "slab_get (sv_slab E) (token_map c') =
       (slab_get (sv_slab E) (token_map c))(token \<mapsto> \<lparr>e_pri = MAX_PRI, e_fwd = FwdConnect\<rparr>)"
    "source = \<lparr>ms_token = token, ms_source = l\<rparr>"
    by (rule add_table [OF add S]) (auto simp: MAX_PRI_def)
  have "one_pri (sv_slab E) c" using n by (auto simp: one_pri_def MAX_PRI_def split: if_splits)
  note one = one_pri_add [OF add S this]
  have fwd: "e_fwd en \<noteq> FwdReady i" if "slab_get (sv_slab E) (token_map c) k = Some en" for k en i
    using that n by (auto simp: server_stakker_ops_def split: if_splits)
  from reach_step [OF reach_step [OF reach_new [OF new] step_world [of _ _ _ _ w2]]
      step_add [of _ _ l "lo_readable (sv_listen E)" 10 FwdConnect _ source c' w']] add
  have "mio_reachable (sv_slab E) (sv_source E) (sv_poll E) server_stakker_ops
      \<lparr>sys_ctl = c', sys_live = [source], sys_world = w'\<rparr>" by simp
  then have "poller_ok E c' w' source (sources_of Map.empty) (started sp)"
    using one t(1,2) unfolding poller_ok_def
    by (intro conjI exI [of _ "[source]"]) (auto simp: sources_of_def dest: fwd)
  then show ?thesis
    using acc by (simp add: server_inv_def conns_ok_def listener_ok_def li sp server_actor_ops_def)
qed

lemma server_reachable_inv:
  assumes "server_reachable E s" "server_env_ok E"
  shows "server_inv E s"
  using assms(1)
proof induction
  case (server_start w0 c w1 now li sp c' w')
  then show ?case by (rule server_start_inv [OF assms(2)])
next
  case (server_next s t)
  show ?case by (rule server_step_inv [OF server_next(2) assms(2) server_next(3)])
qed

end
