(* ===== verification/Echo_System_Demo.thy ===== *)
theory Echo_System_Demo
  imports Echo_System_Reach
begin

text \<open>
  An echo server for the witnesses: the streams of \<open>Echo_Demo\<close>, a listening socket with a backlog
  of two connections, and a poller with a script of the events to come. The first event is for the
  Listener (token 1), the second for the first connection (token 2).
\<close>

record site = demo_net +
  st_backlog :: "nat list"
  st_accepted :: "nat list"
  st_polls :: "event list list"

definition site_accept :: "nat \<Rightarrow> site \<Rightarrow> (nat \<times> unit) io \<times> site" where
  "site_accept l w = (case st_backlog w of
       x # xs \<Rightarrow>
         if x \<notin> set (st_accepted w) \<and> dn_sent w x = [] \<and> dn_got w x = []
         then (Inr (x, ()), w\<lparr>st_backlog := xs, st_accepted := st_accepted w @ [x]\<rparr>)
         else (Inl (io_err WouldBlock), w)
     | [] \<Rightarrow> (Inl (io_err WouldBlock), w))"

definition site_env :: "(nat, unit, server_fwd entry option list, nat, site) server_env" where
  "site_env = \<lparr>sv_rt = exact_rt, sv_tcp = inbox_ops,
     sv_listen = \<lparr>lo_bind = (\<lambda>port w. (Inr 1000, w)), lo_accept = site_accept, lo_readable = 1, lo_writable = 2\<rparr>,
     sv_source = \<lparr>so_register = (\<lambda>s t i w. (Inr (), w)), so_reregister = (\<lambda>s t i w. (Inr (), w)),
       so_deregister = (\<lambda>s w. (Inr (), w))\<rparr>,
     sv_slab = slots_ops,
     sv_poll = \<lparr>po_poll = (\<lambda>d (evs, w). case st_polls w of [] \<Rightarrow> (Inr (), [], w)
         | es # rest \<Rightarrow> (Inr (), es, w\<lparr>st_polls := rest\<rparr>)),
       po_waker_new = (\<lambda>t w. (Inr 0, w)), po_wake = (\<lambda>k w. (Inr (), w))\<rparr>,
     sv_view = \<lparr>nv_sent = demo_tx, nv_got = demo_rx, nv_ended = inbox_ended, nv_accepted = st_accepted\<rparr>\<rparr>"

lemma site_env_sel [simp]:
  "sv_rt site_env = exact_rt" "sv_tcp site_env = inbox_ops" "sv_slab site_env = slots_ops"
  "lo_accept (sv_listen site_env) = site_accept" "lo_bind (sv_listen site_env) p w = (Inr 1000, w)"
  "so_register (sv_source site_env) x k r w = (Inr (), w)" "so_deregister (sv_source site_env) x w = (Inr (), w)"
  "po_waker_new (sv_poll site_env) k w = (Inr 0, w)"
  "po_poll (sv_poll site_env) d (evs, w) = (case st_polls w of [] \<Rightarrow> (Inr (), [], w)
     | es # rest \<Rightarrow> (Inr (), es, w\<lparr>st_polls := rest\<rparr>))"
  "nv_sent (sv_view site_env) = demo_tx" "nv_got (sv_view site_env) = demo_rx"
  "nv_ended (sv_view site_env) = inbox_ended" "nv_accepted (sv_view site_env) = st_accepted"
  by (simp_all add: site_env_def)

lemma site_env_ok: "server_env_ok site_env"
proof -
  have "calls_apart site_env"
    by (auto simp: calls_apart_def sender_keeps_def receiver_keeps_def steady_def undisturbed_def
        inbox_ops_def inbox_ended_def Let_def split: list.splits)
  moreover have "accepts_fresh site_env"
    by (auto simp: accepts_fresh_def undisturbed_def site_accept_def inbox_ended_def split: list.splits if_splits)
  ultimately show ?thesis
    by (simp add: server_env_ok_def slots_ops_ok exact_rt_ok inbox_stream)
qed

section \<open>The poller\<close>

definition site_ctl :: "server_fwd list \<Rightarrow> 16 word \<Rightarrow> (server_fwd entry option list, nat) control" where
  "site_ctl fs p = \<lparr>token_map = map (\<lambda>f. Some \<lparr>e_pri = 10, e_fwd = f\<rparr>) fs, queues = replicate 10 [],
     n_queued = 0, max_pri = 10, priorities = p, events = [], errors = [], waker = 0\<rparr>"

lemma first_vacant_all: "first_vacant (map (\<lambda>f. Some (g f)) fs) = length fs"
  by (induction fs) auto

lemma site_new: "mio_poll_new slots_ops (sv_poll site_env) server_stakker_ops [] 10 ((), w) =
    Some (Ret (Inr (site_ctl [FwdPollWake] (push_bit 10 1)), (), w))"
  by (simp add: mio_poll_new_def slots_ops_def slots_insert_def slots_get_def Let_def WAKER_TOKEN_def
      MAX_PRI_def retry_unfold control_set_wake_fwd_def server_stakker_ops_def site_ctl_def)

lemma site_add: "mio_poll_add slots_ops (sv_source site_env) x r 10 f (site_ctl fs p, w) =
    Some (Inr \<lparr>ms_token = length fs, ms_source = x\<rparr>, site_ctl (fs @ [f]) (p OR push_bit 10 1), w)"
  by (simp add: mio_poll_add_def control_add_def control_enter_def slots_ops_def slots_insert_def Let_def
      MAX_PRI_def retry_unfold site_ctl_def first_vacant_all)

lemma site_one_pri: "one_pri slots_ops (site_ctl fs p)"
  by (auto simp: one_pri_def site_ctl_def MAX_PRI_def slots_get_def split: if_splits)

lemma site_poll:
  assumes "st_polls w = es # rest"
  shows "mio_poll_poll slots_ops (sv_poll site_env) d (site_ctl fs p, w) = Some (Ret (
    Inr (event_calls slots_ops (token_map (site_ctl fs p)) es \<noteq> [], False), site_ctl fs p,
    event_calls slots_ops (token_map (site_ctl fs p)) es, w\<lparr>st_polls := rest\<rparr>))"
proof -
  let ?c = "site_ctl fs p\<lparr>events := es\<rparr>"
  have "one_pri slots_ops ?c" using site_one_pri by (simp add: one_pri_def)
  from poll_events_direct [OF this, of es False "[]"] have
    "control_dispatch slots_ops ?c = Ret ((event_calls slots_ops (token_map ?c) es \<noteq> [], False),
       ?c\<lparr>events := []\<rparr>, event_calls slots_ops (token_map ?c) es)"
    by (simp add: control_dispatch_def site_ctl_def)
  with assms show ?thesis
    by (simp add: mio_poll_poll_def control_poll_def retry_unfold) (simp add: site_ctl_def)
qed

lemma site_event_calls:
  "k < length fs \<Longrightarrow> event_calls slots_ops (token_map (site_ctl fs p)) [demo_event k] = [(fs ! k, rd_ready)]"
  by (simp add: site_ctl_def slots_get_def)

section \<open>Two connections\<close>

definition site_world :: "bytes \<Rightarrow> nat list \<Rightarrow> nat list \<Rightarrow> event list list \<Rightarrow> site" where
  "site_world d bl acc polls = \<lparr>dn_sent = (\<lambda>s. []), dn_got = (\<lambda>s. []),
     dn_inbox = (\<lambda>s. if s = 0 then d else [72]), dn_closed = (\<lambda>s. True),
     st_backlog = bl, st_accepted = acc, st_polls = polls\<rparr>"

abbreviation site_source :: "nat \<Rightarrow> nat mio_source" where
  "site_source i \<equiv> \<lparr>ms_token = i + 2, ms_source = i\<rparr>"

abbreviation site_bits :: "16 word" where
  "site_bits \<equiv> push_bit 10 1"

definition site_state ::
  "bytes \<Rightarrow> server_fwd call list \<Rightarrow> event list list
    \<Rightarrow> (nat, server_fwd entry option list, nat, site) echo_server" where
  "site_state d calls polls = \<lparr>
     es_ctl = site_ctl [FwdPollWake, FwdConnect, FwdReady 0, FwdReady 1] site_bits,
     es_world = site_world d [] [0, 1] polls, es_now = 0, es_calls = calls,
     es_listener = \<lparr>li_children = [0, 1], li_listener = \<lparr>ms_token = 1, ms_source = 1000\<rparr>,
       li_inactivity = secs 60\<rparr>,
     es_spawn = \<lparr>sp_next = 2, sp_inits = []\<rparr>,
     es_conns = [0 \<mapsto> new_child (echoer_new (site_source 0)), 1 \<mapsto> new_child (echoer_new (site_source 1))],
     es_notes = [], es_active = 0, es_down = None\<rparr>"

lemma site_connect:
  "listener_connect (sv_listen site_env) server_actor_ops 0
     (\<lparr>li_children = [], li_listener = l, li_inactivity = secs 60\<rparr>, \<lparr>sp_next = 0, sp_inits = []\<rparr>)
     (site_world d [0, 1] [] polls) =
   Some ((\<lparr>li_children = [0, 1], li_listener = l, li_inactivity = secs 60\<rparr>,
     \<lparr>sp_next = 2, sp_inits = [(0, 0), (1, 1)]\<rparr>), [], site_world d [] [0, 1] polls)"
proof -
  let ?f = "lo_accept (sv_listen site_env) (ms_source l)"
  have "accept_run ?f (site_world d [0, 1] [] polls) [0, 1] (io_err WouldBlock) (site_world d [] [0, 1] polls)"
    by (rule accept_stream accept_end, simp add: site_accept_def site_world_def, (simp; fail)?)+
  from listener_connect_complete [OF this, of "sv_listen site_env"
      "(\<lparr>li_children = [], li_listener = l, li_inactivity = secs 60\<rparr>, \<lparr>sp_next = 0, sp_inits = []\<rparr>)" server_actor_ops 0]
  show ?thesis by (simp add: accept_requests_def adopt_one numeral_2_eq_2)
qed

lemma site_polled:
  "mio_poll_poll slots_ops (sv_poll site_env) k (site_ctl [FwdPollWake, FwdConnect, FwdReady 0, FwdReady 1] site_bits,
       site_world d [] [0, 1] [[demo_event 2]]) =
     Some (Ret (Inr (True, False), site_ctl [FwdPollWake, FwdConnect, FwdReady 0, FwdReady 1] site_bits,
       [(FwdReady 0, rd_ready)], site_world d [] [0, 1] []))"
  using site_poll [of "site_world d [] [0, 1] [[demo_event 2]]" "[demo_event 2]" "[]" k
      "[FwdPollWake, FwdConnect, FwdReady 0, FwdReady 1]" site_bits]
    site_event_calls [of 2 "[FwdPollWake, FwdConnect, FwdReady 0, FwdReady 1]"]
  by (simp add: site_world_def del: event_calls_simps)

lemma site_start:
  "server_reachable site_env (site_state d [(FwdReady 0, rd_ready)] [])"
  "server_reachable site_env (site_state d [] [[demo_event 2]])"
proof -
  let ?p = "[[demo_event 1], [demo_event 2]]" and ?l = "\<lparr>ms_token = 1, ms_source = 1000\<rparr> :: nat mio_source"
  let ?li = "\<lambda>ch. \<lparr>li_children = ch, li_listener = ?l, li_inactivity = secs 60\<rparr>"
  let ?s = "\<lambda>fs w calls ch sp cs. \<lparr>es_ctl = site_ctl fs site_bits, es_world = w, es_now = 0,
     es_calls = calls, es_listener = ?li ch, es_spawn = sp, es_conns = cs, es_notes = [], es_active = 0,
     es_down = None\<rparr>"
  let ?fs = "[FwdPollWake, FwdConnect]" and ?sp = "\<lparr>sp_next = 0, sp_inits = []\<rparr> :: nat spawning"
  let ?w0 = "site_world d [0, 1] [] ?p" and ?w1 = "site_world d [0, 1] [] [[demo_event 2]]"
  let ?w2 = "site_world d [] [0, 1] [[demo_event 2]]"
  have new: "mio_poll_new (sv_slab site_env) (sv_poll site_env) server_stakker_ops [] 10 ((), ?w0) =
      Some (Ret (Inr (site_ctl [FwdPollWake] site_bits), (), ?w0))"
    by (simp add: site_new)
  have init: "listener_init (sv_listen site_env) server_actor_ops (sv_slab site_env) (sv_source site_env)
      FwdConnect 0 ?sp (site_ctl [FwdPollWake] site_bits, ?w0) =
      Some (Some (?li []), [], ?sp, site_ctl ?fs site_bits, ?w0)"
    using site_add [of 1000 "lo_readable (sv_listen site_env)" FwdConnect "[FwdPollWake]" site_bits ?w0]
    by (simp add: listener_init_def listener_setup_def listener_activity_def server_actor_ops_def)
  have r0: "server_reachable site_env (?s ?fs ?w0 [] [] ?sp Map.empty)"
    using server_start [OF new init] by (simp add: site_world_def)
  have "mio_poll_poll (sv_slab site_env) (sv_poll site_env) 0 (site_ctl ?fs site_bits, ?w0) =
      Some (Ret (Inr (True, False), site_ctl ?fs site_bits, [(FwdConnect, rd_ready)], ?w1))"
    using site_poll [of ?w0 "[demo_event 1]" "[[demo_event 2]]" 0 ?fs site_bits] site_event_calls [of 1 ?fs]
    by (simp add: site_world_def del: event_calls_simps)
  then have "server_step site_env (?s ?fs ?w0 [] [] ?sp Map.empty)
      (?s ?fs ?w1 [(FwdConnect, rd_ready)] [] ?sp Map.empty)"
    using srv_poll [of "?s ?fs ?w0 [] [] ?sp Map.empty" site_env 0] by simp
  note r1 = server_next [OF r0 this]
  let ?sp2 = "\<lparr>sp_next = 2, sp_inits = [(0, 0), (1, 1)]\<rparr> :: nat spawning"
  have "server_step site_env (?s ?fs ?w1 [(FwdConnect, rd_ready)] [] ?sp Map.empty)
      (?s ?fs ?w2 [] [0, 1] ?sp2 Map.empty)"
    using srv_connect [of "?s ?fs ?w1 [(FwdConnect, rd_ready)] [] ?sp Map.empty" rd_ready "[]" site_env]
      site_connect [of ?l d "[[demo_event 2]]"] by simp
  note r2 = server_next [OF r1 this]
  have init: "echoer_init (sv_listen site_env) (sv_slab site_env) (sv_source site_env) (FwdReady i) i
      (site_ctl fs site_bits, w) = Some (Some (echoer_new \<lparr>ms_token = length fs, ms_source = i\<rparr>), [],
        site_ctl (fs @ [FwdReady i]) site_bits, w)" for i fs w
    by (simp add: echoer_init_def echoer_setup_def site_add tb_init_def tb_new_def echoer_new_def)
  have "server_step site_env (?s ?fs ?w2 [] [0, 1] ?sp2 Map.empty)
      (?s (?fs @ [FwdReady 0]) ?w2 [] [0, 1] (?sp2\<lparr>sp_inits := [(1, 1)]\<rparr>)
        [0 \<mapsto> new_child (echoer_new (site_source 0))])"
    using srv_init [of "?s ?fs ?w2 [] [0, 1] ?sp2 Map.empty" 0 0 "[(1, 1)]" site_env] init [of 0 ?fs ?w2]
    by (simp add: numeral_2_eq_2)
  note r3 = server_next [OF r2 this]
  have "server_step site_env (?s (?fs @ [FwdReady 0]) ?w2 [] [0, 1] (?sp2\<lparr>sp_inits := [(1, 1)]\<rparr>)
        [0 \<mapsto> new_child (echoer_new (site_source 0))]) (site_state d [] [[demo_event 2]])"
    using srv_init [of "?s (?fs @ [FwdReady 0]) ?w2 [] [0, 1] (?sp2\<lparr>sp_inits := [(1, 1)]\<rparr>)
        [0 \<mapsto> new_child (echoer_new (site_source 0))]" 1 1 "[]" site_env] init [of 1 "?fs @ [FwdReady 0]" ?w2]
    by (simp add: site_state_def numeral_3_eq_3)
  note r4 = server_next [OF r3 this]
  then show "server_reachable site_env (site_state d [] [[demo_event 2]])" .
  have "server_step site_env (site_state d [] [[demo_event 2]]) (site_state d [(FwdReady 0, rd_ready)] [])"
    using srv_poll [of "site_state d [] [[demo_event 2]]" site_env 0] site_polled [of 0 d] by (simp add: site_state_def)
  from server_next [OF r4 this] show "server_reachable site_env (site_state d [(FwdReady 0, rd_ready)] [])" .
qed

end
