(* ===== verification/Echo_System_Properties.thy ===== *)
theory Echo_System_Properties
  imports Echo_System_Demo
begin

text \<open>
  The properties of the echo server as a whole: what holds of one connection holds of each of many,
  events reach the actors they are for, the end of a connection concerns nobody else, and the
  program ends for no other reasons than those listed at the end.
\<close>

section \<open>Connections\<close>

text \<open>C2. The server refines its connections: in every reachable state of the server, with any
  number of connections and in any order of their steps, each child serves the stream accepted
  under its number and is in a state that a connection of its own reaches from its start. What is
  shown of a single connection thus holds of each of them.\<close>

theorem server_refines_connections:
  assumes "server_env_ok E" "server_reachable E s" "es_conns s i = Some c"
  shows "\<exists>ms s0. tb_stream (ec_tcp (ch_actor c)) = Some ms
    \<and> i < length (nv_accepted (sv_view E) (es_world s))
    \<and> ms_source ms = nv_accepted (sv_view E) (es_world s) ! i
    \<and> echo_init (nv_sent (sv_view E) (ms_source ms)) (nv_got (sv_view E) (ms_source ms)) ms s0
    \<and> echo_reachable (sv_rt E) (sv_tcp E) (nv_sent (sv_view E) (ms_source ms))
        (nv_got (sv_view E) (ms_source ms)) (nv_ended (sv_view E) (ms_source ms)) s0
        (child_view (es_now s) (es_world s) c)"
  using conns_okD(6) [OF server_invD(2) [OF server_reachable_inv [OF assms(2,1)]] assms(3)]
  unfolding child_ok_def child_run_def by blast

text \<open>For the witnesses: the first of two connections has read a greeting and the end of its stream.\<close>

lemma site_greeted:
  obtains s c0 c1 where "server_reachable site_env s" "es_conns s 0 = Some c0" "es_conns s 1 = Some c1"
    "nv_got (sv_view site_env) 0 (es_world s) = [72, 105]" "nv_accepted (sv_view site_env) (es_world s) = [0, 1]"
    "data_calls (ch_delayed c0) = [[72, 105]]"
proof -
  let ?s = "site_state [72, 105] [(FwdReady 0, rd_ready)] []"
  let ?a = "echoer_new (site_source 0)"
  obtain a where run: "echoer_ready exact_rt inbox_ops (Ready READY_RD) ?a [] (es_world ?s) =
    Some (Ret (a, [RqAfter (secs 1) (SendData [72, 105]), RqAfter (secs 1) SendEof],
      inbox_taken (ms_source (site_source 0)) (es_world ?s)))"
  proof -
    have "length (dn_inbox (es_world ?s) (ms_source (site_source 0))) \<le> 8192"
      "dn_closed (es_world ?s) (ms_source (site_source 0))"
      "[72, 105] = dn_inbox (es_world ?s) (ms_source (site_source 0))"
      by (simp_all add: site_state_def site_world_def)
    then show thesis
      by (rule inbox_ready [OF demo_buf [of exact_rt "site_source 0"] exact_rt_ok]) (simp, simp, simp, rule that)
  qed
  let ?t = "after_handler (child_view 0 (es_world ?s) (new_child ?a)) a
    [RqAfter (secs 1) (SendData [72, 105]), RqAfter (secs 1) SendEof] (inbox_taken 0 (es_world ?s))"
  have "child_done site_env 0 ?t (?s\<lparr>es_calls := []\<rparr>)
      (?s\<lparr>es_calls := [], es_conns := (es_conns ?s)(0 \<mapsto> child_of ?t), es_world := cn_net ?t\<rparr>)"
    using child_goes_on [of ?t site_env 0 "?s\<lparr>es_calls := []\<rparr>"] by (simp add: after_handler_def)
  then have "server_step site_env ?s
      (?s\<lparr>es_calls := [], es_conns := (es_conns ?s)(0 \<mapsto> child_of ?t), es_world := cn_net ?t\<rparr>)"
    using srv_ready [of ?s 0 rd_ready "[]" "new_child ?a" site_env a] run
    by (simp add: site_state_def new_child_def ready_consts)
  from server_next [OF site_start(1) this] show thesis
    by (rule that) (simp add: site_state_def site_world_def inbox_taken_def after_handler_def child_of_def
      child_view_def new_child_def)+
qed

theorem server_refines_connections_witness:
  "\<exists>s c s0. server_reachable site_env s \<and> es_conns s 0 = Some c \<and> es_conns s 1 \<noteq> None \<and>
     nv_got (sv_view site_env) 0 (es_world s) = [72, 105] \<and>
     echo_reachable exact_rt inbox_ops (demo_tx 0) (demo_rx 0) (inbox_ended 0) s0
       (child_view (es_now s) (es_world s) c)"
proof -
  obtain s c0 c1 where s: "server_reachable site_env s" "es_conns s 0 = Some c0" "es_conns s 1 = Some c1"
    "nv_got (sv_view site_env) 0 (es_world s) = [72, 105]" "nv_accepted (sv_view site_env) (es_world s) = [0, 1]"
    by (rule site_greeted)
  from server_refines_connections [OF site_env_ok s(1,2)] s show ?thesis by fastforce
qed

text \<open>C6. Nothing is mixed up between connections: in every reachable state of the server the bytes
  got on a stream are, in order, those sent back on the same stream, those in the output of its
  child and those in the calls it has delayed; and no event or delayed call that is due makes a
  handler of a child panic.\<close>

theorem server_conserves_streams:
  assumes "server_env_ok E" "server_reachable E s" "es_conns s i = Some c"
  shows "nv_got (sv_view E) (nv_accepted (sv_view E) (es_world s) ! i) (es_world s) =
      nv_sent (sv_view E) (nv_accepted (sv_view E) (es_world s) ! i) (es_world s)
      @ tb_out (ec_tcp (ch_actor c)) @ concat (data_calls (ch_delayed c))
    \<and> echoer_ready (sv_rt E) (sv_tcp E) ready (ch_actor c) [] (es_world s) \<noteq> Some Panic
    \<and> echoer_call (sv_tcp E) call (ch_actor c) [] (es_world s) \<noteq> Some Panic"
proof -
  have "child_ok E (es_now s) (es_world s) i c"
    by (rule conns_okD(6) [OF server_invD(2) [OF server_reachable_inv [OF assms(2,1)]] assms(3)])
  then obtain ms where run: "child_run E i ms (es_world s) (child_view (es_now s) (es_world s) c)"
    and buf: "echo_buf (sv_rt E) ms (ec_tcp (ch_actor c))"
    and ms: "ms_source ms = nv_accepted (sv_view E) (es_world s) ! i"
    by (rule child_okE [OF _ assms(1)])
  note T = server_env_okD(3) [OF assms(1), of "ms_source ms"]
  from run obtain s0 where s0: "env_init E ms s0"
    "env_reachable E (ms_source ms) s0 (child_view (es_now s) (es_world s) c)"
    by (auto simp: child_run_def)
  from echo_reachable_inv [OF s0(2) T server_env_okD(2) [OF assms(1)] s0(1)] obtain old young eofs where
    sp: "echo_split (nv_sent (sv_view E) (ms_source ms)) (nv_ended (sv_view E) (ms_source ms))
      (child_view (es_now s) (es_world s) c) old young eofs"
    and got: "nv_got (sv_view E) (ms_source ms) (es_world s) = all_bytes (ch_received c)"
    by (auto simp: echo_inv_def echo_core_def child_view_def)
  have "concat (data_calls (ch_delayed c)) = all_bytes young"
    using sp by (simp add: echo_split_def child_view_def all_bytes_def data_calls_eof)
  moreover have "echoer_ready (sv_rt E) (sv_tcp E) ready (ch_actor c) [] (es_world s) \<noteq> Some Panic"
    using echoer_ready_post [OF buf server_env_okD(2) [OF assms(1)] T] by (simp add: handled_def)
  moreover have "echoer_call (sv_tcp E) call (ch_actor c) [] (es_world s) \<noteq> Some Panic"
    using echoer_call_post [OF buf T] by (simp add: handled_def)
  ultimately show ?thesis
    using sp got by (simp add: echo_split_def child_view_def ms [symmetric])
qed

theorem server_conserves_streams_witness:
  "\<exists>s c. server_reachable site_env s \<and> es_conns s 0 = Some c \<and> es_conns s 1 \<noteq> None \<and>
     nv_got (sv_view site_env) 0 (es_world s) = [72, 105] \<and>
     dn_sent (es_world s) 0 @ tb_out (ec_tcp (ch_actor c)) @ [72, 105] = [72, 105]"
proof -
  obtain s c0 c1 where s: "server_reachable site_env s" "es_conns s 0 = Some c0" "es_conns s 1 = Some c1"
    "nv_got (sv_view site_env) 0 (es_world s) = [72, 105]" "nv_accepted (sv_view site_env) (es_world s) = [0, 1]"
    "data_calls (ch_delayed c0) = [[72, 105]]"
    by (rule site_greeted)
  from server_conserves_streams [OF site_env_ok s(1,2)] s show ?thesis by auto
qed

section \<open>Events\<close>

text \<open>C12. Events reach the actors they are for: in every reachable state of the server a poll makes
  one call for each of its events that has a registered token, in order, keeps nothing back and so
  never reports pending events; an event for the stream of a child calls that child, and a child
  is called for events of its own stream only; an event for the listening socket calls the
  Listener.\<close>

theorem server_poll_dispatches:
  assumes "server_env_ok E" "server_reachable E s"
    and "mio_poll_poll (sv_slab E) (sv_poll E) d (es_ctl s, es_world s) =
      Some (Ret (Inr (activity, io_pending), c', calls, w'))"
  shows "\<exists>evs. retry (po_poll (sv_poll E) d) (events (es_ctl s), es_world s) = Some (Inr (), evs, w')
    \<and> calls = event_calls (sv_slab E) (token_map (es_ctl s)) evs
    \<and> (activity \<longleftrightarrow> calls \<noteq> []) \<and> \<not> io_pending \<and> n_queued c' = 0
    \<and> (\<forall>ev\<in>set evs. ev_token ev = ms_token (li_listener (es_listener s)) \<longrightarrow>
        (FwdConnect, ready_new ev) \<in> set calls)
    \<and> (\<forall>i c ms. es_conns s i = Some c \<and> tb_stream (ec_tcp (ch_actor c)) = Some ms \<longrightarrow>
        (\<forall>ready. (FwdReady i, ready) \<in> set calls \<longleftrightarrow>
           (\<exists>ev\<in>set evs. ev_token ev = ms_token ms \<and> ready = ready_new ev)))"
proof -
  note P = server_invD(1) [OF server_reachable_inv [OF assms(2,1)]]
  obtain evs where evs: "retry (po_poll (sv_poll E) d) (events (es_ctl s), es_world s) = Some (Inr (), evs, w')"
    "calls = event_calls (sv_slab E) (token_map (es_ctl s)) evs" "(activity, io_pending) = (calls \<noteq> [], False)"
    "c' = es_ctl s\<lparr>events := []\<rparr>"
    by (rule one_pri_poll [OF poller_okD(1) [OF P] assms(3)]) simp
  have mem: "x \<in> set calls \<longleftrightarrow> (\<exists>ev\<in>set evs. \<exists>en. slab_get (sv_slab E) (token_map (es_ctl s)) (ev_token ev) = Some en
      \<and> x = (e_fwd en, ready_new ev))" for x
    unfolding evs(2) by (rule event_calls_iff)
  have child: "(FwdReady i, ready) \<in> set calls \<longleftrightarrow> (\<exists>ev\<in>set evs. ev_token ev = ms_token ms \<and> ready = ready_new ev)"
    if "es_conns s i = Some c" "tb_stream (ec_tcp (ch_actor c)) = Some ms" for i c ms ready
  proof -
    have src: "es_sources s i = Some ms" using that by (simp add: sources_of_def)
    from poller_okD(3) [OF P src] poller_okD(5) [OF P _ _ src] show ?thesis
      unfolding mem by (metis entry.select_convs(2) prod.inject)
  qed
  have "(FwdConnect, ready_new ev) \<in> set calls"
    if "ev \<in> set evs" "ev_token ev = ms_token (li_listener (es_listener s))" for ev
    unfolding mem using that poller_okD(2) [OF P]
    by (intro bexI [of _ ev] exI [of _ "\<lparr>e_pri = MAX_PRI, e_fwd = FwdConnect\<rparr>"]) simp_all
  moreover have "n_queued c' = 0" using poller_okD(1) [OF P] evs(4) by (simp add: one_pri_def)
  ultimately show ?thesis using evs child by (intro exI [of _ evs]) auto
qed

theorem server_poll_dispatches_witness:
  "\<exists>s w'. server_reachable site_env s \<and>
     mio_poll_poll slots_ops (sv_poll site_env) 0 (es_ctl s, es_world s) =
       Some (Ret (Inr (True, False), es_ctl s, [(FwdReady 0, rd_ready)], w')) \<and>
     retry (po_poll (sv_poll site_env) 0) (events (es_ctl s), es_world s) = Some (Inr (), [demo_event 2], w')"
proof -
  let ?s = "site_state [72] [] [[demo_event 2]]"
  let ?w = "site_world [72] [] [0, 1] []"
  have poll: "mio_poll_poll (sv_slab site_env) (sv_poll site_env) 0 (es_ctl ?s, es_world ?s) =
      Some (Ret (Inr (True, False), es_ctl ?s, [(FwdReady 0, rd_ready)], ?w))"
    using site_polled [of 0 "[72]"] by (simp add: site_state_def)
  from server_poll_dispatches [OF site_env_ok site_start(2) poll] obtain evs where
    "retry (po_poll (sv_poll site_env) 0) (events (es_ctl ?s), es_world ?s) = Some (Inr (), evs, ?w)" by blast
  moreover have "retry (po_poll (sv_poll site_env) 0) (events (es_ctl ?s), es_world ?s) = Some (Inr (), [demo_event 2], ?w)"
    by (simp add: site_state_def site_world_def retry_unfold)
  ultimately show ?thesis using site_start(2) [of "[72]"] poll by (intro exI [of _ ?s] exI [of _ ?w]) simp
qed

text \<open>C19. Registrations are exact: in every reachable state of the server the token of each child's
  stream is registered at the highest priority with the forward to that child, and no other token
  has this forward; the listening socket has its own; and the children the Listener owns are
  those that live or wait for their \<open>init\<close>.\<close>

theorem server_registrations:
  assumes "server_env_ok E" "server_reachable E s"
  shows "slab_get (sv_slab E) (token_map (es_ctl s)) (ms_token (li_listener (es_listener s))) =
      Some \<lparr>e_pri = MAX_PRI, e_fwd = FwdConnect\<rparr>
    \<and> (\<forall>i c. es_conns s i = Some c \<longrightarrow> (\<exists>ms. tb_stream (ec_tcp (ch_actor c)) = Some ms \<and>
        (\<forall>k. (\<exists>en. slab_get (sv_slab E) (token_map (es_ctl s)) k = Some en \<and> e_fwd en = FwdReady i) \<longleftrightarrow>
          k = ms_token ms)))
    \<and> set (li_children (es_listener s)) = dom (es_conns s) \<union> fst ` set (sp_inits (es_spawn s))"
proof (intro conjI allI impI)
  note I = server_invD [OF server_reachable_inv [OF assms(2,1)]]
  show "slab_get (sv_slab E) (token_map (es_ctl s)) (ms_token (li_listener (es_listener s))) =
      Some \<lparr>e_pri = MAX_PRI, e_fwd = FwdConnect\<rparr>" by (rule poller_okD(2) [OF I(1)])
  show "set (li_children (es_listener s)) = dom (es_conns s) \<union> fst ` set (sp_inits (es_spawn s))"
    using I(3) by (simp add: listener_ok_def)
  fix i c
  assume c: "es_conns s i = Some c"
  then obtain ms where ms: "tb_stream (ec_tcp (ch_actor c)) = Some ms"
    by (rule child_okE [OF conns_okD(6) [OF I(2)] assms(1)])
  with c have src: "es_sources s i = Some ms" by (simp add: sources_of_def)
  have "(\<exists>en. slab_get (sv_slab E) (token_map (es_ctl s)) k = Some en \<and> e_fwd en = FwdReady i) \<longleftrightarrow>
      k = ms_token ms" for k
  proof
    assume "\<exists>en. slab_get (sv_slab E) (token_map (es_ctl s)) k = Some en \<and> e_fwd en = FwdReady i"
    then show "k = ms_token ms" using poller_okD(5) [OF I(1) _ _ src] by blast
  next
    assume "k = ms_token ms"
    then show "\<exists>en. slab_get (sv_slab E) (token_map (es_ctl s)) k = Some en \<and> e_fwd en = FwdReady i"
      using poller_okD(3) [OF I(1) src] by simp
  qed
  with ms show "\<exists>ms. tb_stream (ec_tcp (ch_actor c)) = Some ms \<and>
      (\<forall>k. (\<exists>en. slab_get (sv_slab E) (token_map (es_ctl s)) k = Some en \<and> e_fwd en = FwdReady i) \<longleftrightarrow>
        k = ms_token ms)" by blast
qed

theorem server_registrations_witness:
  "\<exists>s. server_reachable site_env s \<and> set (li_children (es_listener s)) = {0, 1} \<and>
     slots_get (token_map (es_ctl s)) 1 = Some \<lparr>e_pri = MAX_PRI, e_fwd = FwdConnect\<rparr>"
proof -
  let ?s = "site_state [72] [] [[demo_event 2]]"
  have "dom (es_conns ?s) \<union> fst ` set (sp_inits (es_spawn ?s)) = {0, 1}"
    "ms_token (li_listener (es_listener ?s)) = 1"
    by (auto simp: site_state_def split: if_splits)
  with server_registrations [OF site_env_ok site_start(2), of "[72]"] site_start(2) [of "[72]"]
  show ?thesis by (intro exI [of _ ?s]) simp
qed

section \<open>Ends\<close>

text \<open>C22. The end of a child concerns nobody else: a step of the server in which a child ends leaves
  the other children and their streams alone, frees exactly the token of its stream, takes it from
  the Listener's children and does not by itself bring the server down. All other connections
  continue.\<close>

theorem server_end_is_local:
  assumes "server_env_ok E" "server_reachable E s" "server_step E s t"
    and "es_conns s i = Some c" "tb_stream (ec_tcp (ch_actor c)) = Some ms" "es_conns t i = None"
  shows "(\<forall>j. j \<noteq> i \<longrightarrow> es_conns t j = es_conns s j)
    \<and> steady (sv_view E) (- {ms_source ms}) (es_world s) (es_world t)
    \<and> slab_get (sv_slab E) (token_map (es_ctl t)) =
        (slab_get (sv_slab E) (token_map (es_ctl s)))(ms_token ms := None)
    \<and> set (li_children (es_listener t)) = set (li_children (es_listener s)) - {i}
    \<and> es_down t = None"
proof -
  note I = server_invD [OF server_reachable_inv [OF assms(2,1)]]
  have main: ?thesis
    if st: "child_stepped E j ms' (es_world s) u" "tb_stream (ec_tcp (ch_actor c')) = Some ms'"
      "es_conns s j = Some c'"
      and dn: "child_done E j u s' t" "es_down s = None" "s' = s\<lparr>es_calls := calls\<rparr>" for j ms' u c' s' calls
    using dn(1)
  proof cases
    case child_goes_on
    with assms(4,6) dn(3) show ?thesis by (auto split: if_splits)
  next
    case (child_ends q c'' w')
    with assms(4,6) dn(3) have ji: "j = i" by (auto split: if_splits)
    with st(2,3) assms(4,5) have ms': "ms' = ms" by simp
    from st(1) ms' have run: "child_run E i ms (cn_net u) u" and
      quiet: "steady (sv_view E) (- {accepted E (es_world s) ! i}) (es_world s) (cn_net u)"
      by (simp_all add: child_stepped_def ji)
    then have x: "ms_source ms = accepted E (es_world s) ! i" by (simp add: child_run_def steady_def)
    have drop: "mio_source_drop (sv_slab E) (sv_source E) ms (es_ctl s, cn_net u) = Some (c'', w')"
      using child_ends(4) child_run_buf(2) [OF run assms(1)] dn(3) by simp
    have src: "es_sources s i = Some ms" using assms(4,5) by (simp add: sources_of_def)
    have "steady (sv_view E) (- {ms_source ms}) (es_world s) w'"
      using steady_trans [OF quiet steady_mono [OF drop_steady [OF drop assms(1)]]] x by simp
    moreover note poller_drop(2) [OF poller_world [OF I(1)] server_env_okD(1) [OF assms(1)] src drop]
    ultimately show ?thesis using child_ends(1) dn(2,3) ji by auto
  qed
  from assms(3) show ?thesis
  proof cases
    case (srv_ready j ready rest c' a rq w)
    obtain ms' where "tb_stream (ec_tcp (ch_actor c')) = Some ms'"
      "child_stepped E j ms' (es_world s) (after_handler (child_view (es_now s) (es_world s) c') a rq w)"
      by (rule ready_stepped [OF assms(1) conns_okD(6) [OF I(2) srv_ready(3)] srv_ready(4)])
    from main [OF this(2,1) srv_ready(3,5,1) refl] show ?thesis .
  next
    case (srv_fire j c' due call rest a rq w)
    obtain ms' where "tb_stream (ec_tcp (ch_actor c')) = Some ms'" "child_stepped E j ms' (es_world s)
        (after_handler (child_view (es_now s) (es_world s) (c'\<lparr>ch_delayed := rest\<rparr>)) a rq w)"
      by (rule call_stepped [OF assms(1) conns_okD(6) [OF I(2) srv_fire(2)] srv_fire(3-5)])
    from main [OF this(2,1) srv_fire(2,6,1), of "es_calls s"] show ?thesis by simp
  qed (use assms(4,6) in \<open>auto split: if_splits\<close>)
qed

text \<open>For the witnesses: the first of two connections ends, because of what its peer has sent.\<close>

lemma site_ends:
  assumes "d \<noteq> []" "length d \<le> 8192" "q = RqStop \<and> BANG \<in> set d \<or> q = RqFail AbortError \<and> PERCENT \<in> set d"
  obtains t where "server_step site_env (site_state d [(FwdReady 0, rd_ready)] []) t" "es_conns t 0 = None"
    "es_notes t = [end_cause q]" "es_down t = None"
proof -
  let ?s = "site_state d [(FwdReady 0, rd_ready)] []"
  let ?a = "echoer_new (site_source 0)" and ?w = "es_world ?s"
  obtain a rq w where run: "echoer_ready exact_rt inbox_ops (Ready READY_RD) ?a [] ?w = Some (Ret (a, rq, w))"
    and got: "dn_got w (ms_source (site_source 0)) = d"
    by (rule inbox_ready_got [OF demo_buf [of exact_rt "site_source 0"] exact_rt_ok, of ?w])
      (use assms in \<open>simp_all add: site_state_def site_world_def\<close>)
  from echoer_ready_post [OF demo_buf exact_rt_ok inbox_stream [of "ms_source (site_source 0)"], of ?w "[]" "Ready READY_RD"]
    run obtain ds e where post: "echo_post exact_rt demo_tx demo_rx (inbox_ended 0) (site_source 0) ?a ?w a rq w ds e"
    by (auto simp: handled_def)
  then have ds: "concat ds = d" using got
    by (simp add: echo_post_def site_state_def site_world_def)
  have q: "q \<in> set rq"
    using assms(3) post ds echoer_ready_abort [OF run]
    by (auto simp: echo_post_def echoer_new_def tb_new_def)
  let ?t = "after_handler (child_view 0 ?w (new_child ?a)) a rq w"
  have "q \<in> set (cn_end ?t)" using q assms(3) by (auto simp: after_handler_end)
  moreover from this have "\<not> cn_running ?t"
    by (auto simp: after_handler_end list_ex_iff)
  moreover have "tb_stream (ec_tcp (cn_actor ?t)) = Some (site_source 0)"
    using post by (simp add: echo_post_def echo_buf_def)
  moreover have "\<exists>c'. mio_source_drop slots_ops (sv_source site_env) (site_source 0) (es_ctl ?s, w) = Some (c', w)"
    by (simp add: mio_source_drop_def control_del_def retry_unfold)
  then obtain c' where "mio_source_drop slots_ops (sv_source site_env) (site_source 0) (es_ctl ?s, w) = Some (c', w)" ..
  ultimately have "child_done site_env 0 ?t (?s\<lparr>es_calls := []\<rparr>)
    (?s\<lparr>es_calls := [], es_conns := (es_conns ?s)(0 := None), es_ctl := c', es_world := w,
       es_listener := (es_listener ?s)\<lparr>li_children := filter (\<lambda>j. j \<noteq> 0) (li_children (es_listener ?s))\<rparr>,
       es_notes := es_notes ?s @ [end_cause q]\<rparr>)"
    using child_ends [of ?t q site_env "?s\<lparr>es_calls := []\<rparr>" c' w 0] by simp
  from srv_ready [of ?s 0 rd_ready "[]" "new_child ?a" site_env a rq w] this run
  have "server_step site_env ?s
    (?s\<lparr>es_calls := [], es_conns := (es_conns ?s)(0 := None), es_ctl := c', es_world := w,
       es_listener := (es_listener ?s)\<lparr>li_children := filter (\<lambda>j. j \<noteq> 0) (li_children (es_listener ?s))\<rparr>,
       es_notes := es_notes ?s @ [end_cause q]\<rparr>)"
    by (simp add: site_state_def new_child_def ready_consts)
  then show thesis by (rule that) (simp_all add: site_state_def)
qed

theorem server_end_is_local_witness:
  "\<exists>s t. server_reachable site_env s \<and> server_step site_env s t \<and> es_conns s 0 \<noteq> None \<and> es_conns t 0 = None \<and>
     es_conns s 1 \<noteq> None \<and> es_conns t 1 = es_conns s 1 \<and> es_down t = None"
proof -
  let ?s = "site_state [33] [(FwdReady 0, rd_ready)] []"
  obtain t where t: "server_step site_env ?s t" "es_conns t 0 = None"
    by (rule site_ends [of "[33]" RqStop]) auto
  have c: "es_conns ?s 0 = Some (new_child (echoer_new (site_source 0)))"
    "tb_stream (ec_tcp (ch_actor (new_child (echoer_new (site_source 0))))) = Some (site_source 0)"
    "es_conns ?s 1 \<noteq> None"
    by (simp_all add: site_state_def new_child_def echoer_new_def)
  from server_end_is_local [OF site_env_ok site_start(1) t(1) c(1,2) t(2)] t c site_start(1) [of "[33]"]
  show ?thesis by (intro exI [of _ ?s] exI [of _ t]) simp
qed

text \<open>The errors come from mio.\<close>

lemma retry_last_error:
  assumes "retry f x = Some (Inl e, y)"
  shows "\<exists>x. f x = (Inl e, y) \<and> err_kind e \<noteq> Interrupted"
  using retry_returned [OF assms] by (auto simp: interrupted_def)

lemma failed_poll:
  assumes "mio_poll_poll S P d (c, w) = Some (Ret (Inl e, c', calls, w'))"
  shows "\<exists>evs w0 evs'. po_poll P d (evs, w0) = (Inl e, evs', w') \<and> err_kind e \<noteq> Interrupted"
proof -
  obtain evs' where "retry (po_poll P d) (events c, w) = Some (Inl e, evs', w')"
    using assms by (auto simp: mio_poll_poll_def control_poll_def obind_eq_Ret split: option.splits sum.splits)
  from retry_last_error [OF this] show ?thesis by auto
qed

lemma failed_new:
  assumes "mio_poll_new S P K evs pri (st, w) = Some (Ret (Inl e, st', w'))"
  shows "\<exists>w0. po_waker_new P WAKER_TOKEN w0 = (Inl e, w') \<and> err_kind e \<noteq> Interrupted"
proof -
  have "retry (po_waker_new P WAKER_TOKEN) w = Some (Inl e, w')"
    using assms by (auto simp: mio_poll_new_def Let_def obind_eq_Ret split: prod.splits if_splits option.splits sum.splits)
  then show ?thesis by (rule retry_last_error)
qed

lemma listener_init_error:
  assumes "listener_init L A S D fwd now st (c, w) = Some (None, rq, st', c', w')"
  shows "\<exists>e. rq = [RqFail (ListenSetupFailed e)] \<and> ((\<exists>w1. lo_bind L PORT w = (Inl e, w1)) \<or>
    (\<exists>l token w1. so_register D l token (lo_readable L) w1 = (Inl e, w') \<and> err_kind e \<noteq> Interrupted))"
proof -
  obtain r st1 cw where su: "listener_setup L A S D fwd now st (c, w) = Some (r, st1, cw)"
    using assms by (auto simp: listener_init_def split: option.splits sum.splits)
  obtain e where e: "r = Inl e" using su assms by (cases r) (auto simp: listener_init_def)
  with su assms have rq: "rq = [RqFail (ListenSetupFailed e)]" "cw = (c', w')"
    by (simp_all add: listener_init_def)
  obtain b w1 where bind: "lo_bind L PORT w = (b, w1)" by fastforce
  show ?thesis
  proof (cases b)
    case (Inl e')
    with su bind e have "e' = e" by (simp add: listener_setup_def)
    with Inl bind rq show ?thesis by blast
  next
    case (Inr l)
    with su bind e rq(2) have "mio_poll_add S D l (lo_readable L) 10 fwd (c, w1) = Some (Inl e, c', w')"
      by (auto simp: listener_setup_def split: option.splits sum.splits prod.splits)
    then have "control_add S D l (lo_readable L) 10 fwd (c, w1) = Some (Inl e, c', w')"
      by (auto simp: mio_poll_add_def split: option.splits sum.splits)
    then obtain token where "retry (so_register D l token (lo_readable L)) w1 = Some (Inl e, w')"
      by (rule control_add_cases) (auto split: sum.splits)
    from retry_last_error [OF this] rq(1) show ?thesis by blast
  qed
qed

text \<open>C26. Why the server ends. \<open>main\<close> returns an error only when mio could not create the poll or its waker,
  or a poll failed, not by an interruption. Otherwise the server is shut down by a failure of the Listener: its socket
  could not be bound or registered; a child was sent a \<open>'%'\<close>; no connection has been accepted for
  60 seconds; or accepting failed, with an error that is neither \<open>WouldBlock\<close> nor \<open>Interrupted\<close>.
  There is no other reason.\<close>

theorem server_down_reasons:
  assumes "server_env_ok E" "server_ends create E pos x"
  shows "(case x of
      ReturnsError e \<Rightarrow>
        (case pos of
           None \<Rightarrow> (\<exists>w w'. create w = (Inl e, w')) \<or>
             (\<exists>w w'. po_waker_new (sv_poll E) WAKER_TOKEN w = (Inl e, w') \<and> err_kind e \<noteq> Interrupted)
         | Some s \<Rightarrow> \<exists>d evs w evs' w'. po_poll (sv_poll E) d (evs, w) = (Inl e, evs', w') \<and>
             err_kind e \<noteq> Interrupted)
    | ShutDown f \<Rightarrow>
        (case pos of
           None \<Rightarrow> \<exists>e. f = ListenSetupFailed e \<and> ((\<exists>w w'. lo_bind (sv_listen E) PORT w = (Inl e, w')) \<or>
             (\<exists>l token w w'. so_register (sv_source E) l token (lo_readable (sv_listen E)) w = (Inl e, w') \<and>
                err_kind e \<noteq> Interrupted))
         | Some s \<Rightarrow> f = ChildAborted \<and> (\<exists>y\<in>set (nv_accepted (sv_view E) (es_world s)).
               PERCENT \<in> set (nv_got (sv_view E) y (es_world s)))
             \<or> f = ConnectionTimeout \<and> es_active s + secs 60 \<le> es_now s
             \<or> (\<exists>e. f = AcceptFailed e \<and> err_kind e \<noteq> WouldBlock \<and> err_kind e \<noteq> Interrupted)))"
  using assms(2)
proof cases
  case (end_create w e w0)
  then show ?thesis by auto
next
  case (end_new w w0 e w1)
  with failed_new [OF end_new(4)] show ?thesis by auto
next
  case (end_init w0 c w1 now rq sp c' w' f)
  with listener_init_error [OF end_init(4)] show ?thesis by auto
next
  case (end_poll s d e c' calls w')
  from failed_poll [OF end_poll(5)] show ?thesis unfolding end_poll(1,2) by simp blast
next
  case (end_down s f)
  with server_invD(3) [OF server_reachable_inv [OF end_down(3) assms(1)]] show ?thesis
    by (simp add: listener_ok_def down_ok_def aborted_def)
qed

theorem server_down_reasons_witness:
  "\<exists>s. server_ends (\<lambda>w. (Inr (), w)) site_env (Some s) (ShutDown ChildAborted) \<and>
     (\<exists>x\<in>set (st_accepted (es_world s)). PERCENT \<in> set (dn_got (es_world s) x))"
proof -
  obtain t where t: "server_step site_env (site_state [37] [(FwdReady 0, rd_ready)] []) t"
    "es_notes t = [Failed AbortError]" "es_down t = None"
    by (rule site_ends [of "[37]" "RqFail AbortError"]) auto
  let ?t = "t\<lparr>es_notes := [], es_down := Some ChildAborted\<rparr>"
  have "server_step site_env t ?t"
    using srv_note [OF t(3,2), of site_env] by (simp add: child_terminated_def)
  note r = server_next [OF server_next [OF site_start(1) t(1)] this]
  have "server_ends (\<lambda>w. (Inr (), w)) site_env (Some ?t) (ShutDown ChildAborted)"
    by (rule end_down [OF r]) simp
  from server_down_reasons [OF site_env_ok this] this show ?thesis
    by (intro exI [of _ ?t]) simp
qed

end
