(* ===== verification/Test_Data.thy ===== *)
theory Test_Data
  imports Mio_Prelude
begin

text \<open>
  \<open>testdata\<close> of src/test/mod.rs: pseudo-random data for the tests, from a linear congruential
  generator over \<open>u32\<close> with the modulus \<open>65537\<close>. Its arithmetic panics or wraps around on overflow
  as the build profile decides; the property is that it never overflows.
\<close>

type_synonym u32 = "32 word"

text \<open>The result of an operation on \<open>u32\<close> whose exact value is \<open>n\<close>.\<close>

definition u32_result :: "rust_rt \<Rightarrow> int \<Rightarrow> u32 outcome" where
  "u32_result rt n =
     (if 0 \<le> n \<and> n < 2 ^ 32 then Ret (word_of_int n)
      else if overflow_checks rt then Panic else Ret (word_of_int n))"

definition testdata_seed :: "rust_rt \<Rightarrow> u32 \<Rightarrow> u32 outcome" where
  "testdata_seed rt seed =
     obind (u32_result rt (uint seed + 1)) (\<lambda>a.
     obind (u32_result rt (uint a * 75)) (\<lambda>b.
     u32_result rt (uint b mod 65537 - 1)))"

primrec testdata_loop :: "rust_rt \<Rightarrow> nat \<Rightarrow> u32 \<Rightarrow> bytes \<Rightarrow> bytes outcome" where
  "testdata_loop rt 0 seed out = Ret out"
| "testdata_loop rt (Suc n) seed out =
     (let out' = out @ [ucast seed] in
      obind (testdata_seed rt seed) (\<lambda>seed'. testdata_loop rt n seed' out'))"

definition testdata :: "rust_rt \<Rightarrow> nat \<Rightarrow> u32 \<Rightarrow> bytes outcome" where
  "testdata rt len seed =
     obind (usize_mul rt len 19) (\<lambda>m.
       testdata_loop rt len ((seed XOR word_of_nat m) AND 0xFFFF) [])"

section \<open>The generator\<close>

text \<open>The seeds in closed form: a power of 75 modulo 65537, less one.\<close>

definition power75 :: "nat \<Rightarrow> nat \<Rightarrow> nat" where
  "power75 x i = x * 75 ^ i mod 65537"

definition lehmer :: "nat \<Rightarrow> nat \<Rightarrow> nat" where
  "lehmer s i = power75 (s + 1) i - 1"

lemma coprime_75: "coprime (65537::nat) 75"
  by (simp add: coprime_iff_gcd_eq_1 gcd_non_0_nat)

lemma power75_0: "x < 65537 \<Longrightarrow> power75 x 0 = x"
  by (simp add: power75_def)

lemma power75_Suc: "power75 x (Suc i) = power75 x i * 75 mod 65537"
  using mod_mult_left_eq [of "x * 75 ^ i" 65537 75] by (simp add: power75_def ac_simps)

lemma power75_shift: "power75 (power75 x 1) i = power75 x (Suc i)"
  by (simp add: power75_def mod_mult_left_eq mult.assoc)

lemma power75_less: "power75 x i < 65537"
  unfolding power75_def by (rule mod_less_divisor) simp

text \<open>The factor is coprime to the modulus, so the state of the generator is never zero.\<close>

lemma power75_positive:
  assumes "0 < x" "x < 65537"
  shows "0 < power75 x i"
proof (rule ccontr)
  assume "\<not> ?thesis"
  then have "65537 dvd x * 75 ^ i" by (simp add: power75_def dvd_eq_mod_eq_0)
  moreover have "coprime (65537::nat) (75 ^ i)" using coprime_75 by simp
  ultimately have "65537 dvd x" by (simp add: coprime_dvd_mult_left_iff)
  with assms show False using dvd_imp_le [of 65537 x] by linarith
qed

lemma lehmer_succ:
  assumes "s < 65536"
  shows "lehmer s i + 1 = power75 (s + 1) i"
  using power75_positive [of "s + 1" i] assms by (simp add: lehmer_def)

lemma lehmer_bound: "s < 65536 \<Longrightarrow> lehmer s i < 65536"
  using lehmer_succ [of s i] power75_less [of "s + 1" i] by simp

lemma lehmer_0: "s < 65536 \<Longrightarrow> lehmer s 0 = s"
  by (simp add: lehmer_def power75_0)

lemma lehmer_shift:
  assumes "s < 65536"
  shows "lehmer (lehmer s 1) i = lehmer s (Suc i)"
  unfolding lehmer_def [of "lehmer s 1"] lehmer_succ [OF assms] power75_shift by (simp add: lehmer_def)

section \<open>No overflow\<close>

lemma u32_result_in_range: "0 \<le> n \<Longrightarrow> n < 2 ^ 32 \<Longrightarrow> u32_result rt n = Ret (word_of_int n)"
  by (simp add: u32_result_def)

lemma uint_of_int: "0 \<le> n \<Longrightarrow> n < 2 ^ 32 \<Longrightarrow> uint (word_of_int n :: u32) = n"
  by (simp add: uint_word_of_int)

lemma testdata_seed_spec:
  assumes "s < 65536"
  shows "testdata_seed rt (word_of_nat s) = Ret (word_of_nat (lehmer s 1))"
proof -
  let ?p = "power75 (s + 1) 1"
  have s: "uint (word_of_nat s :: u32) = int s"
    using assms by (simp add: unsigned_of_nat take_bit_nat_eq_self)
  have p: "(int s + 1) * 75 mod 65537 = int ?p"
    by (simp add: power75_def zmod_int add.commute)
  have l: "int ?p - 1 = int (lehmer s 1)" using lehmer_succ [OF assms, of 1] by simp
  have "0 \<le> int s + 1" "int s + 1 < 2 ^ 32" "0 \<le> (int s + 1) * 75" "(int s + 1) * 75 < 2 ^ 32"
    using assms by simp_all
  note r = u32_result_in_range [OF this(1,2), of rt] uint_of_int [OF this(1,2)]
    u32_result_in_range [OF this(3,4), of rt] uint_of_int [OF this(3,4)]
  have "u32_result rt (int (lehmer s 1)) = Ret (word_of_int (int (lehmer s 1)))"
    by (rule u32_result_in_range) (use lehmer_bound [OF assms, of 1] in simp_all)
  then show ?thesis by (simp only: testdata_seed_def s r obind_simps p l of_int_of_nat_eq)
qed

lemma testdata_loop_spec:
  assumes "s < 65536"
  shows "testdata_loop rt n (word_of_nat s) out = Ret (out @ map (\<lambda>i. word_of_nat (lehmer s i)) [0..<n])"
  using assms
proof (induction n arbitrary: s out)
  case (Suc n)
  have "ucast (word_of_nat s :: u32) = (word_of_nat s :: u8)"
    using Suc.prems by (simp add: word_eq_iff_unsigned unsigned_of_nat unsigned_ucast_eq take_bit_nat_eq_self)
  then have "testdata_loop rt (Suc n) (word_of_nat s) out =
      Ret (out @ word_of_nat s # map (\<lambda>i. word_of_nat (lehmer (lehmer s 1) i)) [0..<n])"
    by (simp only: testdata_loop.simps Let_def testdata_seed_spec [OF Suc.prems] obind_simps
      Suc.IH [OF lehmer_bound [OF Suc.prems]]) simp
  also have "word_of_nat s # map (\<lambda>i. word_of_nat (lehmer (lehmer s 1) i)) [0..<n] =
      (map (\<lambda>i. word_of_nat (lehmer s i)) [0..<Suc n] :: bytes)"
    by (simp only: lehmer_shift [OF Suc.prems] upt_conv_Cons [OF zero_less_Suc] list.map lehmer_0 [OF Suc.prems]
      map_Suc_upt [symmetric] map_map comp_def)
  finally show ?case .
qed simp

definition test_seed :: "nat \<Rightarrow> u32 \<Rightarrow> nat" where
  "test_seed len seed = unat ((seed XOR word_of_nat (len * 19)) AND 0xFFFF)"

definition test_bytes :: "nat \<Rightarrow> u32 \<Rightarrow> bytes" where
  "test_bytes len seed = map (\<lambda>i. word_of_nat (lehmer (test_seed len seed) i)) [0..<len]"

lemma test_bytes_length [simp]: "length (test_bytes len seed) = len"
  by (simp add: test_bytes_def)

lemma test_seed_bound: "test_seed len seed < 65536"
proof -
  have "unat (x AND 0xFFFF) \<le> unat (0xFFFF :: u32)" for x :: u32
    by (simp only: word_le_nat_alt [symmetric] word_and_le1)
  then show ?thesis unfolding test_seed_def by (rule le_less_trans) simp
qed

lemma testdata_runs:
  assumes "len * 19 < usize_bound"
  shows "testdata rt len seed = Ret (test_bytes len seed)"
  using testdata_loop_spec [OF test_seed_bound, of rt len len seed "[]"] assms
  by (simp add: testdata_def usize_simps test_bytes_def) (simp add: test_seed_def)

text \<open>C39. \<open>testdata\<close> returns without overflow for every seed and every length whose product with
  19 is a \<open>usize\<close>: its arithmetic never panics or wraps around, in particular the subtraction after the
  remainder, and the \<open>i\<close>-th byte is the low byte of \<open>(s + 1) 75\<^sup>i mod 65537 - 1\<close>, where \<open>s\<close> is the seed
  mixed with the length; before the subtraction the value is always between 1 and 65536.\<close>

theorem testdata_never_overflows:
  assumes "len * 19 < usize_bound"
  shows "\<exists>s<65536. s = unat ((seed XOR word_of_nat (len * 19)) AND 0xFFFF)
    \<and> testdata rt len seed = Ret (map (\<lambda>i. word_of_nat ((s + 1) * 75 ^ i mod 65537 - 1)) [0..<len])
    \<and> (\<forall>i. 0 < (s + 1) * 75 ^ i mod 65537 \<and> (s + 1) * 75 ^ i mod 65537 \<le> 65536)"
proof -
  let ?s = "test_seed len seed"
  have "testdata rt len seed = Ret (map (\<lambda>i. word_of_nat ((?s + 1) * 75 ^ i mod 65537 - 1)) [0..<len])"
    unfolding testdata_runs [OF assms] test_bytes_def lehmer_def power75_def ..
  moreover have "0 < (?s + 1) * 75 ^ i mod 65537 \<and> (?s + 1) * 75 ^ i mod 65537 \<le> 65536" for i
    using power75_positive [of "?s + 1" i] power75_less [of "?s + 1" i] test_seed_bound [of len seed]
    by (simp only: power75_def) simp
  ultimately show ?thesis using test_seed_bound [of len seed]
    by (intro exI [of _ ?s]) (simp only: test_seed_def simp_thms)
qed

theorem testdata_never_overflows_witness:
  "testdata \<lparr>overflow_checks = True, vec_grow = (\<lambda>cap len extra. len + extra)\<rparr> 3 1 = Ret [56, 178, 108]"
proof -
  let ?rt = "\<lparr>overflow_checks = True, vec_grow = (\<lambda>cap len extra. len + extra)\<rparr>"
  have "(3::nat) * 19 < usize_bound" by (simp add: usize_bound_def)
  from testdata_never_overflows [OF this] obtain s where s: "s = unat ((1 XOR word_of_nat (3 * 19)) AND 0xFFFF :: u32)"
    "testdata ?rt 3 1 = Ret (map (\<lambda>i. word_of_nat ((s + 1) * 75 ^ i mod 65537 - 1)) [0..<3])" by blast
  have "s = 56" unfolding s(1) by simp
  with s(2) show ?thesis by (simp add: upt_rec)
qed

end
