(* ===== verification/Test_Actors.thy ===== *)
theory Test_Actors
  imports Test_Data Udp_Queue Udp_Server_Queue "HOL-Library.Multiset"
begin

text \<open>
  What the two tests of src/test/udp.rs and src/test/udpserver.rs share. In both an actor \<open>Receiver\<close>
  asks an actor \<open>Sender\<close> for one packet at a time and checks what arrives; the tests differ in the
  queue they use. Here are the requests of their handlers, the run of a test as a step relation
  over its four handlers, and as the locale \<open>packet_test\<close> the laws of the handlers from which the
  correctness of a test follows.
\<close>

section \<open>Requests\<close>

text \<open>What a handler asks of Stakker: \<open>fail!\<close> with one of the three messages, \<open>stop!\<close>, and calls.\<close>

datatype test_failure =
  SetupError io_error
| FlushError io_error
| PacketError io_error

datatype 'm test_request =
  TqFail test_failure | TqStop | TqNextPacket | TqSendData 'm

fun is_call :: "'m test_request \<Rightarrow> bool" where
  "is_call (TqFail e) = False"
| "is_call TqStop = False"
| "is_call TqNextPacket = True"
| "is_call (TqSendData m) = True"

lemma is_call_TqFail [simp]: "filter is_call (map TqFail es) = []"
  "filter (\<lambda>q. \<not> is_call q) (map TqFail es) = map TqFail es"
  by (induction es) simp_all

lemma is_call_TqSendData [simp]: "filter is_call (map TqSendData ms) = map TqSendData ms"
  "filter (\<lambda>q. \<not> is_call q) (map TqSendData ms) = []"
  by (induction ms) simp_all

section \<open>The run of a test\<close>

record ('sd, 'rc, 'm, 'w) test_handlers =
  th_send_ready :: "'sd \<Rightarrow> 'w \<Rightarrow> ('sd \<times> 'm test_request list \<times> 'w) option"
  th_send_data :: "'m \<Rightarrow> 'sd \<Rightarrow> 'w \<Rightarrow> ('sd \<times> 'm test_request list \<times> 'w) option"
  th_recv_ready :: "'rc \<Rightarrow> 'w \<Rightarrow> ('rc \<times> 'm test_request list \<times> 'w) exec"
  th_next_packet :: "'rc \<Rightarrow> ('rc \<times> 'm test_request list) outcome"

text \<open>
  The actors, the calls that Stakker has queued for them, the requests that ended an actor, and the
  world. Both actors are started with \<open>ret_shutdown!\<close>, so the test is over when one of them ends.
\<close>

record ('sd, 'rc, 'm, 'w) test_state =
  ts_sender :: 'sd
  ts_receiver :: 'rc
  ts_calls :: "'m test_request list"
  ts_ends :: "'m test_request list"
  ts_world :: 'w

definition requested :: "'m test_request list \<Rightarrow> ('sd, 'rc, 'm, 'w) test_state \<Rightarrow> ('sd, 'rc, 'm, 'w) test_state" where
  "requested rq s = s\<lparr>ts_calls := ts_calls s @ filter is_call rq,
     ts_ends := ts_ends s @ filter (\<lambda>q. \<not> is_call q) rq\<rparr>"

lemma requested_sel [simp]:
  "ts_sender (requested rq s) = ts_sender s" "ts_receiver (requested rq s) = ts_receiver s"
  "ts_world (requested rq s) = ts_world s" "ts_calls (requested rq s) = ts_calls s @ filter is_call rq"
  "ts_ends (requested rq s) = ts_ends s @ filter (\<lambda>q. \<not> is_call q) rq"
  by (simp_all add: requested_def)

text \<open>
  Queued calls are taken first in, first out. The poller may call the handlers \<open>ready\<close> at any time,
  also when there is nothing to do; \<open>quiet\<close> is what the network may do by itself.
\<close>

inductive test_step ::
  "('sd, 'rc, 'm, 'w) test_handlers \<Rightarrow> ('w \<Rightarrow> 'w \<Rightarrow> bool)
    \<Rightarrow> ('sd, 'rc, 'm, 'w) test_state \<Rightarrow> ('sd, 'rc, 'm, 'w) test_state \<Rightarrow> bool"
  for H quiet where
  test_next: "ts_ends s = [] \<Longrightarrow> ts_calls s = TqNextPacket # rest \<Longrightarrow>
     th_next_packet H (ts_receiver s) = Ret (rc, rq) \<Longrightarrow>
     test_step H quiet s (requested rq (s\<lparr>ts_receiver := rc, ts_calls := rest\<rparr>))"
| test_send: "ts_ends s = [] \<Longrightarrow> ts_calls s = TqSendData m # rest \<Longrightarrow>
     th_send_data H m (ts_sender s) (ts_world s) = Some (sd, rq, w) \<Longrightarrow>
     test_step H quiet s (requested rq (s\<lparr>ts_sender := sd, ts_calls := rest, ts_world := w\<rparr>))"
| test_send_ready: "ts_ends s = [] \<Longrightarrow>
     th_send_ready H (ts_sender s) (ts_world s) = Some (sd, rq, w) \<Longrightarrow>
     test_step H quiet s (requested rq (s\<lparr>ts_sender := sd, ts_world := w\<rparr>))"
| test_recv_ready: "ts_ends s = [] \<Longrightarrow>
     th_recv_ready H (ts_receiver s) (ts_world s) = Some (Ret (rc, rq, w)) \<Longrightarrow>
     test_step H quiet s (requested rq (s\<lparr>ts_receiver := rc, ts_world := w\<rparr>))"
| test_net: "quiet (ts_world s) w \<Longrightarrow> test_step H quiet s (s\<lparr>ts_world := w\<rparr>)"

inductive test_reachable ::
  "('sd, 'rc, 'm, 'w) test_handlers \<Rightarrow> ('w \<Rightarrow> 'w \<Rightarrow> bool) \<Rightarrow> (('sd, 'rc, 'm, 'w) test_state \<Rightarrow> bool)
    \<Rightarrow> ('sd, 'rc, 'm, 'w) test_state \<Rightarrow> bool"
  for H quiet start where
  test_start: "start s \<Longrightarrow> test_reachable H quiet start s"
| test_more: "test_reachable H quiet start s \<Longrightarrow> test_step H quiet s t \<Longrightarrow> test_reachable H quiet start t"

section \<open>The network\<close>

text \<open>
  Both sockets are on one host, with \<open>te_flight\<close> the packets under way from the Sender's socket to
  the Receiver's, as UDP has them: in no order. \<open>te_got\<close> are those received, as far as they fitted.
\<close>

record ('s, 'a, 'w) test_env =
  te_rt :: rust_rt
  te_udp :: "('s, 'a, 'w) udp_ops"
  te_send_sock :: 's
  te_recv_sock :: 's
  te_send_addr :: 'a
  te_recv_addr :: 'a
  te_flight :: "'w \<Rightarrow> bytes multiset"
  te_got :: "'w \<Rightarrow> bytes list"

text \<open>Packets may be lost at any time, but they are not duplicated; nothing is received by itself.\<close>

definition lossy :: "('s, 'a, 'w) test_env \<Rightarrow> 'w \<Rightarrow> 'w \<Rightarrow> bool" where
  "lossy E w w' \<longleftrightarrow> te_flight E w' \<subseteq># te_flight E w \<and> te_got E w' = te_got E w"

definition lossless :: "('s, 'a, 'w) test_env \<Rightarrow> 'w \<Rightarrow> 'w \<Rightarrow> bool" where
  "lossless E w w' \<longleftrightarrow> te_flight E w' = te_flight E w \<and> te_got E w' = te_got E w"

lemma lossy_refl [simp]: "lossy E w w"
  by (simp add: lossy_def)

lemma lossy_trans: "lossy E w w1 \<Longrightarrow> lossy E w1 w2 \<Longrightarrow> lossy E w w2"
  by (auto simp: lossy_def intro: subset_mset.order_trans)

lemma lossless_lossy: "lossless E w w' \<Longrightarrow> lossy E w w'"
  by (simp add: lossy_def lossless_def)

text \<open>A send puts a packet under way when it is accepted whole, if it is not lost then.\<close>

definition sends_ok ::
  "('s, 'a, 'w) test_env \<Rightarrow> ('p \<Rightarrow> 'w \<Rightarrow> nat io \<times> 'w) \<Rightarrow> ('p \<Rightarrow> nat) \<Rightarrow> ('p \<Rightarrow> bytes multiset) \<Rightarrow> bool" where
  "sends_ok E send plen body \<longleftrightarrow> (\<forall>p w r w'. send p w = (r, w') \<longrightarrow> te_got E w' = te_got E w \<and>
     te_flight E w' \<subseteq># te_flight E w + (if r = Inr (plen p) then body p else {#}))"

definition sends_at_once ::
  "('s, 'a, 'w) test_env \<Rightarrow> ('p \<Rightarrow> 'w \<Rightarrow> nat io \<times> 'w) \<Rightarrow> ('p \<Rightarrow> nat) \<Rightarrow> ('p \<Rightarrow> bytes multiset) \<Rightarrow> bool" where
  "sends_at_once E send plen body \<longleftrightarrow> (\<forall>p w. \<exists>w'. send p w = (Inr (plen p), w') \<and>
     te_flight E w' = te_flight E w + body p)"

text \<open>
  A receive takes one of the packets under way, cut to the length of the buffer; then \<open>n\<close> is the
  length of what is received, and \<open>sl\<close> is the slice.
\<close>

definition takes_packet :: "('s, 'a, 'w) test_env \<Rightarrow> bytes \<Rightarrow> 'w \<Rightarrow> nat \<Rightarrow> bytes \<Rightarrow> 'w \<Rightarrow> bool" where
  "takes_packet E buf w n buf' w' \<longleftrightarrow> (\<exists>m. add_mset m (te_flight E w') \<subseteq># te_flight E w \<and>
     n = min (length buf) (length m) \<and> take n buf' = take n m \<and> te_got E w' = te_got E w @ [take n m])"

definition takes_slice :: "('s, 'a, 'w) test_env \<Rightarrow> nat \<Rightarrow> 'w \<Rightarrow> bytes \<Rightarrow> 'w \<Rightarrow> bool" where
  "takes_slice E len w sl w' \<longleftrightarrow> (\<exists>m. add_mset m (te_flight E w') \<subseteq># te_flight E w \<and>
     sl = take len m \<and> te_got E w' = te_got E w @ [sl])"

lemma takes_packet_slice:
  assumes "takes_packet E buf w1 n buf' w'" "lossy E w w1" "length buf = len"
  shows "takes_slice E len w (take n buf') w'"
  using assms unfolding takes_packet_def takes_slice_def lossy_def
  by (auto simp: min_def intro: subset_mset.order_trans split: if_splits)

lemma takes_packet_le: "takes_packet E buf w n buf' w' \<Longrightarrow> n \<le> length buf"
  by (auto simp: takes_packet_def)

lemma takes_slice_flight [simp]: "te_flight E w = {#} \<Longrightarrow> \<not> takes_slice E len w sl w'"
  by (simp add: takes_slice_def)

lemma retry_sends:
  assumes "sends_ok E send plen body" "retry (send p) w = Some (r, w')"
  shows "te_got E w' = te_got E w \<and>
    te_flight E w' \<subseteq># te_flight E w + (if r = Inr (plen p) then body p else {#})"
proof -
  note ok = assms(1) [unfolded sends_ok_def, rule_format]
  obtain w0 where "lossy E w w0" "send p w0 = (r, w')"
  proof (rule retry_final_call [OF assms(2), where I = "lossy E w"])
    fix w0
    assume "lossy E w w0" "interrupted (fst (send p w0))"
    then show "lossy E w (snd (send p w0))"
      using ok [of p w0 "fst (send p w0)" "snd (send p w0)"]
      by (auto elim!: interruptedE simp: lossy_def intro: subset_mset.order_trans)
  qed (use that in auto)
  with ok [OF this(2)] show ?thesis
    by (auto simp: lossy_def intro: subset_mset.order_trans subset_mset.add_right_mono)
qed

context packet_queue
begin

lemma flush_in_flight:
  assumes "sends_ok E send plen body" "flush_loop ps w = Some (r, rest, w')"
  shows "te_got E w' = te_got E w \<and>
    te_flight E w' + sum_list (map body rest) \<subseteq># te_flight E w + sum_list (map body ps)"
  using assms(2)
proof (induction ps arbitrary: w)
  case Nil
  then show ?case by (simp add: flush_Nil)
next
  case (Cons p ps)
  from Cons.prems obtain a w1 where a: "retry (send p) w = Some (a, w1)"
    by (auto simp: flush_Cons split: option.splits)
  note sent = retry_sends [OF assms(1) a]
  show ?case
  proof (cases "send_answer (plen p) a")
    case (Return res)
    then have "a \<noteq> Inr (plen p)" using send_answer_Break [of "plen p" a] by force
    with Cons.prems a Return sent show ?thesis
      by (auto simp: flush_Cons intro: subset_mset.order_trans [OF _ mset_subset_eq_add_left])
  next
    case Break
    with Cons.prems a have "flush_loop ps w1 = Some (r, rest, w')" by (simp add: flush_Cons)
    note Cons.IH [OF this]
    moreover have "te_flight E w1 + sum_list (map body ps) \<subseteq>#
        te_flight E w + body p + sum_list (map body ps)"
      using sent Break by (intro subset_mset.add_right_mono) simp
    ultimately show ?thesis using sent by (auto simp: add.assoc intro: subset_mset.order_trans)
  qed
qed

lemma flush_at_once:
  assumes "sends_at_once E send plen body"
  shows "\<exists>w'. flush_loop ps w = Some (Inr (), [], w') \<and>
    te_flight E w' = te_flight E w + sum_list (map body ps)"
proof (induction ps arbitrary: w)
  case Nil
  show ?case by (simp add: flush_Nil)
next
  case (Cons p ps)
  from assms obtain w1 where p: "send p w = (Inr (plen p), w1)" "te_flight E w1 = te_flight E w + body p"
    unfolding sends_at_once_def by blast
  then have "retry (send p) w = Some (Inr (plen p), w1)" by (simp add: retry_answer)
  with p(2) Cons.IH [of w1] show ?case by (auto simp: flush_Cons send_answer_def add.assoc)
qed

end

end
