(* ===== verification/Test_Protocol.thy ===== *)
theory Test_Protocol
  imports Test_Actors
begin

text \<open>
  The correctness of a test from the laws of its handlers: the Receiver awaits one packet at a time,
  so at most one is queued, requested or under way, and it is the one awaited.
\<close>

section \<open>The packets\<close>

text \<open>The data of the packet with a given index, and that a queue has been given its socket.\<close>

definition test_packet :: "nat list \<Rightarrow> nat \<Rightarrow> bytes" where
  "test_packet sizes i = test_bytes (sizes ! i) (word_of_nat i)"

definition has_socket :: "'s mio_source option \<Rightarrow> 's \<Rightarrow> bool" where
  "has_socket x s \<longleftrightarrow> (\<exists>ms. x = Some ms \<and> ms_source ms = s)"

section \<open>The laws\<close>

definition fails :: "'m test_request list \<Rightarrow> bool" where
  "fails rq \<longleftrightarrow> (\<forall>q\<in>set rq. \<exists>e. q = TqFail e)"

lemma fails_simps [simp]:
  "fails []" "fails (TqFail e # rq) \<longleftrightarrow> fails rq" "fails (rq @ rq') \<longleftrightarrow> fails rq \<and> fails rq'"
  "fails rq \<Longrightarrow> filter is_call rq = []" "fails rq \<Longrightarrow> filter (\<lambda>q. \<not> is_call q) rq = rq"
  "fails rq \<Longrightarrow> TqStop \<notin> set rq"
  by (auto simp: fails_def filter_empty_conv filter_id_conv)

definition awaited :: "bytes option \<Rightarrow> bytes multiset" where
  "awaited wt = (case wt of None \<Rightarrow> {#} | Some m \<Rightarrow> {#m#})"

lemma awaited_simps [simp]: "awaited None = {#}" "awaited (Some m) = {#m#}"
  by (simp_all add: awaited_def)

lemma takes_awaited:
  assumes "takes_slice E 1024 w sl w'" "te_flight E w \<subseteq># awaited wt"
  obtains m where "wt = Some m" "te_flight E w = {#m#}" "te_flight E w' = {#}" "sl = take 1024 m"
    "te_got E w' = te_got E w @ [take 1024 m]"
proof -
  from assms(1) obtain m where m: "add_mset m (te_flight E w') \<subseteq># te_flight E w" "sl = take 1024 m"
    "te_got E w' = te_got E w @ [take 1024 m]" by (auto simp: takes_slice_def)
  with assms(2) have "add_mset m (te_flight E w') \<subseteq># awaited wt" by (blast intro: subset_mset.order_trans)
  then have wt: "wt = Some m" "te_flight E w' = {#}" by (cases wt; simp)+
  with m assms(2) have "te_flight E w = {#m#}" by (auto intro: nonempty_subseteq_mset_eq_single)
  with wt m that show thesis by blast
qed

text \<open>A receiver's progress: the index of the next packet to ask for, and the packet it expects.\<close>

type_synonym progress = "nat \<times> bytes option"

definition next_asked ::
  "(bytes \<Rightarrow> 'm) \<Rightarrow> (nat \<Rightarrow> bytes) \<Rightarrow> nat \<Rightarrow> progress \<Rightarrow> 'm test_request list \<Rightarrow> progress \<Rightarrow> bool" where
  "next_asked msg packet npackets p rq p' \<longleftrightarrow>
     (if fst p < npackets
      then p' = (Suc (fst p), Some (packet (fst p))) \<and> rq = [TqSendData (msg (packet (fst p)))]
      else p' = (fst p, None) \<and> rq = [TqStop])"

text \<open>What a handler of the Sender may do: with the packets \<open>h\<close> in its queue before and \<open>h'\<close> after.\<close>

definition sent_on ::
  "('s, 'a, 'w) test_env \<Rightarrow> bytes multiset \<Rightarrow> 'w \<Rightarrow> bytes multiset \<Rightarrow> 'w \<Rightarrow> 'm test_request list \<Rightarrow> bool" where
  "sent_on E h w h' w' rq \<longleftrightarrow> te_got E w' = te_got E w \<and>
     te_flight E w' + h' \<subseteq># te_flight E w + h \<and> fails rq"

text \<open>What the handler \<open>ready\<close> of the Receiver may do: read nothing, or the packet awaited.\<close>

definition received_on ::
  "('s, 'a, 'w) test_env \<Rightarrow> (bytes \<Rightarrow> 'm) \<Rightarrow> (nat \<Rightarrow> bytes) \<Rightarrow> nat
    \<Rightarrow> progress \<Rightarrow> 'w \<Rightarrow> 'm test_request list \<Rightarrow> progress \<Rightarrow> 'w \<Rightarrow> bool" where
  "received_on E msg packet npackets p w rq p' w' \<longleftrightarrow>
     p' = p \<and> lossy E w w' \<and> fails rq \<or>
     (\<exists>m rq1 rq2. snd p = Some m \<and> te_flight E w = {#m#} \<and> te_flight E w' = {#} \<and>
        te_got E w' = te_got E w @ [take 1024 m] \<and> rq = rq1 @ rq2 \<and>
        next_asked msg packet npackets p rq1 p' \<and> fails rq2)"

lemma received_onI:
  assumes "te_flight E w = {#m#}" "te_flight E w1 = {#}" "te_got E w1 = te_got E w @ [take 1024 m]"
    and "next_asked msg packet n (i, None) rq p'" "lossy E w1 w'"
  shows "received_on E msg packet n (i, Some m) w rq p' w'"
  using assms unfolding received_on_def lossy_def next_asked_def
  by (intro disjI2 exI [of _ m] exI [of _ rq] exI [of _ "[]"]) simp

lemma received_on_lossy:
  assumes "lossy E w w1" "te_flight E w \<subseteq># awaited (snd p)" "received_on E msg packet n p w1 rq p' w'"
  shows "received_on E msg packet n p w rq p' w'"
  using assms(3) unfolding received_on_def
proof (elim disjE conjE exE, goal_cases)
  case 1
  with assms(1) show ?case by (blast intro: lossy_trans)
next
  case (2 m rq1 rq2)
  then have "te_flight E w = {#m#}" using assms(1,2)
    by (auto simp: lossy_def intro: nonempty_subseteq_mset_eq_single)
  with 2 assms(1) show ?case by (intro disjI2 exI [of _ m] exI [of _ rq1] exI [of _ rq2]) (simp add: lossy_def)
qed

lemma received_on_then:
  assumes "te_flight E w = {#m#}" "te_flight E w1 = {#}" "te_got E w1 = te_got E w @ [take 1024 m]"
    and "next_asked msg packet n (i, None) rq1 p1" "received_on E msg packet n p1 w1 rq2 p' w'"
  shows "received_on E msg packet n (i, Some m) w (rq1 @ rq2) p' w'"
proof -
  from assms(2,5) have "p' = p1" "te_flight E w' = {#}" "te_got E w' = te_got E w1" "fails rq2"
    by (auto simp: received_on_def lossy_def)
  with assms show ?thesis unfolding received_on_def next_asked_def
    by (intro disjI2 exI [of _ m] exI [of _ rq1] exI [of _ rq2]) simp
qed

lemma received_on_fail:
  "received_on E msg packet n p w rq p' w' \<Longrightarrow> received_on E msg packet n p w (rq @ [TqFail e]) p' w'"
  unfolding received_on_def
proof (elim disjE conjE exE, goal_cases)
  case (2 m rq1 rq2)
  then show ?case by (intro disjI2 exI [of _ m] exI [of _ rq1] exI [of _ "rq2 @ [TqFail e]"]) simp
qed simp

locale packet_test =
  fixes env_ok :: "('s, 'a, 'w) test_env \<Rightarrow> bool"
    and H :: "('s, 'a, 'w) test_env \<Rightarrow> ('sd, 'rc, 'm, 'w) test_handlers"
    and sender_ok :: "('s, 'a, 'w) test_env \<Rightarrow> 'sd \<Rightarrow> bool"
    and receiver_ok :: "('s, 'a, 'w) test_env \<Rightarrow> 'rc \<Rightarrow> bool"
    and held :: "('s, 'a, 'w) test_env \<Rightarrow> 'sd \<Rightarrow> bytes multiset"
    and progress :: "'rc \<Rightarrow> nat \<times> bytes option"
    and msg :: "('s, 'a, 'w) test_env \<Rightarrow> bytes \<Rightarrow> 'm"
    and packet :: "nat \<Rightarrow> bytes" and npackets :: nat
  assumes some_packets: "0 < npackets"
    and next_packet: "env_ok E \<Longrightarrow> receiver_ok E a \<Longrightarrow>
      \<exists>a' rq. th_next_packet (H E) a = Ret (a', rq) \<and> receiver_ok E a' \<and>
        (snd (progress a) = None \<longrightarrow> next_asked (msg E) packet npackets (progress a) rq (progress a'))"
    and send_data: "env_ok E \<Longrightarrow> sender_ok E b \<Longrightarrow>
      th_send_data (H E) (msg E d) b w = Some (b', rs, w') \<Longrightarrow>
      sender_ok E b' \<and> sent_on E (held E b + {#d#}) w (held E b') w' rs"
    and send_ready: "env_ok E \<Longrightarrow> sender_ok E b \<Longrightarrow>
      th_send_ready (H E) b w = Some (b', rs, w') \<Longrightarrow>
      sender_ok E b' \<and> sent_on E (held E b) w (held E b') w' rs"
    and recv_no_panic: "env_ok E \<Longrightarrow> receiver_ok E a \<Longrightarrow>
      te_flight E w \<subseteq># awaited (snd (progress a)) \<Longrightarrow> th_recv_ready (H E) a w \<noteq> Some Panic"
    and recv_ready: "env_ok E \<Longrightarrow> receiver_ok E a \<Longrightarrow>
      te_flight E w \<subseteq># awaited (snd (progress a)) \<Longrightarrow>
      th_recv_ready (H E) a w = Some (Ret (a', rq, w')) \<Longrightarrow>
      receiver_ok E a' \<and> received_on E (msg E) packet npackets (progress a) w rq (progress a') w'"
begin

definition starts :: "('s, 'a, 'w) test_env \<Rightarrow> ('sd, 'rc, 'm, 'w) test_state \<Rightarrow> bool" where
  "starts E s \<longleftrightarrow> sender_ok E (ts_sender s) \<and> receiver_ok E (ts_receiver s) \<and>
     held E (ts_sender s) = {#} \<and> progress (ts_receiver s) = (0, None) \<and>
     ts_calls s = [TqNextPacket] \<and> ts_ends s = [] \<and>
     te_flight E (ts_world s) = {#} \<and> te_got E (ts_world s) = []"

text \<open>The packets received after \<open>k\<close> of them, as far as they fit into the buffer.\<close>

definition received :: "nat \<Rightarrow> bytes list" where
  "received k = map (\<lambda>i. take 1024 (packet i)) [0..<k]"

definition phase ::
  "('s, 'a, 'w) test_env \<Rightarrow> progress \<Rightarrow> 'm test_request list \<Rightarrow> bytes list \<Rightarrow> bytes list \<Rightarrow> bool \<Rightarrow> bool" where
  "phase E p calls ds gt stopped \<longleftrightarrow> (case p of
     (i, None) \<Rightarrow> ds = [] \<and> (if stopped then i = npackets \<and> calls = [] \<and> gt = received npackets
                     else i = 0 \<and> calls = [TqNextPacket] \<and> gt = [])
   | (i, Some m) \<Rightarrow> \<not> stopped \<and> (\<exists>k<npackets. i = Suc k \<and> m = packet k \<and> gt = received k) \<and>
       calls = map (TqSendData \<circ> msg E) ds)"

lemma phase_next:
  "phase E p (TqNextPacket # rest) ds gt stopped \<Longrightarrow>
     p = (0, None) \<and> rest = [] \<and> ds = [] \<and> gt = [] \<and> \<not> stopped"
  by (cases p; cases "snd p") (auto simp: phase_def Cons_eq_map_conv split: if_splits)

lemma phase_send:
  "phase E p (TqSendData m # rest) ds gt stopped \<Longrightarrow>
     \<exists>d ds'. ds = d # ds' \<and> m = msg E d \<and> phase E p rest ds' gt stopped"
  by (cases p; cases "snd p") (auto simp: phase_def Cons_eq_map_conv split: if_splits)

definition run_inv :: "('s, 'a, 'w) test_env \<Rightarrow> ('sd, 'rc, 'm, 'w) test_state \<Rightarrow> bool" where
  "run_inv E s \<longleftrightarrow> sender_ok E (ts_sender s) \<and> receiver_ok E (ts_receiver s) \<and>
     (\<exists>ds. te_flight E (ts_world s) + held E (ts_sender s) + mset ds
         \<subseteq># awaited (snd (progress (ts_receiver s))) \<and>
       phase E (progress (ts_receiver s)) (ts_calls s) ds (te_got E (ts_world s)) (TqStop \<in> set (ts_ends s)))"

lemma starts_inv: "starts E s \<Longrightarrow> run_inv E s"
  by (auto simp: starts_def run_inv_def phase_def)

lemma run_invE:
  assumes "run_inv E s"
  obtains ds where "sender_ok E (ts_sender s)" "receiver_ok E (ts_receiver s)"
    "te_flight E (ts_world s) + held E (ts_sender s) + mset ds \<subseteq># awaited (snd (progress (ts_receiver s)))"
    "phase E (progress (ts_receiver s)) (ts_calls s) ds (te_got E (ts_world s)) (TqStop \<in> set (ts_ends s))"
  using assms unfolding run_inv_def by blast

lemma sent_inv:
  assumes s: "run_inv E s" "sender_ok E b"
    and ds: "te_flight E (ts_world s) + held E (ts_sender s) + mset (xs @ ds)
        \<subseteq># awaited (snd (progress (ts_receiver s)))"
      "phase E (progress (ts_receiver s)) calls ds (te_got E (ts_world s)) (TqStop \<in> set (ts_ends s))"
    and snt: "sent_on E (held E (ts_sender s) + mset xs) (ts_world s) (held E b) w rq"
  shows "run_inv E (requested rq (s\<lparr>ts_sender := b, ts_calls := calls, ts_world := w\<rparr>))"
proof -
  have "te_flight E w + held E b + mset ds \<subseteq>#
      te_flight E (ts_world s) + (held E (ts_sender s) + mset xs) + mset ds"
    using snt unfolding sent_on_def by (intro subset_mset.add_right_mono) simp
  also have "\<dots> \<subseteq># awaited (snd (progress (ts_receiver s)))" using ds(1) by (simp add: ac_simps)
  finally show ?thesis
    using s ds(2) snt by (auto simp: run_inv_def sent_on_def intro!: exI [of _ ds])
qed

lemma received_inv:
  assumes s: "run_inv E s" "receiver_ok E rc"
    and rcv: "received_on E (msg E) packet npackets (progress (ts_receiver s)) (ts_world s) rq (progress rc) w"
  shows "run_inv E (requested rq (s\<lparr>ts_receiver := rc, ts_world := w\<rparr>))"
proof -
  from s(1) obtain ds where ds: "sender_ok E (ts_sender s)"
    "te_flight E (ts_world s) + held E (ts_sender s) + mset ds \<subseteq># awaited (snd (progress (ts_receiver s)))"
    "phase E (progress (ts_receiver s)) (ts_calls s) ds (te_got E (ts_world s)) (TqStop \<in> set (ts_ends s))"
    by (rule run_invE)
  from rcv show ?thesis unfolding received_on_def
  proof (elim disjE conjE exE)
    assume "progress rc = progress (ts_receiver s)" and q: "lossy E (ts_world s) w" "fails rq"
    moreover have "te_flight E w + (held E (ts_sender s) + mset ds) \<subseteq># awaited (snd (progress (ts_receiver s)))"
      using q(1) ds(2) unfolding lossy_def
      by (auto simp: add.assoc intro: subset_mset.order_trans [OF subset_mset.add_right_mono])
    ultimately show ?thesis using s(2) ds by (auto simp: run_inv_def lossy_def add.assoc intro!: exI [of _ ds])
  next
    fix m rq1 rq2
    assume m: "snd (progress (ts_receiver s)) = Some m" "te_flight E (ts_world s) = {#m#}" "te_flight E w = {#}"
      "te_got E w = te_got E (ts_world s) @ [take 1024 m]" "rq = rq1 @ rq2"
      "next_asked (msg E) packet npackets (progress (ts_receiver s)) rq1 (progress rc)" "fails rq2"
    then obtain i where p: "progress (ts_receiver s) = (i, Some m)" by (cases "progress (ts_receiver s)") simp
    with ds m(2) have h: "held E (ts_sender s) = {#}" "ds = []" "TqStop \<notin> set (ts_ends s)" "ts_calls s = []"
      by (auto simp: phase_def)
    from ds(3) p obtain k where k: "k < npackets" "i = Suc k" "m = packet k" "te_got E (ts_world s) = received k"
      by (auto simp: phase_def)
    show ?thesis
    proof (cases "i < npackets")
      case True
      with m p k h s(2) ds(1) show ?thesis
        by (auto simp: run_inv_def phase_def next_asked_def received_def intro!: exI [of _ "[packet i]"])
    next
      case False
      with k have i: "i = npackets" by simp
      have "te_got E w = received i" using m(4) k by (simp add: received_def)
      with m(2-) p i h s(2) ds(1) show ?thesis
        by (simp add: run_inv_def phase_def next_asked_def)
    qed
  qed
qed

lemma step_inv:
  assumes step: "test_step (H E) (lossy E) s t" and s: "run_inv E s" and E: "env_ok E"
  shows "run_inv E t"
proof -
  from s obtain ds where ds: "sender_ok E (ts_sender s)" "receiver_ok E (ts_receiver s)"
    "te_flight E (ts_world s) + held E (ts_sender s) + mset ds \<subseteq># awaited (snd (progress (ts_receiver s)))"
    "phase E (progress (ts_receiver s)) (ts_calls s) ds (te_got E (ts_world s)) (TqStop \<in> set (ts_ends s))"
    by (rule run_invE)
  from step show ?thesis
  proof cases
    case (test_next rest rc rq)
    from phase_next [OF ds(4) [unfolded test_next(3)]] have
      p: "progress (ts_receiver s) = (0, None)" "rest = []" "ds = []" "te_got E (ts_world s) = []" by simp_all
    from next_packet [OF E ds(2)] test_next(4) p(1) have
      "receiver_ok E rc" "next_asked (msg E) packet npackets (0, None) rq (progress rc)" by auto
    with test_next(1,2) ds p some_packets show ?thesis
      by (auto simp: run_inv_def phase_def next_asked_def received_def intro!: exI [of _ "[packet 0]"])
  next
    case (test_send m rest b rq w)
    from phase_send [OF ds(4) [unfolded test_send(3)]] obtain d ds' where d: "ds = d # ds'" "m = msg E d"
      "phase E (progress (ts_receiver s)) rest ds' (te_got E (ts_world s)) (TqStop \<in> set (ts_ends s))" by blast
    from send_data [OF E ds(1) test_send(4) [unfolded d(2)]] ds(3) d show ?thesis
      unfolding test_send(1) by (intro sent_inv [OF s, of _ "[d]" ds']) simp_all
  next
    case (test_send_ready b rq w)
    from send_ready [OF E ds(1) test_send_ready(3)] sent_inv [OF s, of b "[]" ds "ts_calls s" w rq] ds(3,4)
    show ?thesis unfolding test_send_ready(1) by simp
  next
    case (test_recv_ready rc rq w)
    have "te_flight E (ts_world s) \<subseteq># awaited (snd (progress (ts_receiver s)))"
      using ds(3) by (auto simp: add.assoc intro: subset_mset.order_trans [OF mset_subset_eq_add_left])
    from recv_ready [OF E ds(2) this test_recv_ready(3)] received_inv [OF s] show ?thesis
      unfolding test_recv_ready(1) by blast
  next
    case (test_net w)
    then have "te_flight E w + (held E (ts_sender s) + mset ds) \<subseteq># awaited (snd (progress (ts_receiver s)))"
      using ds(3) unfolding lossy_def
      by (auto simp: add.assoc intro: subset_mset.order_trans [OF subset_mset.add_right_mono])
    with ds test_net show ?thesis by (auto simp: run_inv_def lossy_def add.assoc intro!: exI [of _ ds])
  qed
qed

lemma reachable_inv:
  assumes "test_reachable (H E) (lossy E) (starts E) s" "env_ok E"
  shows "run_inv E s"
  using assms by induction (auto intro: starts_inv step_inv)

section \<open>Safety\<close>

text \<open>No assertion fails, and the packets arrive in order.\<close>

lemma never_panics:
  assumes "test_reachable (H E) (lossy E) (starts E) s" "env_ok E"
  shows "th_recv_ready (H E) (ts_receiver s) (ts_world s) \<noteq> Some Panic"
    "th_next_packet (H E) (ts_receiver s) \<noteq> Panic"
proof -
  from reachable_inv [OF assms] obtain ds where ds: "receiver_ok E (ts_receiver s)"
    "te_flight E (ts_world s) + held E (ts_sender s) + mset ds \<subseteq># awaited (snd (progress (ts_receiver s)))"
    by (rule run_invE)
  then have "te_flight E (ts_world s) \<subseteq># awaited (snd (progress (ts_receiver s)))"
    by (auto simp: add.assoc intro: subset_mset.order_trans [OF mset_subset_eq_add_left])
  from recv_no_panic [OF assms(2) ds(1) this] next_packet [OF assms(2) ds(1)]
  show "th_recv_ready (H E) (ts_receiver s) (ts_world s) \<noteq> Some Panic"
    "th_next_packet (H E) (ts_receiver s) \<noteq> Panic" by auto
qed

lemma receives_in_order:
  assumes "test_reachable (H E) (lossy E) (starts E) s" "env_ok E"
  shows "\<exists>k\<le>npackets. te_got E (ts_world s) = received k \<and> (TqStop \<in> set (ts_ends s) \<longrightarrow> k = npackets)"
proof -
  from reachable_inv [OF assms] obtain ds where
    ph: "phase E (progress (ts_receiver s)) (ts_calls s) ds (te_got E (ts_world s)) (TqStop \<in> set (ts_ends s))"
    by (rule run_invE)
  obtain i wt where p: "progress (ts_receiver s) = (i, wt)" by (rule prod.exhaust)
  show ?thesis
  proof (cases wt)
    case None
    with ph p show ?thesis by (auto simp: phase_def received_def split: if_splits)
  next
    case (Some m)
    with ph p obtain k where "k < npackets" "te_got E (ts_world s) = received k" "TqStop \<notin> set (ts_ends s)"
      by (auto simp: phase_def)
    then show ?thesis by (intro exI [of _ k]) simp
  qed
qed

end

section \<open>Completion\<close>

text \<open>On a network that loses nothing and takes every packet at once, the test always can be completed.\<close>

locale reliable_packet_test =
  packet_test env_ok H sender_ok receiver_ok held progress msg packet npackets
  for env_ok :: "('s, 'a, 'w) test_env \<Rightarrow> bool"
    and H :: "('s, 'a, 'w) test_env \<Rightarrow> ('sd, 'rc, 'm, 'w) test_handlers"
    and sender_ok receiver_ok held progress msg packet npackets +
  fixes reliable :: "('s, 'a, 'w) test_env \<Rightarrow> bool"
  assumes reliable_ok: "reliable E \<Longrightarrow> env_ok E"
    and data_sent: "reliable E \<Longrightarrow> sender_ok E b \<Longrightarrow>
      \<exists>b' w'. th_send_data (H E) (msg E d) b w = Some (b', [], w') \<and>
        te_flight E w' = te_flight E w + held E b + {#d#} \<and> held E b' = {#}"
    and queue_sent: "reliable E \<Longrightarrow> sender_ok E b \<Longrightarrow>
      \<exists>b' w'. th_send_ready (H E) b w = Some (b', [], w') \<and>
        te_flight E w' = te_flight E w + held E b \<and> held E b' = {#}"
    and all_received: "reliable E \<Longrightarrow> receiver_ok E a \<Longrightarrow> te_flight E w \<subseteq># awaited (snd (progress a)) \<Longrightarrow>
      \<exists>a' rq w'. th_recv_ready (H E) a w = Some (Ret (a', rq, w')) \<and> te_flight E w' = {#} \<and>
        (if te_flight E w = {#} then progress a' = progress a \<and> rq = []
         else next_asked (msg E) packet npackets (progress a) rq (progress a'))"
begin

text \<open>Nothing is lost: the packet awaited is under way or about to be sent, and no handler fails.\<close>

definition exact :: "('s, 'a, 'w) test_env \<Rightarrow> ('sd, 'rc, 'm, 'w) test_state \<Rightarrow> bool" where
  "exact E s \<longleftrightarrow> run_inv E s \<and> held E (ts_sender s) = {#} \<and>
     (case progress (ts_receiver s) of
        (i, None) \<Rightarrow> te_flight E (ts_world s) = {#} \<and> (if i = 0 then ts_ends s = [] else ts_ends s = [TqStop])
      | (i, Some m) \<Rightarrow> ts_ends s = [] \<and>
          (te_flight E (ts_world s) = {#m#} \<and> ts_calls s = [] \<or>
           te_flight E (ts_world s) = {#} \<and> ts_calls s = [TqSendData (msg E m)]))"

lemma starts_exact: "starts E s \<Longrightarrow> exact E s"
  using starts_inv [of E s] by (simp add: exact_def starts_def)

lemma exact_end: "exact E s \<Longrightarrow> ts_ends s \<noteq> [] \<Longrightarrow> ts_ends s = [TqStop]"
  by (auto simp: exact_def split: prod.splits option.splits if_splits)

lemma lossless_step: "test_step (H E) (lossless E) s t \<Longrightarrow> test_step (H E) (lossy E) s t"
  by (induction rule: test_step.induct) (auto intro: test_step.intros lossless_lossy)

lemma exact_flight:
  "exact E s \<Longrightarrow> te_flight E (ts_world s) \<subseteq># awaited (snd (progress (ts_receiver s)))"
  by (auto simp: exact_def split: prod.splits option.splits)

text \<open>The steps that bring the test forward, and those that change nothing.\<close>

lemma exact_send:
  assumes "reliable E" "exact E s" "ts_calls s = TqSendData x # rest"
  obtains m b w where "snd (progress (ts_receiver s)) = Some m" "x = msg E m" "rest = []"
    "th_send_data (H E) x (ts_sender s) (ts_world s) = Some (b, [], w)" "te_flight E w = {#m#}" "held E b = {#}"
    "ts_ends s = []"
proof -
  have ok: "sender_ok E (ts_sender s)" using assms(2) by (simp add: exact_def run_inv_def)
  obtain i wt where p: "progress (ts_receiver s) = (i, wt)" by (rule prod.exhaust)
  from assms(2) obtain ds where ph: "phase E (i, wt) (TqSendData x # rest) ds (te_got E (ts_world s))
      (TqStop \<in> set (ts_ends s))" unfolding exact_def run_inv_def p assms(3) by blast
  then obtain m where wt: "wt = Some m" by (cases wt) (auto simp: phase_def split: if_splits)
  from assms(2,3) p wt have m: "x = msg E m" "rest = []" "te_flight E (ts_world s) = {#}" "ts_ends s = []"
    "held E (ts_sender s) = {#}" by (auto simp: exact_def)
  from data_sent [OF assms(1) ok, of m "ts_world s"] obtain b w where
    "th_send_data (H E) (msg E m) (ts_sender s) (ts_world s) = Some (b, [], w)" "te_flight E w = {#m#}" "held E b = {#}"
    using m by auto
  with m p wt that show thesis by simp
qed

lemma exact_recv:
  assumes "reliable E" "exact E s"
  obtains rc rq w where "th_recv_ready (H E) (ts_receiver s) (ts_world s) = Some (Ret (rc, rq, w))"
    "te_flight E w = {#}" "if te_flight E (ts_world s) = {#} then progress rc = progress (ts_receiver s) \<and> rq = []
      else next_asked (msg E) packet npackets (progress (ts_receiver s)) rq (progress rc)"
proof -
  have "receiver_ok E (ts_receiver s)" using assms(2) by (simp add: exact_def run_inv_def)
  from all_received [OF assms(1) this exact_flight [OF assms(2)]] show thesis
    by (elim exE conjE) (rule that)
qed

lemma exact_step:
  assumes step: "test_step (H E) (lossless E) s t" and s: "exact E s" and E: "reliable E"
  shows "exact E t"
proof -
  have inv: "run_inv E s" using s by (simp add: exact_def)
  have t: "run_inv E t" by (rule step_inv [OF lossless_step [OF step] inv reliable_ok [OF E]])
  from inv obtain ds where ok: "sender_ok E (ts_sender s)" "receiver_ok E (ts_receiver s)"
    "phase E (progress (ts_receiver s)) (ts_calls s) ds (te_got E (ts_world s)) (TqStop \<in> set (ts_ends s))"
    by (rule run_invE)
  from step show ?thesis
  proof cases
    case (test_next rest rc rq)
    from phase_next [OF ok(3) [unfolded test_next(3)]] have p: "progress (ts_receiver s) = (0, None)" "rest = []"
      by simp_all
    from next_packet [OF reliable_ok [OF E] ok(2)] test_next(4) p(1) have
      "next_asked (msg E) packet npackets (0, None) rq (progress rc)" by auto
    with t s p some_packets show ?thesis unfolding test_next(1) by (simp add: exact_def next_asked_def)
  next
    case (test_send x rest b rq w)
    obtain m b' w' where m: "snd (progress (ts_receiver s)) = Some m" "rest = []"
      "th_send_data (H E) x (ts_sender s) (ts_world s) = Some (b', [], w')" "te_flight E w' = {#m#}" "held E b' = {#}"
      "ts_ends s = []" by (rule exact_send [OF E s test_send(3)])
    with t test_send(4) show ?thesis unfolding test_send(1)
      by (cases "progress (ts_receiver s)") (simp add: exact_def)
  next
    case (test_send_ready b rq w)
    from queue_sent [OF E ok(1), of "ts_world s"] test_send_ready(3) t s show ?thesis
      unfolding test_send_ready(1) by (simp add: exact_def split: prod.splits option.splits)
  next
    case (test_recv_ready rc rq w)
    obtain rc' rq' w' where r: "th_recv_ready (H E) (ts_receiver s) (ts_world s) = Some (Ret (rc', rq', w'))"
      "te_flight E w' = {#}" "if te_flight E (ts_world s) = {#} then progress rc' = progress (ts_receiver s) \<and> rq' = []
        else next_asked (msg E) packet npackets (progress (ts_receiver s)) rq' (progress rc')"
      by (rule exact_recv [OF E s])
    with test_recv_ready(3) have eq: "rc' = rc" "rq' = rq" "w' = w" by simp_all
    show ?thesis
    proof (cases "te_flight E (ts_world s) = {#}")
      case True
      with r eq t s show ?thesis unfolding test_recv_ready(1)
        by (simp add: exact_def split: prod.splits option.splits if_splits)
    next
      case False
      with s obtain i m where "progress (ts_receiver s) = (i, Some m)" "ts_ends s = []" "ts_calls s = []"
        by (auto simp: exact_def split: prod.splits option.splits)
      moreover from this ok(3) have "0 < i" by (auto simp: phase_def)
      ultimately show ?thesis using False r eq t s unfolding test_recv_ready(1)
        by (auto simp: exact_def next_asked_def split: if_splits)
    qed
  next
    case (test_net w)
    with t s show ?thesis by (simp add: exact_def lossless_def split: prod.splits option.splits)
  qed
qed

lemma reachable_exact:
  assumes "test_reachable (H E) (lossless E) (starts E) s" "reliable E"
  shows "exact E s"
  using assms by induction (auto intro: starts_exact exact_step)

text \<open>The test ends after finitely many of the steps that bring it forward.\<close>

abbreviation completed :: "('s, 'a, 'w) test_env \<Rightarrow> ('sd, 'rc, 'm, 'w) test_state \<Rightarrow> bool" where
  "completed E s \<equiv> \<exists>t. (test_step (H E) (lossless E))\<^sup>*\<^sup>* s t \<and> ts_ends t = [TqStop]"

lemma completed_step: "test_step (H E) (lossless E) s t \<Longrightarrow> completed E t \<Longrightarrow> completed E s"
  by (blast intro: converse_rtranclp_into_rtranclp)

lemma completes_from:
  assumes E: "reliable E" and "exact E s"
  shows "completed E s"
  using assms(2)
proof (induction "2 * (npackets - fst (progress (ts_receiver s))) +
    (if te_flight E (ts_world s) = {#} then 1 else 0)" arbitrary: s rule: less_induct)
  case less
  note s = less.prems
  let ?m = "\<lambda>s. 2 * (npackets - fst (progress (ts_receiver s))) + (if te_flight E (ts_world s) = {#} then 1 else 0)"
  have IH: "completed E s" if "test_step (H E) (lossless E) s t" "?m t < ?m s" for t
    by (rule completed_step [OF that(1) less.hyps [OF that(2) exact_step [OF that(1) s E]]])
  from s obtain ds where ok: "receiver_ok E (ts_receiver s)"
    "phase E (progress (ts_receiver s)) (ts_calls s) ds (te_got E (ts_world s)) (TqStop \<in> set (ts_ends s))"
    unfolding exact_def run_inv_def by blast
  show ?case
  proof (cases "ts_ends s = []")
    case False
    with exact_end [OF s] show ?thesis by blast
  next
    case True
    show ?thesis
    proof (cases "snd (progress (ts_receiver s))")
      case None
      with ok(2) True have p: "ts_calls s = [TqNextPacket]" "progress (ts_receiver s) = (0, None)"
        by (auto simp: phase_def split: prod.splits)
      from next_packet [OF reliable_ok [OF E] ok(1)] p(2) some_packets obtain rc rq where
        r: "th_next_packet (H E) (ts_receiver s) = Ret (rc, rq)" "progress rc = (1, Some (packet 0))"
        by (auto simp: next_asked_def)
      show ?thesis
        by (rule IH [OF test_next [OF True p(1) r(1)]]) (use r(2) p(2) some_packets in simp)
    next
      case (Some m)
      then obtain i where p: "progress (ts_receiver s) = (i, Some m)" by (cases "progress (ts_receiver s)") simp
      with s consider "te_flight E (ts_world s) = {#}" "ts_calls s = [TqSendData (msg E m)]"
        | "te_flight E (ts_world s) = {#m#}" "ts_calls s = []" by (auto simp: exact_def)
      then show ?thesis
      proof cases
        case 1
        obtain m' b w where r: "snd (progress (ts_receiver s)) = Some m'"
          "th_send_data (H E) (msg E m) (ts_sender s) (ts_world s) = Some (b, [], w)" "te_flight E w = {#m'#}"
          by (rule exact_send [OF E s 1(2)])
        show ?thesis by (rule IH [OF test_send [OF True 1(2) r(2)]]) (use r(3) 1(1) in simp)
      next
        case 2
        obtain rc rq w where r: "th_recv_ready (H E) (ts_receiver s) (ts_world s) = Some (Ret (rc, rq, w))"
          "next_asked (msg E) packet npackets (i, Some m) rq (progress rc)"
          by (rule exact_recv [OF E s]) (use 2(1) p in auto)
        note step = test_recv_ready [OF True r(1), where quiet = "lossless E"]
        show ?thesis
        proof (cases "i < npackets")
          case True
          with r(2) have "fst (progress rc) = Suc i" by (simp add: next_asked_def)
          with True 2(1) p show ?thesis by (intro IH [OF step]) (simp, arith)
        next
          case False
          with r(2) step \<open>ts_ends s = []\<close> show ?thesis
            by (intro completed_step [OF step]) (auto simp: next_asked_def)
        qed
      qed
    qed
  qed
qed

lemma can_complete:
  assumes "test_reachable (H E) (lossless E) (starts E) s" "reliable E"
  shows "(\<exists>t. (test_step (H E) (lossless E))\<^sup>*\<^sup>* s t \<and> ts_ends t = [TqStop])
    \<and> (ts_ends s \<noteq> [] \<longrightarrow> ts_ends s = [TqStop] \<and> te_got E (ts_world s) = received npackets)"
proof (intro conjI impI)
  note s = reachable_exact [OF assms]
  show "\<exists>t. (test_step (H E) (lossless E))\<^sup>*\<^sup>* s t \<and> ts_ends t = [TqStop]"
    by (rule completes_from [OF assms(2) s])
  assume "ts_ends s \<noteq> []"
  from exact_end [OF s this] show stop: "ts_ends s = [TqStop]" .
  have "test_reachable (H E) (lossy E) (starts E) s"
    using assms(1) by induction (auto intro: test_reachable.intros lossless_step)
  from receives_in_order [OF this reliable_ok [OF assms(2)]] stop
  show "te_got E (ts_world s) = received npackets" by auto
qed

end

end
