(* ===== verification/Test_Udp.thy ===== *)
theory Test_Udp
  imports Test_Protocol
begin

text \<open>
  The test of src/test/udp.rs: the actors \<open>Sender\<close> and \<open>Receiver\<close> over two connected \<open>UdpQueue\<close>s. The
  data of the Receiver's field \<open>sender\<close>, the other actor, are the calls it requests. The buffer of
  the Receiver has 1024 bytes; some of the packets are longer, intentionally.
\<close>

section \<open>Sender\<close>

record 's udp_sender =
  sn_queue :: "'s udp_queue"

definition sender_setup ::
  "('sl, 'f entry) slab_ops \<Rightarrow> ('s, 'w) source_ops \<Rightarrow> interest \<Rightarrow> 'f \<Rightarrow> 's
    \<Rightarrow> ('sl, 'k) control \<times> 'w \<Rightarrow> ('s udp_sender io \<times> ('sl, 'k) control \<times> 'w) option" where
  "sender_setup S D writable fwd socket cw =
     (case mio_poll_add S D socket writable 10 fwd cw of
        None \<Rightarrow> None
      | Some (Inl e, cw1) \<Rightarrow> Some (Inl e, cw1)
      | Some (Inr source, cw1) \<Rightarrow>
          map_option (\<lambda>(q, cw2). (Inr \<lparr>sn_queue = q\<rparr>, cw2)) (uq_init S D source uq_new cw1))"

definition sender_init ::
  "('sl, 'f entry) slab_ops \<Rightarrow> ('s, 'w) source_ops \<Rightarrow> interest \<Rightarrow> 'f \<Rightarrow> 's \<Rightarrow> ('sl, 'k) control \<times> 'w
    \<Rightarrow> ('s udp_sender option \<times> bytes test_request list \<times> ('sl, 'k) control \<times> 'w) option" where
  "sender_init S D writable fwd socket cw =
     map_option (\<lambda>(r, cw1). case r of
         Inl e \<Rightarrow> (None, [TqFail (SetupError e)], cw1)
       | Inr this \<Rightarrow> (Some this, [], cw1)) (sender_setup S D writable fwd socket cw)"

definition sender_flush ::
  "('s, 'a, 'w) udp_ops \<Rightarrow> 's udp_sender \<Rightarrow> 'w \<Rightarrow> ('s udp_sender \<times> bytes test_request list \<times> 'w) option" where
  "sender_flush U a w =
     map_option (\<lambda>(r, q, w'). (a\<lparr>sn_queue := q\<rparr>,
         case r of Inl e \<Rightarrow> [TqFail (FlushError e)] | Inr _ \<Rightarrow> [], w'))
       (uq_flush U (sn_queue a) w)"

definition sender_ready ::
  "('s, 'a, 'w) udp_ops \<Rightarrow> 's udp_sender \<Rightarrow> 'w \<Rightarrow> ('s udp_sender \<times> bytes test_request list \<times> 'w) option" where
  "sender_ready U a w = sender_flush U a w"

definition sender_send_data ::
  "('s, 'a, 'w) udp_ops \<Rightarrow> bytes \<Rightarrow> 's udp_sender \<Rightarrow> 'w
    \<Rightarrow> ('s udp_sender \<times> bytes test_request list \<times> 'w) option" where
  "sender_send_data U data a w = sender_flush U (a\<lparr>sn_queue := uq_push data (sn_queue a)\<rparr>) w"

section \<open>Receiver\<close>

definition TEST_SIZES :: "nat list" where
  "TEST_SIZES = [999, 100, 1234, 410, 600, 2000, 751]"

record 's udp_receiver =
  rc_queue :: "'s udp_queue"
  rc_next_index :: nat
  rc_expecting :: "bytes option"

definition receiver_setup ::
  "('sl, 'f entry) slab_ops \<Rightarrow> ('s, 'w) source_ops \<Rightarrow> interest \<Rightarrow> 'f \<Rightarrow> 's \<Rightarrow> ('sl, 'k) control \<times> 'w
    \<Rightarrow> ('s udp_receiver io \<times> bytes test_request list \<times> ('sl, 'k) control \<times> 'w) option" where
  "receiver_setup S D readable fwd socket cw =
     (case mio_poll_add S D socket readable 10 fwd cw of
        None \<Rightarrow> None
      | Some (Inl e, cw1) \<Rightarrow> Some (Inl e, [], cw1)
      | Some (Inr source, cw1) \<Rightarrow>
          map_option (\<lambda>(q, cw2). (Inr \<lparr>rc_queue = q, rc_next_index = 0, rc_expecting = None\<rparr>, [TqNextPacket], cw2))
            (uq_init S D source uq_new cw1))"

definition receiver_init ::
  "('sl, 'f entry) slab_ops \<Rightarrow> ('s, 'w) source_ops \<Rightarrow> interest \<Rightarrow> 'f \<Rightarrow> 's \<Rightarrow> ('sl, 'k) control \<times> 'w
    \<Rightarrow> ('s udp_receiver option \<times> bytes test_request list \<times> ('sl, 'k) control \<times> 'w) option" where
  "receiver_init S D readable fwd socket cw =
     map_option (\<lambda>(r, rq, cw1). case r of
         Inl e \<Rightarrow> (None, rq @ [TqFail (SetupError e)], cw1)
       | Inr this \<Rightarrow> (Some this, rq, cw1)) (receiver_setup S D readable fwd socket cw)"

definition receiver_next_packet ::
  "rust_rt \<Rightarrow> 's udp_receiver \<Rightarrow> ('s udp_receiver \<times> bytes test_request list) outcome" where
  "receiver_next_packet rt a =
     (if length TEST_SIZES \<le> rc_next_index a then Ret (a, [TqStop])
      else obind (testdata rt (TEST_SIZES ! rc_next_index a) (word_of_nat (rc_next_index a))) (\<lambda>data.
           obind (usize_add rt (rc_next_index a) 1) (\<lambda>n.
             Ret (a\<lparr>rc_next_index := n, rc_expecting := Some data\<rparr>, [TqSendData data]))))"

text \<open>The loop of \<open>ready_aux\<close>, with the packet buffer and the requests made so far.\<close>

partial_function (option) receiver_loop ::
  "rust_rt \<Rightarrow> ('s, 'a, 'w) udp_ops \<Rightarrow> bytes \<Rightarrow> 's udp_receiver \<Rightarrow> bytes test_request list \<Rightarrow> 'w
    \<Rightarrow> (unit io \<times> 's udp_receiver \<times> bytes test_request list \<times> 'w) exec" where
  "receiver_loop rt U buf a rq w =
     (case uq_read U buf (rc_queue a) w of
        None \<Rightarrow> None
      | Some Panic \<Rightarrow> Some Panic
      | Some (Ret (Inl e, buf', w1)) \<Rightarrow> Some (Ret (Inl e, a, rq, w1))
      | Some (Ret (Inr None, buf', w1)) \<Rightarrow> Some (Ret (Inr (), a, rq, w1))
      | Some (Ret (Inr (Some sl), buf', w1)) \<Rightarrow>
          (case rc_expecting a of
             None \<Rightarrow> Some Panic
           | Some exp \<Rightarrow>
               if take (min (length exp) 1024) exp = sl then
                 (case receiver_next_packet rt (a\<lparr>rc_expecting := None\<rparr>) of
                    Panic \<Rightarrow> Some Panic
                  | Ret (a1, rq1) \<Rightarrow> receiver_loop rt U buf' a1 (rq @ rq1) w1)
               else Some Panic))"

declare receiver_loop.simps [code]

definition receiver_ready ::
  "rust_rt \<Rightarrow> ('s, 'a, 'w) udp_ops \<Rightarrow> 's udp_receiver \<Rightarrow> 'w
    \<Rightarrow> ('s udp_receiver \<times> bytes test_request list \<times> 'w) exec" where
  "receiver_ready rt U a w =
     ebind (receiver_loop rt U (replicate 1024 0) a [] w) (\<lambda>(r, a', rq, w').
       Some (Ret (a', case r of Inl e \<Rightarrow> rq @ [TqFail (PacketError e)] | Inr _ \<Rightarrow> rq, w')))"

section \<open>The sockets\<close>

text \<open>
  A packet that does not fit is not reported as an error, which is how it is outside Windows.
\<close>

definition udp_pair_ok :: "('s, 'a, 'w) test_env \<Rightarrow> bool" where
  "udp_pair_ok E \<longleftrightarrow>
     sends_ok E (udp_send (te_udp E) (te_send_sock E)) length (\<lambda>p. {#p#}) \<and>
     (\<forall>buf w r buf' w'. udp_recv (te_udp E) (te_recv_sock E) buf w = (r, buf', w') \<longrightarrow>
        length buf' = length buf \<and>
        (case r of Inl e \<Rightarrow> \<not> truncated e \<and> lossy E w w' | Inr n \<Rightarrow> takes_packet E buf w n buf' w'))"

text \<open>Nothing is lost, nothing blocks and nothing is interrupted, except for want of a packet.\<close>

definition udp_pair_reliable :: "('s, 'a, 'w) test_env \<Rightarrow> bool" where
  "udp_pair_reliable E \<longleftrightarrow> udp_pair_ok E \<and>
     sends_at_once E (udp_send (te_udp E) (te_send_sock E)) length (\<lambda>p. {#p#}) \<and>
     (\<forall>buf w r buf' w'. udp_recv (te_udp E) (te_recv_sock E) buf w = (r, buf', w') \<longrightarrow>
        (case r of Inl e \<Rightarrow> err_kind e = WouldBlock \<and> te_flight E w = {#}
         | Inr n \<Rightarrow> True))"

section \<open>Reading\<close>

text \<open>What a read of the Receiver brings.\<close>

definition udp_read_ok :: "('s, 'a, 'w) test_env \<Rightarrow> nat \<Rightarrow> 'w \<Rightarrow> bytes option io \<Rightarrow> 'w \<Rightarrow> bool" where
  "udp_read_ok E len w r w' \<longleftrightarrow> (case r of Inr (Some sl) \<Rightarrow> takes_slice E len w sl w' | _ \<Rightarrow> lossy E w w')"

lemma uq_read_result:
  assumes E: "udp_pair_ok E" and q: "uq_socket q = Some ms" "ms_source ms = te_recv_sock E"
    and run: "uq_read (te_udp E) buf q w = Some res"
  obtains r buf' w' where "res = Ret (r, buf', w')" "length buf' = length buf" "udp_read_ok E (length buf) w r w'"
proof -
  let ?recv = "udp_recv (te_udp E) (te_recv_sock E)"
  let ?call = "recv_call (te_udp E) (te_recv_sock E)"
  have ok: "length b' = length b \<and>
      (case r of Inl e \<Rightarrow> \<not> truncated e \<and> lossy E w w' | Inr n \<Rightarrow> takes_packet E b w n b' w')"
    if "?recv b w = (r, b', w')" for b w r b' w'
    using E that unfolding udp_pair_ok_def by blast
  from run q obtain r b' w' where r: "retry ?call (buf, w) = Some (r, b', w')"
    "res = obind (recv_answer r b') (\<lambda>a. Ret (a, b', w'))"
    by (auto simp: uq_read_def uq_recv_loop_retry)
  obtain b1 w1 where last: "length b1 = length buf" "lossy E w w1" "?recv b1 w1 = (r, b', w')"
  proof (rule retry_final_call [OF r(1), where I = "\<lambda>(b1, w1). length b1 = length buf \<and> lossy E w w1"])
    fix s
    assume s: "case s of (b1, w1) \<Rightarrow> length b1 = length buf \<and> lossy E w w1" "interrupted (fst (?call s))"
    obtain b1 w1 where bw: "s = (b1, w1)" by (rule prod.exhaust)
    obtain r2 b2 w2 where step: "?recv b1 w1 = (r2, b2, w2)" by (rule prod_cases3)
    with s bw ok [OF step] show "case snd (?call s) of (b1, w1) \<Rightarrow> length b1 = length buf \<and> lossy E w w1"
      by (auto elim!: interruptedE intro: lossy_trans)
  qed (use that in auto)
  note got = ok [OF last(3)]
  show thesis
  proof (cases r)
    case (Inl e)
    with got last r(2) show thesis
      by (intro that [of "if err_kind e = WouldBlock then Inr None else Inl e" b' w'])
        (auto simp: recv_answer_def udp_read_ok_def intro: lossy_trans)
  next
    case (Inr n)
    with got last have "takes_slice E (length buf) w (take n b') w'" "n \<le> length b'"
      by (auto intro: takes_packet_slice dest: takes_packet_le)
    with Inr got last r(2) show thesis
      by (intro that [of "Inr (Some (take n b'))" b' w']) (auto simp: recv_answer_def udp_read_ok_def)
  qed
qed

section \<open>The laws\<close>

definition udp_test ::
  "('s, 'a, 'w) test_env \<Rightarrow> ('s udp_sender, 's udp_receiver, bytes, 'w) test_handlers" where
  "udp_test E = \<lparr>th_send_ready = sender_ready (te_udp E), th_send_data = sender_send_data (te_udp E),
     th_recv_ready = receiver_ready (te_rt E) (te_udp E), th_next_packet = receiver_next_packet (te_rt E)\<rparr>"

lemma udp_test_sel [simp]:
  "th_send_ready (udp_test E) = sender_ready (te_udp E)"
  "th_send_data (udp_test E) = sender_send_data (te_udp E)"
  "th_recv_ready (udp_test E) = receiver_ready (te_rt E) (te_udp E)"
  "th_next_packet (udp_test E) = receiver_next_packet (te_rt E)"
  by (simp_all add: udp_test_def)

definition udp_sender_ok :: "('s, 'a, 'w) test_env \<Rightarrow> 's udp_sender \<Rightarrow> bool" where
  "udp_sender_ok E a \<longleftrightarrow> has_socket (uq_socket (sn_queue a)) (te_send_sock E)"

definition udp_receiver_ok :: "('s, 'a, 'w) test_env \<Rightarrow> 's udp_receiver \<Rightarrow> bool" where
  "udp_receiver_ok E a \<longleftrightarrow> has_socket (uq_socket (rc_queue a)) (te_recv_sock E) \<and> rc_next_index a \<le> 7"

definition udp_held :: "('s, 'a, 'w) test_env \<Rightarrow> 's udp_sender \<Rightarrow> bytes multiset" where
  "udp_held E a = sum_list (map (\<lambda>p. {#p#}) (uq_out (sn_queue a)))"

definition udp_progress :: "'s udp_receiver \<Rightarrow> progress" where
  "udp_progress a = (rc_next_index a, rc_expecting a)"

lemma sender_flush_law:
  assumes "udp_pair_ok E" "udp_sender_ok E a" "sender_flush (te_udp E) a w = Some (a', rq, w')"
  shows "udp_sender_ok E a' \<and> sent_on E (udp_held E a) w (udp_held E a') w' rq"
proof -
  from assms(2,3) obtain ms r out where run: "uq_socket (sn_queue a) = Some ms" "ms_source ms = te_send_sock E"
    "uq_flush_loop (te_udp E) (te_send_sock E) (uq_out (sn_queue a)) w = Some (r, out, w')"
    "a' = a\<lparr>sn_queue := (sn_queue a)\<lparr>uq_out := out\<rparr>\<rparr>" "rq = (case r of Inl e \<Rightarrow> [TqFail (FlushError e)] | Inr _ \<Rightarrow> [])"
    by (auto simp: sender_flush_def uq_flush_def udp_sender_ok_def has_socket_def)
  have "sends_ok E (udp_send (te_udp E) (te_send_sock E)) length (\<lambda>p. {#p#})"
    using assms(1) by (simp add: udp_pair_ok_def)
  from udp_queue.flush_in_flight [OF this run(3)] run show ?thesis
    by (auto simp: sent_on_def udp_held_def udp_sender_ok_def has_socket_def split: sum.splits)
qed

lemma sender_flush_at_once:
  assumes "udp_pair_reliable E" "udp_sender_ok E a"
  shows "\<exists>a' w'. sender_flush (te_udp E) a w = Some (a', [], w') \<and>
    te_flight E w' = te_flight E w + udp_held E a \<and> udp_held E a' = {#}"
proof -
  have "sends_at_once E (udp_send (te_udp E) (te_send_sock E)) length (\<lambda>p. {#p#})"
    using assms(1) by (simp add: udp_pair_reliable_def)
  from udp_queue.flush_at_once [OF this, of "uq_out (sn_queue a)" w] assms(2) show ?thesis
    by (auto simp: sender_flush_def uq_flush_def udp_sender_ok_def has_socket_def udp_held_def)
qed

lemma uq_push_held: "udp_held E (a\<lparr>sn_queue := uq_push d (sn_queue a)\<rparr>) = udp_held E a + {#d#}"
  "udp_sender_ok E (a\<lparr>sn_queue := uq_push d (sn_queue a)\<rparr>) = udp_sender_ok E a"
  by (simp_all add: udp_held_def uq_push_def udp_sender_ok_def)

lemma length_TEST_SIZES [simp]: "length TEST_SIZES = 7"
  by (simp add: TEST_SIZES_def)

lemma TEST_SIZES_small: "i < 7 \<Longrightarrow> TEST_SIZES ! i * 19 < usize_bound"
proof -
  have "\<forall>n\<in>set TEST_SIZES. n * 19 < usize_bound" by (simp add: TEST_SIZES_def usize_bound_def)
  then show "i < 7 \<Longrightarrow> ?thesis" using nth_mem [of i TEST_SIZES] by simp
qed

lemma receiver_next_packet_law:
  assumes "udp_receiver_ok E a"
  obtains a' rq where "receiver_next_packet rt a = Ret (a', rq)" "udp_receiver_ok E a'"
    "rc_expecting a = None \<Longrightarrow> next_asked (\<lambda>d. d) (test_packet TEST_SIZES) 7 (udp_progress a) rq (udp_progress a')"
proof -
  have "usize_add rt (rc_next_index a) 1 = Ret (rc_next_index a + 1)"
    using assms(1) by (intro usize_add_in_range) (simp add: udp_receiver_ok_def usize_bound_def)
  with assms show thesis
    by (cases "rc_next_index a < 7")
      (auto intro!: that simp: receiver_next_packet_def testdata_runs TEST_SIZES_small udp_receiver_ok_def
        next_asked_def udp_progress_def test_packet_def)
qed

text \<open>Reading while nothing is under way, and while at most the packet awaited is.\<close>

lemma receiver_loop_idle:
  assumes E: "udp_pair_ok E" and a: "udp_receiver_ok E a" and w: "te_flight E w = {#}"
    and run: "receiver_loop rt (te_udp E) buf a rq w = Some res"
  shows "\<exists>r w'. res = Ret (r, a, rq, w') \<and> lossy E w w'"
proof -
  from a obtain ms where ms: "uq_socket (rc_queue a) = Some ms" "ms_source ms = te_recv_sock E"
    by (auto simp: udp_receiver_ok_def has_socket_def)
  from run have "uq_read (te_udp E) buf (rc_queue a) w \<noteq> None"
    by (subst (asm) receiver_loop.simps) (auto split: option.splits)
  then obtain rd where rd: "uq_read (te_udp E) buf (rc_queue a) w = Some rd" by blast
  obtain r buf' w' where r: "rd = Ret (r, buf', w')" "udp_read_ok E (length buf) w r w'"
    by (rule uq_read_result [OF E ms rd])
  with w run rd show ?thesis
    by (subst (asm) receiver_loop.simps) (auto simp: udp_read_ok_def split: sum.splits option.splits)
qed

lemma receiver_loop_law:
  assumes E: "udp_pair_ok E" and a: "udp_receiver_ok E a" and len: "length buf = 1024"
    and w: "te_flight E w \<subseteq># awaited (rc_expecting a)"
    and run: "receiver_loop rt (te_udp E) buf a [] w = Some res"
  shows "\<exists>r a' rq w'. res = Ret (r, a', rq, w') \<and> udp_receiver_ok E a' \<and>
    received_on E (\<lambda>d. d) (test_packet TEST_SIZES) 7 (udp_progress a) w rq (udp_progress a') w'"
proof -
  from a obtain ms where ms: "uq_socket (rc_queue a) = Some ms" "ms_source ms = te_recv_sock E"
    by (auto simp: udp_receiver_ok_def has_socket_def)
  from run have "uq_read (te_udp E) buf (rc_queue a) w \<noteq> None"
    by (subst (asm) receiver_loop.simps) (auto split: option.splits)
  then obtain rd where rd: "uq_read (te_udp E) buf (rc_queue a) w = Some rd" by blast
  obtain r buf' w1 where r: "rd = Ret (r, buf', w1)" "udp_read_ok E (length buf) w r w1"
    by (rule uq_read_result [OF E ms rd])
  show ?thesis
  proof (cases "\<exists>sl. r = Inr (Some sl)")
    case False
    with r run rd a show ?thesis
      by (subst (asm) receiver_loop.simps) (auto simp: received_on_def udp_read_ok_def split: sum.splits option.splits)
  next
    case True
    then obtain sl where sl: "r = Inr (Some sl)" "takes_slice E 1024 w sl w1"
      using r(2) len by (auto simp: udp_read_ok_def)
    obtain m where m: "rc_expecting a = Some m" "te_flight E w1 = {#}" "r = Inr (Some (take 1024 m))"
      "te_got E w1 = te_got E w @ [take 1024 m]" "te_flight E w = {#m#}"
      by (rule takes_awaited [OF sl(2) w]) (use sl(1) that in simp)
    let ?a = "a\<lparr>rc_expecting := None\<rparr>"
    have a': "udp_receiver_ok E ?a" using a by (simp add: udp_receiver_ok_def)
    obtain a1 rq1 where n: "receiver_next_packet rt ?a = Ret (a1, rq1)" "udp_receiver_ok E a1"
      "next_asked (\<lambda>d. d) (test_packet TEST_SIZES) 7 (udp_progress ?a) rq1 (udp_progress a1)"
      by (rule receiver_next_packet_law [OF a', of rt]) simp
    have "take (min (length m) 1024) m = take 1024 m" by (simp add: min_def)
    with run rd r(1) m n have "receiver_loop rt (te_udp E) buf' a1 rq1 w1 = Some res"
      by (subst (asm) receiver_loop.simps) simp
    from receiver_loop_idle [OF E n(2) m(2) this] obtain r' w' where
      res: "res = Ret (r', a1, rq1, w')" "lossy E w1 w'" by blast
    have "received_on E (\<lambda>d. d) (test_packet TEST_SIZES) 7 (rc_next_index a, Some m) w rq1 (udp_progress a1) w'"
      by (rule received_onI [OF m(5,2,4) _ res(2)]) (use n(3) in \<open>simp add: udp_progress_def\<close>)
    with n(2) res(1) m(1) show ?thesis by (simp add: udp_progress_def)
  qed
qed

lemma receiver_ready_law:
  assumes E: "udp_pair_ok E" and a: "udp_receiver_ok E a" and w: "te_flight E w \<subseteq># awaited (rc_expecting a)"
  shows "receiver_ready rt (te_udp E) a w \<noteq> Some Panic"
    "receiver_ready rt (te_udp E) a w = Some (Ret (a', rq, w')) \<Longrightarrow> udp_receiver_ok E a' \<and>
       received_on E (\<lambda>d. d) (test_packet TEST_SIZES) 7 (udp_progress a) w rq (udp_progress a') w'"
proof -
  note law = receiver_loop_law [OF E a _ w, of "replicate 1024 0" rt, simplified]
  show "receiver_ready rt (te_udp E) a w \<noteq> Some Panic"
    using law by (fastforce simp: receiver_ready_def ebind_eq_Panic)
  assume "receiver_ready rt (te_udp E) a w = Some (Ret (a', rq, w'))"
  then obtain r rq1 where run: "receiver_loop rt (te_udp E) (replicate 1024 0) a [] w = Some (Ret (r, a', rq1, w'))"
    "rq = (case r of Inl e \<Rightarrow> rq1 @ [TqFail (PacketError e)] | Inr _ \<Rightarrow> rq1)"
    by (auto simp: receiver_ready_def ebind_eq_Ret)
  from law [OF run(1)] have "udp_receiver_ok E a'"
    "received_on E (\<lambda>d. d) (test_packet TEST_SIZES) 7 (udp_progress a) w rq1 (udp_progress a') w'" by auto
  with run(2) show "udp_receiver_ok E a' \<and>
      received_on E (\<lambda>d. d) (test_packet TEST_SIZES) 7 (udp_progress a) w rq (udp_progress a') w'"
    by (auto intro: received_on_fail split: sum.splits)
qed

interpretation udp_run: packet_test udp_pair_ok udp_test udp_sender_ok udp_receiver_ok udp_held udp_progress
  "\<lambda>E d. d" "test_packet TEST_SIZES" 7
proof (unfold_locales, goal_cases)
  case 1 show ?case by simp
next
  case (2 E a)
  then show ?case
    by (auto elim!: receiver_next_packet_law [of E a "te_rt E"] simp: udp_progress_def)
next
  case (3 E b d w b' rs w')
  from sender_flush_law [OF 3(1), of "b\<lparr>sn_queue := uq_push d (sn_queue b)\<rparr>"] 3(2,3)
  show ?case by (simp add: sender_send_data_def uq_push_held)
next
  case (4 E b w b' rs w')
  then show ?case using sender_flush_law by (simp add: sender_ready_def)
next
  case (5 E a w)
  then show ?case using receiver_ready_law(1) by (simp add: udp_progress_def)
next
  case (6 E a w a' rq w')
  then show ?case using receiver_ready_law(2) by (simp add: udp_progress_def)
qed

section \<open>Completion\<close>

lemma uq_read_reliable:
  assumes E: "udp_pair_reliable E" and q: "uq_socket q = Some ms" "ms_source ms = te_recv_sock E"
  obtains x buf' w' where "uq_read (te_udp E) buf q w = Some (Ret (Inr x, buf', w'))" "length buf' = length buf"
    "udp_read_ok E (length buf) w (Inr x) w'" "x = None \<Longrightarrow> te_flight E w = {#}"
proof -
  obtain r b1 w1 where rcv: "udp_recv (te_udp E) (te_recv_sock E) buf w = (r, b1, w1)" by (rule prod_cases3)
  have ok: "udp_pair_ok E" using E by (simp add: udp_pair_reliable_def)
  with rcv have "length b1 = length buf"
    "case r of Inl e \<Rightarrow> \<not> truncated e \<and> lossy E w w1 | Inr n \<Rightarrow> takes_packet E buf w n b1 w1"
    unfolding udp_pair_ok_def by blast+
  moreover have "case r of Inl e \<Rightarrow> err_kind e = WouldBlock \<and> te_flight E w = {#} | Inr n \<Rightarrow> True"
    using E rcv unfolding udp_pair_reliable_def by blast
  ultimately have r: "length b1 = length buf" "\<And>e. r = Inl e \<Longrightarrow> err_kind e = WouldBlock \<and> te_flight E w = {#}"
    "\<And>n. r = Inr n \<Longrightarrow> n \<le> length b1" by (auto simp: takes_packet_def)
  define x where "x = (case r of Inl e \<Rightarrow> None | Inr n \<Rightarrow> Some (take n b1))"
  have x: "uq_read (te_udp E) buf q w = Some (Ret (Inr x, b1, w1))" "x = None \<longrightarrow> te_flight E w = {#}"
    using q rcv r by (auto simp: uq_read_def x_def uq_recv_loop.simps [of _ _ buf w] split: sum.splits)
  obtain r' buf' w' where "Ret (Inr x, b1, w1) = Ret (r', buf', w')" "udp_read_ok E (length buf) w r' w'"
    by (rule uq_read_result [OF ok q x(1)]) (rule that)
  then show thesis by (intro that [OF x(1) r(1)]) (use x(2) in auto)
qed

lemma receiver_loop_returns_idle:
  assumes E: "udp_pair_reliable E" and a: "udp_receiver_ok E a" and w: "te_flight E w = {#}"
  shows "\<exists>w'. receiver_loop rt (te_udp E) buf a rq w = Some (Ret (Inr (), a, rq, w')) \<and> te_flight E w' = {#}"
proof -
  from a obtain ms where ms: "uq_socket (rc_queue a) = Some ms" "ms_source ms = te_recv_sock E"
    by (auto simp: udp_receiver_ok_def has_socket_def)
  obtain x buf' w' where x: "uq_read (te_udp E) buf (rc_queue a) w = Some (Ret (Inr x, buf', w'))"
    "udp_read_ok E (length buf) w (Inr x) w'" by (rule uq_read_reliable [OF E ms])
  with w have "x = None" "te_flight E w' = {#}" by (cases x; auto simp: lossy_def udp_read_ok_def)+
  with x(1) show ?thesis by (subst receiver_loop.simps) simp
qed

lemma receiver_ready_all:
  assumes E: "udp_pair_reliable E" and a: "udp_receiver_ok E a" and w: "te_flight E w \<subseteq># awaited (rc_expecting a)"
  shows "\<exists>a' rq w'. receiver_ready rt (te_udp E) a w = Some (Ret (a', rq, w')) \<and> te_flight E w' = {#} \<and>
    (if te_flight E w = {#} then udp_progress a' = udp_progress a \<and> rq = []
     else next_asked (\<lambda>d. d) (test_packet TEST_SIZES) 7 (udp_progress a) rq (udp_progress a'))"
proof (cases "te_flight E w = {#}")
  case True
  with receiver_loop_returns_idle [OF E a this, of rt "replicate 1024 0" "[]"] show ?thesis
    by (auto simp: receiver_ready_def)
next
  case False
  let ?buf = "replicate 1024 (0 :: u8)"
  from a obtain ms where ms: "uq_socket (rc_queue a) = Some ms" "ms_source ms = te_recv_sock E"
    by (auto simp: udp_receiver_ok_def has_socket_def)
  obtain x buf' w1 where x: "uq_read (te_udp E) ?buf (rc_queue a) w = Some (Ret (Inr x, buf', w1))"
    "udp_read_ok E (length ?buf) w (Inr x) w1" "x = None \<Longrightarrow> te_flight E w = {#}"
    by (rule uq_read_reliable [OF E ms]) (rule that)
  with False obtain sl where sl: "x = Some sl" "takes_slice E 1024 w sl w1"
    by (cases x) (auto simp: udp_read_ok_def)
  obtain m where m: "rc_expecting a = Some m" "te_flight E w1 = {#}" "x = Some (take 1024 m)"
    by (rule takes_awaited [OF sl(2) w]) (use sl(1) that in simp)
  let ?a = "a\<lparr>rc_expecting := None\<rparr>"
  have a': "udp_receiver_ok E ?a" using a by (simp add: udp_receiver_ok_def)
  obtain a1 rq1 where n: "receiver_next_packet rt ?a = Ret (a1, rq1)" "udp_receiver_ok E a1"
    "next_asked (\<lambda>d. d) (test_packet TEST_SIZES) 7 (udp_progress ?a) rq1 (udp_progress a1)"
    by (rule receiver_next_packet_law [OF a', of rt]) simp
  from receiver_loop_returns_idle [OF E n(2) m(2), of rt buf' rq1] obtain w' where
    run: "receiver_loop rt (te_udp E) buf' a1 rq1 w1 = Some (Ret (Inr (), a1, rq1, w'))" "te_flight E w' = {#}" by blast
  have "take (min (length m) 1024) m = take 1024 m" by (simp add: min_def)
  with x(1) m n(1) run(1) have "receiver_loop rt (te_udp E) ?buf a [] w = Some (Ret (Inr (), a1, rq1, w'))"
    by (subst receiver_loop.simps) simp
  with False n(3) run(2) show ?thesis by (simp add: receiver_ready_def udp_progress_def next_asked_def)
qed

interpretation udp_run: reliable_packet_test udp_pair_ok udp_test udp_sender_ok udp_receiver_ok udp_held
  udp_progress "\<lambda>E d. d" "test_packet TEST_SIZES" 7 udp_pair_reliable
proof (unfold_locales, goal_cases)
  case (1 E) then show ?case by (simp add: udp_pair_reliable_def)
next
  case (2 E b d w)
  with sender_flush_at_once [OF 2(1), of "b\<lparr>sn_queue := uq_push d (sn_queue b)\<rparr>" w] show ?case
    by (simp add: sender_send_data_def uq_push_held)
next
  case (3 E b w)
  then show ?case using sender_flush_at_once by (simp add: sender_ready_def)
next
  case (4 E a w)
  then show ?case using receiver_ready_all [of E a w "te_rt E"] by (simp add: udp_progress_def)
qed

end
