(* ===== verification/Test_Udp_Server.thy ===== *)
theory Test_Udp_Server
  imports Test_Protocol
begin

text \<open>
  The test of src/test/udpserver.rs: the actors \<open>Sender\<close> and \<open>Receiver\<close> over two \<open>UdpServerQueue\<close>s. The
  sockets are not connected, so packets from elsewhere may arrive at any time; the Receiver skips
  them. Their names start with \<open>srv\<close>, to tell them from those of src/test/udp.rs.
\<close>

section \<open>Sender\<close>

record ('s, 'a) srv_sender =
  sd_queue :: "('s, 'a) udp_server_queue"

definition srv_sender_setup ::
  "('sl, 'f entry) slab_ops \<Rightarrow> ('s, 'w) source_ops \<Rightarrow> interest \<Rightarrow> 'f \<Rightarrow> 's
    \<Rightarrow> ('sl, 'k) control \<times> 'w \<Rightarrow> (('s, 'a) srv_sender io \<times> ('sl, 'k) control \<times> 'w) option" where
  "srv_sender_setup S D writable fwd socket cw =
     (case mio_poll_add S D socket writable 10 fwd cw of
        None \<Rightarrow> None
      | Some (Inl e, cw1) \<Rightarrow> Some (Inl e, cw1)
      | Some (Inr source, cw1) \<Rightarrow>
          map_option (\<lambda>(q, cw2). (Inr \<lparr>sd_queue = q\<rparr>, cw2)) (us_init S D source us_new cw1))"

definition srv_sender_init ::
  "('sl, 'f entry) slab_ops \<Rightarrow> ('s, 'w) source_ops \<Rightarrow> interest \<Rightarrow> 'f \<Rightarrow> 's \<Rightarrow> ('sl, 'k) control \<times> 'w
    \<Rightarrow> (('s, 'a) srv_sender option \<times> ('a \<times> bytes) test_request list \<times> ('sl, 'k) control \<times> 'w) option" where
  "srv_sender_init S D writable fwd socket cw =
     map_option (\<lambda>(r, cw1). case r of
         Inl e \<Rightarrow> (None, [TqFail (SetupError e)], cw1)
       | Inr this \<Rightarrow> (Some this, [], cw1)) (srv_sender_setup S D writable fwd socket cw)"

definition srv_sender_flush ::
  "('s, 'a, 'w) udp_ops \<Rightarrow> ('s, 'a) srv_sender \<Rightarrow> 'w
    \<Rightarrow> (('s, 'a) srv_sender \<times> ('a \<times> bytes) test_request list \<times> 'w) option" where
  "srv_sender_flush U a w =
     map_option (\<lambda>(r, q, w'). (a\<lparr>sd_queue := q\<rparr>,
         case r of Inl e \<Rightarrow> [TqFail (FlushError e)] | Inr _ \<Rightarrow> [], w'))
       (us_flush U (sd_queue a) w)"

definition srv_sender_ready ::
  "('s, 'a, 'w) udp_ops \<Rightarrow> ('s, 'a) srv_sender \<Rightarrow> 'w
    \<Rightarrow> (('s, 'a) srv_sender \<times> ('a \<times> bytes) test_request list \<times> 'w) option" where
  "srv_sender_ready U a w = srv_sender_flush U a w"

definition srv_sender_send_data ::
  "('s, 'a, 'w) udp_ops \<Rightarrow> 'a \<Rightarrow> bytes \<Rightarrow> ('s, 'a) srv_sender \<Rightarrow> 'w
    \<Rightarrow> (('s, 'a) srv_sender \<times> ('a \<times> bytes) test_request list \<times> 'w) option" where
  "srv_sender_send_data U addr data a w =
     srv_sender_flush U (a\<lparr>sd_queue := us_push addr data (sd_queue a)\<rparr>) w"

section \<open>Receiver\<close>

definition SRV_TEST_SIZES :: "nat list" where
  "SRV_TEST_SIZES = [999, 100, 1023, 410, 600, 200, 751]"

record ('s, 'a) srv_receiver =
  rv_queue :: "('s, 'a) udp_server_queue"
  rv_next_index :: nat
  rv_expecting :: "bytes option"
  rv_send_addr :: 'a
  rv_recv_addr :: 'a

definition srv_receiver_setup ::
  "('sl, 'f entry) slab_ops \<Rightarrow> ('s, 'w) source_ops \<Rightarrow> interest \<Rightarrow> 'f \<Rightarrow> 's \<Rightarrow> 'a \<Rightarrow> 'a \<Rightarrow> ('sl, 'k) control \<times> 'w
    \<Rightarrow> (('s, 'a) srv_receiver io \<times> ('a \<times> bytes) test_request list \<times> ('sl, 'k) control \<times> 'w) option" where
  "srv_receiver_setup S D readable fwd socket send_addr recv_addr cw =
     (case mio_poll_add S D socket readable 10 fwd cw of
        None \<Rightarrow> None
      | Some (Inl e, cw1) \<Rightarrow> Some (Inl e, [], cw1)
      | Some (Inr source, cw1) \<Rightarrow>
          map_option (\<lambda>(q, cw2). (Inr \<lparr>rv_queue = q, rv_next_index = 0, rv_expecting = None,
              rv_send_addr = send_addr, rv_recv_addr = recv_addr\<rparr>, [TqNextPacket], cw2))
            (us_init S D source us_new cw1))"

definition srv_receiver_init ::
  "('sl, 'f entry) slab_ops \<Rightarrow> ('s, 'w) source_ops \<Rightarrow> interest \<Rightarrow> 'f \<Rightarrow> 's \<Rightarrow> 'a \<Rightarrow> 'a \<Rightarrow> ('sl, 'k) control \<times> 'w
    \<Rightarrow> (('s, 'a) srv_receiver option \<times> ('a \<times> bytes) test_request list \<times> ('sl, 'k) control \<times> 'w) option" where
  "srv_receiver_init S D readable fwd socket send_addr recv_addr cw =
     map_option (\<lambda>(r, rq, cw1). case r of
         Inl e \<Rightarrow> (None, rq @ [TqFail (SetupError e)], cw1)
       | Inr this \<Rightarrow> (Some this, rq, cw1)) (srv_receiver_setup S D readable fwd socket send_addr recv_addr cw)"

definition srv_receiver_next_packet ::
  "rust_rt \<Rightarrow> ('s, 'a) srv_receiver \<Rightarrow> (('s, 'a) srv_receiver \<times> ('a \<times> bytes) test_request list) outcome" where
  "srv_receiver_next_packet rt a =
     (if length SRV_TEST_SIZES \<le> rv_next_index a then Ret (a, [TqStop])
      else obind (testdata rt (SRV_TEST_SIZES ! rv_next_index a) (word_of_nat (rv_next_index a))) (\<lambda>data.
           obind (usize_add rt (rv_next_index a) 1) (\<lambda>n.
             Ret (a\<lparr>rv_next_index := n, rv_expecting := Some data\<rparr>, [TqSendData (rv_recv_addr a, data)]))))"

text \<open>The two assertions: the slice is not as long as the buffer, and it is what is expected.\<close>

partial_function (option) srv_receiver_loop ::
  "rust_rt \<Rightarrow> ('s, 'a, 'w) udp_ops \<Rightarrow> bytes \<Rightarrow> ('s, 'a) srv_receiver \<Rightarrow> ('a \<times> bytes) test_request list \<Rightarrow> 'w
    \<Rightarrow> (unit io \<times> ('s, 'a) srv_receiver \<times> ('a \<times> bytes) test_request list \<times> 'w) exec" where
  "srv_receiver_loop rt U buf a rq w =
     (case us_read U buf (rv_queue a) w of
        None \<Rightarrow> None
      | Some Panic \<Rightarrow> Some Panic
      | Some (Ret (Inl e, buf', w1)) \<Rightarrow> Some (Ret (Inl e, a, rq, w1))
      | Some (Ret (Inr None, buf', w1)) \<Rightarrow> Some (Ret (Inr (), a, rq, w1))
      | Some (Ret (Inr (Some (addr, sl)), buf', w1)) \<Rightarrow>
          if addr \<noteq> rv_send_addr a then srv_receiver_loop rt U buf' a rq w1
          else (case rv_expecting a of
             None \<Rightarrow> Some Panic
           | Some exp \<Rightarrow>
               if length sl \<noteq> 1024 \<and> exp = sl then
                 (case srv_receiver_next_packet rt (a\<lparr>rv_expecting := None\<rparr>) of
                    Panic \<Rightarrow> Some Panic
                  | Ret (a1, rq1) \<Rightarrow> srv_receiver_loop rt U buf' a1 (rq @ rq1) w1)
               else Some Panic))"

declare srv_receiver_loop.simps [code]

definition srv_receiver_ready ::
  "rust_rt \<Rightarrow> ('s, 'a, 'w) udp_ops \<Rightarrow> ('s, 'a) srv_receiver \<Rightarrow> 'w
    \<Rightarrow> (('s, 'a) srv_receiver \<times> ('a \<times> bytes) test_request list \<times> 'w) exec" where
  "srv_receiver_ready rt U a w =
     ebind (srv_receiver_loop rt U (replicate 1024 0) a [] w) (\<lambda>(r, a', rq, w').
       Some (Ret (a', case r of Inl e \<Rightarrow> rq @ [TqFail (PacketError e)] | Inr _ \<Rightarrow> rq, w')))"

section \<open>The sockets\<close>

text \<open>
  A packet counts as under way if it is for the Receiver. One from the Sender's address is one of
  those under way, and one from another address is anything.
\<close>

definition srv_body :: "('s, 'a, 'w) test_env \<Rightarrow> 'a \<times> bytes \<Rightarrow> bytes multiset" where
  "srv_body E = (\<lambda>(addr, pk). if addr = te_recv_addr E then {#pk#} else {#})"

definition srv_sockets_ok :: "('s, 'a, 'w) test_env \<Rightarrow> bool" where
  "srv_sockets_ok E \<longleftrightarrow>
     sends_ok E (send_entry (te_udp E) (te_send_sock E)) (\<lambda>(addr, pk). length pk) (srv_body E) \<and>
     (\<forall>buf w r buf' w'. udp_recv_from (te_udp E) (te_recv_sock E) buf w = (r, buf', w') \<longrightarrow>
        length buf' = length buf \<and>
        (case r of Inl e \<Rightarrow> lossy E w w'
         | Inr (n, addr) \<Rightarrow> n \<le> length buf \<and>
             (if addr = te_send_addr E then takes_packet E buf w n buf' w' else lossy E w w')))"

text \<open>Nothing is lost, nothing blocks or is interrupted, and nobody else sends to the Receiver.\<close>

definition srv_sockets_reliable :: "('s, 'a, 'w) test_env \<Rightarrow> bool" where
  "srv_sockets_reliable E \<longleftrightarrow> srv_sockets_ok E \<and>
     sends_at_once E (send_entry (te_udp E) (te_send_sock E)) (\<lambda>(addr, pk). length pk) (srv_body E) \<and>
     (\<forall>buf w r buf' w'. udp_recv_from (te_udp E) (te_recv_sock E) buf w = (r, buf', w') \<longrightarrow>
        (case r of Inl e \<Rightarrow> err_kind e = WouldBlock \<and> te_flight E w = {#}
         | Inr (n, addr) \<Rightarrow> addr = te_send_addr E))"

text \<open>What a read of the Receiver brings.\<close>

definition srv_read_ok ::
  "('s, 'a, 'w) test_env \<Rightarrow> nat \<Rightarrow> 'w \<Rightarrow> ('a \<times> bytes) option io \<Rightarrow> 'w \<Rightarrow> bool" where
  "srv_read_ok E len w r w' \<longleftrightarrow> (case r of
     Inr (Some (addr, sl)) \<Rightarrow> if addr = te_send_addr E then takes_slice E len w sl w' else lossy E w w'
   | _ \<Rightarrow> lossy E w w')"

lemma us_read_result:
  assumes E: "srv_sockets_ok E" and q: "us_socket q = Some ms" "ms_source ms = te_recv_sock E"
    and run: "us_read (te_udp E) buf q w = Some res"
  obtains r buf' w' where "res = Ret (r, buf', w')" "length buf' = length buf" "srv_read_ok E (length buf) w r w'"
proof -
  let ?recv = "udp_recv_from (te_udp E) (te_recv_sock E)"
  let ?call = "recv_from_call (te_udp E) (te_recv_sock E)"
  have ok: "length b' = length b \<and> (case r of Inl e \<Rightarrow> lossy E w w'
     | Inr (n, addr) \<Rightarrow> n \<le> length b \<and>
         (if addr = te_send_addr E then takes_packet E b w n b' w' else lossy E w w'))"
    if "?recv b w = (r, b', w')" for b w r b' w'
    using E that unfolding srv_sockets_ok_def by blast
  from run q obtain r b' w' where r: "retry ?call (buf, w) = Some (r, b', w')"
    "res = obind (recv_from_answer r b') (\<lambda>a. Ret (a, b', w'))"
    by (auto simp: us_read_def us_recv_loop_retry)
  obtain b1 w1 where last: "length b1 = length buf" "lossy E w w1" "?call (b1, w1) = (r, b', w')" "\<not> interrupted r"
  proof (rule retry_final_call [OF r(1), where I = "\<lambda>(b1, w1). length b1 = length buf \<and> lossy E w w1"])
    fix s
    assume s: "case s of (b1, w1) \<Rightarrow> length b1 = length buf \<and> lossy E w w1" "interrupted (fst (?call s))"
    obtain b1 w1 where bw: "s = (b1, w1)" by (rule prod.exhaust)
    obtain r2 b2 w2 where step: "?recv b1 w1 = (r2, b2, w2)" by (rule prod_cases3)
    with s bw ok [OF step] show "case snd (?call s) of (b1, w1) \<Rightarrow> length b1 = length buf \<and> lossy E w w1"
      by (auto split: sum.splits intro: lossy_trans)
  qed (use that in auto)
  obtain r2 where rcv: "?recv b1 w1 = (r2, b', w')"
    "r = (case r2 of Inl e \<Rightarrow> if truncated e then Inl (io_err Interrupted) else r2 | Inr _ \<Rightarrow> r2)"
    using last(3) by (cases "?recv b1 w1") auto
  with last(4) have "r2 = r" by (auto split: sum.splits if_splits)
  note got = ok [OF rcv(1) [unfolded this]]
  show thesis
  proof (cases r)
    case (Inl e)
    with got last(1,2) r(2) show thesis
      by (intro that [of "if err_kind e = WouldBlock then Inr None else Inl e" b' w'])
        (auto simp: recv_from_answer_def srv_read_ok_def intro: lossy_trans)
  next
    case (Inr na)
    then obtain n addr where na: "r = Inr (n, addr)" by (cases na) simp
    have "addr = te_send_addr E \<Longrightarrow> takes_slice E (length buf) w (take n b') w'"
      using got na last(1,2) by (auto intro: takes_packet_slice)
    moreover have "addr \<noteq> te_send_addr E \<Longrightarrow> lossy E w w'" using got na last(2) by (auto intro: lossy_trans)
    ultimately show thesis using got na last(1) r(2)
      by (intro that [of "Inr (Some (addr, take n b'))" b' w']) (auto simp: recv_from_answer_def srv_read_ok_def)
  qed
qed

section \<open>The laws\<close>

definition srv_test ::
  "('s, 'a, 'w) test_env \<Rightarrow> (('s, 'a) srv_sender, ('s, 'a) srv_receiver, 'a \<times> bytes, 'w) test_handlers" where
  "srv_test E = \<lparr>th_send_ready = srv_sender_ready (te_udp E),
     th_send_data = (\<lambda>(addr, data). srv_sender_send_data (te_udp E) addr data),
     th_recv_ready = srv_receiver_ready (te_rt E) (te_udp E),
     th_next_packet = srv_receiver_next_packet (te_rt E)\<rparr>"

lemma srv_test_sel [simp]:
  "th_send_ready (srv_test E) = srv_sender_ready (te_udp E)"
  "th_send_data (srv_test E) (addr, data) = srv_sender_send_data (te_udp E) addr data"
  "th_recv_ready (srv_test E) = srv_receiver_ready (te_rt E) (te_udp E)"
  "th_next_packet (srv_test E) = srv_receiver_next_packet (te_rt E)"
  by (simp_all add: srv_test_def)

definition srv_sender_ok :: "('s, 'a, 'w) test_env \<Rightarrow> ('s, 'a) srv_sender \<Rightarrow> bool" where
  "srv_sender_ok E a \<longleftrightarrow> has_socket (us_socket (sd_queue a)) (te_send_sock E)"

text \<open>The packet awaited is shorter than the buffer, whatever index it has.\<close>

definition srv_receiver_ok :: "('s, 'a, 'w) test_env \<Rightarrow> ('s, 'a) srv_receiver \<Rightarrow> bool" where
  "srv_receiver_ok E a \<longleftrightarrow> has_socket (us_socket (rv_queue a)) (te_recv_sock E) \<and> rv_next_index a \<le> 7 \<and>
     rv_send_addr a = te_send_addr E \<and> rv_recv_addr a = te_recv_addr E \<and>
     (\<forall>m. rv_expecting a = Some m \<longrightarrow> length m < 1024)"

definition srv_held :: "('s, 'a, 'w) test_env \<Rightarrow> ('s, 'a) srv_sender \<Rightarrow> bytes multiset" where
  "srv_held E a = sum_list (map (srv_body E) (us_out (sd_queue a)))"

definition srv_progress :: "('s, 'a) srv_receiver \<Rightarrow> progress" where
  "srv_progress a = (rv_next_index a, rv_expecting a)"

abbreviation srv_msg :: "('s, 'a, 'w) test_env \<Rightarrow> bytes \<Rightarrow> 'a \<times> bytes" where
  "srv_msg E d \<equiv> (te_recv_addr E, d)"

lemma srv_sender_flush_law:
  assumes "srv_sockets_ok E" "srv_sender_ok E a" "srv_sender_flush (te_udp E) a w = Some (a', rq, w')"
  shows "srv_sender_ok E a' \<and> sent_on E (srv_held E a) w (srv_held E a') w' rq"
proof -
  from assms(2,3) obtain ms r out where run: "us_socket (sd_queue a) = Some ms" "ms_source ms = te_send_sock E"
    "us_flush_loop (te_udp E) (te_send_sock E) (us_out (sd_queue a)) w = Some (r, out, w')"
    "a' = a\<lparr>sd_queue := (sd_queue a)\<lparr>us_out := out\<rparr>\<rparr>" "rq = (case r of Inl e \<Rightarrow> [TqFail (FlushError e)] | Inr _ \<Rightarrow> [])"
    by (auto simp: srv_sender_flush_def us_flush_def srv_sender_ok_def has_socket_def)
  have "sends_ok E (send_entry (te_udp E) (te_send_sock E)) (\<lambda>(addr, pk). length pk) (srv_body E)"
    using assms(1) by (simp add: srv_sockets_ok_def)
  from udp_server.flush_in_flight [OF this run(3)] run show ?thesis
    by (auto simp: sent_on_def srv_held_def srv_sender_ok_def has_socket_def split: sum.splits)
qed

lemma srv_sender_flush_at_once:
  assumes "srv_sockets_reliable E" "srv_sender_ok E a"
  shows "\<exists>a' w'. srv_sender_flush (te_udp E) a w = Some (a', [], w') \<and>
    te_flight E w' = te_flight E w + srv_held E a \<and> srv_held E a' = {#}"
proof -
  have "sends_at_once E (send_entry (te_udp E) (te_send_sock E)) (\<lambda>(addr, pk). length pk) (srv_body E)"
    using assms(1) by (simp add: srv_sockets_reliable_def)
  from udp_server.flush_at_once [OF this, of "us_out (sd_queue a)" w] assms(2) show ?thesis
    by (auto simp: srv_sender_flush_def us_flush_def srv_sender_ok_def has_socket_def srv_held_def)
qed

lemma us_push_held:
  "srv_held E (a\<lparr>sd_queue := us_push (te_recv_addr E) d (sd_queue a)\<rparr>) = srv_held E a + {#d#}"
  "srv_sender_ok E (a\<lparr>sd_queue := us_push addr d (sd_queue a)\<rparr>) = srv_sender_ok E a"
  by (simp_all add: srv_held_def us_push_def srv_sender_ok_def srv_body_def)

lemma length_SRV_TEST_SIZES [simp]: "length SRV_TEST_SIZES = 7"
  by (simp add: SRV_TEST_SIZES_def)

lemma SRV_TEST_SIZES_small: "i < 7 \<Longrightarrow> SRV_TEST_SIZES ! i * 19 < usize_bound \<and> SRV_TEST_SIZES ! i < 1024"
proof -
  have "\<forall>n\<in>set SRV_TEST_SIZES. n * 19 < usize_bound \<and> n < 1024" by (simp add: SRV_TEST_SIZES_def usize_bound_def)
  then show "i < 7 \<Longrightarrow> ?thesis" using nth_mem [of i SRV_TEST_SIZES] by simp
qed

lemma srv_receiver_next_packet_law:
  assumes "srv_receiver_ok E a"
  obtains a' rq where "srv_receiver_next_packet rt a = Ret (a', rq)" "srv_receiver_ok E a'"
    "rv_expecting a = None \<Longrightarrow> next_asked (srv_msg E) (test_packet SRV_TEST_SIZES) 7 (srv_progress a) rq (srv_progress a')"
proof -
  have "usize_add rt (rv_next_index a) 1 = Ret (rv_next_index a + 1)"
    using assms(1) by (intro usize_add_in_range) (simp add: srv_receiver_ok_def usize_bound_def)
  with assms show thesis
    by (cases "rv_next_index a < 7")
      (auto intro!: that simp: srv_receiver_next_packet_def testdata_runs SRV_TEST_SIZES_small srv_receiver_ok_def
        next_asked_def srv_progress_def test_packet_def)
qed

abbreviation srv_received_on ::
  "('s, 'a, 'w) test_env \<Rightarrow> progress \<Rightarrow> 'w \<Rightarrow> ('a \<times> bytes) test_request list \<Rightarrow> progress \<Rightarrow> 'w \<Rightarrow> bool" where
  "srv_received_on E \<equiv> received_on E (srv_msg E) (test_packet SRV_TEST_SIZES) 7"

definition srv_loop_ok ::
  "('s, 'a, 'w) test_env \<Rightarrow> ('s, 'a) srv_receiver \<Rightarrow> ('a \<times> bytes) test_request list \<Rightarrow> 'w
    \<Rightarrow> (unit io \<times> ('s, 'a) srv_receiver \<times> ('a \<times> bytes) test_request list \<times> 'w) outcome \<Rightarrow> bool" where
  "srv_loop_ok E a rq w res \<longleftrightarrow> (\<exists>r a' rq' w'. res = Ret (r, a', rq @ rq', w') \<and> srv_receiver_ok E a' \<and>
     srv_received_on E (srv_progress a) w rq' (srv_progress a') w')"

lemma srv_receiver_loop_law:
  assumes E: "srv_sockets_ok E" and a: "srv_receiver_ok E a" and len: "length buf = 1024"
    and w: "te_flight E w \<subseteq># awaited (rv_expecting a)"
    and run: "srv_receiver_loop rt (te_udp E) buf a rq w = Some res"
  shows "srv_loop_ok E a rq w res"
proof -
  have "U = te_udp E \<longrightarrow> srv_receiver_ok E a \<longrightarrow> length buf = 1024 \<longrightarrow>
      te_flight E w \<subseteq># awaited (rv_expecting a) \<longrightarrow> srv_loop_ok E a rq w res"
    if "srv_receiver_loop rt U buf a rq w = Some res" for rt U buf a rq w res
  proof (rule srv_receiver_loop.raw_induct [OF _ that, where P = "\<lambda>rt U buf a rq w res.
      U = te_udp E \<longrightarrow> srv_receiver_ok E a \<longrightarrow> length buf = 1024 \<longrightarrow>
      te_flight E w \<subseteq># awaited (rv_expecting a) \<longrightarrow> srv_loop_ok E a rq w res"], intro impI, goal_cases)
    case (1 rec rt U buf a rq w res)
    note IH = 1(1) [rule_format, OF _ refl] and step = 1(2) [unfolded 1(3)] and a = 1(4) and w = 1(6)
    from a obtain ms where ms: "us_socket (rv_queue a) = Some ms" "ms_source ms = te_recv_sock E"
      by (auto simp: srv_receiver_ok_def has_socket_def)
    from step obtain rd where rd: "us_read (te_udp E) buf (rv_queue a) w = Some rd"
      by (cases "us_read (te_udp E) buf (rv_queue a) w") simp_all
    obtain r buf' w1 where r: "rd = Ret (r, buf', w1)" "length buf' = 1024" "srv_read_ok E 1024 w r w1"
      by (rule us_read_result [OF E ms rd]) (simp add: 1(5) that)
    show ?case
    proof (cases "\<exists>addr sl. r = Inr (Some (addr, sl))")
      case False
      then have "lossy E w w1" using r(3)
        by (auto simp: srv_read_ok_def split: sum.splits option.splits)
      moreover from False step rd r(1) obtain r' where "res = Ret (r', a, rq, w1)"
        by (auto split: sum.splits option.splits)
      ultimately show ?thesis using a unfolding srv_loop_ok_def
        by (intro exI [of _ r'] exI [of _ a] exI [of _ "[]"] exI [of _ w1]) (simp add: received_on_def)
    next
      case True
      then obtain addr sl where sl: "r = Inr (Some (addr, sl))" by blast
      show ?thesis
      proof (cases "addr = te_send_addr E")
        case other: False
        with r(3) sl have l: "lossy E w w1" by (simp add: srv_read_ok_def)
        then have "te_flight E w1 \<subseteq># awaited (rv_expecting a)"
          using w by (auto simp: lossy_def intro: subset_mset.order_trans)
        moreover have "rec rt (te_udp E) buf' a rq w1 = Some res"
          using step rd r(1) sl other a by (simp add: srv_receiver_ok_def)
        ultimately have "srv_loop_ok E a rq w1 res" using IH a r(2) 1(3) by blast
        with received_on_lossy [OF l] w show ?thesis
          unfolding srv_loop_ok_def by (fastforce simp: srv_progress_def)
      next
        case own: True
        with r(3) sl have "takes_slice E 1024 w sl w1" by (simp add: srv_read_ok_def)
        then obtain m where m: "rv_expecting a = Some m" "te_flight E w = {#m#}" "te_flight E w1 = {#}"
          "sl = take 1024 m" "te_got E w1 = te_got E w @ [take 1024 m]" by (rule takes_awaited [OF _ w])
        from a m(1) have small: "length m < 1024" by (simp add: srv_receiver_ok_def)
        let ?a = "a\<lparr>rv_expecting := None\<rparr>"
        have "srv_receiver_ok E ?a" using a by (simp add: srv_receiver_ok_def)
        then obtain a1 rq1 where n: "srv_receiver_next_packet rt ?a = Ret (a1, rq1)" "srv_receiver_ok E a1"
          "next_asked (srv_msg E) (test_packet SRV_TEST_SIZES) 7 (srv_progress ?a) rq1 (srv_progress a1)"
          by (rule srv_receiver_next_packet_law [where rt = rt]) simp
        have "rec rt (te_udp E) buf' a1 (rq @ rq1) w1 = Some res"
          using step rd r(1) sl own a m(1,4) small n(1) by (simp add: srv_receiver_ok_def)
        then have "srv_loop_ok E a1 (rq @ rq1) w1 res" using IH n(2) r(2) m(3) 1(3) by simp
        then obtain r' a' rq2 w' where res: "res = Ret (r', a', (rq @ rq1) @ rq2, w')" "srv_receiver_ok E a'"
          "srv_received_on E (srv_progress a1) w1 rq2 (srv_progress a') w'" unfolding srv_loop_ok_def by blast
        have "srv_received_on E (rv_next_index a, Some m) w (rq1 @ rq2) (srv_progress a') w'"
          by (rule received_on_then [OF m(2,3,5) _ res(3)]) (use n(3) in \<open>simp add: srv_progress_def\<close>)
        with res m(1) show ?thesis unfolding srv_loop_ok_def
          by (intro exI [of _ r'] exI [of _ a'] exI [of _ "rq1 @ rq2"] exI [of _ w']) (simp add: srv_progress_def)
      qed
    qed
  qed
  from this [OF run] a len w show ?thesis by blast
qed

lemma srv_receiver_ready_law:
  assumes E: "srv_sockets_ok E" and a: "srv_receiver_ok E a" and w: "te_flight E w \<subseteq># awaited (rv_expecting a)"
  shows "srv_receiver_ready rt (te_udp E) a w \<noteq> Some Panic"
    "srv_receiver_ready rt (te_udp E) a w = Some (Ret (a', rq, w')) \<Longrightarrow> srv_receiver_ok E a' \<and>
       srv_received_on E (srv_progress a) w rq (srv_progress a') w'"
proof -
  note law = srv_receiver_loop_law [OF E a _ w, of "replicate 1024 0" rt "[]", simplified, unfolded srv_loop_ok_def]
  show "srv_receiver_ready rt (te_udp E) a w \<noteq> Some Panic"
    using law by (fastforce simp: srv_receiver_ready_def ebind_eq_Panic)
  assume "srv_receiver_ready rt (te_udp E) a w = Some (Ret (a', rq, w'))"
  then obtain r rq1 where run: "srv_receiver_loop rt (te_udp E) (replicate 1024 0) a [] w = Some (Ret (r, a', rq1, w'))"
    "rq = (case r of Inl e \<Rightarrow> rq1 @ [TqFail (PacketError e)] | Inr _ \<Rightarrow> rq1)"
    by (auto simp: srv_receiver_ready_def ebind_eq_Ret)
  from law [OF run(1)] have "srv_receiver_ok E a'" "srv_received_on E (srv_progress a) w rq1 (srv_progress a') w'" by auto
  with run(2) show "srv_receiver_ok E a' \<and> srv_received_on E (srv_progress a) w rq (srv_progress a') w'"
    by (auto intro: received_on_fail split: sum.splits)
qed

interpretation srv_run: packet_test srv_sockets_ok srv_test srv_sender_ok srv_receiver_ok srv_held srv_progress
  srv_msg "test_packet SRV_TEST_SIZES" 7
proof (unfold_locales, goal_cases)
  case 1 show ?case by simp
next
  case (2 E a)
  then show ?case
    by (auto elim!: srv_receiver_next_packet_law [of E a "te_rt E"] simp: srv_progress_def)
next
  case (3 E b d w b' rs w')
  from srv_sender_flush_law [OF 3(1), of "b\<lparr>sd_queue := us_push (te_recv_addr E) d (sd_queue b)\<rparr>"] 3(2,3)
  show ?case by (simp add: srv_sender_send_data_def us_push_held)
next
  case (4 E b w b' rs w')
  then show ?case using srv_sender_flush_law by (simp add: srv_sender_ready_def)
next
  case (5 E a w)
  then show ?case using srv_receiver_ready_law(1) by (simp add: srv_progress_def)
next
  case (6 E a w a' rq w')
  then show ?case using srv_receiver_ready_law(2) by (simp add: srv_progress_def)
qed

section \<open>Completion\<close>

lemma us_read_reliable:
  assumes E: "srv_sockets_reliable E" and q: "us_socket q = Some ms" "ms_source ms = te_recv_sock E"
  obtains x buf' w' where "us_read (te_udp E) buf q w = Some (Ret (Inr x, buf', w'))" "length buf' = length buf"
    "case x of None \<Rightarrow> te_flight E w = {#} \<and> lossy E w w'
     | Some (addr, sl) \<Rightarrow> addr = te_send_addr E \<and> takes_slice E (length buf) w sl w'"
proof -
  obtain r b1 w1 where rcv: "udp_recv_from (te_udp E) (te_recv_sock E) buf w = (r, b1, w1)" by (rule prod_cases3)
  have ok: "srv_sockets_ok E" using E by (simp add: srv_sockets_reliable_def)
  with rcv have "length b1 = length buf" "case r of Inl e \<Rightarrow> lossy E w w1
      | Inr (n, addr) \<Rightarrow> n \<le> length buf \<and>
          (if addr = te_send_addr E then takes_packet E buf w n b1 w1 else lossy E w w1)"
    unfolding srv_sockets_ok_def by blast+
  moreover have "case r of Inl e \<Rightarrow> err_kind e = WouldBlock \<and> te_flight E w = {#} | Inr (n, addr) \<Rightarrow> addr = te_send_addr E"
    using E rcv unfolding srv_sockets_reliable_def by blast
  ultimately have r: "length b1 = length buf" "\<And>e. r = Inl e \<Longrightarrow> err_kind e = WouldBlock \<and> te_flight E w = {#} \<and> lossy E w w1"
    "\<And>n addr. r = Inr (n, addr) \<Longrightarrow> n \<le> length b1 \<and> addr = te_send_addr E \<and> takes_packet E buf w n b1 w1" by auto
  define x where "x = (case r of Inl e \<Rightarrow> None | Inr (n, addr) \<Rightarrow> Some (addr, take n b1))"
  have "us_read (te_udp E) buf q w = Some (Ret (Inr x, b1, w1))"
    using q rcv r by (auto simp: us_read_def x_def us_recv_loop.simps [of _ _ buf w] split: sum.splits)
  moreover have "case x of None \<Rightarrow> te_flight E w = {#} \<and> lossy E w w1
     | Some (addr, sl) \<Rightarrow> addr = te_send_addr E \<and> takes_slice E (length buf) w sl w1"
    using r by (auto simp: x_def intro: takes_packet_slice split: sum.splits)
  ultimately show thesis using that r(1) by blast
qed

lemma srv_receiver_loop_returns_idle:
  assumes E: "srv_sockets_reliable E" and a: "srv_receiver_ok E a" and w: "te_flight E w = {#}"
  shows "\<exists>w'. srv_receiver_loop rt (te_udp E) buf a rq w = Some (Ret (Inr (), a, rq, w')) \<and> te_flight E w' = {#}"
proof -
  from a obtain ms where ms: "us_socket (rv_queue a) = Some ms" "ms_source ms = te_recv_sock E"
    by (auto simp: srv_receiver_ok_def has_socket_def)
  obtain x buf' w' where x: "us_read (te_udp E) buf (rv_queue a) w = Some (Ret (Inr x, buf', w'))"
    "case x of None \<Rightarrow> te_flight E w = {#} \<and> lossy E w w'
     | Some (addr, sl) \<Rightarrow> addr = te_send_addr E \<and> takes_slice E (length buf) w sl w'"
    by (rule us_read_reliable [OF E ms])
  with w have "x = None" "te_flight E w' = {#}" by (cases x; auto simp: lossy_def)+
  with x(1) show ?thesis by (subst srv_receiver_loop.simps) simp
qed

lemma srv_receiver_ready_all:
  assumes E: "srv_sockets_reliable E" and a: "srv_receiver_ok E a" and w: "te_flight E w \<subseteq># awaited (rv_expecting a)"
  shows "\<exists>a' rq w'. srv_receiver_ready rt (te_udp E) a w = Some (Ret (a', rq, w')) \<and> te_flight E w' = {#} \<and>
    (if te_flight E w = {#} then srv_progress a' = srv_progress a \<and> rq = []
     else next_asked (srv_msg E) (test_packet SRV_TEST_SIZES) 7 (srv_progress a) rq (srv_progress a'))"
proof (cases "te_flight E w = {#}")
  case True
  with srv_receiver_loop_returns_idle [OF E a this, of rt "replicate 1024 0" "[]"] show ?thesis
    by (auto simp: srv_receiver_ready_def)
next
  case False
  let ?buf = "replicate 1024 (0 :: u8)"
  from a obtain ms where ms: "us_socket (rv_queue a) = Some ms" "ms_source ms = te_recv_sock E"
    by (auto simp: srv_receiver_ok_def has_socket_def)
  obtain x buf' w1 where x: "us_read (te_udp E) ?buf (rv_queue a) w = Some (Ret (Inr x, buf', w1))"
    "case x of None \<Rightarrow> te_flight E w = {#} \<and> lossy E w w1
     | Some (addr, sl) \<Rightarrow> addr = te_send_addr E \<and> takes_slice E (length ?buf) w sl w1"
    by (rule us_read_reliable [OF E ms])
  with False obtain sl where sl: "x = Some (te_send_addr E, sl)" "takes_slice E 1024 w sl w1"
    by (cases x) auto
  obtain m where m: "rv_expecting a = Some m" "te_flight E w1 = {#}" "sl = take 1024 m"
    by (rule takes_awaited [OF sl(2) w])
  from a m(1) have small: "length m < 1024" by (simp add: srv_receiver_ok_def)
  let ?a = "a\<lparr>rv_expecting := None\<rparr>"
  have "srv_receiver_ok E ?a" using a by (simp add: srv_receiver_ok_def)
  then obtain a1 rq1 where n: "srv_receiver_next_packet rt ?a = Ret (a1, rq1)" "srv_receiver_ok E a1"
    "next_asked (srv_msg E) (test_packet SRV_TEST_SIZES) 7 (srv_progress ?a) rq1 (srv_progress a1)"
    by (rule srv_receiver_next_packet_law [where rt = rt]) simp
  from srv_receiver_loop_returns_idle [OF E n(2) m(2), of rt buf' rq1] obtain w' where
    run: "srv_receiver_loop rt (te_udp E) buf' a1 rq1 w1 = Some (Ret (Inr (), a1, rq1, w'))" "te_flight E w' = {#}" by blast
  have "srv_receiver_loop rt (te_udp E) ?buf a [] w = Some (Ret (Inr (), a1, rq1, w'))"
    using x(1) sl(1) m(1,3) small n(1) run(1) a
    by (subst srv_receiver_loop.simps) (simp add: srv_receiver_ok_def)
  with False n(3) run(2) show ?thesis by (simp add: srv_receiver_ready_def srv_progress_def next_asked_def)
qed

interpretation srv_run: reliable_packet_test srv_sockets_ok srv_test srv_sender_ok srv_receiver_ok srv_held
  srv_progress srv_msg "test_packet SRV_TEST_SIZES" 7 srv_sockets_reliable
proof (unfold_locales, goal_cases)
  case (1 E) then show ?case by (simp add: srv_sockets_reliable_def)
next
  case (2 E b d w)
  with srv_sender_flush_at_once [OF 2(1), of "b\<lparr>sd_queue := us_push (te_recv_addr E) d (sd_queue b)\<rparr>" w] show ?case
    by (simp add: srv_sender_send_data_def us_push_held)
next
  case (3 E b w)
  then show ?case using srv_sender_flush_at_once by (simp add: srv_sender_ready_def)
next
  case (4 E a w)
  then show ?case using srv_receiver_ready_all [of E a w "te_rt E"] by (simp add: srv_progress_def)
qed

end
