(* ===== verification/Test_Properties.thy ===== *)
theory Test_Properties
  imports Test_Udp Test_Udp_Server Main_Properties
begin

text \<open>
  The tests of src/test as wholes: their event loop, their start, and that they pass. The witnesses
  run them on a loopback network.
\<close>

section \<open>The event loop\<close>

text \<open>
  \<open>init\<close> and \<open>run\<close> of src/test/mod.rs; \<open>expect\<close> panics. The loop is the one of the example's \<open>main\<close>,
  so it is the same definition, and what is shown of it holds here too.
\<close>

definition test_init ::
  "('sl, 'f entry) slab_ops \<Rightarrow> ('k, 'w) poll_ops \<Rightarrow> ('f, 'k, 'st) stakker_ops
    \<Rightarrow> ('f, 'sl, 'k, 'st, 'w) runtime_ops \<Rightarrow> 'st \<times> 'w \<Rightarrow> (('sl, 'k) control \<times> 'st \<times> 'w) exec" where
  "test_init S P K R = (\<lambda>(st, w).
     case rn_poll_create R w of
       (Inl e, w1) \<Rightarrow> Some Panic
     | (Inr _, w1) \<Rightarrow>
         ebind (mio_poll_new S P K [] 10 (st, w1)) (\<lambda>(r, st1, w2).
           (case r of Inl e \<Rightarrow> Some Panic | Inr c \<Rightarrow> Some (Ret (c, st1, w2)))))"

definition test_run ::
  "('sl, 'f entry) slab_ops \<Rightarrow> ('k, 'w) poll_ops \<Rightarrow> ('f, 'sl, 'k, 'st, 'w) runtime_ops
    \<Rightarrow> 'st \<times> ('sl, 'k) control \<times> 'w \<Rightarrow> (unit io \<times> ('sl, 'k, 'st, 'w) main_state) exec" where
  "test_run S P R = (\<lambda>(st, c, w).
     case rn_clock R w of (now, w1) \<Rightarrow>
       ebind (rn_run R now False (st, c, w1)) (\<lambda>(idle_pending, st1, c1, w2).
         main_loop S P R \<lparr>mn_stakker = st1, mn_ctl = c1, mn_world = w2,
           mn_idle_pending = idle_pending, mn_io_pending = False\<rparr>))"

text \<open>Creating the poller, starting the actors and running the loop is what \<open>main\<close> does.\<close>

lemma main_program_test:
  assumes "test_init S P K R x = Some (Ret (c, st, w))"
  shows "main_program S P K R x = ebind (test_run S P R (rn_start_listener R st, c, w)) (\<lambda>(res, m). Some (Ret res))"
proof -
  obtain st0 w0 where x: "x = (st0, w0)" by (rule prod.exhaust)
  obtain r0 w1 where p: "rn_poll_create R w0 = (r0, w1)" by (rule prod.exhaust)
  from assms x p have "r0 = Inr ()" by (cases r0) (simp_all add: test_init_def)
  moreover obtain r st1 w2 where new: "mio_poll_new S P K [] 10 (st0, w1) = Some (Ret (r, st1, w2))"
    "(case r of Inl e \<Rightarrow> Some Panic | Inr c \<Rightarrow> Some (Ret (c, st1, w2))) = Some (Ret (c, st, w))"
    using assms x p \<open>r0 = Inr ()\<close> by (auto simp: test_init_def ebind_eq_Ret)
  then have "mio_poll_new S P K [] 10 (st0, w1) = Some (Ret (Inr c, st, w))" by (cases r) simp_all
  ultimately show ?thesis using x p
    by (cases "rn_clock R w") (auto simp: main_program_def main_start_def test_run_def ebind_def
      split: option.splits outcome.splits)
qed

section \<open>The start of the tests\<close>

text \<open>
  \<open>test_udp\<close> and \<open>test_udpserver\<close>: two sockets of which nothing has been sent or received, the actors
  \<open>Sender\<close> and \<open>Receiver\<close> on them, and the call of \<open>next_packet\<close> that the Receiver's \<open>init\<close> queues.
\<close>

inductive udp_test_starts ::
  "('sl, 'f entry) slab_ops \<Rightarrow> ('s, 'w) source_ops \<Rightarrow> interest \<Rightarrow> interest \<Rightarrow> ('s, 'a, 'w) test_env
    \<Rightarrow> ('sl, 'k) control \<times> 'w \<Rightarrow> ('s udp_sender, 's udp_receiver, bytes, 'w) test_state \<Rightarrow> bool"
  for S D writable readable E cw0 where
  "sender_init S D writable fs (te_send_sock E) cw0 = Some (Some sd, rq1, cw1) \<Longrightarrow>
   receiver_init S D readable fr (te_recv_sock E) cw1 = Some (Some rc, rq2, c, w) \<Longrightarrow>
   te_flight E w = {#} \<Longrightarrow> te_got E w = [] \<Longrightarrow>
   udp_test_starts S D writable readable E cw0
     \<lparr>ts_sender = sd, ts_receiver = rc, ts_calls = rq1 @ rq2, ts_ends = [], ts_world = w\<rparr>"

inductive srv_test_starts ::
  "('sl, 'f entry) slab_ops \<Rightarrow> ('s, 'w) source_ops \<Rightarrow> interest \<Rightarrow> interest \<Rightarrow> ('s, 'a, 'w) test_env
    \<Rightarrow> ('sl, 'k) control \<times> 'w \<Rightarrow> (('s, 'a) srv_sender, ('s, 'a) srv_receiver, 'a \<times> bytes, 'w) test_state \<Rightarrow> bool"
  for S D writable readable E cw0 where
  "srv_sender_init S D writable fs (te_send_sock E) cw0 = Some (Some sd, rq1, cw1) \<Longrightarrow>
   srv_receiver_init S D readable fr (te_recv_sock E) (te_send_addr E) (te_recv_addr E) cw1 =
     Some (Some rc, rq2, c, w) \<Longrightarrow>
   te_flight E w = {#} \<Longrightarrow> te_got E w = [] \<Longrightarrow>
   srv_test_starts S D writable readable E cw0
     \<lparr>ts_sender = sd, ts_receiver = rc, ts_calls = rq1 @ rq2, ts_ends = [], ts_world = w\<rparr>"

lemma new_queue_init [simp]:
  "uq_init S D ms uq_new cw = Some (\<lparr>uq_out = [], uq_socket = Some ms\<rparr>, cw)"
  "us_init S D ms us_new cw = Some (\<lparr>us_out = [], us_socket = Some ms\<rparr>, cw)"
  by (simp_all add: uq_init_def uq_new_def us_init_def us_new_def)

lemma udp_test_starts:
  assumes "udp_test_starts S D wr rd E cw0 s"
  shows "udp_run.starts E s"
  using assms
proof cases
  case (1 fs sd rq1 cw1 fr rc rq2 c w)
  from 1(2) obtain ms where "sd = \<lparr>sn_queue = \<lparr>uq_out = [], uq_socket = Some ms\<rparr>\<rparr>" "ms_source ms = te_send_sock E" "rq1 = []"
    by (auto simp: sender_init_def sender_setup_def mio_poll_add_def split: option.splits sum.splits)
  moreover from 1(3) obtain ms where "rc = \<lparr>rc_queue = \<lparr>uq_out = [], uq_socket = Some ms\<rparr>, rc_next_index = 0,
      rc_expecting = None\<rparr>" "ms_source ms = te_recv_sock E" "rq2 = [TqNextPacket]"
    by (auto simp: receiver_init_def receiver_setup_def mio_poll_add_def split: option.splits sum.splits)
  ultimately show ?thesis using 1
    by (simp add: udp_run.starts_def udp_sender_ok_def udp_receiver_ok_def udp_held_def udp_progress_def has_socket_def)
qed

lemma srv_test_starts:
  assumes "srv_test_starts S D wr rd E cw0 s"
  shows "srv_run.starts E s"
  using assms
proof cases
  case (1 fs sd rq1 cw1 fr rc rq2 c w)
  from 1(2) obtain ms where "sd = \<lparr>sd_queue = \<lparr>us_out = [], us_socket = Some ms\<rparr>\<rparr>" "ms_source ms = te_send_sock E" "rq1 = []"
    by (auto simp: srv_sender_init_def srv_sender_setup_def mio_poll_add_def split: option.splits sum.splits)
  moreover from 1(3) obtain ms where "rc = \<lparr>rv_queue = \<lparr>us_out = [], us_socket = Some ms\<rparr>, rv_next_index = 0,
      rv_expecting = None, rv_send_addr = te_send_addr E, rv_recv_addr = te_recv_addr E\<rparr>"
      "ms_source ms = te_recv_sock E" "rq2 = [TqNextPacket]"
    by (auto simp: srv_receiver_init_def srv_receiver_setup_def mio_poll_add_def split: option.splits sum.splits)
  ultimately show ?thesis using 1
    by (simp add: srv_run.starts_def srv_sender_ok_def srv_receiver_ok_def srv_held_def srv_progress_def has_socket_def)
qed

lemma test_reachable_start:
  "test_reachable H net start s \<Longrightarrow> (\<And>s. start s \<Longrightarrow> start' s) \<Longrightarrow> test_reachable H net start' s"
  by (induction rule: test_reachable.induct) (auto intro: test_reachable.intros)

section \<open>A loopback network\<close>

text \<open>The world: the packets under way, and those received. The addresses are 7 and 8.\<close>

type_synonym loopback = "bytes list \<times> bytes list"

definition loop_recv :: "bytes \<Rightarrow> loopback \<Rightarrow> nat io \<times> bytes \<times> loopback" where
  "loop_recv buf = (\<lambda>(fl, gt). case fl of
       [] \<Rightarrow> (Inl (io_err WouldBlock), buf, (fl, gt))
     | p # ps \<Rightarrow> (Inr (length (take (length buf) p)), overwrite 0 (take (length buf) p) buf,
         (ps, gt @ [take (length buf) p])))"

definition loop_env :: "rust_rt \<Rightarrow> (nat, nat, loopback) test_env" where
  "loop_env rt = \<lparr>te_rt = rt,
     te_udp = \<lparr>udp_send = (\<lambda>s pk (fl, gt). (Inr (length pk), (fl @ [pk], gt))),
       udp_send_to = (\<lambda>s pk addr (fl, gt). (Inr (length pk), (if addr = 8 then fl @ [pk] else fl, gt))),
       udp_recv = (\<lambda>s. loop_recv),
       udp_recv_from = (\<lambda>s buf w. case loop_recv buf w of (r, bw) \<Rightarrow> (map_sum id (\<lambda>n. (n, 7)) r, bw))\<rparr>,
     te_send_sock = 0, te_recv_sock = 1, te_send_addr = 7, te_recv_addr = 8,
     te_flight = mset \<circ> fst, te_got = snd\<rparr>"

lemma loop_env_sel [simp]:
  "te_rt (loop_env rt) = rt" "te_send_sock (loop_env rt) = 0" "te_recv_sock (loop_env rt) = 1"
  "te_send_addr (loop_env rt) = 7" "te_recv_addr (loop_env rt) = 8"
  "te_flight (loop_env rt) w = mset (fst w)" "te_got (loop_env rt) = snd"
  "udp_send (te_udp (loop_env rt)) s pk (fl, gt) = (Inr (length pk), (fl @ [pk], gt))"
  "udp_send_to (te_udp (loop_env rt)) s pk addr (fl, gt) = (Inr (length pk), (if addr = 8 then fl @ [pk] else fl, gt))"
  "udp_recv (te_udp (loop_env rt)) s = loop_recv"
  "udp_recv_from (te_udp (loop_env rt)) s buf w = (case loop_recv buf w of (r, bw) \<Rightarrow> (map_sum id (\<lambda>n. (n, 7)) r, bw))"
  by (simp_all add: loop_env_def)

lemma loop_recv_ok:
  assumes "loop_recv buf w = (r, buf', w')"
  shows "length buf' = length buf"
    "case r of Inl e \<Rightarrow> e = io_err WouldBlock \<and> w' = w \<and> fst w = [] | Inr n \<Rightarrow> takes_packet (loop_env rt) buf w n buf' w'"
  using assms
  by (auto simp: loop_recv_def takes_packet_def overwrite_def min_def take_all_iff split: prod.splits list.splits)

lemma loop_pair: "udp_pair_reliable (loop_env rt)"
proof -
  have "case r of Inl e \<Rightarrow> \<not> truncated e \<and> lossy (loop_env rt) w w' | Inr n \<Rightarrow> takes_packet (loop_env rt) buf w n buf' w'"
    "case r of Inl e \<Rightarrow> err_kind e = WouldBlock \<and> te_flight (loop_env rt) w = {#} | Inr n \<Rightarrow> True"
    if "loop_recv buf w = (r, buf', w')" for buf w r buf' w'
    using loop_recv_ok(2) [OF that, of rt] by (auto simp: truncated_def split: sum.splits)
  then show ?thesis
    by (auto simp: udp_pair_reliable_def udp_pair_ok_def sends_ok_def sends_at_once_def loop_recv_ok(1))
qed

lemma loop_sockets: "srv_sockets_reliable (loop_env rt)"
proof -
  let ?recv = "udp_recv_from (te_udp (loop_env rt)) 1"
  have "length buf' = length buf" "case r of Inl e \<Rightarrow> lossy (loop_env rt) w w'
      | Inr (n, addr) \<Rightarrow> n \<le> length buf \<and>
          (if addr = 7 then takes_packet (loop_env rt) buf w n buf' w' else lossy (loop_env rt) w w')"
    "case r of Inl e \<Rightarrow> err_kind e = WouldBlock \<and> te_flight (loop_env rt) w = {#} | Inr (n, addr) \<Rightarrow> addr = 7"
    if rcv: "?recv buf w = (r, buf', w')" for buf w r buf' w'
  proof -
    obtain r1 where r1: "loop_recv buf w = (r1, buf', w')" "r = map_sum id (\<lambda>n. (n, 7)) r1"
      using rcv by (cases "loop_recv buf w") auto
    from loop_recv_ok(1) [OF r1(1)] loop_recv_ok(2) [OF r1(1), of rt] r1(2) show "length buf' = length buf" "case r of Inl e \<Rightarrow> lossy (loop_env rt) w w'
      | Inr (n, addr) \<Rightarrow> n \<le> length buf \<and>
          (if addr = 7 then takes_packet (loop_env rt) buf w n buf' w' else lossy (loop_env rt) w w')"
      "case r of Inl e \<Rightarrow> err_kind e = WouldBlock \<and> te_flight (loop_env rt) w = {#} | Inr (n, addr) \<Rightarrow> addr = 7"
      by (cases r1; auto dest: takes_packet_le)+
  qed
  note rcv = this
  have "sends_ok (loop_env rt) (send_entry (te_udp (loop_env rt)) 0) (\<lambda>(addr, pk). length pk) (srv_body (loop_env rt))"
    "sends_at_once (loop_env rt) (send_entry (te_udp (loop_env rt)) 0) (\<lambda>(addr, pk). length pk) (srv_body (loop_env rt))"
    by (auto simp: sends_ok_def sends_at_once_def srv_body_def)
  with rcv show ?thesis unfolding srv_sockets_reliable_def srv_sockets_ok_def loop_env_sel(2-4) by blast
qed

definition loop_source_ops :: "(nat, loopback) source_ops" where
  "loop_source_ops = \<lparr>so_register = (\<lambda>s t i w. (Inr (), w)), so_reregister = (\<lambda>s t i w. (Inr (), w)),
     so_deregister = (\<lambda>s w. (Inr (), w))\<rparr>"

definition loop_ctl :: "(nat entry option list, nat) control" where
  "loop_ctl = \<lparr>token_map = [], queues = replicate 10 [], n_queued = 0, max_pri = 10, priorities = 0,
     events = [], errors = [], waker = 0\<rparr>"

lemma loop_add: "\<exists>k c'. mio_poll_add slots_ops loop_source_ops x r p f (c, w) =
    Some (Inr \<lparr>ms_token = k, ms_source = x\<rparr>, c', w)"
  by (simp add: mio_poll_add_def control_add_def loop_source_ops_def retry_unfold split: prod.splits)

lemma loop_starts:
  "\<exists>s. udp_test_starts slots_ops loop_source_ops 2 1 (loop_env rt) (loop_ctl, ([], [])) s"
  "\<exists>s. srv_test_starts slots_ops loop_source_ops 2 1 (loop_env rt) (loop_ctl, ([], [])) s"
proof -
  obtain k c1 where 1: "mio_poll_add slots_ops loop_source_ops 0 2 10 5 (loop_ctl, ([], [])) =
      Some (Inr \<lparr>ms_token = k, ms_source = 0\<rparr>, c1, ([], []))"
    using loop_add [of 0 2 10 5 loop_ctl "([], [])"] by blast
  obtain k' c2 where 2: "mio_poll_add slots_ops loop_source_ops 1 1 10 6 (c1, ([], [])) =
      Some (Inr \<lparr>ms_token = k', ms_source = 1\<rparr>, c2, ([], []))"
    using loop_add [of 1 1 10 6 c1 "([], [])"] by blast
  have "sender_init slots_ops loop_source_ops 2 5 (te_send_sock (loop_env rt)) (loop_ctl, ([], [])) =
      Some (Some \<lparr>sn_queue = \<lparr>uq_out = [], uq_socket = Some \<lparr>ms_token = k, ms_source = 0\<rparr>\<rparr>\<rparr>, [], c1, ([], []))"
    "srv_sender_init slots_ops loop_source_ops 2 5 (te_send_sock (loop_env rt)) (loop_ctl, ([], [])) =
      Some (Some \<lparr>sd_queue = \<lparr>us_out = [] :: (nat \<times> bytes) list, us_socket = Some \<lparr>ms_token = k, ms_source = 0\<rparr>\<rparr>\<rparr>, [], c1, ([], []))"
    using 1 by (simp_all add: sender_init_def sender_setup_def srv_sender_init_def srv_sender_setup_def)
  note sd = this
  obtain rc rv where rc:
    "receiver_init slots_ops loop_source_ops 1 6 (te_recv_sock (loop_env rt)) (c1, ([], [])) =
      Some (Some rc, [TqNextPacket], c2, ([], []))"
    "srv_receiver_init slots_ops loop_source_ops 1 6 (te_recv_sock (loop_env rt)) (te_send_addr (loop_env rt))
      (te_recv_addr (loop_env rt)) (c1, ([], [])) = Some (Some rv, [TqNextPacket], c2, ([], []))"
    using 2 by (simp add: receiver_init_def receiver_setup_def srv_receiver_init_def srv_receiver_setup_def)
  show "\<exists>s. udp_test_starts slots_ops loop_source_ops 2 1 (loop_env rt) (loop_ctl, ([], [])) s"
    using udp_test_starts.intros [OF sd(1) rc(1)] by auto
  show "\<exists>s. srv_test_starts slots_ops loop_source_ops 2 1 (loop_env rt) (loop_ctl, ([], [])) s"
    using srv_test_starts.intros [OF sd(2) rc(2)] by auto
qed

section \<open>That the tests pass\<close>

lemma test_reachable_steps:
  "(test_step H net)\<^sup>*\<^sup>* s t \<Longrightarrow> test_reachable H net start s \<Longrightarrow> test_reachable H net start t"
  by (induction rule: rtranclp_induct) (auto intro: test_more)

lemma test_reachable_lossy:
  assumes "test_reachable H (lossless E) start s"
  shows "test_reachable H (lossy E) start s"
  using assms
proof induction
  case (test_more s t)
  from test_more(2) have "test_step H (lossy E) s t"
    by cases (auto intro: test_step.intros lossless_lossy)
  with test_more.IH show ?case by (rule test_reachable.test_more)
qed (rule test_reachable.test_start)

text \<open>C27. The assertions of the Receiver of \<open>test_udp\<close> never fail: in every reachable state of the test, whatever packets
  the network loses, however sends and receives are refused or interrupted, and whenever the handlers
  are called, the Receiver does not panic. What it has received are the first packets of the test data, in
  order and cut to the 1024 bytes of its buffer; when it has stopped, these are all seven.\<close>

theorem test_udp_never_panics:
  assumes "udp_pair_ok E" "test_reachable (udp_test E) (lossy E) (udp_test_starts S D wr rd E cw0) s"
  shows "receiver_ready (te_rt E) (te_udp E) (ts_receiver s) (ts_world s) \<noteq> Some Panic
    \<and> receiver_next_packet (te_rt E) (ts_receiver s) \<noteq> Panic
    \<and> (\<exists>k\<le>7. length (te_got E (ts_world s)) = k \<and> (TqStop \<in> set (ts_ends s) \<longrightarrow> k = 7) \<and>
        (\<forall>i<k. \<exists>d. testdata (te_rt E) (TEST_SIZES ! i) (word_of_nat i) = Ret d \<and>
           te_got E (ts_world s) ! i = take 1024 d))"
proof -
  have reach: "test_reachable (udp_test E) (lossy E) (udp_run.starts E) s"
    by (rule test_reachable_start [OF assms(2)]) (rule udp_test_starts)
  from udp_run.receives_in_order [OF reach assms(1)] obtain k where k: "k \<le> 7"
    "te_got E (ts_world s) = udp_run.received k" "TqStop \<in> set (ts_ends s) \<longrightarrow> k = 7" by blast
  have "\<exists>d. testdata (te_rt E) (TEST_SIZES ! i) (word_of_nat i) = Ret d \<and> te_got E (ts_world s) ! i = take 1024 d"
    if "i < k" for i
    using that k(1,2) testdata_runs [of "TEST_SIZES ! i" "te_rt E" "word_of_nat i"] TEST_SIZES_small [of i]
    by (simp add: udp_run.received_def test_packet_def)
  with udp_run.never_panics [OF reach assms(1)] k show ?thesis by (auto simp: udp_run.received_def)
qed

lemma test_udp_finishes:
  "\<exists>s. test_reachable (udp_test (loop_env rt)) (lossless (loop_env rt))
       (udp_test_starts slots_ops loop_source_ops 2 1 (loop_env rt) (loop_ctl, ([], []))) s \<and> ts_ends s = [TqStop]"
proof -
  let ?start = "udp_test_starts slots_ops loop_source_ops 2 1 (loop_env rt) (loop_ctl, ([], []))"
  let ?reach = "test_reachable (udp_test (loop_env rt)) (lossless (loop_env rt)) ?start"
  obtain s0 where s0: "?reach s0" "test_reachable (udp_test (loop_env rt)) (lossless (loop_env rt)) (udp_run.starts (loop_env rt)) s0"
    using loop_starts(1) [of rt] udp_test_starts by (blast intro: test_start)
  from udp_run.can_complete [OF s0(2) loop_pair] obtain t where
    "(test_step (udp_test (loop_env rt)) (lossless (loop_env rt)))\<^sup>*\<^sup>* s0 t" "ts_ends t = [TqStop]" by blast
  with s0(1) show ?thesis by (blast intro: test_reachable_steps)
qed

theorem test_udp_never_panics_witness:
  "\<exists>s. test_reachable (udp_test (loop_env exact_rt)) (lossy (loop_env exact_rt))
       (udp_test_starts slots_ops loop_source_ops 2 1 (loop_env exact_rt) (loop_ctl, ([], []))) s \<and> ts_ends s = [TqStop] \<and> receiver_ready exact_rt (te_udp (loop_env exact_rt)) (ts_receiver s) (ts_world s) \<noteq> Some Panic \<and>
     length (snd (ts_world s)) = 7"
proof -
  obtain s where s: "test_reachable (udp_test (loop_env exact_rt)) (lossless (loop_env exact_rt))
      (udp_test_starts slots_ops loop_source_ops 2 1 (loop_env exact_rt) (loop_ctl, ([], []))) s" "ts_ends s = [TqStop]"
    using test_udp_finishes by blast
  have "udp_pair_ok (loop_env exact_rt)" using loop_pair by (simp add: udp_pair_reliable_def)
  from test_udp_never_panics [OF this test_reachable_lossy [OF s(1)]] s(2) test_reachable_lossy [OF s(1)] show ?thesis
    by (intro exI [of _ s]) simp
qed

text \<open>\<open>test_udp\<close> passes on a network that loses nothing and takes every packet at once: from every
  reachable state it can be run to its end, no actor ever fails, and at the end all seven packets have been
  received.\<close>

theorem test_udp_passes:
  assumes "udp_pair_reliable E" "test_reachable (udp_test E) (lossless E) (udp_test_starts S D wr rd E cw0) s"
  shows "(\<exists>t. (test_step (udp_test E) (lossless E))\<^sup>*\<^sup>* s t \<and> ts_ends t = [TqStop])
    \<and> (ts_ends s \<noteq> [] \<longrightarrow> ts_ends s = [TqStop] \<and> length (te_got E (ts_world s)) = 7)"
proof -
  have "test_reachable (udp_test E) (lossless E) (udp_run.starts E) s"
    by (rule test_reachable_start [OF assms(2)]) (rule udp_test_starts)
  from udp_run.can_complete [OF this assms(1)] show ?thesis by (simp add: udp_run.received_def)
qed

theorem test_udp_passes_witness:
  "\<exists>s t. ts_ends s = [] \<and> (test_step (udp_test (loop_env exact_rt)) (lossless (loop_env exact_rt)))\<^sup>*\<^sup>* s t \<and> ts_ends t = [TqStop]"
proof -
  obtain s where s: "udp_test_starts slots_ops loop_source_ops 2 1 (loop_env exact_rt) (loop_ctl, ([], [])) s"
    using loop_starts(1) by blast
  then have "ts_ends s = []" by cases simp
  with test_udp_passes [OF loop_pair test_start, OF s] show ?thesis by blast
qed

text \<open>C28. The assertions of the Receiver of \<open>test_udpserver\<close> never fail, also when packets from other addresses arrive
  at any time: the Receiver does not panic, and what it has received from the Sender are the first
  packets of the test data, in order and complete; when it has stopped, these are all seven.\<close>

theorem test_udpserver_never_panics:
  assumes "srv_sockets_ok E" "test_reachable (srv_test E) (lossy E) (srv_test_starts S D wr rd E cw0) s"
  shows "srv_receiver_ready (te_rt E) (te_udp E) (ts_receiver s) (ts_world s) \<noteq> Some Panic
    \<and> srv_receiver_next_packet (te_rt E) (ts_receiver s) \<noteq> Panic
    \<and> (\<exists>k\<le>7. length (te_got E (ts_world s)) = k \<and> (TqStop \<in> set (ts_ends s) \<longrightarrow> k = 7) \<and>
        (\<forall>i<k. \<exists>d. testdata (te_rt E) (SRV_TEST_SIZES ! i) (word_of_nat i) = Ret d \<and>
           te_got E (ts_world s) ! i = d))"
proof -
  have reach: "test_reachable (srv_test E) (lossy E) (srv_run.starts E) s"
    by (rule test_reachable_start [OF assms(2)]) (rule srv_test_starts)
  from srv_run.receives_in_order [OF reach assms(1)] obtain k where k: "k \<le> 7"
    "te_got E (ts_world s) = srv_run.received k" "TqStop \<in> set (ts_ends s) \<longrightarrow> k = 7" by blast
  have "\<exists>d. testdata (te_rt E) (SRV_TEST_SIZES ! i) (word_of_nat i) = Ret d \<and> te_got E (ts_world s) ! i = d"
    if "i < k" for i
    using that k(1,2) testdata_runs [of "SRV_TEST_SIZES ! i" "te_rt E" "word_of_nat i"] SRV_TEST_SIZES_small [of i]
    by (simp add: srv_run.received_def test_packet_def)
  with srv_run.never_panics [OF reach assms(1)] k show ?thesis by (auto simp: srv_run.received_def)
qed

lemma test_udpserver_finishes:
  "\<exists>s. test_reachable (srv_test (loop_env rt)) (lossless (loop_env rt))
       (srv_test_starts slots_ops loop_source_ops 2 1 (loop_env rt) (loop_ctl, ([], []))) s \<and> ts_ends s = [TqStop]"
proof -
  let ?start = "srv_test_starts slots_ops loop_source_ops 2 1 (loop_env rt) (loop_ctl, ([], []))"
  let ?reach = "test_reachable (srv_test (loop_env rt)) (lossless (loop_env rt)) ?start"
  obtain s0 where s0: "?reach s0" "test_reachable (srv_test (loop_env rt)) (lossless (loop_env rt)) (srv_run.starts (loop_env rt)) s0"
    using loop_starts(2) [of rt] srv_test_starts by (blast intro: test_start)
  from srv_run.can_complete [OF s0(2) loop_sockets] obtain t where
    "(test_step (srv_test (loop_env rt)) (lossless (loop_env rt)))\<^sup>*\<^sup>* s0 t" "ts_ends t = [TqStop]" by blast
  with s0(1) show ?thesis by (blast intro: test_reachable_steps)
qed

theorem test_udpserver_never_panics_witness:
  "\<exists>s. test_reachable (srv_test (loop_env exact_rt)) (lossy (loop_env exact_rt))
       (srv_test_starts slots_ops loop_source_ops 2 1 (loop_env exact_rt) (loop_ctl, ([], []))) s \<and> ts_ends s = [TqStop] \<and> srv_receiver_ready exact_rt (te_udp (loop_env exact_rt)) (ts_receiver s) (ts_world s) \<noteq> Some Panic \<and>
     length (snd (ts_world s)) = 7"
proof -
  obtain s where s: "test_reachable (srv_test (loop_env exact_rt)) (lossless (loop_env exact_rt))
      (srv_test_starts slots_ops loop_source_ops 2 1 (loop_env exact_rt) (loop_ctl, ([], []))) s" "ts_ends s = [TqStop]"
    using test_udpserver_finishes by blast
  have "srv_sockets_ok (loop_env exact_rt)" using loop_sockets by (simp add: srv_sockets_reliable_def)
  from test_udpserver_never_panics [OF this test_reachable_lossy [OF s(1)]] s(2) test_reachable_lossy [OF s(1)] show ?thesis
    by (intro exI [of _ s]) simp
qed

text \<open>\<open>test_udpserver\<close> passes on a network that loses nothing, takes every packet at once and brings none
  from elsewhere: from every reachable state it can be run to its end, no actor ever fails, and at the end
  all seven packets have been received.\<close>

theorem test_udpserver_passes:
  assumes "srv_sockets_reliable E" "test_reachable (srv_test E) (lossless E) (srv_test_starts S D wr rd E cw0) s"
  shows "(\<exists>t. (test_step (srv_test E) (lossless E))\<^sup>*\<^sup>* s t \<and> ts_ends t = [TqStop])
    \<and> (ts_ends s \<noteq> [] \<longrightarrow> ts_ends s = [TqStop] \<and> length (te_got E (ts_world s)) = 7)"
proof -
  have "test_reachable (srv_test E) (lossless E) (srv_run.starts E) s"
    by (rule test_reachable_start [OF assms(2)]) (rule srv_test_starts)
  from srv_run.can_complete [OF this assms(1)] show ?thesis by (simp add: srv_run.received_def)
qed

theorem test_udpserver_passes_witness:
  "\<exists>s t. ts_ends s = [] \<and> (test_step (srv_test (loop_env exact_rt)) (lossless (loop_env exact_rt)))\<^sup>*\<^sup>* s t \<and> ts_ends t = [TqStop]"
proof -
  obtain s where s: "srv_test_starts slots_ops loop_source_ops 2 1 (loop_env exact_rt) (loop_ctl, ([], [])) s"
    using loop_starts(2) by blast
  then have "ts_ends s = []" by cases simp
  with test_udpserver_passes [OF loop_sockets test_start, OF s] show ?thesis by blast
qed

end
