(* ===== verification/Ref_Count.thy ===== *)
theory Ref_Count
  imports Mio_Prelude "HOL-Library.Multiset"
begin

text \<open>
  What the users of \<open>Rc\<close> rely on, as an interface: allocation gives an address that was free, with
  one handle; a clone adds a handle; dropping a handle takes it away and frees the address with the
  last. The lemma of the interface is the balance: as long as handles come from these three
  operations, the strong count of each address is the number of handles that hold it.
\<close>

locale counted_store =
  fixes ok :: "'h \<Rightarrow> bool"
    and strong :: "'h \<Rightarrow> nat \<Rightarrow> nat option"
    and alloc :: "'h \<Rightarrow> nat \<Rightarrow> 'h \<Rightarrow> bool"
    and clone :: "'h \<Rightarrow> nat \<Rightarrow> 'h \<Rightarrow> bool"
    and release :: "'h \<Rightarrow> nat \<Rightarrow> 'h \<Rightarrow> bool"
  assumes alloc_law: "ok h \<Longrightarrow> alloc h a h' \<Longrightarrow>
      ok h' \<and> strong h a = None \<and> strong h' = (strong h)(a \<mapsto> 1)"
    and clone_law: "ok h \<Longrightarrow> strong h a = Some n \<Longrightarrow> clone h a h' \<Longrightarrow>
      ok h' \<and> strong h' = (strong h)(a \<mapsto> Suc n)"
    and release_law: "ok h \<Longrightarrow> strong h a = Some (Suc n) \<Longrightarrow> release h a h' \<Longrightarrow>
      ok h' \<and> strong h' = (strong h)(a := if n = 0 then None else Some n)"
begin

definition balanced :: "'h \<Rightarrow> nat multiset \<Rightarrow> bool" where
  "balanced h M \<longleftrightarrow> ok h \<and> strong h = (\<lambda>a. if a \<in># M then Some (count M a) else None)"

lemma balancedD:
  assumes "balanced h M"
  shows "ok h" "strong h a = (if a \<in># M then Some (count M a) else None)"
  using assms by (simp_all add: balanced_def)

lemma balanced_cong:
  assumes "balanced h M" "ok h'" "strong h' = strong h"
  shows "balanced h' M"
  using assms by (simp add: balanced_def)

lemma balanced_alloc:
  assumes "balanced h M" "alloc h a h'"
  shows "balanced h' (add_mset a M)" "a \<notin># M"
proof -
  note bal = balancedD [OF assms(1)]
  note law = alloc_law [OF bal(1) assms(2)]
  from law bal(2) [of a] show "a \<notin># M" by (simp split: if_splits)
  with law bal(2) show "balanced h' (add_mset a M)"
    by (auto simp: balanced_def fun_eq_iff count_eq_zero_iff)
qed

lemma balanced_clone:
  assumes "balanced h M" "a \<in># M" "clone h a h'"
  shows "balanced h' (add_mset a M)"
proof -
  note bal = balancedD [OF assms(1)]
  from clone_law [OF bal(1) _ assms(3), of "count M a"] bal(2) assms(2) show ?thesis
    by (auto simp: balanced_def fun_eq_iff)
qed

lemma balanced_release:
  assumes "balanced h (add_mset a M)" "release h a h'"
  shows "balanced h' M"
proof -
  note bal = balancedD [OF assms(1)]
  have "count M a = 0 \<longleftrightarrow> a \<notin># M" by (simp add: count_eq_zero_iff)
  with release_law [OF bal(1) _ assms(2), of "count M a"] bal(2)
  show ?thesis by (simp add: balanced_def fun_eq_iff)
qed

end

end
