(* ===== verification/Shared_Cell.thy ===== *)
theory Shared_Cell
  imports Mio_Properties Ref_Count
begin

text \<open>
  The sharing in src/miopoll.rs: \<open>MioPoll\<close> and \<open>MioSource\<close> are handles to one
  \<open>Rc<RefCell<Control>>\<close>. Here the cells are a store, handles hold their addresses, every operation
  borrows the cell for its duration, as the source does, and the last handle to go frees it. A
  forward is code that runs where the source calls or drops it, inside the borrow, so a forward that
  comes back to the poller finds the cell borrowed. \<open>Mio_Poll\<close> is the view of one cell without
  the handles.
\<close>

section \<open>The store\<close>

record 'c rc_cell =
  rc_strong :: nat
  rc_borrowed :: bool
  rc_value :: 'c

record ('sl, 'k, 'w) shared =
  sh_next :: nat
  sh_cells :: "nat \<Rightarrow> ('sl, 'k) control rc_cell option"
  sh_world :: 'w

text \<open>
  What a forward does when it is called, and when it is dropped: any code, which may use the store.
  The last operation drops the token table of a \<open>Control\<close> that is freed, with the forwards in it.
\<close>

record ('f, 'sl, 'k, 'w) fwd_ops =
  fw_call :: "'f \<Rightarrow> ready \<Rightarrow> ('sl, 'k, 'w) shared \<Rightarrow> ('sl, 'k, 'w) shared exec"
  fw_drop :: "'f \<Rightarrow> ('sl, 'k, 'w) shared \<Rightarrow> ('sl, 'k, 'w) shared exec"
  fw_drop_table :: "'sl \<Rightarrow> ('sl, 'k, 'w) shared \<Rightarrow> ('sl, 'k, 'w) shared exec"

text \<open>\<open>Rc::new\<close>, \<open>Rc::clone\<close>, the drop of an \<open>Rc\<close>, and \<open>borrow_mut\<close> with the end of the borrow.\<close>

definition rc_new :: "('sl, 'k) control \<Rightarrow> ('sl, 'k, 'w) shared \<Rightarrow> nat \<times> ('sl, 'k, 'w) shared" where
  "rc_new c h = (sh_next h, h\<lparr>sh_next := Suc (sh_next h),
     sh_cells := (sh_cells h)(sh_next h \<mapsto> \<lparr>rc_strong = 1, rc_borrowed = False, rc_value = c\<rparr>)\<rparr>)"

definition rc_clone :: "nat \<Rightarrow> ('sl, 'k, 'w) shared \<Rightarrow> ('sl, 'k, 'w) shared" where
  "rc_clone a h = h\<lparr>sh_cells := (sh_cells h)(a :=
     map_option (\<lambda>cl. cl\<lparr>rc_strong := Suc (rc_strong cl)\<rparr>) (sh_cells h a))\<rparr>"

definition rc_drop ::
  "('f, 'sl, 'k, 'w) fwd_ops \<Rightarrow> nat \<Rightarrow> ('sl, 'k, 'w) shared \<Rightarrow> ('sl, 'k, 'w) shared exec" where
  "rc_drop F a h =
     (case sh_cells h a of
        None \<Rightarrow> Some Panic
      | Some cl \<Rightarrow>
          if 1 < rc_strong cl
          then Some (Ret (h\<lparr>sh_cells := (sh_cells h)(a \<mapsto> cl\<lparr>rc_strong := rc_strong cl - 1\<rparr>)\<rparr>))
          else fw_drop_table F (token_map (rc_value cl)) (h\<lparr>sh_cells := (sh_cells h)(a := None)\<rparr>))"

definition borrow_mut ::
  "nat \<Rightarrow> ('sl, 'k, 'w) shared \<Rightarrow> (('sl, 'k) control \<times> ('sl, 'k, 'w) shared) outcome" where
  "borrow_mut a h =
     (case sh_cells h a of
        None \<Rightarrow> Panic
      | Some cl \<Rightarrow>
          if rc_borrowed cl then Panic
          else Ret (rc_value cl, h\<lparr>sh_cells := (sh_cells h)(a \<mapsto> cl\<lparr>rc_borrowed := True\<rparr>)\<rparr>))"

definition end_borrow :: "nat \<Rightarrow> ('sl, 'k) control \<Rightarrow> ('sl, 'k, 'w) shared \<Rightarrow> ('sl, 'k, 'w) shared" where
  "end_borrow a c h = h\<lparr>sh_cells := (sh_cells h)(a :=
     map_option (\<lambda>cl. cl\<lparr>rc_borrowed := False, rc_value := c\<rparr>) (sh_cells h a))\<rparr>"

section \<open>The handles\<close>

record mio_poll =
  mp_rc :: nat

record 's shared_source =
  ss_token :: nat
  ss_ctrl :: nat
  ss_source :: 's

definition mio_source_deref :: "'s shared_source \<Rightarrow> 's" where
  "mio_source_deref ms = ss_source ms"

text \<open>Through \<open>deref_mut\<close> the caller stores anything in the place of the source.\<close>

definition mio_source_deref_mut :: "('s \<Rightarrow> 's) \<Rightarrow> 's shared_source \<Rightarrow> 's shared_source" where
  "mio_source_deref_mut g ms = ms\<lparr>ss_source := g (ss_source ms)\<rparr>"

definition mio_poll_clone :: "mio_poll \<Rightarrow> ('sl, 'k, 'w) shared \<Rightarrow> mio_poll \<times> ('sl, 'k, 'w) shared" where
  "mio_poll_clone p h = (\<lparr>mp_rc = mp_rc p\<rparr>, rc_clone (mp_rc p) h)"

section \<open>The operations\<close>

text \<open>\<open>MioPoll::new\<close> gives a handle and puts a clone of it into Stakker's anymap.\<close>

definition shared_new ::
  "('sl, 'f entry) slab_ops \<Rightarrow> ('k, 'w) poll_ops \<Rightarrow> ('f, 'k, 'st) stakker_ops \<Rightarrow> event list \<Rightarrow> nat
    \<Rightarrow> 'st \<times> ('sl, 'k, 'w) shared
    \<Rightarrow> ((mio_poll \<times> mio_poll) io \<times> 'st \<times> ('sl, 'k, 'w) shared) exec" where
  "shared_new S P K evs pri = (\<lambda>(st, h).
     ebind (mio_poll_new S P K evs pri (st, sh_world h)) (\<lambda>(r, st', w').
       let h1 = h\<lparr>sh_world := w'\<rparr> in
       (case r of
          Inl e \<Rightarrow> Some (Ret (Inl e, st', h1))
        | Inr c \<Rightarrow>
            let (a, h2) = rc_new c h1;
                (clone, h3) = mio_poll_clone \<lparr>mp_rc = a\<rparr> h2
            in Some (Ret (Inr (\<lparr>mp_rc = a\<rparr>, clone), st', h3)))))"

definition shared_add ::
  "('sl, 'f entry) slab_ops \<Rightarrow> ('s, 'w) source_ops \<Rightarrow> mio_poll \<Rightarrow> 's \<Rightarrow> interest \<Rightarrow> nat \<Rightarrow> 'f
    \<Rightarrow> ('sl, 'k, 'w) shared \<Rightarrow> ('s shared_source io \<times> ('sl, 'k, 'w) shared) exec" where
  "shared_add S D p source ready pri fwd h =
     (case borrow_mut (mp_rc p) h of
        Panic \<Rightarrow> Some Panic
      | Ret (c, h1) \<Rightarrow>
          (case control_add S D source ready pri fwd (c, sh_world h1) of
             None \<Rightarrow> None
           | Some (r, c', w') \<Rightarrow>
               let h2 = end_borrow (mp_rc p) c' (h1\<lparr>sh_world := w'\<rparr>) in
               (case r of
                  Inl e \<Rightarrow> Some (Ret (Inl e, h2))
                | Inr token \<Rightarrow> Some (Ret (Inr \<lparr>ss_token = token, ss_ctrl = mp_rc p, ss_source = source\<rparr>,
                    rc_clone (mp_rc p) h2)))))"

text \<open>
  The calls of a poll, made while the cell is borrowed. What \<open>Control::poll\<close> does between them is not
  seen by the calls, nor can they change it, so they are made after it.
\<close>

fun call_forwards ::
  "('f, 'sl, 'k, 'w) fwd_ops \<Rightarrow> 'f call list \<Rightarrow> ('sl, 'k, 'w) shared \<Rightarrow> ('sl, 'k, 'w) shared exec" where
  "call_forwards F [] h = Some (Ret h)"
| "call_forwards F ((f, ready) # calls) h = ebind (fw_call F f ready h) (call_forwards F calls)"

text \<open>Taking an entry out of the token table, or a forward out of an entry, drops that forward.\<close>

definition entry_fwd_drop ::
  "('sl, 'f entry) slab_ops \<Rightarrow> ('f, 'sl, 'k, 'w) fwd_ops \<Rightarrow> 'sl \<Rightarrow> nat
    \<Rightarrow> ('sl, 'k, 'w) shared \<Rightarrow> ('sl, 'k, 'w) shared exec" where
  "entry_fwd_drop S F tm k h =
     (case slab_get S tm k of None \<Rightarrow> Some (Ret h) | Some en \<Rightarrow> fw_drop F (e_fwd en) h)"

definition shared_poll ::
  "('sl, 'f entry) slab_ops \<Rightarrow> ('k, 'w) poll_ops \<Rightarrow> ('f, 'sl, 'k, 'w) fwd_ops \<Rightarrow> nat \<Rightarrow> mio_poll
    \<Rightarrow> ('sl, 'k, 'w) shared \<Rightarrow> ((bool \<times> bool) io \<times> ('sl, 'k, 'w) shared) exec" where
  "shared_poll S P F max_delay p h =
     (case borrow_mut (mp_rc p) h of
        Panic \<Rightarrow> Some Panic
      | Ret (c, h1) \<Rightarrow>
          ebind (control_poll S P max_delay (c, sh_world h1)) (\<lambda>(r, c', calls, w').
          ebind (call_forwards F calls (h1\<lparr>sh_world := w'\<rparr>)) (\<lambda>h2.
            Some (Ret (r, end_borrow (mp_rc p) c' h2)))))"

text \<open>The assignment in \<open>Control::set_wake_fwd\<close> drops the forward that was there.\<close>

definition shared_set_wake_fwd ::
  "('sl, 'f entry) slab_ops \<Rightarrow> ('f, 'sl, 'k, 'w) fwd_ops \<Rightarrow> 'f \<Rightarrow> mio_poll
    \<Rightarrow> ('sl, 'k, 'w) shared \<Rightarrow> ('sl, 'k, 'w) shared exec" where
  "shared_set_wake_fwd S F fwd p h =
     (case borrow_mut (mp_rc p) h of
        Panic \<Rightarrow> Some Panic
      | Ret (c, h1) \<Rightarrow>
          (case control_set_wake_fwd S fwd c of
             Panic \<Rightarrow> Some Panic
           | Ret c' \<Rightarrow>
               ebind (entry_fwd_drop S F (token_map c) WAKER_TOKEN h1) (\<lambda>h2.
                 Some (Ret (end_borrow (mp_rc p) c' h2)))))"

definition shared_waker :: "mio_poll \<Rightarrow> ('sl, 'k, 'w) shared \<Rightarrow> ('k \<times> ('sl, 'k, 'w) shared) outcome" where
  "shared_waker p h = obind (borrow_mut (mp_rc p) h) (\<lambda>(c, h1). Ret (waker c, end_borrow (mp_rc p) c h1))"

text \<open>
  The drop of a \<open>MioSource\<close>: \<open>Control::del\<close> takes the entry out of the table, which drops its forward,
  inside the borrow; after the borrow the field \<open>ctrl\<close> is dropped.
\<close>

definition shared_source_drop ::
  "('sl, 'f entry) slab_ops \<Rightarrow> ('s, 'w) source_ops \<Rightarrow> ('f, 'sl, 'k, 'w) fwd_ops \<Rightarrow> 's shared_source
    \<Rightarrow> ('sl, 'k, 'w) shared \<Rightarrow> ('sl, 'k, 'w) shared exec" where
  "shared_source_drop S D F ms h =
     (case borrow_mut (ss_ctrl ms) h of
        Panic \<Rightarrow> Some Panic
      | Ret (c, h1) \<Rightarrow>
          (case control_del S D (ss_token ms) (ss_source ms) (c, sh_world h1) of
             None \<Rightarrow> None
           | Some (r, c', w') \<Rightarrow>
               let h2 = h1\<lparr>sh_world := w'\<rparr> in
               ebind (entry_fwd_drop S F (token_map c) (ss_token ms) h2) (\<lambda>h3.
                 let c'' = (case r of Inl e \<Rightarrow> c'\<lparr>errors := errors c' @ [e]\<rparr> | Inr _ \<Rightarrow> c')
                 in rc_drop F (ss_ctrl ms) (end_borrow (ss_ctrl ms) c'' h3))))"

definition shared_poll_drop ::
  "('f, 'sl, 'k, 'w) fwd_ops \<Rightarrow> mio_poll \<Rightarrow> ('sl, 'k, 'w) shared \<Rightarrow> ('sl, 'k, 'w) shared exec" where
  "shared_poll_drop F p h = rc_drop F (mp_rc p) h"

section \<open>Deferred forwards\<close>

text \<open>
  Stakker's own forwards to actors defer: a call or a drop adds to the queues of Stakker, which
  are part of the world, and leaves the cells alone.
\<close>

definition deferred :: "('f, 'sl, 'k, 'w) fwd_ops \<Rightarrow> bool" where
  "deferred F \<longleftrightarrow> (\<forall>f r h. \<exists>w. fw_call F f r h = Some (Ret (h\<lparr>sh_world := w\<rparr>))) \<and>
     (\<forall>f h. \<exists>w. fw_drop F f h = Some (Ret (h\<lparr>sh_world := w\<rparr>))) \<and>
     (\<forall>tm h. \<exists>w. fw_drop_table F tm h = Some (Ret (h\<lparr>sh_world := w\<rparr>)))"

lemma deferredD:
  assumes "deferred F"
  shows "\<exists>w. fw_call F f r h = Some (Ret (h\<lparr>sh_world := w\<rparr>))"
    "\<exists>w. fw_drop F f h = Some (Ret (h\<lparr>sh_world := w\<rparr>))"
    "\<exists>w. fw_drop_table F tm h = Some (Ret (h\<lparr>sh_world := w\<rparr>))"
  using assms by (simp_all add: deferred_def)

lemma call_forwards_append:
  "call_forwards F (xs @ ys) h = ebind (call_forwards F xs h) (call_forwards F ys)"
  by (induction xs arbitrary: h) (auto simp: ebind_def split: option.splits outcome.splits)

lemma call_forwards_quiet:
  assumes "\<forall>(f, r)\<in>set calls. \<forall>h. \<exists>w. fw_call F f r h = Some (Ret (h\<lparr>sh_world := w\<rparr>))"
  shows "\<exists>w. call_forwards F calls h = Some (Ret (h\<lparr>sh_world := w\<rparr>))"
  using assms
proof (induction calls arbitrary: h)
  case Nil
  show ?case by (intro exI [of _ "sh_world h"]) simp
next
  case (Cons x calls)
  obtain f r where x: "x = (f, r)" by (rule prod.exhaust)
  with Cons.prems have "\<exists>w. fw_call F f r h = Some (Ret (h\<lparr>sh_world := w\<rparr>))" by simp
  then obtain w where "fw_call F f r h = Some (Ret (h\<lparr>sh_world := w\<rparr>))" ..
  with Cons.IH [of "h\<lparr>sh_world := w\<rparr>"] Cons.prems x show ?case by simp
qed

lemma call_forwards_deferred:
  assumes "deferred F"
  shows "\<exists>w. call_forwards F calls h = Some (Ret (h\<lparr>sh_world := w\<rparr>))"
  by (rule call_forwards_quiet) (use deferredD(1) [OF assms] in auto)

lemma entry_fwd_drop_deferred:
  assumes "deferred F"
  shows "\<exists>w. entry_fwd_drop S F tm k h = Some (Ret (h\<lparr>sh_world := w\<rparr>))"
proof (cases "slab_get S tm k")
  case None
  then show ?thesis by (intro exI [of _ "sh_world h"]) (simp add: entry_fwd_drop_def)
next
  case (Some en)
  obtain w where "fw_drop F (e_fwd en) h = Some (Ret (h\<lparr>sh_world := w\<rparr>))"
    using deferredD(2) [OF assms] by blast
  with Some show ?thesis by (intro exI [of _ w]) (simp add: entry_fwd_drop_def)
qed

text \<open>Deferred code does not panic.\<close>

lemma deferred_no_panic:
  assumes "deferred F"
  shows "call_forwards F calls h \<noteq> Some Panic" "entry_fwd_drop S F tm k h \<noteq> Some Panic"
    "fw_drop_table F tm h \<noteq> Some Panic"
  using call_forwards_deferred [OF assms, of calls h] entry_fwd_drop_deferred [OF assms, of S tm k h]
    deferredD(3) [OF assms, of tm h]
  by auto

section \<open>Cells\<close>

lemma borrow_mut_eq_Ret:
  "borrow_mut a h = Ret (c, h1) \<longleftrightarrow> (\<exists>cl. sh_cells h a = Some cl \<and> \<not> rc_borrowed cl \<and> c = rc_value cl \<and>
     h1 = h\<lparr>sh_cells := (sh_cells h)(a \<mapsto> cl\<lparr>rc_borrowed := True\<rparr>)\<rparr>)"
  by (auto simp: borrow_mut_def split: option.splits)

text \<open>A borrow that ends leaves the cell with a new value and all other cells as they were.\<close>

definition set_cell :: "nat \<Rightarrow> ('sl, 'k) control \<Rightarrow> 'w \<Rightarrow> ('sl, 'k, 'w) shared \<Rightarrow> ('sl, 'k, 'w) shared" where
  "set_cell a c w h = h\<lparr>sh_world := w, sh_cells := (sh_cells h)(a :=
     map_option (\<lambda>cl. cl\<lparr>rc_value := c\<rparr>) (sh_cells h a))\<rparr>"

lemma borrow_released:
  assumes "sh_cells h a = Some cl" "\<not> rc_borrowed cl"
  shows "end_borrow a c (h\<lparr>sh_cells := (sh_cells h)(a \<mapsto> cl\<lparr>rc_borrowed := True\<rparr>), sh_world := w\<rparr>) = set_cell a c w h"
  using assms by (cases cl) (simp add: end_borrow_def set_cell_def)

lemma set_cell_same [simp]:
  "sh_cells h a = Some cl \<Longrightarrow> set_cell a (rc_value cl) (sh_world h) h = h"
  by (cases h, cases cl) (auto simp: set_cell_def)

lemma set_cell_cells:
  "sh_cells h a = Some cl \<Longrightarrow> sh_cells (set_cell a c w h) = (sh_cells h)(a \<mapsto> cl\<lparr>rc_value := c\<rparr>)"
  by (simp add: set_cell_def)

lemma set_cell_fields [simp]:
  "sh_next (set_cell a c w h) = sh_next h" "sh_world (set_cell a c w h) = w"
  by (simp_all add: set_cell_def)

section \<open>The operations as those of \<open>Mio_Poll\<close>\<close>

text \<open>
  On a cell that is not borrowed, and with deferred forwards, each operation does what the operation
  of \<open>Mio_Poll\<close> does on the value of the cell.
\<close>

definition source_view :: "'s shared_source \<Rightarrow> 's mio_source" where
  "source_view ms = \<lparr>ms_token = ss_token ms, ms_source = ss_source ms\<rparr>"

lemma shared_add_eq:
  assumes "sh_cells h (mp_rc p) = Some cl" "\<not> rc_borrowed cl"
  shows "shared_add S D p source ready pri fwd h =
    map_option (\<lambda>(r, c', w'). Ret (case r of
        Inl e \<Rightarrow> (Inl e, set_cell (mp_rc p) c' w' h)
      | Inr ms \<Rightarrow> (Inr \<lparr>ss_token = ms_token ms, ss_ctrl = mp_rc p, ss_source = ms_source ms\<rparr>,
          rc_clone (mp_rc p) (set_cell (mp_rc p) c' w' h))))
      (mio_poll_add S D source ready pri fwd (rc_value cl, sh_world h))"
  using assms borrow_released [OF assms]
  by (simp add: shared_add_def borrow_mut_def mio_poll_add_def Let_def split: option.splits prod.splits sum.splits)

lemma shared_add_cases:
  assumes "sh_cells h (mp_rc p) = Some cl" "\<not> rc_borrowed cl"
    and "shared_add S D p source ready pri fwd h = Some (Ret (r, h'))"
  obtains (added) ms c' w' where "r = Inr ms" "ss_ctrl ms = mp_rc p"
      "mio_poll_add S D source ready pri fwd (rc_value cl, sh_world h) = Some (Inr (source_view ms), c', w')"
      "h' = rc_clone (mp_rc p) (set_cell (mp_rc p) c' w' h)"
    | (failed) e c' w' where "r = Inl e"
      "mio_poll_add S D source ready pri fwd (rc_value cl, sh_world h) = Some (Inl e, c', w')"
      "h' = set_cell (mp_rc p) c' w' h"
proof -
  from assms(3) obtain r0 c' w' where
    add: "mio_poll_add S D source ready pri fwd (rc_value cl, sh_world h) = Some (r0, c', w')"
    and h': "(r, h') = (case r0 of Inl e \<Rightarrow> (Inl e, set_cell (mp_rc p) c' w' h)
      | Inr ms \<Rightarrow> (Inr \<lparr>ss_token = ms_token ms, ss_ctrl = mp_rc p, ss_source = ms_source ms\<rparr>,
          rc_clone (mp_rc p) (set_cell (mp_rc p) c' w' h)))"
    by (auto simp: shared_add_eq [OF assms(1,2)])
  show thesis
  proof (cases r0)
    case (Inl e)
    with add h' show thesis by (intro failed) auto
  next
    case (Inr ms)
    with add h' show thesis
      by (intro added [of "\<lparr>ss_token = ms_token ms, ss_ctrl = mp_rc p, ss_source = ms_source ms\<rparr>"])
         (auto simp: source_view_def)
  qed
qed

lemma shared_add_no_panic:
  assumes "sh_cells h (mp_rc p) = Some cl" "\<not> rc_borrowed cl"
  shows "shared_add S D p source ready pri fwd h \<noteq> Some Panic"
  using assms by (auto simp: shared_add_def borrow_mut_def Let_def split: option.splits prod.splits sum.splits)

lemma shared_poll_cases:
  assumes "sh_cells h (mp_rc p) = Some cl" "\<not> rc_borrowed cl" "deferred F"
    and "shared_poll S P F d p h = Some (Ret (r, h'))"
  obtains c' calls w' w'' where
    "mio_poll_poll S P d (rc_value cl, sh_world h) = Some (Ret (r, c', calls, w'))"
    "h' = set_cell (mp_rc p) c' w'' h"
proof -
  let ?h = "h\<lparr>sh_cells := (sh_cells h)(mp_rc p \<mapsto> cl\<lparr>rc_borrowed := True\<rparr>)\<rparr>"
  from assms(1,2,4) obtain c' calls w' h2 where
    poll: "mio_poll_poll S P d (rc_value cl, sh_world h) = Some (Ret (r, c', calls, w'))"
      "call_forwards F calls (?h\<lparr>sh_world := w'\<rparr>) = Some (Ret h2)" "h' = end_borrow (mp_rc p) c' h2"
    by (auto simp: shared_poll_def borrow_mut_def mio_poll_poll_def ebind_eq_Ret)
  with call_forwards_deferred [OF assms(3), of calls "?h\<lparr>sh_world := w'\<rparr>"]
  obtain w'' where "h2 = ?h\<lparr>sh_world := w''\<rparr>" by auto
  with poll(3) borrow_released [OF assms(1,2), of c' w''] have "h' = set_cell (mp_rc p) c' w'' h" by simp
  with poll(1) show thesis by (rule that)
qed

lemma shared_poll_no_panic:
  assumes "sh_cells h (mp_rc p) = Some cl" "\<not> rc_borrowed cl" "deferred F"
    and "mio_poll_poll S P d (rc_value cl, sh_world h) \<noteq> Some Panic"
  shows "shared_poll S P F d p h \<noteq> Some Panic"
  using assms deferred_no_panic [OF assms(3)]
  by (auto simp: shared_poll_def borrow_mut_def mio_poll_poll_def ebind_eq_Panic)

lemma shared_set_wake_fwd_cases:
  assumes "sh_cells h (mp_rc p) = Some cl" "\<not> rc_borrowed cl" "deferred F"
    and "shared_set_wake_fwd S F fwd p h = Some (Ret h')"
  obtains c' w' where "mio_poll_set_wake_fwd S fwd (rc_value cl) = Ret c'" "h' = set_cell (mp_rc p) c' w' h"
proof -
  let ?h = "h\<lparr>sh_cells := (sh_cells h)(mp_rc p \<mapsto> cl\<lparr>rc_borrowed := True\<rparr>)\<rparr>"
  from assms(1,2,4) obtain c' h2 where
    set: "mio_poll_set_wake_fwd S fwd (rc_value cl) = Ret c'"
      "entry_fwd_drop S F (token_map (rc_value cl)) WAKER_TOKEN ?h = Some (Ret h2)"
      "h' = end_borrow (mp_rc p) c' h2"
    by (auto simp: shared_set_wake_fwd_def borrow_mut_def mio_poll_set_wake_fwd_def ebind_eq_Ret
        split: outcome.splits)
  with entry_fwd_drop_deferred [OF assms(3), of S "token_map (rc_value cl)" WAKER_TOKEN ?h]
  obtain w' where "h2 = ?h\<lparr>sh_world := w'\<rparr>" by auto
  with set(3) borrow_released [OF assms(1,2), of c' w'] have "h' = set_cell (mp_rc p) c' w' h" by simp
  with set(1) show thesis by (rule that)
qed

lemma shared_set_wake_fwd_no_panic:
  assumes "sh_cells h (mp_rc p) = Some cl" "\<not> rc_borrowed cl" "deferred F"
    and "mio_poll_set_wake_fwd S fwd (rc_value cl) \<noteq> Panic"
  shows "shared_set_wake_fwd S F fwd p h \<noteq> Some Panic"
  using assms deferred_no_panic [OF assms(3)]
  by (auto simp: shared_set_wake_fwd_def borrow_mut_def mio_poll_set_wake_fwd_def ebind_eq_Panic
      split: outcome.splits)

lemma shared_waker_eq:
  assumes "sh_cells h (mp_rc p) = Some cl" "\<not> rc_borrowed cl"
  shows "shared_waker p h = Ret (mio_poll_waker (rc_value cl), h)"
  using assms borrow_released [OF assms, of "rc_value cl" "sh_world h"]
  by (simp add: shared_waker_def borrow_mut_def mio_poll_waker_def)

lemma shared_source_drop_cases:
  assumes "sh_cells h (ss_ctrl ms) = Some cl" "\<not> rc_borrowed cl" "deferred F"
    and "shared_source_drop S D F ms h = Some (Ret h')"
  obtains c' w' w'' where
    "mio_source_drop S D (source_view ms) (rc_value cl, sh_world h) = Some (c', w')"
    "rc_drop F (ss_ctrl ms) (set_cell (ss_ctrl ms) c' w'' h) = Some (Ret h')"
proof -
  let ?h = "h\<lparr>sh_cells := (sh_cells h)(ss_ctrl ms \<mapsto> cl\<lparr>rc_borrowed := True\<rparr>)\<rparr>"
  let ?c = "\<lambda>r c'. case r of Inl e \<Rightarrow> c'\<lparr>errors := errors c' @ [e]\<rparr> | Inr _ \<Rightarrow> c'"
  from assms(1,2,4) obtain r c' w' h2 where
    del: "control_del S D (ss_token ms) (ss_source ms) (rc_value cl, sh_world h) = Some (r, c', w')"
      "entry_fwd_drop S F (token_map (rc_value cl)) (ss_token ms) (?h\<lparr>sh_world := w'\<rparr>) = Some (Ret h2)"
      "rc_drop F (ss_ctrl ms) (end_borrow (ss_ctrl ms) (?c r c') h2) = Some (Ret h')"
    by (auto simp: shared_source_drop_def borrow_mut_def ebind_eq_Ret Let_def split: option.splits)
  with entry_fwd_drop_deferred [OF assms(3), of S "token_map (rc_value cl)" "ss_token ms" "?h\<lparr>sh_world := w'\<rparr>"]
  obtain w'' where "h2 = ?h\<lparr>sh_world := w''\<rparr>" by auto
  with del(3) borrow_released [OF assms(1,2), of "?c r c'" w'']
  have "rc_drop F (ss_ctrl ms) (set_cell (ss_ctrl ms) (?c r c') w'' h) = Some (Ret h')" by simp
  moreover have "mio_source_drop S D (source_view ms) (rc_value cl, sh_world h) = Some (?c r c', w')"
    using del(1) by (simp add: mio_source_drop_def source_view_def split: sum.splits)
  ultimately show thesis by (intro that)
qed

lemma rc_drop_no_panic:
  assumes "sh_cells h a \<noteq> None" "deferred F"
  shows "rc_drop F a h \<noteq> Some Panic"
  using assms(1) deferred_no_panic(3) [OF assms(2)] by (auto simp: rc_drop_def split: option.splits)

lemma shared_source_drop_no_panic:
  assumes "sh_cells h (ss_ctrl ms) = Some cl" "\<not> rc_borrowed cl" "deferred F"
  shows "shared_source_drop S D F ms h \<noteq> Some Panic"
proof
  let ?h = "h\<lparr>sh_cells := (sh_cells h)(ss_ctrl ms \<mapsto> cl\<lparr>rc_borrowed := True\<rparr>)\<rparr>"
  assume "shared_source_drop S D F ms h = Some Panic"
  then obtain c c' w' h2 where
    drop: "entry_fwd_drop S F (token_map (rc_value cl)) (ss_token ms) (?h\<lparr>sh_world := w'\<rparr>) = Some (Ret h2)"
      "rc_drop F (ss_ctrl ms) (end_borrow (ss_ctrl ms) c' h2) = Some Panic"
    using assms(1,2) deferred_no_panic [OF assms(3)]
    by (auto simp: shared_source_drop_def borrow_mut_def ebind_eq_Panic Let_def split: option.splits)
  with entry_fwd_drop_deferred [OF assms(3), of S "token_map (rc_value cl)" "ss_token ms" "?h\<lparr>sh_world := w'\<rparr>"]
  obtain w'' where "h2 = ?h\<lparr>sh_world := w''\<rparr>" by auto
  then have "sh_cells (end_borrow (ss_ctrl ms) c' h2) (ss_ctrl ms) \<noteq> None" by (simp add: end_borrow_def)
  from rc_drop_no_panic [OF this assms(3)] drop(2) show False by simp
qed

section \<open>The strong counts\<close>

text \<open>The store is sound when no cell lies beyond the next address; its cells keep the contract.\<close>

definition store_ok :: "('sl, 'k, 'w) shared \<Rightarrow> bool" where
  "store_ok h \<longleftrightarrow> (\<forall>a. sh_cells h a \<noteq> None \<longrightarrow> a < sh_next h)"

definition strong_count :: "('sl, 'k, 'w) shared \<Rightarrow> nat \<Rightarrow> nat option" where
  "strong_count h a = map_option rc_strong (sh_cells h a)"

definition rc_allocated :: "('sl, 'k, 'w) shared \<Rightarrow> nat \<Rightarrow> ('sl, 'k, 'w) shared \<Rightarrow> bool" where
  "rc_allocated h a h' \<longleftrightarrow> (\<exists>c. rc_new c h = (a, h'))"

definition rc_cloned :: "('sl, 'k, 'w) shared \<Rightarrow> nat \<Rightarrow> ('sl, 'k, 'w) shared \<Rightarrow> bool" where
  "rc_cloned h a h' \<longleftrightarrow> h' = rc_clone a h"

definition rc_released ::
  "('f, 'sl, 'k, 'w) fwd_ops \<Rightarrow> ('sl, 'k, 'w) shared \<Rightarrow> nat \<Rightarrow> ('sl, 'k, 'w) shared \<Rightarrow> bool" where
  "rc_released F h a h' \<longleftrightarrow> deferred F \<and> rc_drop F a h = Some (Ret h')"

lemma rc_drop_cases:
  assumes "deferred F" "sh_cells h a = Some cl" "rc_drop F a h = Some (Ret h')"
  obtains (shared) "1 < rc_strong cl"
      "h' = h\<lparr>sh_cells := (sh_cells h)(a \<mapsto> cl\<lparr>rc_strong := rc_strong cl - 1\<rparr>)\<rparr>"
    | (last_handle) w where "rc_strong cl \<le> 1" "h' = h\<lparr>sh_cells := (sh_cells h)(a := None), sh_world := w\<rparr>"
proof (cases "1 < rc_strong cl")
  case True
  with assms(2,3) show thesis by (intro shared) (simp_all add: rc_drop_def)
next
  case False
  obtain w where "fw_drop_table F (token_map (rc_value cl)) (h\<lparr>sh_cells := (sh_cells h)(a := None)\<rparr>) =
      Some (Ret (h\<lparr>sh_cells := (sh_cells h)(a := None), sh_world := w\<rparr>))"
    using deferredD(3) [OF assms(1), of "token_map (rc_value cl)" "h\<lparr>sh_cells := (sh_cells h)(a := None)\<rparr>"]
    by auto
  with False assms(2,3) show thesis by (intro last_handle [of w]) (simp_all add: rc_drop_def)
qed

interpretation rc: counted_store store_ok strong_count rc_allocated rc_cloned "rc_released F" for F
proof (unfold_locales, goal_cases)
  case (1 h a h')
  then show ?case by (fastforce simp: rc_allocated_def rc_new_def store_ok_def strong_count_def fun_eq_iff less_Suc_eq split: if_splits)
next
  case (2 h a n h')
  then show ?case
    by (auto simp: rc_cloned_def rc_clone_def store_ok_def strong_count_def fun_eq_iff)
next
  case (3 h a n h')
  then obtain cl where cl: "sh_cells h a = Some cl" "rc_strong cl = Suc n"
    by (auto simp: strong_count_def)
  from 3 have "deferred F" "rc_drop F a h = Some (Ret h')" by (simp_all add: rc_released_def)
  from this(1) cl(1) this(2) show ?case
    by (rule rc_drop_cases) (use 3(1) cl in \<open>auto simp: store_ok_def strong_count_def fun_eq_iff\<close>)
qed

lemma strong_count_set_cell [simp]: "strong_count (set_cell a c w h) = strong_count h"
  by (simp add: strong_count_def set_cell_def fun_eq_iff option.map_comp comp_def)

lemma store_ok_set_cell [simp]: "store_ok (set_cell a c w h) = store_ok h"
  by (auto simp: store_ok_def set_cell_def)

lemma balanced_set_cell:
  "rc.balanced h M \<Longrightarrow> rc.balanced (set_cell a c w h) M"
  by (rule rc.balanced_cong, assumption) (simp_all, rule rc.balancedD(1))

end
