(* ===== verification/Shared_System.thy ===== *)
theory Shared_System
  imports Shared_Cell
begin

text \<open>
  Programs with any number of pollers: the \<open>MioPoll\<close> and \<open>MioSource\<close> handles they hold, cloned, moved
  and dropped in any order, over the store of \<open>Shared_Cell\<close>. The invariant says that the counts are
  right and no cell is left borrowed, and that each cell with the sources that hold it is the
  single-poller system of \<open>Mio_Poll\<close>.
\<close>

section \<open>The steps\<close>

record ('sl, 'k, 's, 'w) shared_system =
  sy_polls :: "mio_poll list"
  sy_sources :: "'s shared_source list"
  sy_shared :: "('sl, 'k, 'w) shared"

text \<open>
  The steps are the public operations on any of the handles held, in any order; \<open>MioPoll::new\<close>
  brings two handles, its own and that in Stakker's anymap, which a later \<open>anymap_set\<close> drops.
\<close>

inductive shared_step ::
  "('sl, 'f entry) slab_ops \<Rightarrow> ('s, 'w) source_ops \<Rightarrow> ('k, 'w) poll_ops \<Rightarrow> ('f, 'k, 'st) stakker_ops
    \<Rightarrow> ('f, 'sl, 'k, 'w) fwd_ops \<Rightarrow> ('sl, 'k, 's, 'w) shared_system \<Rightarrow> ('sl, 'k, 's, 'w) shared_system \<Rightarrow> bool"
  for S D P K F where
  sh_new: "shared_new S P K evs pri (st, sy_shared s) = Some (Ret (Inr (p, q), st', h)) \<Longrightarrow>
     shared_step S D P K F s (s\<lparr>sy_polls := p # q # sy_polls s, sy_shared := h\<rparr>)"
| sh_new_err: "shared_new S P K evs pri (st, sy_shared s) = Some (Ret (Inl e, st', h)) \<Longrightarrow>
     shared_step S D P K F s (s\<lparr>sy_shared := h\<rparr>)"
| sh_clone: "p \<in> set (sy_polls s) \<Longrightarrow> mio_poll_clone p (sy_shared s) = (q, h) \<Longrightarrow>
     shared_step S D P K F s (s\<lparr>sy_polls := q # sy_polls s, sy_shared := h\<rparr>)"
| sh_poll_drop: "sy_polls s = ps @ p # qs \<Longrightarrow> shared_poll_drop F p (sy_shared s) = Some (Ret h) \<Longrightarrow>
     shared_step S D P K F s (s\<lparr>sy_polls := ps @ qs, sy_shared := h\<rparr>)"
| sh_add: "p \<in> set (sy_polls s) \<Longrightarrow>
     shared_add S D p src ready pri fwd (sy_shared s) = Some (Ret (Inr ms, h)) \<Longrightarrow>
     shared_step S D P K F s (s\<lparr>sy_sources := ms # sy_sources s, sy_shared := h\<rparr>)"
| sh_add_err: "p \<in> set (sy_polls s) \<Longrightarrow>
     shared_add S D p src ready pri fwd (sy_shared s) = Some (Ret (Inl e, h)) \<Longrightarrow>
     shared_step S D P K F s (s\<lparr>sy_shared := h\<rparr>)"
| sh_source_drop: "sy_sources s = xs @ ms # ys \<Longrightarrow>
     shared_source_drop S D F ms (sy_shared s) = Some (Ret h) \<Longrightarrow>
     shared_step S D P K F s (s\<lparr>sy_sources := xs @ ys, sy_shared := h\<rparr>)"
| sh_source_set: "sy_sources s = xs @ ms # ys \<Longrightarrow>
     shared_step S D P K F s (s\<lparr>sy_sources := xs @ mio_source_deref_mut g ms # ys\<rparr>)"
| sh_poll: "p \<in> set (sy_polls s) \<Longrightarrow> shared_poll S P F d p (sy_shared s) = Some (Ret (r, h)) \<Longrightarrow>
     shared_step S D P K F s (s\<lparr>sy_shared := h\<rparr>)"
| sh_wake_fwd: "p \<in> set (sy_polls s) \<Longrightarrow> shared_set_wake_fwd S F fwd p (sy_shared s) = Some (Ret h) \<Longrightarrow>
     shared_step S D P K F s (s\<lparr>sy_shared := h\<rparr>)"
| sh_waker: "p \<in> set (sy_polls s) \<Longrightarrow> shared_waker p (sy_shared s) = Ret (wk, h) \<Longrightarrow>
     shared_step S D P K F s (s\<lparr>sy_shared := h\<rparr>)"
| sh_world_step: "shared_step S D P K F s (s\<lparr>sy_shared := (sy_shared s)\<lparr>sh_world := w\<rparr>\<rparr>)"

definition shared_start :: "'w \<Rightarrow> ('sl, 'k, 's, 'w) shared_system" where
  "shared_start w = \<lparr>sy_polls = [], sy_sources = [],
     sy_shared = \<lparr>sh_next = 0, sh_cells = \<lambda>_. None, sh_world = w\<rparr>\<rparr>"

inductive shared_reachable ::
  "('sl, 'f entry) slab_ops \<Rightarrow> ('s, 'w) source_ops \<Rightarrow> ('k, 'w) poll_ops \<Rightarrow> ('f, 'k, 'st) stakker_ops
    \<Rightarrow> ('f, 'sl, 'k, 'w) fwd_ops \<Rightarrow> ('sl, 'k, 's, 'w) shared_system \<Rightarrow> bool"
  for S D P K F where
  sh_start: "shared_reachable S D P K F (shared_start w)"
| sh_more: "shared_reachable S D P K F s \<Longrightarrow> shared_step S D P K F s t \<Longrightarrow> shared_reachable S D P K F t"

section \<open>The invariant\<close>

text \<open>The addresses that the handles hold, and the sources of one cell.\<close>

definition sy_handles :: "('sl, 'k, 's, 'w) shared_system \<Rightarrow> nat multiset" where
  "sy_handles s = image_mset mp_rc (mset (sy_polls s)) + image_mset ss_ctrl (mset (sy_sources s))"

definition sources_of :: "nat \<Rightarrow> 's shared_source list \<Rightarrow> 's mio_source list" where
  "sources_of a xs = map source_view (filter (\<lambda>ms. ss_ctrl ms = a) xs)"

lemma sources_of_simps [simp]:
  "sources_of a [] = []"
  "sources_of a (ms # xs) = (if ss_ctrl ms = a then [source_view ms] else []) @ sources_of a xs"
  "sources_of a (xs @ ys) = sources_of a xs @ sources_of a ys"
  by (simp_all add: sources_of_def)

text \<open>A cell and its sources as the system of \<open>Mio_Poll\<close>; the world changes on its own there.\<close>

definition cell_system ::
  "nat \<Rightarrow> ('sl, 'k) control rc_cell \<Rightarrow> ('sl, 'k, 's, 'w) shared_system \<Rightarrow> ('sl, 'k, 's, 'w) mio_system" where
  "cell_system a cl s = \<lparr>sys_ctl = rc_value cl, sys_live = sources_of a (sy_sources s),
     sys_world = sh_world (sy_shared s)\<rparr>"

definition cell_reachable ::
  "('sl, 'f entry) slab_ops \<Rightarrow> ('s, 'w) source_ops \<Rightarrow> ('k, 'w) poll_ops \<Rightarrow> ('f, 'k, 'st) stakker_ops
    \<Rightarrow> ('sl, 'k) control \<Rightarrow> 's mio_source list \<Rightarrow> bool" where
  "cell_reachable S D P K c live \<longleftrightarrow>
     (\<forall>w. mio_reachable S D P K \<lparr>sys_ctl = c, sys_live = live, sys_world = w\<rparr>)"

lemma cell_reachableI:
  assumes "mio_reachable S D P K \<lparr>sys_ctl = c, sys_live = live, sys_world = w\<rparr>"
  shows "cell_reachable S D P K c live"
  unfolding cell_reachable_def
proof
  fix w'
  from reach_step [OF assms step_world [of S D P _ w']]
  show "mio_reachable S D P K \<lparr>sys_ctl = c, sys_live = live, sys_world = w'\<rparr>" by simp
qed

lemma cell_reachable_step:
  assumes "cell_reachable S D P K c live"
    and "mio_step S D P \<lparr>sys_ctl = c, sys_live = live, sys_world = w\<rparr> \<lparr>sys_ctl = c', sys_live = live', sys_world = w'\<rparr>"
  shows "cell_reachable S D P K c' live'"
  using assms(1) by (intro cell_reachableI [OF reach_step [OF _ assms(2)]]) (simp add: cell_reachable_def)

text \<open>The state of the cells apart from their counts.\<close>

definition cells_inv ::
  "('sl, 'f entry) slab_ops \<Rightarrow> ('s, 'w) source_ops \<Rightarrow> ('k, 'w) poll_ops \<Rightarrow> ('f, 'k, 'st) stakker_ops
    \<Rightarrow> ('sl, 'k, 'w) shared \<Rightarrow> 's shared_source list \<Rightarrow> bool" where
  "cells_inv S D P K h xs \<longleftrightarrow> (\<forall>a cl. sh_cells h a = Some cl \<longrightarrow>
     \<not> rc_borrowed cl \<and> cell_reachable S D P K (rc_value cl) (sources_of a xs))"

definition shared_inv ::
  "('sl, 'f entry) slab_ops \<Rightarrow> ('s, 'w) source_ops \<Rightarrow> ('k, 'w) poll_ops \<Rightarrow> ('f, 'k, 'st) stakker_ops
    \<Rightarrow> ('sl, 'k, 's, 'w) shared_system \<Rightarrow> bool" where
  "shared_inv S D P K s \<longleftrightarrow>
     rc.balanced (sy_shared s) (sy_handles s) \<and> cells_inv S D P K (sy_shared s) (sy_sources s)"

lemma held_cell:
  assumes "shared_inv S D P K s" "a \<in># sy_handles s"
  obtains cl where "sh_cells (sy_shared s) a = Some cl" "\<not> rc_borrowed cl"
    "cell_reachable S D P K (rc_value cl) (sources_of a (sy_sources s))"
proof -
  from assms(1) have "strong_count (sy_shared s) a = Some (count (sy_handles s) a)"
    using rc.balancedD(2) [of "sy_shared s" "sy_handles s" a] assms(2) by (simp add: shared_inv_def)
  then obtain cl where "sh_cells (sy_shared s) a = Some cl" by (auto simp: strong_count_def)
  with assms(1) show thesis by (intro that [of cl]) (auto simp: shared_inv_def cells_inv_def)
qed

lemma held_by_poll: "p \<in> set (sy_polls s) \<Longrightarrow> mp_rc p \<in># sy_handles s"
  and held_by_source: "ms \<in> set (sy_sources s) \<Longrightarrow> ss_ctrl ms \<in># sy_handles s"
  by (simp_all add: sy_handles_def)

text \<open>A new value in a cell that is a step of its system keeps the cells' state.\<close>

lemma cells_inv_set_cell:
  assumes "cells_inv S D P K h xs" "sh_cells h a = Some cl"
    and "mio_step S D P \<lparr>sys_ctl = rc_value cl, sys_live = sources_of a xs, sys_world = w\<rparr>
      \<lparr>sys_ctl = c', sys_live = sources_of a ys, sys_world = w'\<rparr>"
    and "\<And>b. b \<noteq> a \<Longrightarrow> sources_of b ys = sources_of b xs"
  shows "cells_inv S D P K (set_cell a c' w'' h) ys"
proof -
  have "cell_reachable S D P K c' (sources_of a ys)"
    using assms(1,2) by (intro cell_reachable_step [OF _ assms(3)]) (simp add: cells_inv_def)
  with assms(1,2,4) show ?thesis
    by (simp add: cells_inv_def set_cell_cells [OF assms(2)])
qed

lemma cells_inv_clone: "cells_inv S D P K h xs \<Longrightarrow> cells_inv S D P K (rc_clone a h) xs"
  by (auto simp: cells_inv_def rc_clone_def split: if_splits)

lemma cells_inv_drop:
  assumes "deferred F" "sh_cells h a = Some cl" "rc_drop F a h = Some (Ret h')" "cells_inv S D P K h xs"
  shows "cells_inv S D P K h' xs"
  using assms(1-3) by (rule rc_drop_cases) (use assms(2,4) in \<open>auto simp: cells_inv_def split: if_splits\<close>)

lemma balanced_world [simp]: "rc.balanced (h\<lparr>sh_world := w\<rparr>) M = rc.balanced h M"
  by (simp add: rc.balanced_def store_ok_def strong_count_def fun_eq_iff)

lemma cells_inv_world [simp]: "cells_inv S D P K (h\<lparr>sh_world := w\<rparr>) xs = cells_inv S D P K h xs"
  by (simp add: cells_inv_def)

section \<open>Every step keeps the invariant\<close>

lemma shared_new_cases:
  assumes "shared_new S P K evs pri (st, h) = Some (Ret (r, st', h'))"
  obtains (created) c w' a h2 where "mio_poll_new S P K evs pri (st, sh_world h) = Some (Ret (Inr c, st', w'))"
      "rc_new c (h\<lparr>sh_world := w'\<rparr>) = (a, h2)" "r = Inr (\<lparr>mp_rc = a\<rparr>, \<lparr>mp_rc = a\<rparr>)" "h' = rc_clone a h2"
    | (failed) e w' where "r = Inl e" "h' = h\<lparr>sh_world := w'\<rparr>"
proof -
  from assms obtain r0 st0 w' where
    "mio_poll_new S P K evs pri (st, sh_world h) = Some (Ret (r0, st0, w'))"
    "(case r0 of Inl e \<Rightarrow> Some (Ret (Inl e, st0, h\<lparr>sh_world := w'\<rparr>))
      | Inr c \<Rightarrow> let (a, h2) = rc_new c (h\<lparr>sh_world := w'\<rparr>); (clone, h3) = mio_poll_clone \<lparr>mp_rc = a\<rparr> h2
          in Some (Ret (Inr (\<lparr>mp_rc = a\<rparr>, clone), st0, h3))) = Some (Ret (r, st', h'))"
    by (auto simp: shared_new_def ebind_eq_Ret Let_def)
  then show thesis
    by (cases r0) (auto simp: mio_poll_clone_def intro: created failed split: prod.splits)
qed

lemma cells_inv_new:
  assumes "cells_inv S D P K h xs" "rc_new c h = (a, h')" "sources_of a xs = []"
    and "mio_poll_new S P K evs pri (st, w) = Some (Ret (Inr c, st', w'))"
  shows "cells_inv S D P K h' xs"
proof -
  have "cell_reachable S D P K c []" by (rule cell_reachableI [OF reach_new [OF assms(4)]])
  with assms(1-3) show ?thesis by (auto simp: cells_inv_def rc_new_def split: if_splits)
qed

lemma no_sources: "a \<notin># sy_handles s \<Longrightarrow> sources_of a (sy_sources s) = []"
  by (auto simp: sy_handles_def sources_of_def filter_empty_conv)

lemma shared_inv_new:
  assumes inv: "shared_inv S D P K s"
    and new: "shared_new S P K evs pri (st, sy_shared s) = Some (Ret (Inr (p, q), st', h))"
  shows "shared_inv S D P K (s\<lparr>sy_polls := p # q # sy_polls s, sy_shared := h\<rparr>)"
  using new
proof (cases rule: shared_new_cases)
  case (created c w' a h2)
  let ?h = "(sy_shared s)\<lparr>sh_world := w'\<rparr>"
  from inv have bal: "rc.balanced ?h (sy_handles s)" and cells: "cells_inv S D P K ?h (sy_sources s)"
    by (simp_all add: shared_inv_def)
  have "rc_allocated ?h a h2" using created(2) by (auto simp: rc_allocated_def)
  note alloc = rc.balanced_alloc [OF bal this]
  from rc.balanced_clone [OF alloc(1), of a h] created(4)
  have "rc.balanced h (add_mset a (add_mset a (sy_handles s)))" by (simp add: rc_cloned_def)
  moreover have "cells_inv S D P K h (sy_sources s)"
    unfolding created(4)
    by (rule cells_inv_clone [OF cells_inv_new [OF cells created(2) no_sources [OF alloc(2)] created(1)]])
  ultimately show ?thesis using created(3) by (simp add: shared_inv_def sy_handles_def)
qed simp

lemma shared_inv_clone:
  assumes "shared_inv S D P K s" "p \<in> set (sy_polls s)" "mio_poll_clone p (sy_shared s) = (q, h)"
  shows "shared_inv S D P K (s\<lparr>sy_polls := q # sy_polls s, sy_shared := h\<rparr>)"
proof -
  from assms(3) have q: "mp_rc q = mp_rc p" and h: "h = rc_clone (mp_rc p) (sy_shared s)"
    by (auto simp: mio_poll_clone_def)
  from assms(1) h have "rc.balanced h (add_mset (mp_rc p) (sy_handles s))"
    by (intro rc.balanced_clone [OF _ held_by_poll [OF assms(2)]])
       (auto simp: shared_inv_def rc_cloned_def)
  with assms(1) h q show ?thesis
    by (auto simp: shared_inv_def sy_handles_def intro: cells_inv_clone)
qed

lemma shared_inv_poll_drop:
  assumes "shared_inv S D P K s" "deferred F" "sy_polls s = ps @ p # qs"
    and "shared_poll_drop F p (sy_shared s) = Some (Ret h)"
  shows "shared_inv S D P K (s\<lparr>sy_polls := ps @ qs, sy_shared := h\<rparr>)"
proof -
  let ?t = "s\<lparr>sy_polls := ps @ qs, sy_shared := h\<rparr>"
  have handles: "sy_handles s = add_mset (mp_rc p) (sy_handles ?t)"
    by (simp add: sy_handles_def assms(3))
  have drop: "rc_drop F (mp_rc p) (sy_shared s) = Some (Ret h)" using assms(4) by (simp add: shared_poll_drop_def)
  from assms(1) have bal: "rc.balanced (sy_shared s) (add_mset (mp_rc p) (sy_handles ?t))"
    and cells: "cells_inv S D P K (sy_shared s) (sy_sources s)"
    by (simp_all add: shared_inv_def handles)
  have "mp_rc p \<in># sy_handles s" by (simp add: handles)
  with assms(1) obtain cl where "sh_cells (sy_shared s) (mp_rc p) = Some cl" by (rule held_cell)
  from cells_inv_drop [OF assms(2) this drop cells] have "cells_inv S D P K h (sy_sources s)" .
  moreover have "rc.balanced h (sy_handles ?t)"
    using assms(2) drop by (intro rc.balanced_release [OF bal]) (simp add: rc_released_def)
  ultimately show ?thesis by (simp add: shared_inv_def)
qed

lemma mio_step_cell:
  "mio_poll_add S D src ready pri fwd (c, w) = Some (Inr ms, c', w') \<Longrightarrow>
     mio_step S D P \<lparr>sys_ctl = c, sys_live = l, sys_world = w\<rparr> \<lparr>sys_ctl = c', sys_live = ms # l, sys_world = w'\<rparr>"
  "mio_poll_add S D src ready pri fwd (c, w) = Some (Inl e, c', w') \<Longrightarrow>
     mio_step S D P \<lparr>sys_ctl = c, sys_live = l, sys_world = w\<rparr> \<lparr>sys_ctl = c', sys_live = l, sys_world = w'\<rparr>"
  "mio_source_drop S D ms (c, w) = Some (c', w') \<Longrightarrow>
     mio_step S D P \<lparr>sys_ctl = c, sys_live = xs @ ms # ys, sys_world = w\<rparr>
       \<lparr>sys_ctl = c', sys_live = xs @ ys, sys_world = w'\<rparr>"
  "mio_poll_poll S P d (c, w) = Some (Ret (r, c', calls, w')) \<Longrightarrow>
     mio_step S D P \<lparr>sys_ctl = c, sys_live = l, sys_world = w\<rparr> \<lparr>sys_ctl = c', sys_live = l, sys_world = w'\<rparr>"
  "mio_poll_set_wake_fwd S fwd c = Ret c' \<Longrightarrow>
     mio_step S D P \<lparr>sys_ctl = c, sys_live = l, sys_world = w\<rparr> \<lparr>sys_ctl = c', sys_live = l, sys_world = w\<rparr>"
  "mio_step S D P \<lparr>sys_ctl = c, sys_live = xs @ ms # ys, sys_world = w\<rparr>
     \<lparr>sys_ctl = c, sys_live = xs @ ms\<lparr>ms_source := src\<rparr> # ys, sys_world = w\<rparr>"
  using step_add [of S D src ready pri fwd "\<lparr>sys_ctl = c, sys_live = l, sys_world = w\<rparr>" ms c' w' P]
    step_add_err [of S D src ready pri fwd "\<lparr>sys_ctl = c, sys_live = l, sys_world = w\<rparr>" e c' w' P]
    step_drop [of "\<lparr>sys_ctl = c, sys_live = xs @ ms # ys, sys_world = w\<rparr>" xs ms ys S D c' w' P]
    step_poll [of S P d "\<lparr>sys_ctl = c, sys_live = l, sys_world = w\<rparr>" r c' calls w' D]
    step_wake_fwd [of S fwd "\<lparr>sys_ctl = c, sys_live = l, sys_world = w\<rparr>" c' D P]
    step_source [of "\<lparr>sys_ctl = c, sys_live = xs @ ms # ys, sys_world = w\<rparr>" xs ms ys S D P src]
  by simp_all

text \<open>An operation that ends in a new value of one cell, with the handles as they were.\<close>

lemma shared_inv_set_cell:
  assumes "shared_inv S D P K s" "sh_cells (sy_shared s) a = Some cl"
    and "\<And>l. mio_step S D P \<lparr>sys_ctl = rc_value cl, sys_live = l, sys_world = w\<rparr>
      \<lparr>sys_ctl = c', sys_live = l, sys_world = w'\<rparr>"
  shows "shared_inv S D P K (s\<lparr>sy_shared := set_cell a c' w'' (sy_shared s)\<rparr>)"
  using assms(1) balanced_set_cell cells_inv_set_cell [OF _ assms(2) assms(3)]
  by (auto simp: shared_inv_def sy_handles_def)

lemma shared_inv_add:
  assumes "shared_inv S D P K s" "p \<in> set (sy_polls s)"
    and "shared_add S D p src ready pri fwd (sy_shared s) = Some (Ret (r, h))"
  shows "shared_inv S D P K (s\<lparr>sy_sources := (case r of Inl _ \<Rightarrow> [] | Inr ms \<Rightarrow> [ms]) @ sy_sources s, sy_shared := h\<rparr>)"
proof -
  obtain cl where cl: "sh_cells (sy_shared s) (mp_rc p) = Some cl" "\<not> rc_borrowed cl"
    by (rule held_cell [OF assms(1) held_by_poll [OF assms(2)]])
  from cl assms(3) show ?thesis
  proof (cases rule: shared_add_cases)
    case (added ms c' w')
    let ?h = "set_cell (mp_rc p) c' w' (sy_shared s)"
    from assms(1) have "rc.balanced ?h (sy_handles s)" by (simp add: shared_inv_def balanced_set_cell)
    from rc.balanced_clone [OF this held_by_poll [OF assms(2)]] added(4)
    have "rc.balanced h (add_mset (mp_rc p) (sy_handles s))" by (simp add: rc_cloned_def)
    moreover have "cells_inv S D P K ?h (ms # sy_sources s)"
      using assms(1) cl(1) mio_step_cell(1) [OF added(3)] added(2)
      by (intro cells_inv_set_cell [of S D P K "sy_shared s" "sy_sources s" "mp_rc p" cl]) (auto simp: shared_inv_def)
    ultimately show ?thesis using added by (simp add: shared_inv_def sy_handles_def cells_inv_clone)
  next
    case (failed e c' w')
    with shared_inv_set_cell [OF assms(1) cl(1) mio_step_cell(2) [OF failed(2)]] show ?thesis by simp
  qed
qed

lemma shared_inv_source_drop:
  assumes "shared_inv S D P K s" "deferred F" "sy_sources s = xs @ ms # ys"
    and "shared_source_drop S D F ms (sy_shared s) = Some (Ret h)"
  shows "shared_inv S D P K (s\<lparr>sy_sources := xs @ ys, sy_shared := h\<rparr>)"
proof -
  let ?a = "ss_ctrl ms" and ?t = "s\<lparr>sy_sources := xs @ ys, sy_shared := h\<rparr>"
  have handles: "sy_handles s = add_mset ?a (sy_handles ?t)" by (simp add: sy_handles_def assms(3))
  then have "?a \<in># sy_handles s" by simp
  with assms(1) obtain cl where cl: "sh_cells (sy_shared s) ?a = Some cl" "\<not> rc_borrowed cl"
    by (rule held_cell)
  from cl assms(2,4) obtain c' w' w'' where
    drop: "mio_source_drop S D (source_view ms) (rc_value cl, sh_world (sy_shared s)) = Some (c', w')"
    and rc: "rc_drop F ?a (set_cell ?a c' w'' (sy_shared s)) = Some (Ret h)"
    by (rule shared_source_drop_cases)
  have "rc.balanced (set_cell ?a c' w'' (sy_shared s)) (add_mset ?a (sy_handles ?t))"
    using assms(1) handles by (simp add: shared_inv_def balanced_set_cell)
  then have "rc.balanced h (sy_handles ?t)"
    by (rule rc.balanced_release [where F = F]) (simp add: rc_released_def assms(2) rc)
  moreover have "cells_inv S D P K (set_cell ?a c' w'' (sy_shared s)) (xs @ ys)"
    using assms(1) cl(1) mio_step_cell(3) [OF drop, of P "sources_of ?a xs" "sources_of ?a ys"]
    by (intro cells_inv_set_cell [of S D P K "sy_shared s" "sy_sources s" ?a cl])
       (auto simp: shared_inv_def assms(3))
  from cells_inv_drop [OF assms(2) _ rc this] set_cell_cells [OF cl(1)]
  have "cells_inv S D P K h (xs @ ys)" by simp
  ultimately show ?thesis by (simp add: shared_inv_def)
qed

lemma shared_inv_source_set:
  assumes "shared_inv S D P K s" "sy_sources s = xs @ ms # ys"
  shows "shared_inv S D P K (s\<lparr>sy_sources := xs @ mio_source_deref_mut g ms # ys\<rparr>)"
proof -
  let ?ms = "mio_source_deref_mut g ms"
  have same: "ss_ctrl ?ms = ss_ctrl ms" "source_view ?ms = (source_view ms)\<lparr>ms_source := g (ss_source ms)\<rparr>"
    by (simp_all add: mio_source_deref_mut_def source_view_def)
  have "cell_reachable S D P K c (sources_of a (xs @ ?ms # ys))"
    if "cell_reachable S D P K c (sources_of a (xs @ ms # ys))" for a c
    using cell_reachable_step [OF _ mio_step_cell(6)] that by (auto simp: same)
  with assms show ?thesis by (auto simp: shared_inv_def cells_inv_def sy_handles_def same)
qed

lemma shared_step_inv:
  assumes "shared_step S D P K F s t" "deferred F" "shared_inv S D P K s"
  shows "shared_inv S D P K t"
  using assms
proof (induction rule: shared_step.induct)
  case (sh_new evs pri st s p q st' h)
  then show ?case by (intro shared_inv_new)
next
  case (sh_new_err evs pri st s e st' h)
  from sh_new_err(1) show ?case
    by (cases rule: shared_new_cases) (use sh_new_err(3) in \<open>simp_all add: shared_inv_def sy_handles_def\<close>)
next
  case (sh_clone p s q h)
  then show ?case by (intro shared_inv_clone)
next
  case (sh_poll_drop s ps p qs h)
  then show ?case by (intro shared_inv_poll_drop)
next
  case (sh_add p s src ready pri fwd ms h)
  from shared_inv_add [OF sh_add(4,1,2)] show ?case by simp
next
  case (sh_add_err p s src ready pri fwd e h)
  from shared_inv_add [OF sh_add_err(4,1,2)] show ?case by simp
next
  case (sh_source_drop s xs ms ys h)
  then show ?case by (intro shared_inv_source_drop)
next
  case (sh_source_set s xs ms ys g)
  then show ?case by (intro shared_inv_source_set)
next
  case (sh_poll p s d r h)
  obtain cl where cl: "sh_cells (sy_shared s) (mp_rc p) = Some cl" "\<not> rc_borrowed cl"
    by (rule held_cell [OF sh_poll(4) held_by_poll [OF sh_poll(1)]])
  from cl sh_poll(3,2) show ?case
    by (rule shared_poll_cases) (simp add: shared_inv_set_cell [OF sh_poll(4) cl(1) mio_step_cell(4)])
next
  case (sh_wake_fwd p s fwd h)
  obtain cl where cl: "sh_cells (sy_shared s) (mp_rc p) = Some cl" "\<not> rc_borrowed cl"
    by (rule held_cell [OF sh_wake_fwd(4) held_by_poll [OF sh_wake_fwd(1)]])
  from cl sh_wake_fwd(3,2) show ?case
    by (rule shared_set_wake_fwd_cases)
       (simp add: shared_inv_set_cell [OF sh_wake_fwd(4) cl(1) mio_step_cell(5)])
next
  case (sh_waker p s wk h)
  obtain cl where "sh_cells (sy_shared s) (mp_rc p) = Some cl" "\<not> rc_borrowed cl"
    by (rule held_cell [OF sh_waker(4) held_by_poll [OF sh_waker(1)]])
  then have "h = sy_shared s" using sh_waker(2) by (simp add: shared_waker_eq)
  then have "s\<lparr>sy_shared := h\<rparr> = s" by simp
  with sh_waker(4) show ?case by (simp only:)
next
  case (sh_world_step s w)
  then show ?case by (simp add: shared_inv_def sy_handles_def)
qed

lemma shared_reachable_inv:
  assumes "shared_reachable S D P K F s" "deferred F"
  shows "shared_inv S D P K s"
  using assms(1)
proof (induction rule: shared_reachable.induct)
  case (sh_start w)
  show ?case
    by (simp add: shared_start_def shared_inv_def sy_handles_def cells_inv_def rc.balanced_def store_ok_def
        strong_count_def fun_eq_iff)
next
  case (sh_more s t)
  then show ?case using shared_step_inv [OF _ assms(2)] by blast
qed

lemma shared_new_no_panic:
  assumes "slab_ok S"
  shows "shared_new S P K evs pri (st, h) \<noteq> Some Panic"
proof -
  have "mio_poll_new S P K evs pri (st, w) \<noteq> Some Panic" for w
  proof (cases "retry (po_waker_new P WAKER_TOKEN) w")
    case None
    then show ?thesis by (auto simp: mio_poll_new_def slab_first_key [OF assms] WAKER_TOKEN_def Let_def split: prod.splits if_splits dest: arg_cong [of _ _ fst])
  next
    case (Some x)
    obtain r w' where x: "x = (r, w')" by fastforce
    show ?thesis
    proof (cases r)
      case (Inl e)
      with Some x show ?thesis by (simp add: mio_poll_new_Err [OF assms])
    next
      case (Inr k)
      with Some x show ?thesis by (auto elim: mio_poll_new_Ret [OF assms, of P w k w' K evs pri st])
    qed
  qed
  then show ?thesis
    by (auto simp: shared_new_def ebind_eq_Panic Let_def split: prod.splits sum.splits)
qed

end
