(* ===== verification/Shared_Properties.thy ===== *)
theory Shared_Properties
  imports Shared_System
begin

text \<open>
  The properties of the shared pollers: what holds in every state that the handles can reach when
  forwards defer, as Stakker's do, and what a forward that does not defer runs into.
\<close>

section \<open>A program with one poller\<close>

text \<open>Forwards that do nothing, and the state after \<open>new\<close> and \<open>add\<close>: three handles on one cell.\<close>

definition quiet_fwd_ops :: "(string, 'sl, 'k, 'w) fwd_ops" where
  "quiet_fwd_ops = \<lparr>fw_call = (\<lambda>f r h. Some (Ret h)), fw_drop = (\<lambda>f h. Some (Ret h)),
     fw_drop_table = (\<lambda>tm h. Some (Ret h))\<rparr>"

lemma quiet_deferred: "deferred quiet_fwd_ops"
proof -
  have "\<exists>w. h = h\<lparr>sh_world := w\<rparr>" for h :: "('a, 'b, 'c) shared"
    by (intro exI [of _ "sh_world h"]) simp
  then show ?thesis by (simp add: deferred_def quiet_fwd_ops_def)
qed

definition demo_cell_control :: "(string entry option list, nat) control" where
  "demo_cell_control = \<lparr>token_map = [Some \<lparr>e_pri = 5, e_fwd = ''wake''\<rparr>],
     queues = replicate 10 [], n_queued = 0, max_pri = 5, priorities = 32,
     events = [], errors = [], waker = 7\<rparr>"

definition demo_added_control :: "(string entry option list, nat) control" where
  "demo_added_control = demo_cell_control\<lparr>priorities := 40,
     token_map := [Some \<lparr>e_pri = 5, e_fwd = ''wake''\<rparr>, Some \<lparr>e_pri = 3, e_fwd = ''h''\<rparr>]\<rparr>"

definition demo_shared :: "(string entry option list, nat, nat, script) shared_system" where
  "demo_shared = \<lparr>sy_polls = [\<lparr>mp_rc = 0\<rparr>, \<lparr>mp_rc = 0\<rparr>],
     sy_sources = [\<lparr>ss_token = 1, ss_ctrl = 0, ss_source = 98\<rparr>],
     sy_shared = \<lparr>sh_next = 1, sh_cells = [0 \<mapsto> \<lparr>rc_strong = 3, rc_borrowed = False, rc_value = demo_added_control\<rparr>],
       sh_world = []\<rparr>\<rparr>"

abbreviation demo_shared_reachable :: "(string entry option list, nat, nat, script) shared_system \<Rightarrow> bool" where
  "demo_shared_reachable \<equiv>
     shared_reachable slots_ops script_source_ops script_poll_ops script_stakker_ops quiet_fwd_ops"

lemma demo_shared_reachable: "demo_shared_reachable demo_shared"
proof -
  let ?s0 = "shared_start [] :: (string entry option list, nat, nat, script) shared_system"
  let ?p = "\<lparr>mp_rc = 0\<rparr>"
  let ?h1 = "\<lparr>sh_next = 1, sh_cells = [0 \<mapsto> \<lparr>rc_strong = 2, rc_borrowed = False, rc_value = demo_cell_control\<rparr>],
    sh_world = []\<rparr> :: (string entry option list, nat, script) shared"
  let ?s1 = "?s0\<lparr>sy_polls := [?p, ?p], sy_shared := ?h1\<rparr>"
  have "mio_poll_new slots_ops script_poll_ops script_stakker_ops [] 5 (0, []) =
      Some (Ret (Inr demo_cell_control, 11, []))" by code_simp
  then have "shared_new slots_ops script_poll_ops script_stakker_ops [] 5 (0, sy_shared ?s0) =
      Some (Ret (Inr (?p, ?p), 11, ?h1))"
    by (simp add: shared_new_def shared_start_def rc_new_def mio_poll_clone_def rc_clone_def
        numeral_2_eq_2)
  from sh_more [OF sh_start sh_new [OF this]] have "demo_shared_reachable ?s1"
    by (simp add: shared_start_def)
  moreover have "mio_poll_add slots_ops script_source_ops 98 1 3 ''h'' (demo_cell_control, []) =
      Some (Inr \<lparr>ms_token = 1, ms_source = 98\<rparr>, demo_added_control, [])" by code_simp
  then have "shared_add slots_ops script_source_ops ?p 98 1 3 ''h'' (sy_shared ?s1) =
      Some (Ret (Inr \<lparr>ss_token = 1, ss_ctrl = 0, ss_source = 98\<rparr>, sy_shared demo_shared))"
    by (subst shared_add_eq [where cl = "\<lparr>rc_strong = 2, rc_borrowed = False, rc_value = demo_cell_control\<rparr>"])
       (simp_all add: demo_shared_def rc_clone_def set_cell_def)
  from sh_add [OF _ this] have "shared_step slots_ops script_source_ops script_poll_ops script_stakker_ops
      quiet_fwd_ops ?s1 demo_shared"
    by (simp add: demo_shared_def shared_start_def)
  ultimately show ?thesis by (rule sh_more)
qed

section \<open>Reachable states\<close>

text \<open>C9. Whatever pollers a program makes and however their handles are cloned, moved and dropped,
  each cell, with the sources that hold it, is a reachable system of \<open>Mio_Poll\<close>; so all that is
  proved there holds of it.\<close>

theorem shared_refines_system:
  assumes "shared_reachable S D P K F s" "deferred F" "sh_cells (sy_shared s) a = Some cl"
  shows "mio_reachable S D P K (cell_system a cl s)"
  using shared_reachable_inv [OF assms(1,2)] assms(3)
  by (simp add: shared_inv_def cells_inv_def cell_reachable_def cell_system_def)

theorem shared_refines_system_witness:
  "mio_reachable slots_ops script_source_ops script_poll_ops script_stakker_ops
     \<lparr>sys_ctl = demo_added_control, sys_live = [\<lparr>ms_token = 1, ms_source = 98\<rparr>], sys_world = []\<rparr>"
  using shared_refines_system [OF demo_shared_reachable quiet_deferred, of 0]
  by (simp add: cell_system_def demo_shared_def sources_of_def source_view_def)

text \<open>C10. A control block lives exactly as long as some handle holds it: the strong count of each
  cell is the number of \<open>MioPoll\<close> and \<open>MioSource\<close> values on it, a cell is freed with the last of
  them and no handle is left dangling, and between operations no cell is borrowed.\<close>

theorem shared_lifetimes:
  assumes "shared_reachable S D P K F s" "deferred F"
  shows "case sh_cells (sy_shared s) a of
      None \<Rightarrow> a \<notin># sy_handles s
    | Some cl \<Rightarrow> a \<in># sy_handles s \<and> rc_strong cl = count (sy_handles s) a \<and> \<not> rc_borrowed cl"
proof -
  from shared_reachable_inv [OF assms] have bal: "rc.balanced (sy_shared s) (sy_handles s)"
    and cells: "cells_inv S D P K (sy_shared s) (sy_sources s)"
    by (simp_all add: shared_inv_def)
  from cells rc.balancedD(2) [OF bal, of a] show ?thesis
    by (auto simp: strong_count_def cells_inv_def split: option.splits if_splits)
qed

theorem shared_lifetimes_witness:
  "rc_strong (the (sh_cells (sy_shared demo_shared) 0)) = 3 \<and> count (sy_handles demo_shared) 0 = 3
     \<and> 1 \<notin># sy_handles demo_shared"
  using shared_lifetimes [OF demo_shared_reachable quiet_deferred, of 0]
    shared_lifetimes [OF demo_shared_reachable quiet_deferred, of 1]
  by (simp add: demo_shared_def)

text \<open>C11. With deferred forwards no operation on any handle panics in any reachable state: no
  \<open>borrow_mut\<close> finds the cell borrowed, no index is out of range, no \<open>assert\<close> fails.\<close>

theorem shared_never_panics:
  assumes "slab_ok S" "shared_reachable S D P K F s" "deferred F"
    and "p \<in> set (sy_polls s)" "ms \<in> set (sy_sources s)"
  shows "shared_new S P K evs waker_pri (st, sy_shared s) \<noteq> Some Panic
    \<and> shared_add S D p src ready pri fwd (sy_shared s) \<noteq> Some Panic
    \<and> shared_poll S P F d p (sy_shared s) \<noteq> Some Panic
    \<and> shared_set_wake_fwd S F fwd p (sy_shared s) \<noteq> Some Panic
    \<and> shared_waker p (sy_shared s) \<noteq> Panic
    \<and> shared_poll_drop F p (sy_shared s) \<noteq> Some Panic
    \<and> shared_source_drop S D F ms (sy_shared s) \<noteq> Some Panic"
proof -
  note inv = shared_reachable_inv [OF assms(2,3)]
  obtain cl where cl: "sh_cells (sy_shared s) (mp_rc p) = Some cl" "\<not> rc_borrowed cl"
    "cell_reachable S D P K (rc_value cl) (sources_of (mp_rc p) (sy_sources s))"
    by (rule held_cell [OF inv held_by_poll [OF assms(4)]])
  obtain cm where cm: "sh_cells (sy_shared s) (ss_ctrl ms) = Some cm" "\<not> rc_borrowed cm"
    by (rule held_cell [OF inv held_by_source [OF assms(5)]])
  from cl(3) have "mio_reachable S D P K (cell_system (mp_rc p) cl s)"
    by (simp add: cell_reachable_def cell_system_def)
  note quiet = mio_reachable_no_panic [OF assms(1) this, unfolded cell_system_def, simplified]
  have "shared_poll_drop F p (sy_shared s) \<noteq> Some Panic"
    using rc_drop_no_panic [OF _ assms(3), of "sy_shared s" "mp_rc p"] cl(1)
    by (simp add: shared_poll_drop_def)
  then show ?thesis
    by (simp add: shared_new_no_panic [OF assms(1)] shared_add_no_panic [OF cl(1,2)]
        shared_poll_no_panic [OF cl(1,2) assms(3)] shared_set_wake_fwd_no_panic [OF cl(1,2) assms(3)]
        quiet shared_waker_eq [OF cl(1,2)] shared_source_drop_no_panic [OF cm assms(3)])
qed

theorem shared_never_panics_witness:
  "shared_poll slots_ops script_poll_ops quiet_fwd_ops 5 \<lparr>mp_rc = 0\<rparr> (sy_shared demo_shared) \<noteq> Some Panic
     \<and> shared_source_drop slots_ops script_source_ops quiet_fwd_ops
       \<lparr>ss_token = 1, ss_ctrl = 0, ss_source = 98\<rparr> (sy_shared demo_shared) \<noteq> Some Panic"
  using shared_never_panics [OF slots_ops_ok demo_shared_reachable quiet_deferred,
      of "\<lparr>mp_rc = 0\<rparr>" "\<lparr>ss_token = 1, ss_ctrl = 0, ss_source = 98\<rparr>"]
  by (simp add: demo_shared_def)

section \<open>Pollers do not interfere\<close>

definition touches ::
  "nat \<Rightarrow> ('sl, 'k, 's, 'w) shared_system \<Rightarrow> ('sl, 'k, 's, 'w) shared_system \<Rightarrow> bool" where
  "touches a s t \<longleftrightarrow> (\<forall>b. b \<noteq> a \<longrightarrow> sh_cells (sy_shared t) b = sh_cells (sy_shared s) b \<and>
     sources_of b (sy_sources t) = sources_of b (sy_sources s))"

lemma rc_frame:
  "sh_cells (set_cell a c w h) = (sh_cells h)(a := map_option (\<lambda>cl. cl\<lparr>rc_value := c\<rparr>) (sh_cells h a))"
  "sh_cells (rc_clone a h) = (sh_cells h)(a := map_option (\<lambda>cl. cl\<lparr>rc_strong := Suc (rc_strong cl)\<rparr>) (sh_cells h a))"
  "rc_new c h = (x, h') \<Longrightarrow> x \<noteq> b \<Longrightarrow> sh_cells h' b = sh_cells h b"
  by (auto simp: set_cell_def rc_clone_def rc_new_def)

lemma rc_drop_frame:
  assumes "deferred F" "sh_cells h a = Some cl" "rc_drop F a h = Some (Ret h')" "b \<noteq> a"
  shows "sh_cells h' b = sh_cells h b"
  using assms(1-3) by (rule rc_drop_cases) (use assms(4) in auto)

lemma shared_step_touches:
  assumes "shared_step S D P K F s t" "deferred F" "shared_inv S D P K s"
  shows "\<exists>a. touches a s t"
  using assms
proof (induction rule: shared_step.induct)
  case (sh_new evs pri st s p q st' h)
  from sh_new(1) show ?case
  proof (cases rule: shared_new_cases)
    case (created c w' a h2)
    then show ?thesis by (intro exI [of _ a]) (auto simp: touches_def rc_frame)
  qed simp
next
  case (sh_new_err evs pri st s e st' h)
  from sh_new_err(1) show ?case
    by (cases rule: shared_new_cases) (auto simp: touches_def)
next
  case (sh_clone p s q h)
  then show ?case by (intro exI [of _ "mp_rc p"]) (auto simp: touches_def rc_frame mio_poll_clone_def)
next
  case (sh_poll_drop s ps p qs h)
  then have "p \<in> set (sy_polls s)" by simp
  from sh_poll_drop(4) held_by_poll [OF this] obtain cl where "sh_cells (sy_shared s) (mp_rc p) = Some cl"
    by (rule held_cell)
  from rc_drop_frame [OF sh_poll_drop(3) this] sh_poll_drop(2) show ?case
    by (intro exI [of _ "mp_rc p"]) (simp add: touches_def shared_poll_drop_def)
next
  case (sh_add p s src ready pri fwd ms h)
  obtain cl where cl: "sh_cells (sy_shared s) (mp_rc p) = Some cl" "\<not> rc_borrowed cl"
    by (rule held_cell [OF sh_add(4) held_by_poll [OF sh_add(1)]])
  from cl sh_add(2) show ?case
    by (cases rule: shared_add_cases) (auto simp: touches_def rc_frame intro!: exI [of _ "mp_rc p"])
next
  case (sh_add_err p s src ready pri fwd e h)
  obtain cl where cl: "sh_cells (sy_shared s) (mp_rc p) = Some cl" "\<not> rc_borrowed cl"
    by (rule held_cell [OF sh_add_err(4) held_by_poll [OF sh_add_err(1)]])
  from cl sh_add_err(2) show ?case
    by (cases rule: shared_add_cases) (auto simp: touches_def rc_frame intro!: exI [of _ "mp_rc p"])
next
  case (sh_source_drop s xs ms ys h)
  then have "ms \<in> set (sy_sources s)" by simp
  from sh_source_drop(4) held_by_source [OF this] obtain cl where
    cl: "sh_cells (sy_shared s) (ss_ctrl ms) = Some cl" "\<not> rc_borrowed cl" by (rule held_cell)
  from cl sh_source_drop(3,2) obtain c' w'' where
    drop: "rc_drop F (ss_ctrl ms) (set_cell (ss_ctrl ms) c' w'' (sy_shared s)) = Some (Ret h)"
    by (rule shared_source_drop_cases)
  have "sh_cells h b = sh_cells (sy_shared s) b" if "b \<noteq> ss_ctrl ms" for b
    using rc_drop_frame [OF sh_source_drop(3) _ drop that] cl(1) that by (simp add: rc_frame)
  with sh_source_drop(1) show ?case by (intro exI [of _ "ss_ctrl ms"]) (simp add: touches_def)
next
  case (sh_source_set s xs ms ys g)
  then show ?case by (intro exI [of _ "ss_ctrl ms"]) (simp add: touches_def mio_source_deref_mut_def)
next
  case (sh_poll p s d r h)
  obtain cl where cl: "sh_cells (sy_shared s) (mp_rc p) = Some cl" "\<not> rc_borrowed cl"
    by (rule held_cell [OF sh_poll(4) held_by_poll [OF sh_poll(1)]])
  from cl sh_poll(3,2) show ?case
    by (rule shared_poll_cases) (auto simp: touches_def rc_frame intro!: exI [of _ "mp_rc p"])
next
  case (sh_wake_fwd p s fwd h)
  obtain cl where cl: "sh_cells (sy_shared s) (mp_rc p) = Some cl" "\<not> rc_borrowed cl"
    by (rule held_cell [OF sh_wake_fwd(4) held_by_poll [OF sh_wake_fwd(1)]])
  from cl sh_wake_fwd(3,2) show ?case
    by (rule shared_set_wake_fwd_cases) (auto simp: touches_def rc_frame intro!: exI [of _ "mp_rc p"])
next
  case (sh_waker p s wk h)
  obtain cl where "sh_cells (sy_shared s) (mp_rc p) = Some cl" "\<not> rc_borrowed cl"
    by (rule held_cell [OF sh_waker(4) held_by_poll [OF sh_waker(1)]])
  then have "h = sy_shared s" using sh_waker(2) by (simp add: shared_waker_eq)
  then show ?case by (simp add: touches_def)
next
  case (sh_world_step s w)
  then show ?case by (simp add: touches_def)
qed

text \<open>Pollers do not interfere: a step touches one cell at most; every other poller keeps its
  control block, its handles' count and its sources.\<close>

theorem pollers_independent:
  assumes "shared_reachable S D P K F s" "deferred F" "shared_step S D P K F s t"
  shows "\<exists>a. \<forall>b. b \<noteq> a \<longrightarrow> sh_cells (sy_shared t) b = sh_cells (sy_shared s) b
    \<and> sources_of b (sy_sources t) = sources_of b (sy_sources s)"
  using shared_step_touches [OF assms(3,2) shared_reachable_inv [OF assms(1,2)]]
  by (simp add: touches_def)

theorem pollers_independent_witness:
  "\<exists>a. \<forall>b. b \<noteq> a \<longrightarrow> sh_cells (rc_clone 0 (sy_shared demo_shared)) b = sh_cells (sy_shared demo_shared) b"
proof -
  let ?t = "demo_shared\<lparr>sy_polls := \<lparr>mp_rc = 0\<rparr> # sy_polls demo_shared, sy_shared := rc_clone 0 (sy_shared demo_shared)\<rparr>"
  have "\<lparr>mp_rc = 0\<rparr> \<in> set (sy_polls demo_shared)" by (simp add: demo_shared_def)
  from sh_clone [OF this, of "\<lparr>mp_rc = 0\<rparr>" "rc_clone 0 (sy_shared demo_shared)"]
  have "shared_step slots_ops script_source_ops script_poll_ops script_stakker_ops quiet_fwd_ops demo_shared ?t"
    by (simp add: mio_poll_clone_def)
  from pollers_independent [OF demo_shared_reachable quiet_deferred this] show ?thesis by auto
qed

section \<open>What code can do while a cell is borrowed\<close>

text \<open>
  The steps that \<open>Rc\<close> and \<open>RefCell\<close> allow to any code while somebody else has borrowed the cell \<open>a\<close> through
  a handle that stays alive: that borrow does not end, and the last handle of \<open>a\<close> is not dropped.
\<close>

inductive store_step :: "nat \<Rightarrow> ('sl, 'k, 'w) shared \<Rightarrow> ('sl, 'k, 'w) shared \<Rightarrow> bool" for a where
  st_new: "sh_cells h (sh_next h) = None \<Longrightarrow> rc_new c h = (b, h') \<Longrightarrow> store_step a h h'"
| st_clone: "store_step a h (rc_clone b h)"
| st_drop: "sh_cells h b = Some cl \<Longrightarrow> 1 < rc_strong cl \<Longrightarrow>
     store_step a h (h\<lparr>sh_cells := (sh_cells h)(b \<mapsto> cl\<lparr>rc_strong := rc_strong cl - 1\<rparr>)\<rparr>)"
| st_free: "b \<noteq> a \<Longrightarrow> store_step a h (h\<lparr>sh_cells := (sh_cells h)(b := None)\<rparr>)"
| st_borrow: "borrow_mut b h = Ret (c, h') \<Longrightarrow> store_step a h h'"
| st_end: "b \<noteq> a \<Longrightarrow> store_step a h (end_borrow b c h)"
| st_world: "store_step a h (h\<lparr>sh_world := w\<rparr>)"

abbreviation store_steps :: "nat \<Rightarrow> ('sl, 'k, 'w) shared \<Rightarrow> ('sl, 'k, 'w) shared \<Rightarrow> bool" where
  "store_steps a \<equiv> (store_step a)\<^sup>*\<^sup>*"

definition is_borrowed :: "nat \<Rightarrow> ('sl, 'k, 'w) shared \<Rightarrow> bool" where
  "is_borrowed a h \<longleftrightarrow> (\<exists>cl. sh_cells h a = Some cl \<and> rc_borrowed cl)"

lemma store_step_borrowed: "store_step a h h' \<Longrightarrow> is_borrowed a h \<Longrightarrow> is_borrowed a h'"
  by (induction rule: store_step.induct)
     (auto simp: is_borrowed_def rc_new_def rc_clone_def end_borrow_def borrow_mut_eq_Ret split: if_splits)

lemma store_steps_borrowed: "store_steps a h h' \<Longrightarrow> is_borrowed a h \<Longrightarrow> is_borrowed a h'"
  by (induction rule: rtranclp_induct) (auto intro: store_step_borrowed)

text \<open>
  The operations of the crate, on any handle, are made of these steps, when the forwards that they call
  and drop are. A poller whose own cell is the one borrowed does not return from any of them.
\<close>

definition uses_store :: "nat \<Rightarrow> ('f, 'sl, 'k, 'w) fwd_ops \<Rightarrow> bool" where
  "uses_store a F \<longleftrightarrow> (\<forall>h h'. is_borrowed a h \<longrightarrow>
     (\<forall>f r. fw_call F f r h = Some (Ret h') \<longrightarrow> store_steps a h h') \<and>
     (\<forall>f. fw_drop F f h = Some (Ret h') \<longrightarrow> store_steps a h h') \<and>
     (\<forall>tm. fw_drop_table F tm h = Some (Ret h') \<longrightarrow> store_steps a h h'))"

lemma uses_storeD:
  assumes "uses_store a F" "is_borrowed a h"
  shows "fw_call F f r h = Some (Ret h') \<Longrightarrow> store_steps a h h'"
    "fw_drop F f h = Some (Ret h') \<Longrightarrow> store_steps a h h'"
    "fw_drop_table F tm h = Some (Ret h') \<Longrightarrow> store_steps a h h'"
  using assms unfolding uses_store_def by blast+

lemma call_forwards_steps:
  assumes "uses_store a F" "is_borrowed a h" "call_forwards F calls h = Some (Ret h')"
  shows "store_steps a h h'"
  using assms(2,3)
proof (induction calls arbitrary: h)
  case (Cons x calls)
  obtain f r where x: "x = (f, r)" by (rule prod.exhaust)
  with Cons.prems(2) obtain h1 where h1: "fw_call F f r h = Some (Ret h1)" "call_forwards F calls h1 = Some (Ret h')"
    by (auto simp: ebind_eq_Ret)
  from uses_storeD(1) [OF assms(1) Cons.prems(1) h1(1)] have steps: "store_steps a h h1" .
  from Cons.IH [OF store_steps_borrowed [OF steps Cons.prems(1)] h1(2)] steps show ?case by simp
qed simp

lemma entry_fwd_drop_steps:
  assumes "uses_store a F" "is_borrowed a h" "entry_fwd_drop S F tm k h = Some (Ret h')"
  shows "store_steps a h h'"
  using assms uses_storeD(2) [OF assms(1,2)]
  by (auto simp: entry_fwd_drop_def split: option.splits)

text \<open>The frame of every operation: a borrow of another cell, something in between, and its end.\<close>

lemma borrow_steps:
  assumes "is_borrowed a h" "borrow_mut b h = Ret (c, h1)" "store_steps a (h1\<lparr>sh_world := w\<rparr>) h2"
  shows "b \<noteq> a" "store_steps a h (end_borrow b c' h2)"
proof -
  show b: "b \<noteq> a" using assms(1,2) by (auto simp: is_borrowed_def borrow_mut_eq_Ret)
  have "store_steps a h (h1\<lparr>sh_world := w\<rparr>)"
    using st_borrow [OF assms(2), of a] st_world [of a h1 w] by simp
  also note assms(3)
  also have "store_step a h2 (end_borrow b c' h2)" by (rule st_end [OF b])
  finally show "store_steps a h (end_borrow b c' h2)" .
qed

lemma shared_add_steps:
  assumes "is_borrowed a h" "shared_add S D q src ready pri fwd h = Some (Ret (r, h'))"
  shows "store_steps a h h'"
proof -
  have "\<exists>c h1 c' w'. borrow_mut (mp_rc q) h = Ret (c, h1) \<and>
    (h' = end_borrow (mp_rc q) c' (h1\<lparr>sh_world := w'\<rparr>) \<or>
     h' = rc_clone (mp_rc q) (end_borrow (mp_rc q) c' (h1\<lparr>sh_world := w'\<rparr>)))"
    using assms(2) by (auto simp: shared_add_def Let_def split: outcome.splits option.splits sum.splits) blast+
  then obtain c h1 c' w' where b: "borrow_mut (mp_rc q) h = Ret (c, h1)"
    "h' = end_borrow (mp_rc q) c' (h1\<lparr>sh_world := w'\<rparr>) \<or>
     h' = rc_clone (mp_rc q) (end_borrow (mp_rc q) c' (h1\<lparr>sh_world := w'\<rparr>))" by blast
  have "store_steps a h (end_borrow (mp_rc q) c' (h1\<lparr>sh_world := w'\<rparr>))"
    by (rule borrow_steps(2) [OF assms(1) b(1) rtranclp.rtrancl_refl])
  with b(2) show ?thesis by (auto intro: rtranclp.rtrancl_into_rtrancl st_clone)
qed

lemma shared_poll_steps:
  assumes "uses_store a F" "is_borrowed a h" "shared_poll S P F d q h = Some (Ret (r, h'))"
  shows "store_steps a h h'"
proof -
  from assms(3) obtain c h1 r c' calls w' h2 where b: "borrow_mut (mp_rc q) h = Ret (c, h1)"
    "call_forwards F calls (h1\<lparr>sh_world := w'\<rparr>) = Some (Ret h2)" "h' = end_borrow (mp_rc q) c' h2"
    by (auto simp: shared_poll_def ebind_eq_Ret split: outcome.splits)
  have "store_steps a h (h1\<lparr>sh_world := w'\<rparr>)"
    using st_borrow [OF b(1), of a] st_world [of a h1 w'] by simp
  from call_forwards_steps [OF assms(1) store_steps_borrowed [OF this assms(2)] b(2)]
  show ?thesis unfolding b(3) by (rule borrow_steps(2) [OF assms(2) b(1)])
qed

lemma shared_set_wake_fwd_steps:
  assumes "uses_store a F" "is_borrowed a h" "shared_set_wake_fwd S F fwd q h = Some (Ret h')"
  shows "store_steps a h h'"
proof -
  from assms(3) obtain c h1 c' h2 where b: "borrow_mut (mp_rc q) h = Ret (c, h1)"
    "entry_fwd_drop S F (token_map c) WAKER_TOKEN h1 = Some (Ret h2)" "h' = end_borrow (mp_rc q) c' h2"
    by (auto simp: shared_set_wake_fwd_def ebind_eq_Ret split: outcome.splits)
  have "store_steps a h h1" using st_borrow [OF b(1), of a] by simp
  from entry_fwd_drop_steps [OF assms(1) store_steps_borrowed [OF this assms(2)] b(2)]
  have "store_steps a (h1\<lparr>sh_world := sh_world h1\<rparr>) h2" by simp
  from borrow_steps(2) [OF assms(2) b(1) this] b(3) show ?thesis by simp
qed

lemma shared_waker_steps:
  assumes "is_borrowed a h" "shared_waker q h = Ret (k, h')"
  shows "store_steps a h h'"
proof -
  from assms(2) obtain c h1 where b: "borrow_mut (mp_rc q) h = Ret (c, h1)" "h' = end_borrow (mp_rc q) c h1"
    by (auto simp: shared_waker_def obind_eq_Ret)
  have "store_steps a (h1\<lparr>sh_world := sh_world h1\<rparr>) h1" by simp
  from borrow_steps(2) [OF assms(1) b(1) this] b(2) show ?thesis by simp
qed

lemma rc_drop_steps:
  assumes "uses_store a F" "is_borrowed a h" "rc_drop F b h = Some (Ret h')"
    and alive: "b = a \<longrightarrow> (\<exists>cl. sh_cells h a = Some cl \<and> 1 < rc_strong cl)"
  shows "store_steps a h h'"
proof -
  from assms(3) obtain cl where cl: "sh_cells h b = Some cl" by (auto simp: rc_drop_def split: option.splits)
  show ?thesis
  proof (cases "1 < rc_strong cl")
    case True
    with st_drop [of h b cl a] cl assms(3) show ?thesis by (simp add: rc_drop_def)
  next
    case False
    let ?h1 = "h\<lparr>sh_cells := (sh_cells h)(b := None)\<rparr>"
    have "b \<noteq> a" using alive cl False by auto
    note free = st_free [OF this, of h]
    have drop: "fw_drop_table F (token_map (rc_value cl)) ?h1 = Some (Ret h')"
      using assms(3) cl False by (simp add: rc_drop_def)
    from uses_storeD(3) [OF assms(1) store_step_borrowed [OF free assms(2)] drop] free show ?thesis
      by (rule converse_rtranclp_into_rtranclp [rotated])
  qed
qed

lemma shared_source_drop_steps:
  assumes "uses_store a F" "is_borrowed a h" "shared_source_drop S D F ms h = Some (Ret h')"
  shows "store_steps a h h'"
proof -
  from assms(3) obtain c h1 c' w' h3 where b: "borrow_mut (ss_ctrl ms) h = Ret (c, h1)"
    "entry_fwd_drop S F (token_map c) (ss_token ms) (h1\<lparr>sh_world := w'\<rparr>) = Some (Ret h3)"
    "rc_drop F (ss_ctrl ms) (end_borrow (ss_ctrl ms) c' h3) = Some (Ret h')"
    by (auto simp: shared_source_drop_def ebind_eq_Ret Let_def split: outcome.splits option.splits)
  have "store_steps a h (h1\<lparr>sh_world := w'\<rparr>)"
    using st_borrow [OF b(1), of a] st_world [of a h1 w'] by simp
  from entry_fwd_drop_steps [OF assms(1) store_steps_borrowed [OF this assms(2)] b(2)]
  have steps: "ss_ctrl ms \<noteq> a" "store_steps a h (end_borrow (ss_ctrl ms) c' h3)"
    using borrow_steps [OF assms(2) b(1)] by blast+
  from rc_drop_steps [OF assms(1) store_steps_borrowed [OF steps(2) assms(2)] b(3)] steps
  show ?thesis by simp
qed

section \<open>Forwards that come back\<close>

text \<open>Code that, before anything else, uses a handle of the cell \<open>a\<close>.\<close>

inductive reentrant ::
  "('sl, 'f entry) slab_ops \<Rightarrow> ('s, 'w) source_ops \<Rightarrow> ('k, 'w) poll_ops \<Rightarrow> nat \<Rightarrow> (('sl, 'k, 'w) shared \<Rightarrow> ('sl, 'k, 'w) shared exec) \<Rightarrow> bool"
  for S D P a where
  re_add: "mp_rc q = a \<Longrightarrow> reentrant S D P a (\<lambda>h. ebind (shared_add S D q src ready pri fwd h) k)"
| re_poll: "mp_rc q = a \<Longrightarrow> reentrant S D P a (\<lambda>h. ebind (shared_poll S P F d q h) k2)"
| re_wake_fwd: "mp_rc q = a \<Longrightarrow> reentrant S D P a (\<lambda>h. ebind (shared_set_wake_fwd S F fwd q h) k3)"
| re_waker: "mp_rc q = a \<Longrightarrow> reentrant S D P a (\<lambda>h. ebind (Some (shared_waker q h)) k4)"
| re_source_drop: "ss_ctrl ms = a \<Longrightarrow> reentrant S D P a (\<lambda>h. ebind (shared_source_drop S D F ms h) k3)"

lemma borrowed_panics:
  assumes "reentrant S D P a g" "sh_cells h a = Some cl" "rc_borrowed cl"
  shows "g h = Some Panic"
  using assms(1)
  by cases (use assms(2,3) in \<open>simp_all add: shared_add_def shared_poll_def shared_set_wake_fwd_def
      shared_waker_def shared_source_drop_def borrow_mut_def\<close>)

text \<open>C35. A poll that comes to call a forward which itself uses the poller panics, whatever is called
  before or after it: the forward runs inside the borrow, and what is called before it, any code
  that returns or panics and uses the cells only through \<open>Rc\<close> and \<open>RefCell\<close>, other pollers included,
  cannot end that borrow. Adding a source, polling, setting the wake handler, asking for the waker and
  dropping a source are all such uses.\<close>

theorem reentrant_forward_panics:
  assumes "sh_cells h (mp_rc p) = Some cl" "\<not> rc_borrowed cl"
    and "mio_poll_poll S P d (rc_value cl, sh_world h) = Some (Ret (r, c', before @ (f, ready) # after, w'))"
    and "h1 = h\<lparr>sh_cells := (sh_cells h)(mp_rc p \<mapsto> cl\<lparr>rc_borrowed := True\<rparr>), sh_world := w'\<rparr>"
    and "call_forwards F before h1 \<noteq> None"
    and "\<forall>h2. call_forwards F before h1 = Some (Ret h2) \<longrightarrow> (store_step (mp_rc p))\<^sup>*\<^sup>* h1 h2"
    and "reentrant S D P (mp_rc p) (fw_call F f ready)"
  shows "shared_poll S P F d p h = Some Panic"
proof -
  have start: "is_borrowed (mp_rc p) h1" by (simp add: assms(4) is_borrowed_def)
  have "call_forwards F (before @ (f, ready) # after) h1 = Some Panic"
  proof (cases "call_forwards F before h1 = Some Panic")
    case False
    with assms(5) obtain h2 where h2: "call_forwards F before h1 = Some (Ret h2)"
      by (cases "call_forwards F before h1") (auto split: outcome.splits elim: outcome.exhaust)
    with assms(6) start obtain cl2 where "sh_cells h2 (mp_rc p) = Some cl2" "rc_borrowed cl2"
      using store_steps_borrowed unfolding is_borrowed_def by blast
    with h2 borrowed_panics [OF assms(7)] show ?thesis by (simp add: call_forwards_append)
  qed (simp add: call_forwards_append)
  with assms(1-4) show ?thesis by (simp add: shared_poll_def borrow_mut_def mio_poll_poll_def)
qed

text \<open>C36. Dropping a source drops the forward registered with it, inside the borrow; so a forward that
  owns another source of the same poller, or whose drop uses the poller, makes the drop panic.\<close>

theorem reentrant_drop_panics:
  assumes "sh_cells h (ss_ctrl ms) = Some cl" "\<not> rc_borrowed cl"
    and "control_del S D (ss_token ms) (ss_source ms) (rc_value cl, sh_world h) = Some (r, c', w')"
    and "slab_get S (token_map (rc_value cl)) (ss_token ms) = Some en"
    and "reentrant S D P (ss_ctrl ms) (fw_drop F (e_fwd en))"
  shows "shared_source_drop S D F ms h = Some Panic"
proof -
  let ?h = "h\<lparr>sh_cells := (sh_cells h)(ss_ctrl ms \<mapsto> cl\<lparr>rc_borrowed := True\<rparr>), sh_world := w'\<rparr>"
  have "fw_drop F (e_fwd en) ?h = Some Panic" by (rule borrowed_panics [OF assms(5), of _ "cl\<lparr>rc_borrowed := True\<rparr>"]) simp_all
  with assms(1-4) show ?thesis
    by (simp add: shared_source_drop_def borrow_mut_def entry_fwd_drop_def Let_def)
qed

text \<open>Forwards that drop another source when dropped.\<close>

definition loop_fwd_ops :: "(string, string entry option list, nat, script) fwd_ops" where
  "loop_fwd_ops = \<lparr>
     fw_call = (\<lambda>f r h. Some (Ret h)),
     fw_drop = (\<lambda>f h. ebind (shared_source_drop slots_ops script_source_ops quiet_fwd_ops
       \<lparr>ss_token = 2, ss_ctrl = 0, ss_source = 97\<rparr> h) (\<lambda>h'. Some (Ret h'))),
     fw_drop_table = (\<lambda>tm h. Some (Ret h))\<rparr>"

lemma demo_cell: "sh_cells (sy_shared demo_shared) 0 =
    Some \<lparr>rc_strong = 3, rc_borrowed = False, rc_value = demo_added_control\<rparr>"
  by (simp add: demo_shared_def)

text \<open>
  Two pollers: a poll of the first calls, at one priority, a forward that adds a source to the second
  and then one that asks the first for its waker.
\<close>

definition two_control :: "(string entry option list, nat) control" where
  "two_control = demo_cell_control\<lparr>priorities := 40,
     token_map := [Some \<lparr>e_pri = 5, e_fwd = ''wake''\<rparr>, Some \<lparr>e_pri = 3, e_fwd = ''other''\<rparr>,
       Some \<lparr>e_pri = 3, e_fwd = ''own''\<rparr>]\<rparr>"

definition two_pollers :: "(string entry option list, nat, script) shared" where
  "two_pollers = \<lparr>sh_next = 2, sh_cells = [
       0 \<mapsto> \<lparr>rc_strong = 3, rc_borrowed = False, rc_value = two_control\<rparr>,
       1 \<mapsto> \<lparr>rc_strong = 1, rc_borrowed = False, rc_value = demo_cell_control\<rparr>],
     sh_world = [(Inr (), [demo_event 1, demo_event 2])]\<rparr>"

definition two_fwd_ops :: "(string, string entry option list, nat, script) fwd_ops" where
  "two_fwd_ops = \<lparr>
     fw_call = (\<lambda>f. if f = ''own''
       then (\<lambda>r h. ebind (Some (shared_waker \<lparr>mp_rc = 0\<rparr> h)) (\<lambda>(wk, h'). Some (Ret h')))
       else (\<lambda>r h. ebind (shared_add slots_ops script_source_ops \<lparr>mp_rc = 1\<rparr> 96 1 3 ''new'' h)
         (\<lambda>(ms, h'). Some (Ret h')))),
     fw_drop = (\<lambda>f h. Some (Ret h)), fw_drop_table = (\<lambda>tm h. Some (Ret h))\<rparr>"

lemma two_fwd_call:
  "fw_call two_fwd_ops ''other'' r h = ebind (shared_add slots_ops script_source_ops \<lparr>mp_rc = 1\<rparr> 96 1 3 ''new'' h)
     (\<lambda>(ms, h'). Some (Ret h'))"
  by (simp add: two_fwd_ops_def)

theorem reentrant_forward_panics_witness:
  "shared_poll slots_ops script_poll_ops two_fwd_ops 5 \<lparr>mp_rc = 0\<rparr> two_pollers = Some Panic"
proof -
  let ?cl = "\<lparr>rc_strong = 3, rc_borrowed = False, rc_value = two_control\<rparr>"
  have cell: "sh_cells two_pollers (mp_rc \<lparr>mp_rc = 0\<rparr>) = Some ?cl" "\<not> rc_borrowed ?cl"
    "sh_cells two_pollers 1 = Some \<lparr>rc_strong = 1, rc_borrowed = False, rc_value = demo_cell_control\<rparr>"
    by (simp_all add: two_pollers_def)
  have "case mio_poll_poll slots_ops script_poll_ops 5 (two_control, [(Inr (), [demo_event 1, demo_event 2])]) of
      Some (Ret (r, c', calls, w')) \<Rightarrow> calls = [(''other'', rd_ready), (''own'', rd_ready)] \<and> w' = [] | _ \<Rightarrow> False"
    by code_simp
  then obtain r c' where poll: "mio_poll_poll slots_ops script_poll_ops 5 (rc_value ?cl, sh_world two_pollers) =
      Some (Ret (r, c', [(''other'', rd_ready)] @ (''own'', rd_ready) # [], []))"
    by (auto simp: two_pollers_def split: option.splits outcome.splits)
  let ?h1 = "two_pollers\<lparr>sh_cells := (sh_cells two_pollers)(mp_rc \<lparr>mp_rc = 0\<rparr> \<mapsto> ?cl\<lparr>rc_borrowed := True\<rparr>), sh_world := []\<rparr>"
  have add: "shared_add slots_ops script_source_ops \<lparr>mp_rc = 1\<rparr> 96 1 3 ''new'' ?h1 \<noteq> None"
  proof -
    have "mio_poll_add slots_ops script_source_ops 96 1 3 ''new'' (demo_cell_control, []) \<noteq> None" by code_simp
    with cell(3) show ?thesis
      by (subst shared_add_eq [where cl = "\<lparr>rc_strong = 1, rc_borrowed = False, rc_value = demo_cell_control\<rparr>"])
        simp_all
  qed
  then have ret: "call_forwards two_fwd_ops [(''other'', rd_ready)] ?h1 \<noteq> None"
    by (auto simp: two_fwd_call ebind_def split: option.splits outcome.splits)
  have "is_borrowed 0 ?h1" by (simp add: is_borrowed_def)
  then have steps: "\<forall>h2. call_forwards two_fwd_ops [(''other'', rd_ready)] ?h1 = Some (Ret h2) \<longrightarrow>
      (store_step (mp_rc \<lparr>mp_rc = 0\<rparr>))\<^sup>*\<^sup>* ?h1 h2"
    by (auto simp: two_fwd_call ebind_eq_Ret dest: shared_add_steps)
  have "reentrant slots_ops script_source_ops script_poll_ops (mp_rc \<lparr>mp_rc = 0\<rparr>) (fw_call two_fwd_ops ''own'' rd_ready)"
    unfolding two_fwd_ops_def fwd_ops.simps if_P [OF refl] by (rule re_waker) simp
  from reentrant_forward_panics [OF cell(1,2) poll refl ret steps this] show ?thesis .
qed

theorem reentrant_drop_panics_witness:
  "shared_source_drop slots_ops script_source_ops loop_fwd_ops \<lparr>ss_token = 1, ss_ctrl = 0, ss_source = 98\<rparr>
     (sy_shared demo_shared) = Some Panic"
proof -
  have "control_del slots_ops script_source_ops 1 98 (demo_added_control, []) \<noteq> None" by code_simp
  then obtain r c' w' where
    "control_del slots_ops script_source_ops 1 98 (demo_added_control, []) = Some (r, c', w')"
    by (metis option.exhaust prod.exhaust)
  moreover have "slab_get slots_ops (token_map demo_added_control) 1 = Some \<lparr>e_pri = 3, e_fwd = ''h''\<rparr>"
    by code_simp
  moreover have "reentrant slots_ops script_source_ops script_poll_ops 0 (fw_drop loop_fwd_ops ''h'')"
    unfolding loop_fwd_ops_def fwd_ops.simps by (rule re_source_drop) simp
  moreover have "sh_world (sy_shared demo_shared) = []" by (simp add: demo_shared_def)
  ultimately show ?thesis
    using reentrant_drop_panics [of "sy_shared demo_shared" "\<lparr>ss_token = 1, ss_ctrl = 0, ss_source = 98\<rparr>"
        "\<lparr>rc_strong = 3, rc_borrowed = False, rc_value = demo_added_control\<rparr>" slots_ops script_source_ops
        r c' w' "\<lparr>e_pri = 3, e_fwd = ''h''\<rparr>" script_poll_ops]
    by (simp add: demo_cell)
qed

end
