(* ===== verification/Spec2Isabelle.thy ===== *)
theory Spec2Isabelle
  imports Mio_Properties Fd_Source Tcp_Link Udp_Properties Tls_Properties
    Tcp_Types Echo_Properties Echo_Listener Main_Properties Echo_System_Properties Test_Properties
    Shared_Properties
begin

text \<open>
  \<^bold>\<open>stakker_mio: a verification development.\<close>

  The crate binds the mio poller to the Stakker actor runtime (src/miopoll.rs) and adds buffers
  for the sockets it polls: src/tcpstrbuf.rs for TCP, src/udpqueue.rs and src/udpserverqueue.rs
  for UDP, src/tls_rustls.rs for TLS on top of the TCP buffer, and src/fdsource.rs for raw UNIX
  descriptors. Every operation of these files is modelled here from its source, and so is the
  application examples/echo_server.rs, which puts the poller, the TCP buffer and the event loop
  together; and so are the tests under src/test, which do the same for the UDP queues.

  \<^bold>\<open>How the parts work together.\<close> One \<open>Control\<close> is shared, behind \<open>Rc<RefCell<_>>\<close>, by all clones
  of \<open>MioPoll\<close> and by all \<open>MioSource\<close> values. \<open>MioPoll::add\<close> enters a handler and a priority into
  its token table and gives a \<open>MioSource\<close>, whose drop takes the entry out again. \<open>MioPoll::poll\<close>
  collects the events of mio, calls the handlers of the highest priority that has live events and
  queues the rest. The buffers keep their stream or socket as a \<open>MioSource\<close>, so replacing or
  clearing it changes the shared \<open>Control\<close>; otherwise they talk to the operating system only.
  The TLS engine works on two TCP buffers: the one on the network and one with plain text. In the
  echo server \<open>main\<close> runs Stakker and \<open>MioPoll::poll\<close> in turn; the actor \<open>Listener\<close> accepts
  connections, and an actor \<open>Echoer\<close> for each of them reads into its \<open>TcpStreamBuf\<close>, delays the data
  by a second, and flushes it back.

  \<^bold>\<open>Conventions.\<close> State is passed explicitly: an operation takes the values it may change and
  the world \<open>'w\<close> (operating system, network, signals) and gives their successors. Code that is
  not part of the repository is a parameter: the slab (\<open>slab_ops\<close>), mio's event sources, poller
  and waker (\<open>source_ops\<close>, \<open>poll_ops\<close>), its streams and sockets (\<open>tcp_ops\<close>, \<open>udp_ops\<close>), Stakker
  (\<open>stakker_ops\<close>) and rustls (\<open>tls_ops\<close>); what is assumed of it is a named predicate that states
  its documented behaviour (\<open>slab_ok\<close>, \<open>tcp_write_ok\<close>, \<open>tcp_read_ok\<close>, \<open>send_ok\<close>, \<open>recv_ok\<close>,
  \<open>tls_data_ok\<close>, \<open>tls_wire_ok\<close>, \<open>tls_bytes_ok\<close>, \<open>reader_eof_stays\<close>, \<open>close_notify_wants_write\<close>,
  \<open>tls_output_progress\<close>, \<open>tcp_connection\<close>, \<open>echo_stream\<close>, \<open>server_env_ok\<close>, \<open>udp_pair_ok\<close>,
  \<open>srv_sockets_ok\<close>, \<open>run_ok\<close>, \<open>wait_ok\<close>, \<open>echo_fair\<close>), and each is shown to hold of a concrete instance.
  An \<open>io::Result\<close> is the sum \<open>'a io\<close>. A panic is the outcome \<open>Panic\<close>, and a loop that does not
  return is \<open>None\<close>: the source's retry loops have no bound, so they are partial functions, and
  that they return is proved from a budget of signals, never assumed. \<open>usize\<close> has 64 bits;
  its overflow is a panic or a wrap-around as the build profile decides (\<open>rust_rt\<close>), and so is
  the allocator's choice of a vector's capacity, within the contract \<open>vec_grow_ok\<close>.

  \<^bold>\<open>The theories.\<close>
  \<^item> \<open>Mio_Prelude\<close>: I/O results, panics and divergence, \<open>usize\<close>, slices and vectors, with the
    fact collections the proofs share.
  \<^item> \<open>Retry\<close>: the helper \<open>retry\<close> of src/miopoll.rs, when it returns, and that the other retry
    loops of the program are instances of it (\<open>loop_is_retry\<close>).
  \<^item> \<open>Ready\<close>: \<open>Ready\<close>, its flags and accessors.
  \<^item> \<open>Mio_External\<close>: the interfaces of slab, mio and Stakker, with a concrete slab.
  \<^item> \<open>Poll_Control\<close>: \<open>Control\<close> and its operations; the abstract poller \<open>spec_poll\<close> over one
    backlog per priority; the invariant \<open>control_inv\<close>. \<open>Poll_Refinement\<close>: the poll implements the
    abstract poller. \<open>Control_Ops\<close>: registration and removal, with the locale \<open>token_table\<close> of
    tables with owned tokens, interpreted by \<open>Control\<close>.
  \<^item> \<open>Mio_Poll\<close>: \<open>MioPoll\<close> and \<open>MioSource\<close>, and the system of one \<open>Control\<close> and its live sources
    as a step relation with the invariant \<open>mio_inv\<close>. \<open>Mio_Properties\<close>: their properties.
  \<^item> \<open>Ref_Count\<close>: what the users of \<open>Rc\<close> rely on, as the locale \<open>counted_store\<close>. \<open>Shared_Cell\<close>: the same
    operations at the level of the source: \<open>MioPoll\<close> and \<open>MioSource\<close> as handles to a store of counted
    cells that interprets the locale, each operation inside its \<open>borrow_mut\<close>, forwards as code (\<open>fwd_ops\<close>)
    that runs where the source calls or drops it; on one cell, with forwards that defer (\<open>deferred\<close>),
    they are the operations of \<open>Mio_Poll\<close>. \<open>Shared_System\<close>: programs with any number of pollers, clones
    and drops, and their invariant \<open>shared_inv\<close>; \<open>Shared_Properties\<close>, with what any code can do to the
    store while a cell is borrowed (\<open>store_step\<close>).
  \<^item> \<open>Fd_Source\<close>: \<open>FdSource\<close>.
  \<^item> \<open>Source_Slot\<close>: the optional \<open>MioSource\<close> that the three buffers hold, as the locale
    \<open>source_slot\<close>, interpreted by each of them.
  \<^item> \<open>Tcp_Stream_Buf\<close>: \<open>TcpStreamBuf\<close>, all its operations and its \<open>Read\<close> and \<open>Write\<close> traits.
    \<open>Tcp_Output\<close> and \<open>Tcp_Input\<close>: flushing and reading; \<open>Tcp_Properties\<close>: their properties;
    \<open>Tcp_Link\<close>: two buffers at the ends of one connection.
  \<^item> \<open>Datagram\<close>: the socket interface and the locale \<open>packet_queue\<close> of a queue flush; \<open>Udp_Queue\<close>
    and \<open>Udp_Server_Queue\<close>: the two queues, which interpret it; \<open>Udp_Properties\<close>.
  \<^item> \<open>Tls_Engine\<close>: \<open>TlsServerEngine\<close>, with what rustls does to the buffers it is handed as trees
    of calls of their traits. \<open>Tls_Eof\<close>: the end of the input; \<open>Tls_Data\<close>: conservation of plain
    text and TLS bytes; \<open>Tls_Progress\<close>: results and termination; \<open>Tls_Properties\<close>.
  \<^item> \<open>Tcp_Types\<close>: all uses of a \<open>TcpStreamBuf\<close> as a relation, and its type safety.
  \<^item> \<open>Echo_Server\<close>: the actors \<open>Echoer\<close> and \<open>Listener\<close> of the example. A handler takes the actor, the
    requests made so far and the world; its requests to Stakker (fail, stop, delayed calls) are
    appended in order. \<open>Echo_Actor\<close>: one postcondition for all handlers of \<open>Echoer\<close>, and their
    termination. \<open>Echo_Connection\<close>: a connection as a step relation of the actor, its delayed
    calls, the time and the network, with its invariant. \<open>Echo_Run\<close>: infinite runs of a connection, in
    which time passes and due calls are run (\<open>echo_fair\<close>). \<open>Echo_Properties\<close>, \<open>Echo_Listener\<close>;
    \<open>Echo_Demo\<close>: a network for their witnesses.
  \<^item> \<open>Echo_System\<close>: the whole echo server as a step relation of the poller, the Listener, any number
    of Echoers, the actors being spawned, the calls and notifications under way, the time and the
    network; and every way in which the program ends (\<open>server_ends\<close>). Its invariant: \<open>Echo_Poller\<close> (every registered token belongs to one actor),
    \<open>Echo_System_Inv\<close> (each child runs as a connection of its own), \<open>Echo_System_Reach\<close> (both hold of
    every reachable state). \<open>Echo_System_Demo\<close>: a server for the witnesses; \<open>Echo_System_Properties\<close>.
  \<^item> \<open>Main_Loop\<close>: the event loop of \<open>main\<close>; \<open>Main_Properties\<close>: its states, with what handlers may do to
    the poller as \<open>handler_step\<close>.
  \<^item> \<open>Test_Data\<close>: \<open>testdata\<close> of src/test/mod.rs and its generator. \<open>Test_Actors\<close>: the run of a test as a step
    relation over the handlers of its two actors, and the network between them, whose packets under
    way are a multiset. \<open>Test_Protocol\<close>: the laws of the handlers as the locale \<open>packet_test\<close>, with
    \<open>reliable_packet_test\<close> for a network without losses; \<open>Test_Udp\<close> and \<open>Test_Udp_Server\<close>: the actors of
    src/test/udp.rs and src/test/udpserver.rs, which interpret both. \<open>Test_Properties\<close>: the event loop
    of the tests, their start, and that they pass.

  \<^bold>\<open>What is shown.\<close> Polling: refinement of the abstract poller, one priority at a time, nothing
  lost or reordered, delivery of everything once mio is quiet, the flags, errors; over all
  reachable states: freedom from panics, ownership of tokens, exact removal on drop; over all
  handles of any number of pollers: refinement of that system, exact lifetimes, no panic with
  deferred forwards, and the panic that a reentrant forward runs into. TCP: bytes
  are neither lost, duplicated nor reordered by flush, read, exchange and the traits, nor end to
  end; termination; EOF handling. UDP: a flush sends a prefix in order, gives up at most one packet
  and returns; reads answer with the first real answer. TLS: conservation of plain text and of TLS
  bytes, the meaning of
  \<open>Ok\<close>, termination for output, pass-through. Type safety of the TCP buffer under every use. The
  echo server: the echo is in order, delayed and complete, and in every fair run it arrives; the handlers
  and the accept loop return; the input buffer stays bounded; the special characters, when a \<open>'%'\<close>
  aborts the whole server and when it need not; the event loop never sleeps on queued events. The server as a whole: it refines its
  connections, mixes up neither their bytes nor their events, keeps its registrations exact,
  survives the end of a connection, and ends for the reasons listed in \<open>server_down_reasons\<close> only, the
  errors that \<open>main\<close> returns and a failed set-up included. The tests: their data is computed without
  overflow, the assertions of their Receivers never fail, and on a reliable network they can be run to
  the end. And some things the code does that it does not
  mean to do: a failed \<open>add\<close> leaks its table entry (\<open>mio_poll_add_failure_leaks\<close>); a UDP send that
  would block loses its packet (\<open>udp_flush_blocked_loses_packet\<close>); \<open>read(0)\<close> sees an end of stream
  (\<open>read_nothing_reports_eof\<close>); the case for oversized packets on Windows is dead
  (\<open>udp_oversized_packet_is_error\<close>); in TLS mode the end of the input is never reported and makes
  \<open>process\<close> loop when it comes with data (\<open>tls_never_reports_eof\<close>,
  \<open>tls_reader_loop_hangs_at_eof\<close>).

  \<^bold>\<open>Not modelled.\<close> src/lib.rs, which holds the crate's documentation, module declarations and
  re-exports only, and the build and release scripts, which no code of the crate reads; formatting of error messages (a \<open>TlsError\<close> is
  the message's kind and payload); running out of memory, which ends the process; unwinding after a
  panic; the messages the example and the tests
  print; the scheduling inside Stakker: calls and delayed calls of the server are taken in
  any order that keeps each actor's own, a handler runs to its end, an actor ends after the
  handler that asked for it, and equal delays run first in, first out.
\<close>

section \<open>Sources held by buffers\<close>

text \<open>C25. The buffers give their sources back: in every reachable state of the poller,
  \<open>TcpStreamBuf\<close>, \<open>UdpQueue\<close> and \<open>UdpServerQueue\<close> drop the live source they hold when \<open>init\<close>
  stores another one or \<open>deinit\<close> clears it. It leaves a reachable state in which exactly that
  source is gone and exactly its token is free, and the buffer holds the new source or none.\<close>

theorem buffers_release_sources:
  assumes "slab_ok S" "mio_reachable S D P K s" "sys_live s = xs @ old # ys"
  shows "(tb_stream b = Some old \<and> tb_init S D ms b (sys_ctl s, sys_world s) = Some (b', c', w') \<longrightarrow>
      tb_stream b' = Some ms \<and> released S D P K s old (xs @ ys) c' w')
    \<and> (tb_stream b = Some old \<and> tb_deinit S D b (sys_ctl s, sys_world s) = Some (b', c', w') \<longrightarrow>
      tb_stream b' = None \<and> released S D P K s old (xs @ ys) c' w')
    \<and> (uq_socket q = Some old \<and> uq_init S D ms q (sys_ctl s, sys_world s) = Some (q', c', w') \<longrightarrow>
      uq_socket q' = Some ms \<and> released S D P K s old (xs @ ys) c' w')
    \<and> (uq_socket q = Some old \<and> uq_deinit S D q (sys_ctl s, sys_world s) = Some (q', c', w') \<longrightarrow>
      uq_socket q' = None \<and> released S D P K s old (xs @ ys) c' w')
    \<and> (us_socket u = Some old \<and> us_init S D ms u (sys_ctl s, sys_world s) = Some (u', c', w') \<longrightarrow>
      us_socket u' = Some ms \<and> released S D P K s old (xs @ ys) c' w')
    \<and> (us_socket u = Some old \<and> us_deinit S D u (sys_ctl s, sys_world s) = Some (u', c', w') \<longrightarrow>
      us_socket u' = None \<and> released S D P K s old (xs @ ys) c' w')"
proof -
  note rel = tcp_slot.attach_releases tcp_slot.detach_releases udp_slot.attach_releases
    udp_slot.detach_releases udp_server_slot.attach_releases udp_server_slot.detach_releases
  note rel = rel [OF _ _ assms(3,1,2)]
  show ?thesis
    by (rule conjI [OF _ conjI [OF _ conjI [OF _ conjI [OF _ conjI]]]]; rule impI, elim conjE,
        rule rel, assumption, assumption)
qed

theorem buffers_release_sources_witness:
  "\<exists>s c' b'. mio_reachable slots_ops script_source_ops script_poll_ops script_stakker_ops s \<and>
     tb_deinit slots_ops script_source_ops (tb_new\<lparr>tb_stream := Some \<lparr>ms_token = 1, ms_source = 98\<rparr>\<rparr>)
       (sys_ctl s, sys_world s) = Some (b', c', []) \<and>
     tb_stream b' = None \<and> slots_get (token_map c') 1 = None"
proof -
  let ?old = "\<lparr>ms_token = 1, ms_source = 98\<rparr> :: nat mio_source"
  let ?b = "tb_new\<lparr>tb_stream := Some ?old\<rparr>"
  obtain s :: "(string entry option list, nat, nat, script) mio_system" where s: "mio_reachable slots_ops script_source_ops script_poll_ops script_stakker_ops s"
    "sys_live s = [] @ ?old # []" "sys_world s = []" by (rule demo_reachable) simp
  have "retry (so_deregister script_source_ops 98) [] = Some (Inl (io_err Other), [])"
    by (simp add: script_source_ops_def retry_unfold)
  then obtain c' where "mio_source_drop slots_ops script_source_ops ?old (sys_ctl s, sys_world s) =
      Some (c', [])"
    using s(3) by (cases "slots_get (token_map (sys_ctl s)) (Suc 0)")
      (auto simp: mio_source_drop_def control_del_def)
  then have run: "tb_deinit slots_ops script_source_ops ?b (sys_ctl s, sys_world s) =
      Some (?b\<lparr>tb_stream := None\<rparr>, c', [])"
    by (simp add: tb_deinit_def)
  have "tb_stream ?b = Some ?old" by simp
  from buffers_release_sources [OF slots_ops_ok s(1,2), THEN conjunct2, THEN conjunct1,
      rule_format, OF conjI [OF this run]] run s(1)
  show ?thesis by (auto simp: released_def)
qed

end
